(* ===== verification/Vrpc_Prelude.thy ===== *)
theory Vrpc_Prelude
  imports Complex_Main "HOL-Library.Word" "HOL-Library.Sublist"
begin

text \<open>
  Shared vocabulary of the development: the machine types of the Go sources, Go's
  \<^verbatim>\<open>float64\<close> comparison, decimal printing as \<^verbatim>\<open>fmt\<close> does it, the collections
  of simplification rules the component theories extend, and the generic facts on
  lists, prefixes and words that several components use.
\<close>

section \<open>Machine types\<close>

type_synonym byte = "8 word"
type_synonym int32 = "32 word"
type_synonym uint32 = "32 word"
type_synonym int64 = "64 word"

text \<open>
  A \<^verbatim>\<open>float64\<close> of the sources is only ever compared (the protocol version), so the
  model keeps its order: not-a-number, the two infinities (\<^term>\<open>F64_Inf True\<close> is
  positive) and the finite values by their exact rational value.
\<close>

datatype float64 = F64_NaN | F64_Inf bool | F64_Fin rat

fun f64_gt :: "float64 \<Rightarrow> float64 \<Rightarrow> bool" where
  "f64_gt F64_NaN _ = False"
| "f64_gt _ F64_NaN = False"
| "f64_gt (F64_Inf a) (F64_Inf b) = (a \<and> \<not> b)"
| "f64_gt (F64_Inf a) (F64_Fin _) = a"
| "f64_gt (F64_Fin _) (F64_Inf b) = (\<not> b)"
| "f64_gt (F64_Fin x) (F64_Fin y) = (y < x)"

lemma f64_gt_irrefl [simp]: "\<not> f64_gt x x"
  by (cases x) simp_all

section \<open>Decimal printing\<close>

fun show_nat :: "nat \<Rightarrow> string" where
  "show_nat n =
     (if n < 10 then [char_of (48 + n)] else show_nat (n div 10) @ [char_of (48 + n mod 10)])"

declare show_nat.simps [simp del]

definition show_int :: "int \<Rightarrow> string" where
  "show_int i = (if i < 0 then ''-'' @ show_nat (nat (- i)) else show_nat (nat i))"

section \<open>Signed integers\<close>

text \<open>Go compares \<^verbatim>\<open>int64\<close> values as signed numbers and divides them towards zero.\<close>

definition go_div :: "int \<Rightarrow> int \<Rightarrow> int" where
  "go_div a b = (if (a < 0) = (b < 0) then \<bar>a\<bar> div \<bar>b\<bar> else - (\<bar>a\<bar> div \<bar>b\<bar>))"

definition div64 :: "int64 \<Rightarrow> int64 \<Rightarrow> int64" where
  "div64 a b = word_of_int (go_div (sint a) (sint b))"

section \<open>Rule collections\<close>

named_theorems mt_defs \<open>the numeric values of the message types\<close>
named_theorems code_defs \<open>the numeric values of the status codes\<close>
named_theorems builder_defs \<open>the message builders, unfolded to their field lists\<close>
named_theorems dispatch_simps \<open>what each message handler does on each branch\<close>

section \<open>Generic facts\<close>

lemma sint_add_no_overflow:
  fixes a b :: int64
  assumes "sint a + sint b < 2 ^ 63" and "- (2 ^ 63) \<le> sint a + sint b"
  shows "sint (a + b) = sint a + sint b"
  using assms by (subst sint_word_ariths) (simp add: signed_take_bit_int_eq_self)

lemma sint_of_int64:
  assumes "- (2 ^ 63) \<le> i" and "i < 2 ^ 63"
  shows "sint (word_of_int i :: int64) = i"
  using assms by (simp add: sint_sbintrunc' signed_take_bit_int_eq_self)

lemma sint_diff_one:
  fixes a :: int64
  assumes "- (2 ^ 63) < sint a"
  shows "sint (a - 1) = sint a - 1"
proof -
  have "sint a < 2 ^ 63" using sint_lt [of a] by simp
  with assms show ?thesis
    by (subst sint_word_ariths) (simp add: signed_take_bit_int_eq_self)
qed

lemma sint_double:
  fixes d :: int64
  assumes "0 \<le> sint d" and "sint d < 2 ^ 62"
  shows "sint (d * 2) = 2 * sint d"
proof -
  have "sint (d + d) = sint d + sint d" using assms by (intro sint_add_no_overflow) auto
  then show ?thesis by (simp add: mult.commute [of d])
qed

lemma sint_div64_2: "0 \<le> sint d \<Longrightarrow> sint (div64 d 2) = sint d div 2"
proof -
  assume d: "0 \<le> sint d"
  have "sint d < 2 ^ 63" using sint_lt [of d] by simp
  then have "sint d div 2 < 2 ^ 63" using d by (simp add: div_less_iff_less_mult order_less_le_trans)
  with d show ?thesis by (simp add: div64_def go_div_def sint_of_int64)
qed

text \<open>One step of an exponential back-off: double the delay, cut it off at a maximum.\<close>

lemma double_capped_bounds:
  fixes d M :: int64
  assumes "0 < sint d" and "sint d \<le> sint M" and "sint M < 2 ^ 62"
  shows "0 < sint (if sint (d * 2) > sint M then M else d * 2)"
    and "sint (if sint (d * 2) > sint M then M else d * 2) \<le> sint M"
  using assms sint_double [of d] by auto

lemma drop_Suc_tl: "drop (Suc n) xs = tl (drop n xs)"
  by (simp add: drop_Suc tl_drop)

end
