(* ===== verification/Value_Api.thy ===== *)
theory Value_Api
  imports Vrpc_Prelude "HOL-Library.AList"
begin

text \<open>
  The interface of the external module \<^verbatim>\<open>go.arpabet.com/value\<close>, whose code is not
  part of the repository. It is a parameter of the model: a record of the operations
  the sources call, over an arbitrary type \<^typ>\<open>'v\<close> of dynamic values, and the locale
  \<open>value_laws\<close> with the documented laws the sources rely on (an absent key reads as
  the \<^verbatim>\<open>Null\<close> sentinel, or as an empty string or zero through the typed accessors, as \<^verbatim>\<open>FINDINGS.md\<close> records; a
  stored field reads back; constructors fix the kind). A Go
  interface value may be \<^verbatim>\<open>nil\<close>, which is \<^term>\<open>None\<close> of \<^typ>\<open>'v option\<close>.
  The theory ends with a reference instance, on which the locale is interpreted.
\<close>

section \<open>Operations\<close>

datatype kind = NULL | BOOL | NUMBER | STRING | LIST | MAP | OTHER

record 'v value_api =
  Kind :: "'v \<Rightarrow> kind"
  Null :: 'v
  Long :: "int64 \<Rightarrow> 'v"
  Double :: "float64 \<Rightarrow> 'v"
  Utf8 :: "string \<Rightarrow> 'v"
  EmptyMap :: 'v
  Put :: "'v \<Rightarrow> string \<Rightarrow> 'v option \<Rightarrow> 'v"
  Get :: "'v \<Rightarrow> string \<Rightarrow> 'v option"
  map_GetString :: "'v \<Rightarrow> string \<Rightarrow> 'v option"
  number_Long :: "'v \<Rightarrow> int64"
  number_Double :: "'v \<Rightarrow> float64"
  string_String :: "'v \<Rightarrow> string"
  list_Len :: "'v \<Rightarrow> nat"
  list_GetAt :: "'v \<Rightarrow> nat \<Rightarrow> 'v option"
  map_Len :: "'v \<Rightarrow> nat"
  map_HashMap :: "'v \<Rightarrow> (string \<times> 'v) list"
  ImmutableMapOf :: "(string \<times> 'v) list \<Rightarrow> 'v"
  map_GetNumber :: "'v \<Rightarrow> string \<Rightarrow> 'v"
  Tuple :: "'v list \<Rightarrow> 'v"
  list_GetStringAt :: "'v \<Rightarrow> nat \<Rightarrow> 'v"

text \<open>A chain \<^verbatim>\<open>m.Put(k1, v1).Put(k2, v2)...\<close> of non-nil values.\<close>

definition Puts :: "'v value_api \<Rightarrow> 'v \<Rightarrow> (string \<times> 'v) list \<Rightarrow> 'v" where
  "Puts V m kvs = fold (\<lambda>(k, v) m. Put V m k (Some v)) kvs m"

section \<open>Laws\<close>

locale value_laws =
  fixes V :: "'v value_api"
  assumes Kind_Null: "Kind V (Null V) = NULL"
    and Kind_Long: "Kind V (Long V n) = NUMBER"
    and Kind_Double: "Kind V (Double V x) = NUMBER"
    and Kind_Utf8: "Kind V (Utf8 V s) = STRING"
    and Kind_EmptyMap: "Kind V (EmptyMap V) = MAP"
    and Kind_Put: "Kind V m = MAP \<Longrightarrow> Kind V (Put V m k ov) = MAP"
    and Long_Long: "number_Long V (Long V n) = n"
    and Double_Double: "number_Double V (Double V x) = x"
    and String_Utf8: "string_String V (Utf8 V s) = s"
    and GetString_Get: "Get V m k = Some v \<Longrightarrow> Kind V v = STRING \<Longrightarrow> map_GetString V m k = Some v"
    and GetNumber_Get: "Get V m k = Some v \<Longrightarrow> Kind V v = NUMBER \<Longrightarrow> map_GetNumber V m k = v"
    and GetString_absent: "Get V m k = Some (Null V) \<Longrightarrow> map_GetString V m k = Some (Utf8 V [])"
    and GetNumber_absent: "Get V m k = Some (Null V) \<Longrightarrow> number_Long V (map_GetNumber V m k) = 0"
    and Kind_Tuple: "Kind V (Tuple V vs) = LIST"
    and GetStringAt_Tuple:
      "i < length vs \<Longrightarrow> Kind V (vs ! i) = STRING \<Longrightarrow> list_GetStringAt V (Tuple V vs) i = vs ! i"
    and Kind_ImmutableMapOf: "Kind V (ImmutableMapOf V kvs) = MAP"
    and HashMap_distinct: "distinct (map fst (map_HashMap V m))"
    and HashMap_ImmutableMapOf:
      "distinct (map fst kvs) \<Longrightarrow> map_of (map_HashMap V (ImmutableMapOf V kvs)) = map_of kvs"
    and Get_EmptyMap: "Get V (EmptyMap V) k = Some (Null V)"
    and Get_Put_same: "Kind V m = MAP \<Longrightarrow> Get V (Put V m k (Some v)) k = Some v"
    and Get_Put_other: "Kind V m = MAP \<Longrightarrow> k \<noteq> k' \<Longrightarrow> Get V (Put V m k ov) k' = Get V m k'"
begin

lemmas value_simps =
  Kind_Null Kind_Long Kind_Double Kind_Utf8 Kind_EmptyMap Kind_Put
  Long_Long Double_Double String_Utf8 Get_EmptyMap Get_Put_same Get_Put_other

lemma Kind_Puts: "Kind V m = MAP \<Longrightarrow> Kind V (Puts V m kvs) = MAP"
  by (induction kvs arbitrary: m) (auto simp: Puts_def Kind_Put)

lemma Get_Puts:
  "Kind V m = MAP \<Longrightarrow>
   Get V (Puts V m kvs) k =
     (case map_of (rev kvs) k of Some v \<Rightarrow> Some v | None \<Rightarrow> Get V m k)"
proof (induction kvs arbitrary: m)
  case Nil
  then show ?case by (simp add: Puts_def)
next
  case (Cons p kvs)
  obtain k1 v1 where p: "p = (k1, v1)" by force
  have "Get V (Puts V m (p # kvs)) k = Get V (Puts V (Put V m k1 (Some v1)) kvs) k"
    by (simp add: Puts_def p)
  also have "\<dots> = (case map_of (rev kvs) k of Some v \<Rightarrow> Some v
      | None \<Rightarrow> Get V (Put V m k1 (Some v1)) k)"
    using Cons.prems by (intro Cons.IH Kind_Put)
  also have "\<dots> = (case map_of (rev (p # kvs)) k of Some v \<Rightarrow> Some v | None \<Rightarrow> Get V m k)"
    using Cons.prems
    by (auto simp: p map_add_def Get_Put_same Get_Put_other split: option.splits)
  finally show ?case .
qed

lemma Get_Puts_distinct:
  assumes "Kind V m = MAP" and "distinct (map fst kvs)"
  shows "Get V (Puts V m kvs) k = (case map_of kvs k of Some v \<Rightarrow> Some v | None \<Rightarrow> Get V m k)"
proof -
  have "map_of (rev kvs) = map_of kvs"
    using assms(2) by (intro map_of_inject_set [THEN iffD2]) (auto simp: rev_map [symmetric])
  then show ?thesis using assms(1) by (simp add: Get_Puts)
qed

end

section \<open>A reference instance\<close>

datatype gval =
    GNull
  | GBool bool
  | GLong int64
  | GDouble float64
  | GUtf8 string
  | GList "gval list"
  | GMap "(string \<times> gval) list"

primrec gkind :: "gval \<Rightarrow> kind" where
  "gkind GNull = NULL"
| "gkind (GBool b) = BOOL"
| "gkind (GLong n) = NUMBER"
| "gkind (GDouble x) = NUMBER"
| "gkind (GUtf8 s) = STRING"
| "gkind (GList xs) = LIST"
| "gkind (GMap kvs) = MAP"

definition gentries :: "gval \<Rightarrow> (string \<times> gval) list" where
  "gentries v = (case v of GMap kvs \<Rightarrow> kvs | _ \<Rightarrow> [])"

definition gitems :: "gval \<Rightarrow> gval list" where
  "gitems v = (case v of GList xs \<Rightarrow> xs | _ \<Rightarrow> [])"

definition ref_api :: "gval value_api" where
  "ref_api = \<lparr>
     Kind = gkind,
     Null = GNull,
     Long = GLong,
     Double = GDouble,
     Utf8 = GUtf8,
     EmptyMap = GMap [],
     Put = (\<lambda>m k x. GMap (AList.update k (case x of None \<Rightarrow> GNull | Some v \<Rightarrow> v) (gentries m))),
     Get = (\<lambda>m k. Some (case map_of (gentries m) k of None \<Rightarrow> GNull | Some v \<Rightarrow> v)),
     map_GetString = (\<lambda>m k. case map_of (gentries m) k of Some (GUtf8 s) \<Rightarrow> Some (GUtf8 s) | _ \<Rightarrow> Some (GUtf8 [])),
     number_Long = (\<lambda>v. case v of GLong n \<Rightarrow> n | _ \<Rightarrow> 0),
     number_Double = (\<lambda>v. case v of GDouble x \<Rightarrow> x | GLong n \<Rightarrow> F64_Fin (of_int (sint n)) | _ \<Rightarrow> F64_NaN),
     string_String = (\<lambda>v. case v of GUtf8 s \<Rightarrow> s | _ \<Rightarrow> []),
     list_Len = (\<lambda>v. length (gitems v)),
     list_GetAt = (\<lambda>v i. Some (if i < length (gitems v) then gitems v ! i else GNull)),
     map_Len = (\<lambda>v. length (gentries v)),
     map_HashMap = (\<lambda>v. AList.clearjunk (gentries v)),
     ImmutableMapOf = GMap,
     map_GetNumber = (\<lambda>m k. case map_of (gentries m) k of
        Some (GLong n) \<Rightarrow> GLong n | Some (GDouble x) \<Rightarrow> GDouble x | _ \<Rightarrow> GLong 0),
     Tuple = GList,
     list_GetStringAt = (\<lambda>v i. if i < length (gitems v) then
        (case gitems v ! i of GUtf8 s \<Rightarrow> GUtf8 s | _ \<Rightarrow> GUtf8 []) else GUtf8 [])\<rparr>"

interpretation ref: value_laws ref_api
  by unfold_locales (auto simp: ref_api_def gentries_def gitems_def update_conv' distinct_clearjunk map_of_clearjunk split: gval.splits option.splits)

lemmas ref_value_laws = ref.value_laws_axioms

end
