(* ===== verification/Rpc_Errors.thy ===== *)
theory Rpc_Errors
  imports Vrpc_Prelude
begin

text \<open>
  Error values and status codes: \<^verbatim>\<open>valuerpc/error.go\<close>, the sentinel errors of
  \<^verbatim>\<open>valuerpc\<close>, \<^verbatim>\<open>valueclient\<close> and \<^verbatim>\<open>valueserver\<close>, the classification of a handler's
  error (\<^verbatim>\<open>valuerpc/peer.go\<close>, repeated in \<^verbatim>\<open>valueserver/serving_client.go\<close>) and of a
  request's terminal error (\<^verbatim>\<open>valueclient/request.go\<close>). A Go \<^verbatim>\<open>error\<close> that may be nil is a
  \<open>gerror option\<close>.
\<close>

section \<open>Status codes\<close>

type_synonym Code = int32

definition CodeOK :: Code where [code_defs]: "CodeOK = 0"
definition CodeUnknown :: Code where [code_defs]: "CodeUnknown = 1"
definition CodeCanceled :: Code where [code_defs]: "CodeCanceled = 2"
definition CodeInvalidArgument :: Code where [code_defs]: "CodeInvalidArgument = 3"
definition CodeDeadlineExceeded :: Code where [code_defs]: "CodeDeadlineExceeded = 4"
definition CodeNotFound :: Code where [code_defs]: "CodeNotFound = 5"
definition CodeResourceExhausted :: Code where [code_defs]: "CodeResourceExhausted = 6"
definition CodeUnavailable :: Code where [code_defs]: "CodeUnavailable = 7"
definition CodeUnauthenticated :: Code where [code_defs]: "CodeUnauthenticated = 8"
definition CodeInternal :: Code where [code_defs]: "CodeInternal = 9"

definition Code_String :: "Code \<Rightarrow> string" where
  "Code_String c =
     (if c = CodeOK then ''OK''
      else if c = CodeCanceled then ''Canceled''
      else if c = CodeInvalidArgument then ''InvalidArgument''
      else if c = CodeDeadlineExceeded then ''DeadlineExceeded''
      else if c = CodeNotFound then ''NotFound''
      else if c = CodeResourceExhausted then ''ResourceExhausted''
      else if c = CodeUnavailable then ''Unavailable''
      else if c = CodeUnauthenticated then ''Unauthenticated''
      else if c = CodeInternal then ''Internal''
      else ''Unknown'')"

text \<open>A code travels as \<^verbatim>\<open>int64(code)\<close> and is read back as \<^verbatim>\<open>Code(c.Long())\<close>.\<close>

definition Code_to_int64 :: "Code \<Rightarrow> int64" where
  "Code_to_int64 c = scast c"

definition Code_of_int64 :: "int64 \<Rightarrow> Code" where
  "Code_of_int64 n = ucast n"

section \<open>Errors\<close>

datatype gerror =
    RpcError Code string
  | ErrClientClosed
  | ErrConnConsumed
  | ErrListenerClosed
  | ErrNoResponse
  | ErrNoMessageType
  | ErrIdFieldNotFound
  | ErrTimeoutError
  | ErrRequestNotFound
  | ErrUnsupportedMessageType
  | ErrFunctionAlreadyExist
  | io_EOF
  | io_ErrUnexpectedEOF
  | os_ErrDeadlineExceeded
  | context_DeadlineExceeded
  | context_Canceled
  | PlainError string
  | WrapError string gerror

definition NewError :: "Code \<Rightarrow> string \<Rightarrow> gerror" where
  "NewError code msg = RpcError code msg"

fun Error_text :: "gerror \<Rightarrow> string" where
  "Error_text (RpcError c m) = ''vrpc '' @ Code_String c @ '': '' @ m"
| "Error_text ErrClientClosed = ''client closed''"
| "Error_text ErrConnConsumed = ''value-rpc: connection already consumed''"
| "Error_text ErrListenerClosed = ''value-rpc: listener closed''"
| "Error_text ErrNoResponse = ''no response''"
| "Error_text ErrNoMessageType = ''message type not found''"
| "Error_text ErrIdFieldNotFound = ''request id not found''"
| "Error_text ErrTimeoutError = ''timeout error''"
| "Error_text ErrRequestNotFound = ''request not found''"
| "Error_text ErrUnsupportedMessageType = ''message type not supported''"
| "Error_text ErrFunctionAlreadyExist = ''function already exist''"
| "Error_text io_EOF = ''EOF''"
| "Error_text io_ErrUnexpectedEOF = ''unexpected EOF''"
| "Error_text os_ErrDeadlineExceeded = ''i/o timeout''"
| "Error_text context_DeadlineExceeded = ''context deadline exceeded''"
| "Error_text context_Canceled = ''context canceled''"
| "Error_text (PlainError m) = m"
| "Error_text (WrapError m e) = m @ '': '' @ Error_text e"

text \<open>\<^verbatim>\<open>xerrors.As(err, *Error)\<close> and \<^verbatim>\<open>xerrors.Is(err, target)\<close> walk the chain of wrapped errors.\<close>

fun As_RpcError :: "gerror \<Rightarrow> (Code \<times> string) option" where
  "As_RpcError (RpcError c m) = Some (c, m)"
| "As_RpcError (WrapError m e) = As_RpcError e"
| "As_RpcError _ = None"

fun Is_error :: "gerror \<Rightarrow> gerror \<Rightarrow> bool" where
  "Is_error (WrapError m e) target = (WrapError m e = target \<or> Is_error e target)"
| "Is_error e target = (e = target)"

definition CodeOf :: "gerror option \<Rightarrow> Code" where
  "CodeOf err =
     (case err of
        None \<Rightarrow> CodeOK
      | Some e \<Rightarrow> (case As_RpcError e of Some (c, _) \<Rightarrow> c | None \<Rightarrow> CodeUnknown))"

definition HandlerErrorCode :: "gerror \<Rightarrow> Code" where
  "HandlerErrorCode err =
     (if CodeOf (Some err) \<noteq> CodeUnknown then CodeOf (Some err)
      else if err = context_DeadlineExceeded then CodeDeadlineExceeded
      else if err = context_Canceled then CodeCanceled
      else CodeInternal)"

definition handler_error_message :: "gerror \<Rightarrow> string" where
  "handler_error_message err = (case err of RpcError _ m \<Rightarrow> m | _ \<Rightarrow> Error_text err)"

definition metricsCode :: "gerror option \<Rightarrow> Code" where
  "metricsCode err =
     (case err of
        None \<Rightarrow> CodeOK
      | Some e \<Rightarrow>
          if Is_error e ErrTimeoutError \<or> Is_error e context_DeadlineExceeded
          then CodeDeadlineExceeded
          else if Is_error e context_Canceled then CodeCanceled
          else CodeOf (Some e))"

section \<open>Facts\<close>

lemma Code_roundtrip [simp]: "Code_of_int64 (Code_to_int64 c) = c"
proof (rule bit_word_eqI)
  fix n :: nat
  assume "n < LENGTH(32)"
  then have "min 31 n = n" and "n < 64" by simp_all
  with \<open>n < LENGTH(32)\<close> show "bit (Code_of_int64 (Code_to_int64 c)) n = bit c n"
    by (simp add: Code_of_int64_def Code_to_int64_def bit_ucast_iff bit_signed_iff)
qed

lemma CodeOf_RpcError [simp]: "CodeOf (Some (RpcError c m)) = c"
  by (simp add: CodeOf_def)

lemma CodeOf_wrap [simp]: "CodeOf (Some (WrapError w e)) = CodeOf (Some e)"
  by (simp add: CodeOf_def)

lemma HandlerErrorCode_not_Unknown: "HandlerErrorCode e \<noteq> CodeUnknown"
  by (simp add: HandlerErrorCode_def code_defs)

end
