(* ===== verification/Protocol.thy ===== *)
theory Protocol
  imports Value_Api Rpc_Errors
begin

text \<open>
  The wire envelope: message types and dialects (\<^verbatim>\<open>valuerpc/protocol.go\<close>) and the message
  builders (\<^verbatim>\<open>valuerpc/protocol.go\<close>, \<^verbatim>\<open>valuerpc/peer.go\<close>). A message is a value of kind
  \<^const>\<open>MAP\<close>. The package functions read the process-wide \<^verbatim>\<open>DefaultDialect\<close>; the model
  passes the active dialect \<open>d\<close> explicitly, after the value interface \<open>V\<close>. The lemmas give
  the fields of every built message, the handshake round trip, and the separation of dialects.
\<close>

section \<open>Message types\<close>

type_synonym MessageType = int64

definition HandshakeRequest :: MessageType where [mt_defs]: "HandshakeRequest = 0"
definition HandshakeResponse :: MessageType where [mt_defs]: "HandshakeResponse = 1"
definition FunctionRequest :: MessageType where [mt_defs]: "FunctionRequest = 2"
definition FunctionResponse :: MessageType where [mt_defs]: "FunctionResponse = 3"
definition GetStreamRequest :: MessageType where [mt_defs]: "GetStreamRequest = 4"
definition PutStreamRequest :: MessageType where [mt_defs]: "PutStreamRequest = 5"
definition ChatRequest :: MessageType where [mt_defs]: "ChatRequest = 6"
definition ErrorResponse :: MessageType where [mt_defs]: "ErrorResponse = 7"
definition StreamReady :: MessageType where [mt_defs]: "StreamReady = 8"
definition StreamValue :: MessageType where [mt_defs]: "StreamValue = 9"
definition StreamEnd :: MessageType where [mt_defs]: "StreamEnd = 10"
definition CancelRequest :: MessageType where [mt_defs]: "CancelRequest = 11"
definition StreamCredit :: MessageType where [mt_defs]: "StreamCredit = 14"

definition MessageType_Long :: "'v value_api \<Rightarrow> MessageType \<Rightarrow> 'v" where
  "MessageType_Long V t = Long V t"

section \<open>Dialects\<close>

record Dialect =
  Magic :: string
  Version :: float64
  HandshakeRequestId :: int64
  MessageTypeField :: string
  MagicField :: string
  VersionField :: string
  RequestIdField :: string
  TimeoutField :: string
  ClientIdField :: string
  SessionTokenField :: string
  AuthField :: string
  FunctionNameField :: string
  ArgumentsField :: string
  ResultField :: string
  ErrorField :: string
  CodeField :: string
  CreditField :: string
  MetadataField :: string
  ValueField :: string

definition NewDialect :: Dialect where
  "NewDialect = \<lparr>
     Magic = ''vRPC'',
     Version = F64_Fin 1,
     HandshakeRequestId = 0,
     MessageTypeField = ''t'',
     MagicField = ''m'',
     VersionField = ''v'',
     RequestIdField = ''rid'',
     TimeoutField = ''sla'',
     ClientIdField = ''cid'',
     SessionTokenField = ''tok'',
     AuthField = ''auth'',
     FunctionNameField = ''fn'',
     ArgumentsField = ''args'',
     ResultField = ''res'',
     ErrorField = ''err'',
     CodeField = ''code'',
     CreditField = ''cr'',
     MetadataField = ''md'',
     ValueField = ''val''\<rparr>"

text \<open>The field names of a dialect, and the condition that a message can hold them all.\<close>

definition field_names :: "Dialect \<Rightarrow> string list" where
  "field_names d =
     [MessageTypeField d, MagicField d, VersionField d, RequestIdField d, TimeoutField d,
      ClientIdField d, SessionTokenField d, AuthField d, FunctionNameField d, ArgumentsField d,
      ResultField d, ErrorField d, CodeField d, CreditField d, MetadataField d, ValueField d]"

definition wf_dialect :: "Dialect \<Rightarrow> bool" where
  "wf_dialect d = distinct (field_names d)"

section \<open>Reading fields\<close>

definition GetNumberField :: "'v value_api \<Rightarrow> 'v \<Rightarrow> string \<Rightarrow> 'v option" where
  "GetNumberField V m field =
     (case Get V m field of
        None \<Rightarrow> None
      | Some v \<Rightarrow> if Kind V v \<noteq> NUMBER then None else Some v)"

definition GetStringField :: "'v value_api \<Rightarrow> 'v \<Rightarrow> string \<Rightarrow> 'v option" where
  "GetStringField V m field =
     (case Get V m field of
        None \<Rightarrow> None
      | Some v \<Rightarrow> if Kind V v \<noteq> STRING then None else Some v)"

section \<open>Handshake and credit messages\<close>

definition NewHandshakeRequest :: "'v value_api \<Rightarrow> Dialect \<Rightarrow> int64 \<Rightarrow> string \<Rightarrow> 'v" where
  "NewHandshakeRequest V d clientId token =
     (let req = Puts V (EmptyMap V)
        [(MagicField d, Utf8 V (Magic d)),
         (VersionField d, Double V (Version d)),
         (MessageTypeField d, MessageType_Long V HandshakeRequest),
         (RequestIdField d, Long V (HandshakeRequestId d)),
         (ClientIdField d, Long V clientId)]
      in if token \<noteq> [] then Put V req (SessionTokenField d) (Some (Utf8 V token)) else req)"

definition NewHandshakeResponse :: "'v value_api \<Rightarrow> Dialect \<Rightarrow> string \<Rightarrow> 'v" where
  "NewHandshakeResponse V d token =
     (let resp = Puts V (EmptyMap V)
        [(MagicField d, Utf8 V (Magic d)),
         (VersionField d, Double V (Version d)),
         (MessageTypeField d, MessageType_Long V HandshakeResponse),
         (RequestIdField d, Long V (HandshakeRequestId d))]
      in if token \<noteq> [] then Put V resp (SessionTokenField d) (Some (Utf8 V token)) else resp)"

definition NewStreamCredit :: "'v value_api \<Rightarrow> Dialect \<Rightarrow> 'v \<Rightarrow> int64 \<Rightarrow> 'v" where
  "NewStreamCredit V d requestId credit =
     Puts V (EmptyMap V)
       [(MessageTypeField d, MessageType_Long V StreamCredit),
        (RequestIdField d, requestId),
        (CreditField d, Long V credit)]"

definition ValidMagicAndVersion :: "'v value_api \<Rightarrow> Dialect \<Rightarrow> 'v \<Rightarrow> bool" where
  "ValidMagicAndVersion V d req =
     (case GetStringField V req (MagicField d) of
        None \<Rightarrow> False
      | Some magic \<Rightarrow>
          if string_String V magic \<noteq> Magic d then False
          else (case GetNumberField V req (VersionField d) of
                  None \<Rightarrow> False
                | Some version \<Rightarrow> \<not> f64_gt (number_Double V version) (Version d)))"

section \<open>Call and stream messages\<close>

definition NewFunctionRequest ::
    "'v value_api \<Rightarrow> Dialect \<Rightarrow> int64 \<Rightarrow> string \<Rightarrow> 'v option \<Rightarrow> 'v" where
  "NewFunctionRequest V d requestId name args =
     (let req = Puts V (EmptyMap V)
        [(MessageTypeField d, MessageType_Long V FunctionRequest),
         (RequestIdField d, Long V requestId),
         (FunctionNameField d, Utf8 V name)]
      in if args \<noteq> None then Put V req (ArgumentsField d) args else req)"

definition NewFunctionResult :: "'v value_api \<Rightarrow> Dialect \<Rightarrow> 'v \<Rightarrow> 'v option \<Rightarrow> 'v" where
  "NewFunctionResult V d requestId res =
     (let resp = Puts V (EmptyMap V)
        [(MessageTypeField d, MessageType_Long V FunctionResponse),
         (RequestIdField d, requestId)]
      in if res \<noteq> None then Put V resp (ResultField d) res else resp)"

text \<open>The callers pass a format and its arguments; the model takes the formatted message.\<close>

definition NewFunctionError :: "'v value_api \<Rightarrow> Dialect \<Rightarrow> 'v \<Rightarrow> Code \<Rightarrow> string \<Rightarrow> 'v" where
  "NewFunctionError V d requestId code msg =
     Puts V (EmptyMap V)
       [(MessageTypeField d, MessageType_Long V ErrorResponse),
        (RequestIdField d, requestId),
        (CodeField d, Long V (Code_to_int64 code)),
        (ErrorField d, Utf8 V msg)]"

definition NewStreamRequest ::
    "'v value_api \<Rightarrow> Dialect \<Rightarrow> MessageType \<Rightarrow> int64 \<Rightarrow> string \<Rightarrow> 'v option \<Rightarrow> 'v" where
  "NewStreamRequest V d mt requestId name args =
     (let req = Puts V (EmptyMap V)
        [(MessageTypeField d, MessageType_Long V mt),
         (RequestIdField d, Long V requestId),
         (FunctionNameField d, Utf8 V name)]
      in if args \<noteq> None then Put V req (ArgumentsField d) args else req)"

definition NewStreamReady :: "'v value_api \<Rightarrow> Dialect \<Rightarrow> 'v \<Rightarrow> 'v" where
  "NewStreamReady V d requestId =
     Puts V (EmptyMap V)
       [(MessageTypeField d, MessageType_Long V StreamReady), (RequestIdField d, requestId)]"

definition NewStreamValue :: "'v value_api \<Rightarrow> Dialect \<Rightarrow> 'v \<Rightarrow> 'v option \<Rightarrow> 'v" where
  "NewStreamValue V d requestId val =
     Put V (Puts V (EmptyMap V)
       [(MessageTypeField d, MessageType_Long V StreamValue), (RequestIdField d, requestId)])
       (ValueField d) val"

definition NewStreamEnd :: "'v value_api \<Rightarrow> Dialect \<Rightarrow> 'v \<Rightarrow> 'v option \<Rightarrow> 'v" where
  "NewStreamEnd V d requestId val =
     (let resp = Puts V (EmptyMap V)
        [(MessageTypeField d, MessageType_Long V StreamEnd), (RequestIdField d, requestId)]
      in if val \<noteq> None then Put V resp (ValueField d) val else resp)"

definition NewHandlerError :: "'v value_api \<Rightarrow> Dialect \<Rightarrow> 'v \<Rightarrow> string \<Rightarrow> gerror \<Rightarrow> 'v" where
  "NewHandlerError V d requestId loc err =
     NewFunctionError V d requestId (HandlerErrorCode err)
       (loc @ '': '' @ handler_error_message err)"

lemmas [builder_defs] =
  NewHandshakeRequest_def NewHandshakeResponse_def NewStreamCredit_def NewFunctionRequest_def
  NewFunctionResult_def NewFunctionError_def NewStreamRequest_def NewStreamReady_def
  NewStreamValue_def NewStreamEnd_def NewHandlerError_def MessageType_Long_def Let_def

section \<open>What the messages carry\<close>

lemma wf_NewDialect: "wf_dialect NewDialect"
  by (simp add: wf_dialect_def field_names_def NewDialect_def)

text \<open>Both orientations of every inequality, so that the simplifier decides every comparison.\<close>

lemma wf_dialect_neqs:
  "wf_dialect d \<longleftrightarrow> distinct (field_names d) \<and> distinct (rev (field_names d))"
  by (simp only: wf_dialect_def distinct_rev conj_absorb)

lemmas wf_fields = wf_dialect_neqs [unfolded field_names_def]

context value_laws
begin

lemmas msg_simps =
  value_simps Get_Puts Kind_Puts GetNumberField_def GetStringField_def

lemma field_Puts:
  assumes "map_of (rev kvs) k = Some v"
  shows "Get V (Puts V (EmptyMap V) kvs) k = Some v"
  using assms by (simp add: Get_Puts Kind_EmptyMap)

lemma handshake_request_fields:
  fixes d cid tok
  assumes "wf_dialect d"
  defines "m \<equiv> NewHandshakeRequest V d cid tok"
  shows "Get V m (MagicField d) = Some (Utf8 V (Magic d))"
    and "Get V m (VersionField d) = Some (Double V (Version d))"
    and "Get V m (MessageTypeField d) = Some (Long V HandshakeRequest)"
    and "Get V m (RequestIdField d) = Some (Long V (HandshakeRequestId d))"
    and "Get V m (ClientIdField d) = Some (Long V cid)"
    and "Get V m (SessionTokenField d) = Some (if tok = [] then Null V else Utf8 V tok)"
    and "Get V m (AuthField d) = Some (Null V)"
    and "Kind V m = MAP"
  using assms(1)
  by (simp_all add: m_def builder_defs msg_simps wf_fields)

lemma error_response_fields:
  fixes d rid code msg
  assumes "wf_dialect d" and "Kind V rid = NUMBER"
  defines "m \<equiv> NewFunctionError V d rid code msg"
  shows "GetNumberField V m (MessageTypeField d) = Some (Long V ErrorResponse)"
    and "GetNumberField V m (RequestIdField d) = Some rid"
    and "GetNumberField V m (CodeField d) = Some (Long V (Code_to_int64 code))"
    and "GetStringField V m (ErrorField d) = Some (Utf8 V msg)"
  using assms(1,2)
  by (simp_all add: m_def builder_defs msg_simps wf_fields)

lemma valid_own_handshake:
  assumes "wf_dialect d"
  shows "ValidMagicAndVersion V d (NewHandshakeRequest V d cid tok)"
  by (simp add: ValidMagicAndVersion_def GetStringField_def GetNumberField_def
      handshake_request_fields [OF assms] value_simps)

lemma Get_Puts_in:
  assumes "Get V (Puts V (EmptyMap V) kvs) k = Some s" and "Kind V s \<noteq> NULL"
  shows "(k, s) \<in> set kvs"
proof -
  have "map_of (rev kvs) k = Some s"
    using assms by (auto simp: Get_Puts Kind_EmptyMap Get_EmptyMap Kind_Null split: option.splits)
  then show ?thesis by (auto dest: map_of_SomeD)
qed

lemma foreign_magic_lookup:
  assumes "GetStringField V (NewHandshakeRequest V d1 cid tok) k = Some s"
  shows "k = MagicField d1 \<and> s = Utf8 V (Magic d1) \<or>
         k = SessionTokenField d1 \<and> s = Utf8 V tok \<and> tok \<noteq> []"
proof -
  let ?kvs = "[(MagicField d1, Utf8 V (Magic d1)), (VersionField d1, Double V (Version d1)),
    (MessageTypeField d1, Long V HandshakeRequest), (RequestIdField d1, Long V (HandshakeRequestId d1)),
    (ClientIdField d1, Long V cid)]"
  let ?req = "Puts V (EmptyMap V) ?kvs"
  have kind: "Kind V s = STRING" and get: "Get V (NewHandshakeRequest V d1 cid tok) k = Some s"
    using assms by (auto simp: GetStringField_def split: option.splits if_splits)
  have req: "k = MagicField d1 \<and> s = Utf8 V (Magic d1)" if "Get V ?req k = Some s"
    using Get_Puts_in [OF that] kind by (auto simp: Kind_Long Kind_Double)
  have map: "Kind V ?req = MAP" by (simp add: Kind_Puts Kind_EmptyMap)
  show ?thesis
  proof (cases "tok \<noteq> [] \<and> k = SessionTokenField d1")
    case True
    with get map show ?thesis by (simp add: builder_defs Get_Put_same)
  next
    case False
    with get map have "Get V ?req k = Some s"
      by (auto simp: builder_defs Get_Put_other split: if_splits)
    then show ?thesis using req by blast
  qed
qed

end

section \<open>Properties\<close>

text \<open>
  C27. Handshake round trip: for every dialect with distinct field names, the handshake a client
  builds passes the server's magic and version gate and reads back with its message type, its
  request id, the client's id, and the session token exactly when the token is not empty.
\<close>

theorem handshake_roundtrip:
  assumes "value_laws V" and "wf_dialect d"
  shows "ValidMagicAndVersion V d (NewHandshakeRequest V d cid tok) \<and>
    map_option (number_Long V) (GetNumberField V (NewHandshakeRequest V d cid tok) (MessageTypeField d))
      = Some HandshakeRequest \<and>
    map_option (number_Long V) (GetNumberField V (NewHandshakeRequest V d cid tok) (RequestIdField d))
      = Some (HandshakeRequestId d) \<and>
    map_option (number_Long V) (GetNumberField V (NewHandshakeRequest V d cid tok) (ClientIdField d))
      = Some cid \<and>
    map_option (string_String V) (GetStringField V (NewHandshakeRequest V d cid tok) (SessionTokenField d))
      = (if tok = [] then None else Some tok)"
proof -
  note laws = value_laws.value_simps [OF assms(1)]
    and fields = value_laws.handshake_request_fields [OF assms]
  show ?thesis
    using value_laws.valid_own_handshake [OF assms]
    by (simp add: GetNumberField_def GetStringField_def fields laws)
qed

theorem handshake_roundtrip_witness:
  "value_laws ref_api \<and> wf_dialect NewDialect \<and>
   ValidMagicAndVersion ref_api NewDialect (NewHandshakeRequest ref_api NewDialect 42 ''aa'') \<and>
   map_option (number_Long ref_api)
     (GetNumberField ref_api (NewHandshakeRequest ref_api NewDialect 42 ''aa'') (ClientIdField NewDialect))
     = Some 42"
  using handshake_roundtrip [OF ref_value_laws wf_NewDialect, of 42 "''aa''"]
    ref_value_laws wf_NewDialect by simp

text \<open>
  Dialects are incompatible by design: a handshake built in one dialect is refused by a
  server of another dialect as soon as the two differ in the magic string or in the name of the
  magic field, unless the other dialect reads its magic out of the token field and the token
  spells its magic.
\<close>

theorem dialect_isolation:
  assumes "value_laws V"
    and "Magic d2 \<noteq> Magic d1 \<or> MagicField d2 \<noteq> MagicField d1"
    and "MagicField d2 \<noteq> SessionTokenField d1 \<or> tok \<noteq> Magic d2"
  shows "\<not> ValidMagicAndVersion V d2 (NewHandshakeRequest V d1 cid tok)"
proof
  assume "ValidMagicAndVersion V d2 (NewHandshakeRequest V d1 cid tok)"
  then obtain s where s: "GetStringField V (NewHandshakeRequest V d1 cid tok) (MagicField d2) = Some s"
    and m: "string_String V s = Magic d2"
    by (auto simp: ValidMagicAndVersion_def split: option.splits if_splits)
  from value_laws.foreign_magic_lookup [OF assms(1) s] m assms(2,3)
  show False by (auto simp: value_laws.String_Utf8 [OF assms(1)])
qed

theorem dialect_isolation_witness:
  "\<not> ValidMagicAndVersion ref_api (NewDialect\<lparr>Magic := ''xRPC''\<rparr>)
       (NewHandshakeRequest ref_api NewDialect 7 ''aa'')"
  by (rule dialect_isolation [OF ref_value_laws])
     (simp_all add: NewDialect_def)

end
