(* ===== verification/Verify.thy ===== *)
theory Verify
  imports Protocol
begin

text \<open>
  Run-time checking of arguments and results: the type definitions of
  \<^verbatim>\<open>valuerpc/types.go\<close> and the checks of \<^verbatim>\<open>valuerpc/verify.go\<close>. A checked value may be Go
  nil (\<^term>\<open>None\<close>); over the wire an omitted value is the \<^verbatim>\<open>Null\<close> sentinel. The lemmas relate the
  loops to declarative specifications and settle which values each definition accepts.
\<close>

section \<open>Type definitions\<close>

record ArgDef =
  arg_Kind :: kind
  arg_Required :: bool

record ParamDef =
  param_Name :: string
  param_Kind :: kind
  param_Required :: bool

text \<open>
  The \<^verbatim>\<open>TypeDef\<close> interface: the five definitions of the package, and \<open>ForeignDef\<close> for a nil
  interface or a type of another package.
\<close>

datatype TypeDef =
    AnyDef
  | VoidDef
  | ArgsDef "ArgDef list"
  | ParamsDef "ParamDef list"
  | SingleDef ArgDef
  | ForeignDef

definition Arg :: "kind \<Rightarrow> bool \<Rightarrow> ArgDef" where
  "Arg k required = \<lparr>arg_Kind = k, arg_Required = required\<rparr>"

definition Param :: "string \<Rightarrow> kind \<Rightarrow> bool \<Rightarrow> ParamDef" where
  "Param name k required = \<lparr>param_Name = name, param_Kind = k, param_Required = required\<rparr>"

section \<open>Checks\<close>

definition VerifyArg :: "'v value_api \<Rightarrow> 'v option \<Rightarrow> ArgDef \<Rightarrow> bool" where
  "VerifyArg V arg def =
     (case arg of None \<Rightarrow> \<not> arg_Required def | Some v \<Rightarrow> Kind V v = arg_Kind def)"

definition VerifyParam :: "'v value_api \<Rightarrow> 'v option \<Rightarrow> ParamDef \<Rightarrow> bool" where
  "VerifyParam V val def =
     (case val of None \<Rightarrow> \<not> param_Required def | Some v \<Rightarrow> Kind V v = param_Kind def)"

fun VerifyArgs_loop :: "'v value_api \<Rightarrow> 'v \<Rightarrow> nat \<Rightarrow> ArgDef list \<Rightarrow> bool" where
  "VerifyArgs_loop V list i [] = True"
| "VerifyArgs_loop V list i (def # defs) =
     (if \<not> VerifyArg V (list_GetAt V list i) def then False
      else VerifyArgs_loop V list (Suc i) defs)"

definition VerifyArgs :: "'v value_api \<Rightarrow> 'v option \<Rightarrow> ArgDef list \<Rightarrow> bool" where
  "VerifyArgs V args defs =
     (case args of
        None \<Rightarrow> length defs = 0
      | Some v \<Rightarrow>
          if Kind V v = NULL then length defs = 0
          else if Kind V v \<noteq> LIST then False
          else if list_Len V v \<noteq> length defs then False
          else VerifyArgs_loop V v 0 defs)"

fun VerifyParams_loop :: "'v value_api \<Rightarrow> 'v \<Rightarrow> ParamDef list \<Rightarrow> bool" where
  "VerifyParams_loop V cache [] = True"
| "VerifyParams_loop V cache (def # defs) =
     (let val = Get V cache (param_Name def) in
      if val = Some (Null V) then
        (if param_Required def then False else VerifyParams_loop V cache defs)
      else if \<not> VerifyParam V val def then False
      else VerifyParams_loop V cache defs)"

definition VerifyParams :: "'v value_api \<Rightarrow> 'v option \<Rightarrow> ParamDef list \<Rightarrow> bool" where
  "VerifyParams V args defs =
     (case args of
        None \<Rightarrow> length defs = 0
      | Some v \<Rightarrow>
          if Kind V v = NULL then length defs = 0
          else if Kind V v \<noteq> MAP then False
          else VerifyParams_loop V v defs)"

definition VerifyVoid :: "'v value_api \<Rightarrow> 'v option \<Rightarrow> bool" where
  "VerifyVoid V args =
     (case args of
        None \<Rightarrow> True
      | Some v \<Rightarrow>
          if Kind V v = NULL then True
          else if Kind V v = LIST then list_Len V v = 0
          else if Kind V v = MAP then map_Len V v = 0
          else False)"

definition Verify :: "'v value_api \<Rightarrow> 'v option \<Rightarrow> TypeDef \<Rightarrow> bool" where
  "Verify V args def =
     (case def of
        AnyDef \<Rightarrow> True
      | VoidDef \<Rightarrow> VerifyVoid V args
      | SingleDef d \<Rightarrow> VerifyArg V args d
      | ArgsDef ds \<Rightarrow> VerifyArgs V args ds
      | ParamsDef ds \<Rightarrow> VerifyParams V args ds
      | ForeignDef \<Rightarrow> False)"

section \<open>The loops, declaratively\<close>

lemma VerifyArgs_loop_iff:
  "VerifyArgs_loop V v i defs \<longleftrightarrow>
     (\<forall>j < length defs. VerifyArg V (list_GetAt V v (i + j)) (defs ! j))"
proof (induction V v i defs rule: VerifyArgs_loop.induct)
  case (1 V list i)
  show ?case by simp
next
  case (2 V list i def defs)
  then show ?case by (auto simp: less_Suc_eq_0_disj)
qed

text \<open>What a single parameter asks of a map: present with its kind, or optional and absent.\<close>

definition param_ok :: "'v value_api \<Rightarrow> 'v \<Rightarrow> ParamDef \<Rightarrow> bool" where
  "param_ok V m def =
     (if Get V m (param_Name def) \<in> {None, Some (Null V)} then \<not> param_Required def
      else (\<exists>v. Get V m (param_Name def) = Some v \<and> Kind V v = param_Kind def))"

lemma VerifyParams_loop_iff:
  "VerifyParams_loop V m defs \<longleftrightarrow> (\<forall>def \<in> set defs. param_ok V m def)"
  by (induction defs) (auto simp: Let_def param_ok_def VerifyParam_def split: option.splits)

section \<open>Properties\<close>

text \<open>
  C28. Positional arguments: the check accepts exactly a list of the declared length whose
  elements all pass their own definition, or no arguments (nil or \<^verbatim>\<open>Null\<close>) for an empty
  declaration. In particular it never reads past the end of the list.
\<close>

theorem VerifyArgs_spec:
  "VerifyArgs V args defs \<longleftrightarrow>
     (args = None \<or> (\<exists>v. args = Some v \<and> Kind V v = NULL)) \<and> defs = [] \<or>
     (\<exists>v. args = Some v \<and> Kind V v = LIST \<and> list_Len V v = length defs \<and>
        list_all (\<lambda>i. VerifyArg V (list_GetAt V v i) (defs ! i)) [0..<list_Len V v])"
  by (cases args) (auto simp: VerifyArgs_def VerifyArgs_loop_iff list_all_iff)

text \<open>
  Named parameters: on a map the check accepts exactly when every declared parameter is
  present with its kind or optional and absent; parameters that are not declared are ignored.
\<close>

theorem VerifyParams_spec:
  "VerifyParams V args defs \<longleftrightarrow>
     (args = None \<or> (\<exists>v. args = Some v \<and> Kind V v = NULL)) \<and> defs = [] \<or>
     (\<exists>v. args = Some v \<and> Kind V v = MAP \<and> list_all (param_ok V v) defs)"
  by (cases args) (auto simp: VerifyParams_def VerifyParams_loop_iff list_all_iff)

text \<open>
  An optional single argument cannot be omitted over the wire. A handler declared with an
  optional argument of some kind accepts a Go nil, but the absent field of a request reads as
  \<^verbatim>\<open>Null\<close>, and that is refused for every kind but \<^const>\<open>NULL\<close>; an optional named parameter, in
  contrast, may be absent.
\<close>

theorem optional_arg_rejects_absent:
  assumes "value_laws V" and "Kind V m = MAP" and "k \<noteq> NULL" and "Get V m f = Some (Null V)"
  shows "\<not> Verify V (Get V m f) (SingleDef (Arg k False)) \<and>
         Verify V None (SingleDef (Arg k False)) \<and>
         Verify V (Some m) (ParamsDef [Param f k False])"
  using assms value_laws.Kind_Null [OF assms(1)]
  by (simp add: Verify_def VerifyArg_def VerifyParams_def VerifyParam_def Arg_def Param_def)

theorem optional_arg_rejects_absent_witness:
  "\<not> Verify ref_api (Get ref_api (EmptyMap ref_api) ''args'') (SingleDef (Arg STRING False)) \<and>
   Verify ref_api None (SingleDef (Arg STRING False)) \<and>
   Verify ref_api (Some (EmptyMap ref_api)) (ParamsDef [Param ''args'' STRING False])"
  by (rule optional_arg_rejects_absent [OF ref_value_laws])
     (simp_all add: ref.Kind_EmptyMap ref.Get_EmptyMap)

end
