(* ===== verification/Stream_Pump.thy ===== *)
theory Stream_Pump
  imports Vrpc_Prelude
begin

text \<open>
  The per-stream delivery pump of \<^verbatim>\<open>valuerpc/pump.go\<close>. Methods that hold the pump's mutex are
  atomic functions on the pump's record; the goroutine \<^verbatim>\<open>run\<close> is a program counter with one step
  per critical section and per channel operation; \<open>pump_step\<close> interleaves it with producers,
  \<^verbatim>\<open>Close\<close>, \<^verbatim>\<open>Stop\<close> and the consumer. The slice \<^verbatim>\<open>queue\<close> is kept with its consumed slots, its head
  index and its capacity. A queue element is a Go interface, so a cleared slot is \<^term>\<open>None\<close>. How far
  \<^verbatim>\<open>append\<close> grows a full slice is left to the Go runtime: a parameter \<open>grow\<close>, of which only
  \<open>n < grow n\<close> is ever used.

  The ring of slots refines a list (locale \<open>fifo\<close>); the system invariant gives lossless, ordered
  delivery, a single close of the output channel, bounded memory, and termination.
\<close>

section \<open>The pump\<close>

record 'v StreamPump =
  queue :: "'v option list"
  queue_cap :: nat
  head :: nat
  inputEnd :: bool
  overflow :: bool
  maxPending :: int
  stopCh :: bool

definition DefaultMaxPending :: int where
  "DefaultMaxPending = 4096"

definition NewStreamPump :: "int \<Rightarrow> 'v StreamPump" where
  "NewStreamPump maxPnd =
     \<lparr>queue = [], queue_cap = 0, head = 0, inputEnd = False, overflow = False,
      maxPending = (if maxPnd \<le> 0 then DefaultMaxPending else maxPnd), stopCh = False\<rparr>"

definition isStopped :: "'v StreamPump \<Rightarrow> bool" where
  "isStopped p = stopCh p"

text \<open>\<^verbatim>\<open>len(p.queue) - p.head\<close>, a Go \<^verbatim>\<open>int\<close>.\<close>

definition pending :: "'v StreamPump \<Rightarrow> int" where
  "pending p = int (length (queue p)) - int (head p)"

text \<open>In-place compaction: \<^verbatim>\<open>copy\<close> to the front, clear the tail, reslice.\<close>

definition compact :: "'v StreamPump \<Rightarrow> 'v StreamPump" where
  "compact p =
     (if head p > 0 \<and> length (queue p) = queue_cap p then
        (let live = drop (head p) (queue p);
             n = length live;
             q = live @ drop n (queue p);
             q = take n q @ replicate (length q - n) None
         in p\<lparr>queue := take n q, head := 0\<rparr>)
      else p)"

text \<open>\<^verbatim>\<open>append\<close> keeps the backing array while it has room.\<close>

definition append_slot :: "(nat \<Rightarrow> nat) \<Rightarrow> 'v option \<Rightarrow> 'v StreamPump \<Rightarrow> 'v StreamPump" where
  "append_slot grow v p =
     p\<lparr>queue := queue p @ [v],
       queue_cap := (if length (queue p) < queue_cap p then queue_cap p else grow (queue_cap p))\<rparr>"

definition Push :: "(nat \<Rightarrow> nat) \<Rightarrow> 'v option \<Rightarrow> 'v StreamPump \<Rightarrow> bool \<times> 'v StreamPump" where
  "Push grow v p =
     (if inputEnd p \<or> isStopped p then (False, p)
      else if pending p \<ge> maxPending p then (False, p\<lparr>overflow := True, inputEnd := True\<rparr>)
      else (True, append_slot grow v (compact p)))"

definition Close :: "'v StreamPump \<Rightarrow> 'v StreamPump" where
  "Close p = p\<lparr>inputEnd := True\<rparr>"

definition Stop :: "'v StreamPump \<Rightarrow> 'v StreamPump" where
  "Stop p = p\<lparr>stopCh := True\<rparr>"

definition Overflowed :: "'v StreamPump \<Rightarrow> bool" where
  "Overflowed p = overflow p"

section \<open>The pump goroutine\<close>

text \<open>
  Where \<^verbatim>\<open>run\<close> is: at the top of its loop, blocked in the \<^verbatim>\<open>select\<close> with a value in hand, about to
  call \<^verbatim>\<open>onDeliver\<close>, or returned (having closed \<^verbatim>\<open>out\<close>).
\<close>

datatype 'v pump_pc = Loop | Select "'v option" | Deliver | Done

text \<open>Taking the head value out of the queue: clear its slot, advance, reset an empty queue.\<close>

definition pop_slot :: "'v StreamPump \<Rightarrow> 'v option \<times> 'v StreamPump" where
  "pop_slot p =
     (let v = queue p ! head p;
          p = p\<lparr>queue := (queue p)[head p := None], head := head p + 1\<rparr>
      in (v, if head p = length (queue p) then p\<lparr>queue := [], head := 0\<rparr> else p))"

text \<open>The critical section of one iteration; \<^term>\<open>None\<close> while it waits on the condition variable.\<close>

definition run_locked :: "'v StreamPump \<Rightarrow> ('v pump_pc \<times> 'v StreamPump) option" where
  "run_locked p =
     (if pending p = 0 \<and> \<not> inputEnd p \<and> \<not> isStopped p then None
      else if isStopped p then Some (Done, p)
      else if pending p = 0 then Some (Done, p)
      else (let (v, p) = pop_slot p in Some (Select v, p)))"

text \<open>
  The pump with its surroundings: the output channel (values handed over so far, how many receives
  the consumer has started, the channel's capacity, how often it was closed), the calls of
  \<^verbatim>\<open>onDeliver\<close>, and the values whose \<^verbatim>\<open>Push\<close> returned true.
\<close>

record 'v pump_sys =
  pump :: "'v StreamPump"
  pc :: "'v pump_pc"
  delivered :: "'v option list"
  receives :: nat
  out_cap :: nat
  out_closes :: nat
  callbacks :: nat
  accepted :: "'v option list"

definition init_sys :: "int \<Rightarrow> nat \<Rightarrow> 'v pump_sys" where
  "init_sys maxPnd cap =
     \<lparr>pump = NewStreamPump maxPnd, pc = Loop, delivered = [], receives = 0, out_cap = cap,
      out_closes = 0, callbacks = 0, accepted = []\<rparr>"

text \<open>A send on \<^verbatim>\<open>out\<close> proceeds while its buffer has room or a receiver waits.\<close>

definition out_ready :: "'v pump_sys \<Rightarrow> bool" where
  "out_ready s = (length (delivered s) < receives s + out_cap s)"

text \<open>
  One step of \<^verbatim>\<open>run\<close>; \<^term>\<open>None\<close> when it is blocked or has returned. When both branches of the
  \<^verbatim>\<open>select\<close> are ready Go picks one at random, here the argument \<open>pick_send\<close>.
\<close>

definition run_step :: "bool \<Rightarrow> 'v pump_sys \<Rightarrow> 'v pump_sys option" where
  "run_step pick_send s =
     (case pc s of
        Loop \<Rightarrow>
          (case run_locked (pump s) of
             None \<Rightarrow> None
           | Some (Done, p) \<Rightarrow> Some (s\<lparr>pump := p, pc := Done, out_closes := out_closes s + 1\<rparr>)
           | Some (c, p) \<Rightarrow> Some (s\<lparr>pump := p, pc := c\<rparr>))
      | Select v \<Rightarrow>
          if out_ready s \<and> (pick_send \<or> \<not> isStopped (pump s))
          then Some (s\<lparr>delivered := delivered s @ [v], pc := Deliver\<rparr>)
          else if isStopped (pump s)
          then Some (s\<lparr>pc := Done, out_closes := out_closes s + 1\<rparr>)
          else None
      | Deliver \<Rightarrow> Some (s\<lparr>callbacks := callbacks s + 1, pc := Loop\<rparr>)
      | Done \<Rightarrow> None)"

definition push_sys :: "(nat \<Rightarrow> nat) \<Rightarrow> 'v option \<Rightarrow> 'v pump_sys \<Rightarrow> 'v pump_sys" where
  "push_sys grow v s =
     (let (ok, p) = Push grow v (pump s)
      in s\<lparr>pump := p, accepted := (if ok then accepted s @ [v] else accepted s)\<rparr>)"

inductive pump_step :: "(nat \<Rightarrow> nat) \<Rightarrow> 'v pump_sys \<Rightarrow> 'v pump_sys \<Rightarrow> bool" for grow where
  run: "run_step b s = Some s' \<Longrightarrow> pump_step grow s s'"
| push: "pump_step grow s (push_sys grow v s)"
| close: "pump_step grow s (s\<lparr>pump := Close (pump s)\<rparr>)"
| stop: "pump_step grow s (s\<lparr>pump := Stop (pump s)\<rparr>)"
| receive: "pump_step grow s (s\<lparr>receives := receives s + 1\<rparr>)"

section \<open>The slots as a queue\<close>

locale fifo =
  fixes contents :: "'q \<Rightarrow> 'x list"
    and inv :: "'q \<Rightarrow> bool"
    and enq :: "'x \<Rightarrow> 'q \<Rightarrow> 'q"
    and deq :: "'q \<Rightarrow> 'x \<times> 'q"
  assumes contents_enq: "inv q \<Longrightarrow> contents (enq x q) = contents q @ [x]"
    and inv_enq: "inv q \<Longrightarrow> inv (enq x q)"
    and contents_deq: "inv q \<Longrightarrow> contents q \<noteq> [] \<Longrightarrow> fst (deq q) # contents (snd (deq q)) = contents q"
    and inv_deq: "inv q \<Longrightarrow> contents q \<noteq> [] \<Longrightarrow> inv (snd (deq q))"
begin

lemma deq_front:
  assumes "inv q" and "contents q = x # xs"
  shows "fst (deq q) = x" and "contents (snd (deq q)) = xs" and "inv (snd (deq q))"
  using contents_deq [OF assms(1)] inv_deq [OF assms(1)] assms(2) by simp_all

lemma enq_all:
  assumes "inv q"
  shows "contents (fold enq xs q) = contents q @ xs \<and> inv (fold enq xs q)"
  using assms by (induction xs arbitrary: q) (simp_all add: contents_enq inv_enq)

fun deqs :: "nat \<Rightarrow> 'q \<Rightarrow> 'x list \<times> 'q" where
  "deqs 0 q = ([], q)"
| "deqs (Suc n) q = (let (x, q) = deq q; (xs, q) = deqs n q in (x # xs, q))"

lemma deqs_contents:
  assumes "inv q" and "n \<le> length (contents q)"
  shows "fst (deqs n q) = take n (contents q) \<and> contents (snd (deqs n q)) = drop n (contents q)"
  using assms
proof (induction n arbitrary: q)
  case 0
  then show ?case by simp
next
  case (Suc n)
  then obtain x xs where q: "contents q = x # xs" by (cases "contents q") auto
  note front = deq_front [OF Suc.prems(1) q]
  have "fst (deqs n (snd (deq q))) = take n xs \<and> contents (snd (deqs n (snd (deq q)))) = drop n xs"
    using Suc.IH [OF front(3)] Suc.prems(2) q front(2) by simp
  then show ?case using front(1) q by (simp add: case_prod_beta)
qed

end

definition contents :: "'v StreamPump \<Rightarrow> 'v option list" where
  "contents p = drop (head p) (queue p)"

text \<open>The slice is well formed: consumed slots are cleared, and it fits its backing array.\<close>

definition slots_ok :: "'v StreamPump \<Rightarrow> bool" where
  "slots_ok p =
     (head p \<le> length (queue p) \<and> length (queue p) \<le> queue_cap p \<and>
      take (head p) (queue p) = replicate (head p) None)"

definition grows :: "(nat \<Rightarrow> nat) \<Rightarrow> bool" where
  "grows grow = (\<forall>n. n < grow n)"

lemma pending_contents: "slots_ok p \<Longrightarrow> pending p = int (length (contents p))"
  by (simp add: pending_def contents_def slots_ok_def)

lemma compact_ok: "slots_ok p \<Longrightarrow> slots_ok (compact p) \<and> contents (compact p) = contents p"
  by (auto simp: slots_ok_def compact_def contents_def Let_def)

lemma append_slot_ok:
  assumes "grows grow" and "slots_ok p"
  shows "slots_ok (append_slot grow v p) \<and> contents (append_slot grow v p) = contents p @ [v]"
proof -
  have "queue_cap p < grow (queue_cap p)" using assms(1) by (simp add: grows_def)
  then show ?thesis using assms(2) by (auto simp: slots_ok_def append_slot_def contents_def)
qed

lemma pop_slot_ok:
  assumes "slots_ok p" and "contents p \<noteq> []"
  shows "fst (pop_slot p) # contents (snd (pop_slot p)) = contents p \<and> slots_ok (snd (pop_slot p))"
proof -
  have h: "head p < length (queue p)" using assms(2) by (simp add: contents_def)
  have "take (Suc (head p)) ((queue p)[head p := None]) = replicate (Suc (head p)) None"
    using assms(1) h by (simp add: take_Suc_conv_app_nth slots_ok_def replicate_append_same)
  then show ?thesis
    using assms(1) h Cons_nth_drop_Suc [OF h]
    by (auto simp: pop_slot_def Let_def contents_def slots_ok_def)
qed

lemma fifo_slots:
  assumes "grows grow"
  shows "fifo contents slots_ok (\<lambda>v p. append_slot grow v (compact p)) pop_slot"
  by unfold_locales
     (auto simp: append_slot_ok [OF assms] compact_ok, auto simp: pop_slot_ok)

text \<open>The growth rule of the Go runtime, before rounding up to a size class.\<close>

definition go_grow :: "nat \<Rightarrow> nat" where
  "go_grow n = (if n = 0 then 1 else if n < 256 then 2 * n else n + (n + 768) div 4)"

lemma grows_go_grow: "grows go_grow"
  by (auto simp: grows_def go_grow_def)

interpretation slots: fifo contents slots_ok "\<lambda>v p. append_slot go_grow v (compact p)" pop_slot
  by (rule fifo_slots [OF grows_go_grow])

section \<open>The system invariant\<close>

primrec in_hand :: "'v pump_pc \<Rightarrow> 'v option list" where
  "in_hand Loop = []"
| "in_hand (Select v) = [v]"
| "in_hand Deliver = []"
| "in_hand Done = []"

text \<open>Nothing accepted is lost, duplicated or reordered while the pump runs.\<close>

definition lossless :: "'v pump_sys \<Rightarrow> bool" where
  "lossless s =
     (if pc s = Done \<and> isStopped (pump s) then prefix (delivered s) (accepted s)
      else accepted s = delivered s @ in_hand (pc s) @ contents (pump s))"

definition finished_right :: "'v pump_sys \<Rightarrow> bool" where
  "finished_right s =
     (out_closes s = (if pc s = Done then 1 else 0) \<and>
      (pc s = Done \<longrightarrow> isStopped (pump s) \<or> inputEnd (pump s) \<and> contents (pump s) = []) \<and>
      callbacks s + (if pc s = Deliver then 1 else 0) = length (delivered s) \<and>
      (overflow (pump s) \<longrightarrow> inputEnd (pump s)))"

definition bounded :: "(nat \<Rightarrow> nat) \<Rightarrow> 'v StreamPump \<Rightarrow> bool" where
  "bounded grow p =
     (slots_ok p \<and> 0 < maxPending p \<and> int (length (contents p)) \<le> maxPending p \<and>
      (queue_cap p = 0 \<or> (\<exists>n. int n < maxPending p \<and> queue_cap p = grow n)))"

definition sys_inv :: "(nat \<Rightarrow> nat) \<Rightarrow> 'v pump_sys \<Rightarrow> bool" where
  "sys_inv grow s = (bounded grow (pump s) \<and> lossless s \<and> finished_right s)"

lemmas inv_defs = sys_inv_def lossless_def finished_right_def

lemma sys_inv_init: "sys_inv grow (init_sys m c)"
  by (simp add: inv_defs bounded_def init_sys_def NewStreamPump_def slots_ok_def contents_def
      DefaultMaxPending_def)

lemma compact_fields [simp]:
  "inputEnd (compact p) = inputEnd p" "overflow (compact p) = overflow p"
  "maxPending (compact p) = maxPending p" "stopCh (compact p) = stopCh p"
  "queue_cap (compact p) = queue_cap p"
  by (simp_all add: compact_def Let_def)

lemma append_slot_fields [simp]:
  "inputEnd (append_slot g v p) = inputEnd p" "overflow (append_slot g v p) = overflow p"
  "maxPending (append_slot g v p) = maxPending p" "stopCh (append_slot g v p) = stopCh p"
  by (simp_all add: append_slot_def)

lemma pop_slot_fields [simp]:
  "inputEnd (snd (pop_slot p)) = inputEnd p" "overflow (snd (pop_slot p)) = overflow p"
  "maxPending (snd (pop_slot p)) = maxPending p" "stopCh (snd (pop_slot p)) = stopCh p"
  "queue_cap (snd (pop_slot p)) = queue_cap p"
  by (simp_all add: pop_slot_def Let_def)

text \<open>A full backing array whose head is at zero holds only pending values, so it grows rarely.\<close>

lemma compact_full:
  assumes "slots_ok p" and "length (queue (compact p)) = queue_cap (compact p)"
  shows "queue_cap p = length (contents p)"
  using assms by (auto simp: compact_def Let_def slots_ok_def contents_def split: if_splits)

lemma bounded_push:
  assumes "grows grow" and "bounded grow p" and "pending p < maxPending p"
  shows "bounded grow (append_slot grow v (compact p))"
    and "contents (append_slot grow v (compact p)) = contents p @ [v]"
proof -
  have ok: "slots_ok p" using assms(2) by (simp add: bounded_def)
  note cok = compact_ok [OF ok]
  note app = append_slot_ok [OF assms(1) conjunct1 [OF cok], of v]
  show "contents (append_slot grow v (compact p)) = contents p @ [v]" using app cok by simp
  have len: "int (length (contents p)) < maxPending p"
    using assms(3) by (simp add: pending_contents [OF ok])
  have "queue_cap (append_slot grow v (compact p)) \<in> {queue_cap p, grow (length (contents p))}"
  proof (cases "length (queue (compact p)) < queue_cap (compact p)")
    case True
    then show ?thesis by (simp add: append_slot_def)
  next
    case False
    then have "length (queue (compact p)) = queue_cap (compact p)"
      using cok by (simp add: slots_ok_def)
    from compact_full [OF ok this] False show ?thesis by (simp add: append_slot_def)
  qed
  with app cok len assms(2) show "bounded grow (append_slot grow v (compact p))"
    by (auto simp: bounded_def)
qed

lemma bounded_pop:
  assumes "bounded grow p" and "contents p \<noteq> []"
  shows "bounded grow (snd (pop_slot p))"
proof -
  have "slots_ok p" using assms(1) by (simp add: bounded_def)
  from pop_slot_ok [OF this assms(2)]
  have "slots_ok (snd (pop_slot p))" and "length (contents p) = Suc (length (contents (snd (pop_slot p))))"
    by (simp, metis length_Cons)
  then show ?thesis using assms(1) by (auto simp: bounded_def)
qed

lemma sys_inv_push:
  assumes "grows grow" and "sys_inv grow s"
  shows "sys_inv grow (push_sys grow v s)"
proof -
  let ?p = "pump s"
  have b: "bounded grow ?p" using assms(2) by (simp add: sys_inv_def)
  consider "inputEnd ?p \<or> isStopped ?p" | "\<not> inputEnd ?p" "\<not> isStopped ?p" "pending ?p \<ge> maxPending ?p"
    | "\<not> inputEnd ?p" "\<not> isStopped ?p" "pending ?p < maxPending ?p" by linarith
  then show ?thesis
  proof cases
    case 1
    then show ?thesis using assms(2) by (auto simp: push_sys_def Push_def)
  next
    case 2
    then show ?thesis using assms(2)
      by (auto simp: push_sys_def Push_def inv_defs bounded_def slots_ok_def contents_def isStopped_def)
  next
    case 3
    have "pc s \<noteq> Done" using 3 assms(2) by (auto simp: inv_defs)
    then show ?thesis
      using 3 assms(2) bounded_push [OF assms(1) b 3(3), of v]
      by (simp add: push_sys_def Push_def inv_defs isStopped_def)
  qed
qed

lemma run_locked_cases:
  assumes "run_locked p = Some (c, p')" and "slots_ok p"
  obtains "c = Done" "p' = p" "isStopped p"
  | "c = Done" "p' = p" "\<not> isStopped p" "inputEnd p" "contents p = []"
  | v where "c = Select v" "pop_slot p = (v, p')" "contents p \<noteq> []" "\<not> isStopped p"
  using assms
  by (auto simp: run_locked_def pending_contents split: if_splits prod.splits)

lemma sys_inv_run:
  assumes "sys_inv grow s" and "run_step b s = Some s'"
  shows "sys_inv grow s'"
proof (cases "pc s")
  case Loop
  then obtain c p where rl: "run_locked (pump s) = Some (c, p)"
    using assms(2) by (auto simp: run_step_def split: option.splits)
  have ok: "slots_ok (pump s)" and b: "bounded grow (pump s)"
    using assms(1) by (simp_all add: sys_inv_def bounded_def)
  show ?thesis
  proof (rule run_locked_cases [OF rl ok])
    assume c: "c = Done" "p = pump s" "isStopped (pump s)"
    then have "s' = s\<lparr>pc := Done, out_closes := out_closes s + 1\<rparr>"
      using assms(2) Loop rl by (simp add: run_step_def)
    then show ?thesis using assms(1) Loop c by (auto simp: inv_defs)
  next
    assume c: "c = Done" "p = pump s" "\<not> isStopped (pump s)" "inputEnd (pump s)" "contents (pump s) = []"
    then have "s' = s\<lparr>pc := Done, out_closes := out_closes s + 1\<rparr>"
      using assms(2) Loop rl by (simp add: run_step_def)
    then show ?thesis using assms(1) Loop c by (auto simp: inv_defs)
  next
    fix v
    assume v: "c = Select v" "pop_slot (pump s) = (v, p)" "contents (pump s) \<noteq> []" "\<not> isStopped (pump s)"
    then have s': "s' = s\<lparr>pump := p, pc := Select v\<rparr>"
      using assms(2) Loop rl by (simp add: run_step_def)
    have "contents (pump s) = v # contents p" and "bounded grow p"
      using pop_slot_ok [OF ok v(3)] bounded_pop [OF b v(3)] v(2) by simp_all
    then show ?thesis
      using assms(1) Loop v pop_slot_fields [of "pump s"] s' by (simp add: inv_defs isStopped_def)
  qed
next
  case (Select v)
  then show ?thesis using assms
    by (auto simp: run_step_def inv_defs prefix_def split: if_splits)
next
  case Deliver
  then show ?thesis using assms by (auto simp: run_step_def inv_defs)
next
  case Done
  then show ?thesis using assms by (simp add: run_step_def)
qed

lemma lossless_prefix: "lossless s \<Longrightarrow> prefix (delivered s) (accepted s)"
  by (auto simp: lossless_def split: if_splits)

lemma sys_inv_step:
  assumes "grows grow" and "sys_inv grow s" and "pump_step grow s s'"
  shows "sys_inv grow s'"
  using assms(3)
proof cases
  case (run b)
  then show ?thesis by (rule sys_inv_run [OF assms(2)])
next
  case (push v)
  then show ?thesis using sys_inv_push [OF assms(1,2)] by simp
next
  case close
  then show ?thesis using assms(2)
    by (auto simp: inv_defs Close_def bounded_def slots_ok_def contents_def isStopped_def)
next
  case stop
  have "prefix (delivered s) (accepted s)" using lossless_prefix [of s] assms(2) by (simp add: sys_inv_def)
  then show ?thesis using stop assms(2)
    by (auto simp: inv_defs Stop_def bounded_def slots_ok_def contents_def isStopped_def split: if_splits)
next
  case receive
  then show ?thesis using assms(2) by (auto simp: inv_defs)
qed

lemma sys_inv_reachable:
  assumes "grows grow" and "(pump_step grow)\<^sup>*\<^sup>* (init_sys m c) s"
  shows "sys_inv grow s"
  using assms(2) by (induction rule: rtranclp_induct) (simp_all add: sys_inv_init sys_inv_step [OF assms(1)])

section \<open>Termination of the goroutine\<close>

fun run_for :: "nat \<Rightarrow> bool \<Rightarrow> 'v pump_sys \<Rightarrow> 'v pump_sys" where
  "run_for 0 b s = s"
| "run_for (Suc n) b s = (case run_step b s of None \<Rightarrow> s | Some s' \<Rightarrow> run_for n b s')"

primrec pc_work :: "'v pump_pc \<Rightarrow> nat" where
  "pc_work Loop = 1"
| "pc_work (Select v) = 3"
| "pc_work Deliver = 2"
| "pc_work Done = 0"

definition work :: "'v pump_sys \<Rightarrow> nat" where
  "work s = 3 * length (contents (pump s)) + pc_work (pc s)"

text \<open>Input has ended and the consumer still asks for everything that was accepted.\<close>

definition draining :: "'v pump_sys \<Rightarrow> bool" where
  "draining s = (inputEnd (pump s) \<and> \<not> isStopped (pump s) \<and>
     length (accepted s) \<le> receives s + out_cap s)"

lemma run_step_draining:
  assumes "sys_inv grow s" and "draining s" and "pc s \<noteq> Done"
  obtains s' where "run_step b s = Some s'" "work s' < work s" "draining s'" "accepted s' = accepted s"
proof -
  have ok: "slots_ok (pump s)" and inv: "lossless s"
    using assms(1) by (simp_all add: sys_inv_def bounded_def)
  show ?thesis
  proof (cases "pc s")
    case Loop
    show ?thesis
    proof (cases "contents (pump s) = []")
      case True
      then have "run_step b s = Some (s\<lparr>pc := Done, out_closes := out_closes s + 1\<rparr>)"
        using Loop assms(2) ok by (simp add: run_step_def run_locked_def pending_contents draining_def)
      then show ?thesis using that Loop assms(2) by (simp add: work_def draining_def)
    next
      case False
      obtain v p where pop: "pop_slot (pump s) = (v, p)" by force
      then have "run_step b s = Some (s\<lparr>pump := p, pc := Select v\<rparr>)"
        using Loop assms(2) ok False
        by (simp add: run_step_def run_locked_def pending_contents draining_def)
      moreover have "contents (pump s) = v # contents p"
        using pop_slot_ok [OF ok False] pop by simp
      ultimately show ?thesis using that Loop assms(2) pop_slot_fields [of "pump s"] pop
        by (simp add: work_def draining_def isStopped_def)
    qed
  next
    case (Select v)
    then have "accepted s = delivered s @ v # contents (pump s)"
      using inv by (simp add: lossless_def)
    then have "out_ready s" using assms(2) by (auto simp: draining_def out_ready_def)
    then have "run_step b s = Some (s\<lparr>delivered := delivered s @ [v], pc := Deliver\<rparr>)"
      using Select assms(2) by (simp add: run_step_def draining_def)
    then show ?thesis using that Select assms(2) by (simp add: work_def draining_def)
  next
    case Deliver
    then have "run_step b s = Some (s\<lparr>callbacks := callbacks s + 1, pc := Loop\<rparr>)"
      by (simp add: run_step_def)
    then show ?thesis using that Deliver assms(2) by (simp add: work_def draining_def)
  next
    case Done
    then show ?thesis using assms(3) by simp
  qed
qed

lemma run_for_draining:
  assumes "sys_inv grow s" and "draining s" and "work s \<le> n"
  shows "pc (run_for n b s) = Done \<and> accepted (run_for n b s) = accepted s \<and>
         draining (run_for n b s) \<and> sys_inv grow (run_for n b s)"
  using assms
proof (induction n arbitrary: s)
  case 0
  then show ?case by (cases "pc s") (auto simp: work_def)
next
  case (Suc n)
  show ?case
  proof (cases "pc s = Done")
    case True
    then have "run_for (Suc n) b s = s" by (simp add: run_step_def)
    then show ?thesis using Suc.prems True by simp
  next
    case False
    from run_step_draining [OF Suc.prems(1,2) False]
    obtain s' where s': "run_step b s = Some s'" "work s' < work s" "draining s'" "accepted s' = accepted s" .
    have "sys_inv grow s'" by (rule sys_inv_run [OF Suc.prems(1) s'(1)])
    from Suc.IH [OF this s'(3)] show ?thesis using s' Suc.prems(3) by simp
  qed
qed

lemma run_for_stopped:
  assumes "isStopped (pump s)"
  shows "pc (run_for 3 b s) = Done"
proof -
  have "pc s' = Done \<or> pc s' = Loop \<and> pc (run_for 1 b s') = Done" if "s' = run_for 2 b s" for s'
  proof (cases "pc s")
    case (Select v)
    then show ?thesis using that assms
      by (auto simp: numeral_2_eq_2 run_step_def run_locked_def)
  qed (use that assms in \<open>auto simp: numeral_2_eq_2 run_step_def run_locked_def\<close>)
  moreover have "run_for 3 b s = run_for 1 b (run_for 2 b s)"
    by (simp add: numeral_3_eq_3 numeral_2_eq_2 split: option.splits)
  ultimately show ?thesis by (auto simp: run_step_def)
qed

section \<open>Properties\<close>

text \<open>
  C13. Lossless, ordered delivery: in every interleaving of producers, consumer, \<^verbatim>\<open>Close\<close>,
  \<^verbatim>\<open>Stop\<close> and the pump goroutine, what was handed to the output channel is a prefix of the values
  whose \<^verbatim>\<open>Push\<close> returned true, in that order, and it is all of them once the pump finished
  without having been stopped.
\<close>

theorem pump_lossless:
  assumes "grows grow" and "(pump_step grow)\<^sup>*\<^sup>* (init_sys m c) s"
  shows "prefix (delivered s) (accepted s) \<and>
         (pc s = Done \<and> \<not> isStopped (pump s) \<longrightarrow> delivered s = accepted s)"
proof -
  have "lossless s" and "finished_right s"
    using sys_inv_reachable [OF assms] by (simp_all add: sys_inv_def)
  then show ?thesis using lossless_prefix [of s] by (auto simp: lossless_def finished_right_def)
qed

lemma run_for_reachable: "(pump_step grow)\<^sup>*\<^sup>* s (run_for n b s)"
  by (induction n b s rule: run_for.induct)
     (auto split: option.splits intro: converse_rtranclp_into_rtranclp pump_step.run)

text \<open>A run used by the witnesses: three values pushed, one receive, then end of input.\<close>

definition sample_run :: "nat pump_sys" where
  "sample_run =
     (let s = push_sys go_grow (Some 3) (push_sys go_grow (Some 2) (push_sys go_grow (Some 1) (init_sys 2 1)));
          s = s\<lparr>receives := 1\<rparr>
      in s\<lparr>pump := Close (pump s)\<rparr>)"

lemma push_reachable: "(pump_step grow)\<^sup>*\<^sup>* a s \<Longrightarrow> (pump_step grow)\<^sup>*\<^sup>* a (push_sys grow v s)"
  by (erule rtranclp.rtrancl_into_rtrancl) (rule push)

lemma sample_run_reachable: "(pump_step go_grow)\<^sup>*\<^sup>* (init_sys 2 1) sample_run"
proof -
  let ?s1 = "push_sys go_grow (Some 1) (init_sys 2 1) :: nat pump_sys"
  let ?s2 = "push_sys go_grow (Some 2) ?s1"
  let ?s3 = "push_sys go_grow (Some 3) ?s2"
  have "receives ?s3 = 0" by (simp add: push_sys_def init_sys_def case_prod_beta)
  then have "pump_step go_grow ?s3 (?s3\<lparr>receives := 1\<rparr>)" using receive [of go_grow ?s3] by simp
  moreover have "(pump_step go_grow)\<^sup>*\<^sup>* (init_sys 2 1) ?s3"
    by (intro push_reachable rtranclp.rtrancl_refl)
  ultimately have "(pump_step go_grow)\<^sup>*\<^sup>* (init_sys 2 1) (?s3\<lparr>receives := 1\<rparr>)"
    by (rule rtranclp.rtrancl_into_rtrancl [rotated])
  then show ?thesis
    unfolding sample_run_def Let_def by (rule rtranclp.rtrancl_into_rtrancl) (rule close)
qed

theorem pump_lossless_witness:
  "pc (run_for 9 True sample_run) = Done \<and> accepted (run_for 9 True sample_run) = [Some 1, Some 2] \<and>
   delivered (run_for 9 True sample_run) = accepted (run_for 9 True sample_run)"
proof -
  have r: "(pump_step go_grow)\<^sup>*\<^sup>* (init_sys 2 1) (run_for 9 True sample_run)"
    using sample_run_reachable run_for_reachable by (rule rtranclp_trans)
  have "pc (run_for 9 True sample_run) = Done" "\<not> isStopped (pump (run_for 9 True sample_run))"
    "accepted (run_for 9 True sample_run) = [Some 1, Some 2]"
    by (simp_all add: sample_run_def push_sys_def Push_def init_sys_def NewStreamPump_def pending_def
        compact_def append_slot_def isStopped_def go_grow_def Close_def run_step_def run_locked_def
        pop_slot_def out_ready_def eval_nat_numeral)
  then show ?thesis using pump_lossless [OF grows_go_grow r] by simp
qed

text \<open>
  C29. The goroutine terminates: once input has ended, with a consumer that keeps receiving, the
  pump delivers everything that is still queued, closes the channel exactly once and returns,
  within three steps per queued value.
\<close>

theorem pump_drains:
  assumes "grows grow" and "(pump_step grow)\<^sup>*\<^sup>* (init_sys m c) s"
    and "inputEnd (pump s)" and "\<not> isStopped (pump s)"
    and "length (accepted s) \<le> receives s + out_cap s"
  shows "pc (run_for (3 * length (contents (pump s)) + 3) b s) = Done \<and>
         delivered (run_for (3 * length (contents (pump s)) + 3) b s) = accepted s \<and>
         out_closes (run_for (3 * length (contents (pump s)) + 3) b s) = 1"
proof -
  let ?s = "run_for (3 * length (contents (pump s)) + 3) b s"
  have "draining s" using assms(3-5) by (simp add: draining_def)
  moreover have "work s \<le> 3 * length (contents (pump s)) + 3"
    by (cases "pc s") (simp_all add: work_def)
  ultimately have d: "pc ?s = Done" "accepted ?s = accepted s" "draining ?s" "sys_inv grow ?s"
    using run_for_draining [OF sys_inv_reachable [OF assms(1,2)]] by blast+
  then have "lossless ?s" and "finished_right ?s" and "\<not> isStopped (pump ?s)"
    by (simp_all add: sys_inv_def draining_def)
  then show ?thesis using d by (simp add: lossless_def finished_right_def)
qed

theorem pump_drains_witness:
  "inputEnd (pump sample_run) \<and> length (contents (pump sample_run)) = 2 \<and>
   pc (run_for 9 True sample_run) = Done \<and> delivered (run_for 9 True sample_run) = [Some 1, Some 2] \<and>
   out_closes (run_for 9 True sample_run) = 1"
proof -
  note sample = sample_run_def push_sys_def Push_def init_sys_def NewStreamPump_def pending_def
    compact_def append_slot_def isStopped_def go_grow_def Let_def Close_def contents_def
  have "inputEnd (pump sample_run)" "\<not> isStopped (pump sample_run)"
    "accepted sample_run = [Some 1, Some 2]" "receives sample_run = 1" "out_cap sample_run = 1"
    "length (contents (pump sample_run)) = 2"
    by (simp_all add: sample)
  with pump_drains [OF grows_go_grow sample_run_reachable, of True] show ?thesis by simp
qed

text \<open>
  \<^verbatim>\<open>Stop\<close> is never stuck behind a slow consumer: from any state in which the pump has been
  stopped its goroutine returns within three steps, whether or not anybody receives.
\<close>

theorem stop_terminates: "pc (run_for 3 b (s\<lparr>pump := Stop (pump s)\<rparr>)) = Done"
  by (rule run_for_stopped) (simp add: isStopped_def Stop_def)

text \<open>
  C30. Bounded memory: in every reachable state at most \<open>maxPending\<close> values are queued, all
  consumed slots of the slice are cleared, and the backing array was last grown when it held fewer
  than \<open>maxPending\<close> values, however long the stream has been running.
\<close>

theorem pump_bounded_memory:
  assumes "grows grow" and "(pump_step grow)\<^sup>*\<^sup>* (init_sys m c) s"
  shows "int (length (contents (pump s))) \<le> maxPending (pump s) \<and>
         take (head (pump s)) (queue (pump s)) = replicate (head (pump s)) None \<and>
         (queue_cap (pump s) = 0 \<or> (\<exists>n. int n < maxPending (pump s) \<and> queue_cap (pump s) = grow n))"
  using sys_inv_reachable [OF assms] by (simp add: sys_inv_def bounded_def slots_ok_def)

theorem pump_bounded_memory_witness:
  "int (length (contents (pump sample_run))) \<le> maxPending (pump sample_run) \<and> queue_cap (pump sample_run) = 2"
  using pump_bounded_memory [OF grows_go_grow sample_run_reachable]
  by (simp add: sample_run_def push_sys_def Push_def init_sys_def NewStreamPump_def pending_def
      compact_def append_slot_def isStopped_def go_grow_def Let_def Close_def)

end
