(* ===== verification/Credit_Gate.thy ===== *)
theory Credit_Gate
  imports Vrpc_Prelude
begin

text \<open>
  The sender side of credit-based flow control, \<^verbatim>\<open>valuerpc/credit.go\<close>. Every method runs under the
  gate's mutex and is an atomic function; \<open>Acquire\<close> returns \<^term>\<open>None\<close> while it waits on the
  condition variable. The credit is a 64-bit counter that wraps. A schedule of operations of any
  number of goroutines is a list; \<open>gate_run\<close> executes it, a blocked \<open>Acquire\<close> having no effect.
\<close>

record CreditGate =
  credit :: int64
  gate_closed :: bool

definition NewCreditGate :: CreditGate where
  "NewCreditGate = \<lparr>credit = 0, gate_closed = False\<rparr>"

definition Acquire :: "CreditGate \<Rightarrow> (bool \<times> CreditGate) option" where
  "Acquire g =
     (if sint (credit g) \<le> 0 \<and> \<not> gate_closed g then None
      else if gate_closed g then Some (False, g)
      else Some (True, g\<lparr>credit := credit g - 1\<rparr>))"

definition Grant :: "int64 \<Rightarrow> CreditGate \<Rightarrow> CreditGate" where
  "Grant n g = (if sint n \<le> 0 then g else g\<lparr>credit := credit g + n\<rparr>)"

definition gate_Close :: "CreditGate \<Rightarrow> CreditGate" where
  "gate_Close g = g\<lparr>gate_closed := True\<rparr>"

section \<open>Schedules\<close>

datatype gate_op = OpGrant int64 | OpAcquire | OpClose

text \<open>The number of successful \<open>Acquire\<close>s of a schedule, and the gate it leaves.\<close>

fun gate_run :: "gate_op list \<Rightarrow> CreditGate \<Rightarrow> nat \<times> CreditGate" where
  "gate_run [] g = (0, g)"
| "gate_run (OpGrant n # ops) g = gate_run ops (Grant n g)"
| "gate_run (OpClose # ops) g = gate_run ops (gate_Close g)"
| "gate_run (OpAcquire # ops) g =
     (case Acquire g of
        Some (True, g') \<Rightarrow> (let (n, g'') = gate_run ops g' in (Suc n, g''))
      | Some (False, g') \<Rightarrow> gate_run ops g'
      | None \<Rightarrow> gate_run ops g)"

primrec granted_by :: "gate_op list \<Rightarrow> int" where
  "granted_by [] = 0"
| "granted_by (p # ops) =
     (case p of OpGrant n \<Rightarrow> max 0 (sint n) | _ \<Rightarrow> 0) + granted_by ops"

lemma granted_by_nonneg: "0 \<le> granted_by ops"
  by (induction ops) (auto split: gate_op.splits)

lemma sint_Grant:
  assumes "0 \<le> sint (credit g)" and "sint (credit g) + max 0 (sint n) < 2 ^ 63"
  shows "sint (credit (Grant n g)) = sint (credit g) + max 0 (sint n)"
  using assms sint_add_no_overflow [of "credit g" n] by (auto simp: Grant_def max_def)

lemma Acquire_True:
  assumes "Acquire g = Some (True, g')"
  shows "0 < sint (credit g)" and "\<not> gate_closed g" and "sint (credit g') = sint (credit g) - 1"
    and "gate_closed g' = gate_closed g"
proof -
  show pos: "0 < sint (credit g)" and "\<not> gate_closed g"
    using assms by (auto simp: Acquire_def split: if_splits)
  have "g' = g\<lparr>credit := credit g - 1\<rparr>" using assms by (auto simp: Acquire_def split: if_splits)
  then show "sint (credit g') = sint (credit g) - 1" and "gate_closed g' = gate_closed g"
    using sint_diff_one [of "credit g"] pos by simp_all
qed

lemma gate_run_conserves:
  assumes "0 \<le> sint (credit g)" and "sint (credit g) + granted_by ops < 2 ^ 63"
  shows "int (fst (gate_run ops g)) + sint (credit (snd (gate_run ops g)))
         = sint (credit g) + granted_by ops \<and> 0 \<le> sint (credit (snd (gate_run ops g)))"
  using assms
proof (induction ops g rule: gate_run.induct)
  case (1 g)
  then show ?case by simp
next
  case (2 n ops g)
  have "sint (credit (Grant n g)) = sint (credit g) + max 0 (sint n)"
    using 2 granted_by_nonneg [of ops] by (intro sint_Grant) auto
  then show ?case using 2 by simp
next
  case (3 ops g)
  then show ?case by (simp add: gate_Close_def)
next
  case (4 ops g)
  show ?case
  proof (cases "Acquire g")
    case None
    then show ?thesis using 4 by simp
  next
    case (Some r)
    obtain b g' where r: "r = (b, g')" by force
    show ?thesis
    proof (cases b)
      case True
      then have acq: "Acquire g = Some (True, g')" using Some r by simp
      have "int (fst (gate_run ops g')) + sint (credit (snd (gate_run ops g')))
          = sint (credit g') + granted_by ops \<and> 0 \<le> sint (credit (snd (gate_run ops g')))"
        using "4.IH"(2) [OF Some r [symmetric]] True 4(4,5) Acquire_True [OF acq] by simp
      then show ?thesis using acq Acquire_True [OF acq] by (simp add: case_prod_beta)
    next
      case False
      then have "g' = g" using Some r by (auto simp: Acquire_def split: if_splits)
      then show ?thesis using "4.IH"(3) [OF Some r [symmetric]] False Some r 4(4,5) by simp
    qed
  qed
qed

section \<open>Properties\<close>

text \<open>
  Credit is conserved: over every schedule of grants, acquires and closes of concurrent
  goroutines on a new gate, the successful acquires and the remaining credit add up to exactly what
  was granted, as long as the total granted stays below \<open>2^63\<close>; so a sender never sends more values
  than the receiver granted.
\<close>

theorem gate_conserves_credit:
  assumes "granted_by ops < 2 ^ 63"
  shows "int (fst (gate_run ops NewCreditGate)) + sint (credit (snd (gate_run ops NewCreditGate)))
         = granted_by ops \<and>
         int (fst (gate_run ops NewCreditGate)) \<le> granted_by ops"
  using gate_run_conserves [of NewCreditGate ops] assms by (simp add: NewCreditGate_def)

theorem gate_conserves_credit_witness:
  "int (fst (gate_run [OpGrant 2, OpAcquire, OpAcquire, OpAcquire, OpGrant 1, OpAcquire] NewCreditGate)) \<le> 3 \<and>
   granted_by [OpGrant 2, OpAcquire, OpAcquire, OpAcquire, OpGrant 1, OpAcquire] = 3"
  using gate_conserves_credit [of "[OpGrant 2, OpAcquire, OpAcquire, OpAcquire, OpGrant 1, OpAcquire]"]
  by simp

text \<open>
  The bound of the previous property is sharp: the counter is a signed 64-bit integer and a
  grant is added without a check, so two grants of \<open>2^62\<close> leave a negative credit, and a sender
  that holds \<open>2^63\<close> granted credits waits.
\<close>

theorem grant_wraps_and_blocks:
  "sint (credit (Grant (2 ^ 62) (Grant (2 ^ 62) NewCreditGate))) = - (2 ^ 63) \<and>
   Acquire (Grant (2 ^ 62) (Grant (2 ^ 62) NewCreditGate)) = None"
  by (simp add: Grant_def NewCreditGate_def Acquire_def)

text \<open>
  Closing the gate unblocks for good: after \<^verbatim>\<open>Close\<close> every \<open>Acquire\<close> returns false, whatever is
  granted later and in whatever order, and no further value is sent.
\<close>

theorem closed_gate_refuses:
  "fst (gate_run ops (gate_Close g)) = 0 \<and>
   Acquire (snd (gate_run ops (gate_Close g))) = Some (False, snd (gate_run ops (gate_Close g)))"
proof -
  have "gate_closed g \<Longrightarrow> fst (gate_run ops g) = 0 \<and> gate_closed (snd (gate_run ops g))" for g
  proof (induction ops arbitrary: g)
    case (Cons op ops)
    then show ?case by (cases op) (simp_all add: Grant_def gate_Close_def Acquire_def)
  qed simp
  then show ?thesis by (simp add: gate_Close_def Acquire_def)
qed

end
