(* ===== verification/Flow_Control.thy ===== *)
theory Flow_Control
  imports Stream_Pump Credit_Gate
begin

text \<open>
  Credit-based flow control end to end: a sender behind a \<^typ>\<open>CreditGate\<close>, the wire in both
  directions, and a receiver that drains a \<^typ>\<open>'v StreamPump\<close> and grants credit back in batches. The
  four places of the sources that grant credit (\<^verbatim>\<open>rpcRequestCtx.grantRecv\<close>,
  \<^verbatim>\<open>clientStream.grantRecv\<close>, \<^verbatim>\<open>servingRequest.grantInbound\<close>,
  \<^verbatim>\<open>clientServingRequest.grantInbound\<close>) do the same arithmetic, here \<open>replenish\<close>; their own theories
  interpret the locale \<open>credit_receiver\<close>. A receiver that opened the stream (\<open>acked\<close>) gets a
  \<^verbatim>\<open>StreamReady\<close> through its pump first, counts from \<open>-1\<close>, and sends the initial window only once its
  consumer has taken that first item; a receiver that serves the stream counts from zero and grants
  at once.
\<close>

section \<open>Batched grants\<close>

definition replenish :: "int64 \<Rightarrow> int64 \<Rightarrow> int64 \<times> int64 option" where
  "replenish window counter =
     (let counter = counter + 1;
          batch = div64 window 2;
          batch = (if sint batch < 1 then 1 else batch)
      in if sint counter \<ge> sint batch then (0, Some counter) else (counter, None))"

definition half_window :: "int64 \<Rightarrow> int" where
  "half_window w = max 1 (sint w div 2)"

lemma sint_bounds: "- (2 ^ 63) \<le> sint (w :: int64)" "sint (w :: int64) < 2 ^ 63"
  using sint_ge [of w] sint_lt [of w] by simp_all

lemma replenish_cases:
  assumes "0 < sint w" and "- 1 \<le> sint c" and "sint c < half_window w"
  shows "replenish w c =
    (if sint c + 1 \<ge> half_window w then (0, Some (c + 1)) else (c + 1, None)) \<and>
    sint (c + 1) = sint c + 1"
proof -
  have w: "sint w < 2 ^ 63" by (rule sint_bounds)
  then have "half_window w < 2 ^ 62 + 1" by (simp add: half_window_def)
  then have "sint (c + 1) = sint c + 1"
    using assms(2,3) sint_add_no_overflow [of c 1] by simp
  moreover have "sint (if sint (div64 w 2) < 1 then 1 else div64 w 2) = half_window w"
    using sint_div64_2 [OF less_imp_le [OF assms(1)]] by (simp add: half_window_def)
  ultimately show ?thesis by (simp add: replenish_def Let_def)
qed

lemma replenish_conserves:
  assumes "0 < sint w" and "- 1 \<le> sint c" and "sint c < half_window w"
  shows "sint (fst (replenish w c)) + (case snd (replenish w c) of None \<Rightarrow> 0 | Some g \<Rightarrow> sint g) = sint c + 1"
    and "0 \<le> sint (fst (replenish w c))" and "sint (fst (replenish w c)) < half_window w"
    and "snd (replenish w c) = Some g \<Longrightarrow> 0 < sint g"
  using replenish_cases [OF assms] assms by (auto simp: half_window_def split: if_splits)

text \<open>What the four receivers have in common, and what a run of deliveries grants in total.\<close>

locale credit_receiver =
  fixes granting :: "'r \<Rightarrow> bool"
    and window_of :: "'r \<Rightarrow> int64"
    and counter_of :: "'r \<Rightarrow> int64"
    and deliver :: "'r \<Rightarrow> 'r \<times> int64 option"
  assumes deliver_granting: "granting (fst (deliver r)) = granting r"
    and deliver_window: "window_of (fst (deliver r)) = window_of r"
    and deliver_counter: "counter_of (fst (deliver r)) = fst (replenish (window_of r) (counter_of r))"
    and deliver_grant: "granting r \<Longrightarrow> snd (deliver r) = snd (replenish (window_of r) (counter_of r))"
begin

fun deliveries :: "nat \<Rightarrow> 'r \<Rightarrow> int \<times> 'r" where
  "deliveries 0 r = (0, r)"
| "deliveries (Suc n) r =
     (let (r', g) = deliver r; (total, r'') = deliveries n r'
      in (total + (case g of None \<Rightarrow> 0 | Some c \<Rightarrow> sint c), r''))"

lemma deliveries_conserve:
  assumes "granting r" and "0 < sint (window_of r)" and "- 1 \<le> sint (counter_of r)"
    and "sint (counter_of r) < half_window (window_of r)"
  shows "fst (deliveries n r) + sint (counter_of (snd (deliveries n r))) = sint (counter_of r) + int n \<and>
         (n \<noteq> 0 \<or> 0 \<le> sint (counter_of r) \<longrightarrow> 0 \<le> sint (counter_of (snd (deliveries n r)))) \<and>
         sint (counter_of (snd (deliveries n r))) < half_window (window_of r)"
  using assms
proof (induction n arbitrary: r)
  case 0
  then show ?case by simp
next
  case (Suc n)
  let ?r = "fst (deliver r)"
  note rep = replenish_conserves [OF Suc.prems(2-4)]
  have "granting ?r" "window_of ?r = window_of r" "0 \<le> sint (counter_of ?r)"
    "sint (counter_of ?r) < half_window (window_of r)"
    using Suc.prems(1) rep(2,3) by (simp_all add: deliver_granting deliver_window deliver_counter)
  moreover have "(case snd (deliver r) of None \<Rightarrow> 0 | Some c \<Rightarrow> sint c) + sint (counter_of ?r)
      = sint (counter_of r) + 1"
    using rep(1) Suc.prems(1) by (simp add: deliver_grant deliver_counter)
  ultimately show ?case
    using Suc.IH [of ?r] Suc.prems(2) by (simp add: case_prod_beta)
qed

end

section \<open>The composed system\<close>

text \<open>A frame of the stream: the acknowledgement, a value, or a value that is nil or \<^verbatim>\<open>Null\<close>.\<close>

datatype 'v frame = FReady | FValue 'v | FNull

record 'v flow =
  gate :: CreditGate
  wire :: "'v frame list"
  grants :: "int64 list"
  rx :: "'v pump_sys"
  window :: int64
  counter :: int64
  acked :: bool
  opened :: bool
  sent :: "'v list"
  nulls :: nat

definition init_flow :: "bool \<Rightarrow> int64 \<Rightarrow> nat \<Rightarrow> 'v flow" where
  "init_flow ack w cap =
     \<lparr>gate = NewCreditGate, wire = (if ack then [FReady] else []), grants = [],
      rx = init_sys (sint w) cap, window = w, counter = (if ack then - 1 else 0),
      acked = ack, opened = False, sent = [], nulls = 0\<rparr>"

text \<open>
  What the receiving connection loop does with a frame: \<^verbatim>\<open>StreamReady\<close> and values go to the pump, a
  \<^verbatim>\<open>StreamValue\<close> whose payload is nil or \<^verbatim>\<open>Null\<close> is dropped.
\<close>

primrec receive_frame :: "(nat \<Rightarrow> nat) \<Rightarrow> 'v frame \<Rightarrow> 'v flow \<Rightarrow> 'v flow" where
  "receive_frame grow FReady s = s\<lparr>rx := push_sys grow None (rx s)\<rparr>"
| "receive_frame grow (FValue v) s = s\<lparr>rx := push_sys grow (Some v) (rx s)\<rparr>"
| "receive_frame grow FNull s = s\<lparr>nulls := nulls s + 1\<rparr>"

text \<open>The deliver hook runs in the pump goroutine, right after a value was handed to the consumer.\<close>

definition deliver_hook :: "'v flow \<Rightarrow> 'v flow" where
  "deliver_hook s =
     (let (c, g) = replenish (window s) (counter s)
      in s\<lparr>counter := c, grants := grants s @ (case g of None \<Rightarrow> [] | Some n \<Rightarrow> [n])\<rparr>)"

inductive flow_step :: "(nat \<Rightarrow> nat) \<Rightarrow> 'v flow \<Rightarrow> 'v flow \<Rightarrow> bool" for grow where
  send: "Acquire (gate s) = Some (True, g) \<Longrightarrow>
    flow_step grow s (s\<lparr>gate := g, wire := wire s @ [FValue v], sent := sent s @ [v]\<rparr>)"
| send_null: "Acquire (gate s) = Some (True, g) \<Longrightarrow>
    flow_step grow s (s\<lparr>gate := g, wire := wire s @ [FNull]\<rparr>)"
| arrive: "wire s = f # fs \<Longrightarrow> flow_step grow s (receive_frame grow f (s\<lparr>wire := fs\<rparr>))"
| pump: "run_step b (rx s) = Some p \<Longrightarrow>
    flow_step grow s
      (if pc (rx s) = Deliver then deliver_hook (s\<lparr>rx := p\<rparr>) else s\<lparr>rx := p\<rparr>)"
| consume: "flow_step grow s (s\<lparr>rx := (rx s)\<lparr>receives := receives (rx s) + 1\<rparr>\<rparr>)"
| open_window: "\<not> opened s \<Longrightarrow> (acked s \<longrightarrow> delivered (rx s) \<noteq> []) \<Longrightarrow>
    flow_step grow s (s\<lparr>opened := True, grants := grants s @ [window s]\<rparr>)"
| granted: "grants s = n # ns \<Longrightarrow>
    flow_step grow s (s\<lparr>gate := Grant n (gate s), grants := ns\<rparr>)"

section \<open>The accounting invariant\<close>

definition values_on_wire :: "'v frame list \<Rightarrow> int" where
  "values_on_wire fs = int (length (filter (\<lambda>f. f \<noteq> FReady) fs))"

definition acks_on_wire :: "'v frame list \<Rightarrow> int" where
  "acks_on_wire fs = int (length (filter (\<lambda>f. f = FReady) fs))"

text \<open>Items the pump accepted whose deliver hook has not run yet.\<close>

definition undelivered :: "'v pump_sys \<Rightarrow> int" where
  "undelivered p = int (length (accepted p)) - int (callbacks p)"

definition in_flight :: "'v flow \<Rightarrow> int" where
  "in_flight s = sint (credit (gate s)) + sum_list (map sint (grants s)) + values_on_wire (wire s)
     + undelivered (rx s) + sint (counter s) + acks_on_wire (wire s) + int (nulls s)"

primrec payloads :: "'v frame list \<Rightarrow> 'v option list" where
  "payloads [] = []"
| "payloads (f # fs) = (case f of FReady \<Rightarrow> [None] | FValue v \<Rightarrow> [Some v] | FNull \<Rightarrow> []) @ payloads fs"

definition account :: "'v flow \<Rightarrow> bool" where
  "account s =
     (0 \<le> sint (credit (gate s)) \<and> list_all (\<lambda>n. 0 < sint n) (grants s) \<and>
      in_flight s = (if opened s then sint (window s) else 0) \<and>
      - 1 \<le> sint (counter s) \<and> sint (counter s) < half_window (window s) \<and>
      \<not> gate_closed (gate s))"

definition ack_state :: "'v flow \<Rightarrow> bool" where
  "ack_state s =
     ((sint (counter s) < 0 \<longrightarrow> acked s \<and> callbacks (rx s) = 0) \<and>
      (opened s \<and> acked s \<longrightarrow> delivered (rx s) \<noteq> []) \<and>
      (FReady \<in> set (wire s) \<longrightarrow> (\<exists>fs. wire s = FReady # fs \<and> accepted (rx s) = [] \<and> FReady \<notin> set fs)))"

definition rx_open :: "'v flow \<Rightarrow> bool" where
  "rx_open s = (\<not> isStopped (pump (rx s)) \<and> \<not> inputEnd (pump (rx s)) \<and>
     maxPending (pump (rx s)) = sint (window s) \<and> 0 < sint (window s))"

definition content :: "'v flow \<Rightarrow> bool" where
  "content s = (accepted (rx s) @ payloads (wire s) = (if acked s then [None] else []) @ map Some (sent s))"

definition flow_inv :: "(nat \<Rightarrow> nat) \<Rightarrow> 'v flow \<Rightarrow> bool" where
  "flow_inv grow s = (sys_inv grow (rx s) \<and> account s \<and> ack_state s \<and> rx_open s \<and> content s)"

lemmas flow_defs = flow_inv_def account_def ack_state_def rx_open_def content_def in_flight_def

lemma payloads_append [simp]: "payloads (fs @ gs) = payloads fs @ payloads gs"
  by (induction fs) simp_all

lemma wire_counts [simp]:
  "values_on_wire [] = 0" "acks_on_wire [] = 0"
  "values_on_wire (f # fs) = (if f = FReady then 0 else 1) + values_on_wire fs"
  "acks_on_wire (f # fs) = (if f = FReady then 1 else 0) + acks_on_wire fs"
  "values_on_wire (fs @ gs) = values_on_wire fs + values_on_wire gs"
  "acks_on_wire (fs @ gs) = acks_on_wire fs + acks_on_wire gs"
  by (simp_all add: values_on_wire_def acks_on_wire_def)

lemma wire_counts_nonneg [simp]: "0 \<le> values_on_wire fs" "0 \<le> acks_on_wire fs"
  by (simp_all add: values_on_wire_def acks_on_wire_def)

lemma sum_grants_nonneg: "list_all (\<lambda>n. 0 < sint n) ns \<Longrightarrow> 0 \<le> sum_list (map sint (ns :: int64 list))"
  by (induction ns) auto

lemma flow_inv_init:
  assumes "0 < sint w"
  shows "flow_inv grow (init_flow ack w cap)"
proof -
  have "sys_inv grow (rx (init_flow ack w cap))" by (simp add: init_flow_def sys_inv_init)
  moreover have "account (init_flow ack w cap)" and "ack_state (init_flow ack w cap)"
    and "rx_open (init_flow ack w cap)" and "content (init_flow ack w cap)"
    using assms
    by (simp_all add: flow_defs init_flow_def init_sys_def NewStreamPump_def NewCreditGate_def
        undelivered_def isStopped_def half_window_def less_max_iff_disj)
  ultimately show ?thesis by (simp add: flow_inv_def)
qed

lemma undelivered_pump:
  assumes "sys_inv grow p" and "\<not> isStopped (pump p)"
  shows "undelivered p = int (length (contents (pump p))) + int (length (in_hand (pc p)))
           + (if pc p = Deliver then 1 else 0)"
  using assms by (auto simp: sys_inv_def lossless_def finished_right_def undelivered_def)


text \<open>The pump accepts every item: its queue never reaches the window when an item arrives.\<close>

lemma room_for_frame:
  assumes "flow_inv grow s" and "wire s = f # fs" and "f \<noteq> FNull"
  shows "pending (pump (rx s)) < maxPending (pump (rx s))"
proof -
  let ?p = "pump (rx s)"
  have inv: "sys_inv grow (rx s)" and open_rx: "rx_open s" and acc: "account s" and ack: "ack_state s"
    using assms(1) by (simp_all add: flow_inv_def)
  have slots: "slots_ok ?p" using inv by (simp add: sys_inv_def bounded_def)
  have und: "undelivered (rx s) = int (length (contents ?p)) + int (length (in_hand (pc (rx s))))
      + (if pc (rx s) = Deliver then 1 else 0)"
    using undelivered_pump [OF inv] open_rx by (simp add: rx_open_def)
  have max: "maxPending ?p = sint (window s)" "0 < sint (window s)"
    using open_rx by (simp_all add: rx_open_def)
  show ?thesis
  proof (cases "f = FReady")
    case True
    then have "accepted (rx s) = []" using ack assms(2) by (auto simp: ack_state_def)
    then have "contents ?p = []"
      using inv open_rx by (auto simp: sys_inv_def lossless_def rx_open_def split: if_splits)
    then show ?thesis using max by (simp add: pending_contents [OF slots])
  next
    case False
    have total: "in_flight s = (if opened s then sint (window s) else 0)"
      and nonneg: "0 \<le> sint (credit (gate s))" "0 \<le> sum_list (map sint (grants s))"
      using acc sum_grants_nonneg by (auto simp: account_def)
    have le: "1 + undelivered (rx s) + sint (counter s) \<le> in_flight s"
      using nonneg False assms(2) wire_counts_nonneg [of fs] by (simp add: in_flight_def)
    show ?thesis
    proof (cases "sint (counter s) < 0")
      case True
      then have neg: "sint (counter s) = - 1" "acked s" "callbacks (rx s) = 0"
        using acc ack by (auto simp: account_def ack_state_def)
      have fin: "callbacks (rx s) + (if pc (rx s) = Deliver then 1 else 0) = length (delivered (rx s))"
        using inv by (simp add: sys_inv_def finished_right_def)
      show ?thesis
      proof (cases "opened s")
        case True
        then have "delivered (rx s) \<noteq> []" using ack neg by (simp add: ack_state_def)
        then have "pc (rx s) = Deliver" using fin neg by (auto split: if_splits)
        then show ?thesis using le total True neg und max by (simp add: pending_contents [OF slots])
      next
        case False
        then show ?thesis using le total neg und max
          by (auto simp: pending_contents [OF slots] split: if_splits)
      qed
    next
      case False
      then show ?thesis using le total und max by (auto simp: pending_contents [OF slots] split: if_splits)
    qed
  qed
qed

lemma push_accepts:
  assumes "rx_open s" and "pending (pump (rx s)) < maxPending (pump (rx s))"
  shows "push_sys grow v (rx s) =
    (rx s)\<lparr>pump := append_slot grow v (compact (pump (rx s))), accepted := accepted (rx s) @ [v]\<rparr>"
  using assms by (simp add: push_sys_def Push_def rx_open_def)

lemma run_locked_fields:
  assumes "run_locked p = Some (c, p')"
  shows "inputEnd p' = inputEnd p" and "stopCh p' = stopCh p" and "maxPending p' = maxPending p"
proof -
  obtain v q where pop: "pop_slot p = (v, q)" by force
  then have "p' = p \<or> p' = q" using assms by (auto simp: run_locked_def split: if_splits)
  then show "inputEnd p' = inputEnd p" and "stopCh p' = stopCh p" and "maxPending p' = maxPending p"
    using pop_slot_fields [of p] pop by auto
qed

lemma run_step_frame:
  assumes "run_step b p = Some p'"
  shows "accepted p' = accepted p" and "receives p' = receives p"
    and "callbacks p' = callbacks p + (if pc p = Deliver then 1 else 0)"
    and "delivered p \<noteq> [] \<Longrightarrow> delivered p' \<noteq> []"
    and "inputEnd (pump p') = inputEnd (pump p)" and "stopCh (pump p') = stopCh (pump p)"
    and "maxPending (pump p') = maxPending (pump p)"
  using assms
  by (auto simp: run_step_def run_locked_fields
      split: pump_pc.splits option.splits prod.splits if_splits)

lemma payloads_None: "None \<in> set (payloads fs) \<longleftrightarrow> FReady \<in> set fs"
  by (induction fs) (auto split: frame.splits)

text \<open>The ack compensates a counter that starts at minus one.\<close>

lemma receiver_nonneg:
  assumes "flow_inv grow s"
  shows "0 \<le> undelivered (rx s) + sint (counter s) + acks_on_wire (wire s)"
proof (cases "sint (counter s) < 0")
  case False
  have "0 \<le> undelivered (rx s)"
    using assms undelivered_pump [of grow "rx s"] by (auto simp: flow_inv_def rx_open_def)
  then show ?thesis using False by (simp add: add_increasing2)
next
  case True
  then have neg: "sint (counter s) = - 1" "acked s" "callbacks (rx s) = 0"
    using assms by (auto simp: flow_inv_def account_def ack_state_def)
  show ?thesis
  proof (cases "accepted (rx s)")
    case Nil
    then have "None \<in> set (payloads (wire s))" using assms neg by (simp add: flow_inv_def content_def)
    then have "FReady \<in> set (wire s)" by (simp add: payloads_None)
    then have "1 \<le> acks_on_wire (wire s)"
      by (auto simp: acks_on_wire_def filter_empty_conv Suc_le_eq)
    then show ?thesis using Nil neg by (simp add: undelivered_def)
  next
    case (Cons a as)
    then show ?thesis using neg by (simp add: undelivered_def)
  qed
qed

lemma flow_inv_send:
  assumes "flow_inv grow s" and "Acquire (gate s) = Some (True, g)"
  shows "flow_inv grow (s\<lparr>gate := g, wire := wire s @ [FValue v], sent := sent s @ [v]\<rparr>)"
    and "flow_inv grow (s\<lparr>gate := g, wire := wire s @ [FNull]\<rparr>)"
  using assms(1) Acquire_True [OF assms(2)] by (auto simp: flow_defs)

lemma flow_inv_arrive:
  assumes "grows grow" and "flow_inv grow s" and "wire s = f # fs"
  shows "flow_inv grow (receive_frame grow f (s\<lparr>wire := fs\<rparr>))"
proof (cases "f = FNull")
  case True
  then show ?thesis using assms(2,3) by (auto simp: flow_defs)
next
  case False
  have op: "rx_open s" using assms(2) by (simp add: flow_inv_def)
  define v where "v = (case f of FValue v \<Rightarrow> Some v | _ \<Rightarrow> None)"
  have rf: "receive_frame grow f (s\<lparr>wire := fs\<rparr>) = s\<lparr>wire := fs, rx := push_sys grow v (rx s)\<rparr>"
    using False by (cases f) (simp_all add: v_def)
  have acc: "push_sys grow v (rx s) =
      (rx s)\<lparr>pump := append_slot grow v (compact (pump (rx s))), accepted := accepted (rx s) @ [v]\<rparr>"
    by (rule push_accepts [OF op room_for_frame [OF assms(2,3) False]])
  have "sys_inv grow (push_sys grow v (rx s))"
    using assms(1,2) by (intro sys_inv_push) (simp_all add: flow_inv_def)
  moreover have "payloads (f # fs) = v # payloads fs" using False by (cases f) (simp_all add: v_def)
  moreover have "FReady \<notin> set fs" using assms(2,3) by (cases "f = FReady") (auto simp: flow_defs)
  moreover have "in_flight (s\<lparr>wire := fs, rx := push_sys grow v (rx s)\<rparr>) = in_flight s"
    using False assms(3) acc by (cases f) (simp_all add: in_flight_def undelivered_def)
  ultimately show ?thesis
    unfolding rf using assms(2,3) acc
    by (simp add: flow_inv_def account_def ack_state_def rx_open_def content_def isStopped_def)
qed

lemma flow_inv_pump:
  assumes "flow_inv grow s" and "run_step b (rx s) = Some p"
  shows "flow_inv grow (if pc (rx s) = Deliver then deliver_hook (s\<lparr>rx := p\<rparr>) else s\<lparr>rx := p\<rparr>)"
proof -
  have inv: "sys_inv grow p" using assms by (intro sys_inv_run [OF _ assms(2)]) (simp add: flow_inv_def)
  note frame = run_step_frame [OF assms(2)]
  show ?thesis
  proof (cases "pc (rx s) = Deliver")
    case False
    then show ?thesis using assms(1) inv frame by (simp add: flow_defs undelivered_def isStopped_def)
  next
    case True
    have w: "0 < sint (window s)" "- 1 \<le> sint (counter s)" "sint (counter s) < half_window (window s)"
      using assms(1) by (simp_all add: flow_defs)
    obtain c g where r: "replenish (window s) (counter s) = (c, g)" by force
    note rep = replenish_conserves [OF w, unfolded r, simplified]
    have "list_all (\<lambda>n. 0 < sint n) (case g of None \<Rightarrow> [] | Some n \<Rightarrow> [n])"
      using rep(4) by (cases g) simp_all
    moreover have "sum_list (map sint (case g of None \<Rightarrow> [] | Some n \<Rightarrow> [n])) + sint c = sint (counter s) + 1"
      using rep(1) by (cases g) simp_all
    moreover have "in_flight (deliver_hook (s\<lparr>rx := p\<rparr>)) = in_flight s"
      using frame True calculation(2) by (simp add: in_flight_def deliver_hook_def r undelivered_def)
    ultimately show ?thesis
      using assms(1) inv frame True rep(2,3)
      by (simp add: flow_inv_def account_def ack_state_def rx_open_def content_def deliver_hook_def r
          isStopped_def)
  qed
qed

lemma flow_inv_granted:
  assumes "flow_inv grow s" and "grants s = n # ns"
  shows "flow_inv grow (s\<lparr>gate := Grant n (gate s), grants := ns\<rparr>)"
proof -
  have pos: "0 < sint n" "0 \<le> sint (credit (gate s))" "list_all (\<lambda>n. 0 < sint n) ns"
    and total: "in_flight s = (if opened s then sint (window s) else 0)"
    using assms by (simp_all add: flow_defs)
  have "sint (credit (gate s)) + sint n \<le> in_flight s"
    using receiver_nonneg [OF assms(1)] sum_grants_nonneg [OF pos(3)] wire_counts_nonneg [of "wire s"]
    by (simp add: in_flight_def assms(2))
  also have "in_flight s < 2 ^ 63" using total sint_bounds(2) [of "window s"] by (simp split: if_splits)
  finally have "sint (credit (Grant n (gate s))) = sint (credit (gate s)) + sint n"
    using sint_Grant [OF pos(2), of n] pos(1) by simp
  moreover have "gate_closed (Grant n (gate s)) = gate_closed (gate s)" by (simp add: Grant_def)
  ultimately show ?thesis using assms pos by (auto simp: flow_defs)
qed

lemma flow_inv_step:
  assumes "grows grow" and "flow_inv grow s" and "flow_step grow s s'"
  shows "flow_inv grow s'"
  using assms(3)
proof cases
  case (send g v)
  then show ?thesis using flow_inv_send [OF assms(2)] by simp
next
  case (send_null g)
  then show ?thesis using flow_inv_send [OF assms(2)] by simp
next
  case (arrive f fs)
  then show ?thesis using flow_inv_arrive [OF assms(1,2)] by simp
next
  case (pump b p)
  then show ?thesis using flow_inv_pump [OF assms(2)] by simp
next
  case consume
  have "pump_step grow (rx s) ((rx s)\<lparr>receives := receives (rx s) + 1\<rparr>)" by (rule receive)
  moreover have "sys_inv grow (rx s)" using assms(2) by (simp add: flow_inv_def)
  ultimately have "sys_inv grow ((rx s)\<lparr>receives := receives (rx s) + 1\<rparr>)"
    by (rule sys_inv_step [OF assms(1), rotated])
  then show ?thesis using consume assms(2) by (simp add: flow_defs undelivered_def)
next
  case open_window
  then show ?thesis using assms(2) by (auto simp: flow_defs)
next
  case (granted n ns)
  then show ?thesis using flow_inv_granted [OF assms(2)] by simp
qed

lemma flow_inv_reachable:
  assumes "grows grow" and "0 < sint w" and "(flow_step grow)\<^sup>*\<^sup>* (init_flow ack w cap) s"
  shows "flow_inv grow s \<and> window s = w \<and> acked s = ack"
  using assms(3)
proof (induction rule: rtranclp_induct)
  case base
  have "window (init_flow ack w cap) = w" "acked (init_flow ack w cap) = ack"
    by (simp_all add: init_flow_def)
  then show ?case using flow_inv_init [OF assms(2)] by blast
next
  case (step s s')
  have "window s' = window s \<and> acked s' = acked s"
    using step.hyps(2)
  proof cases
    case (arrive f fs)
    then show ?thesis by (cases f) simp_all
  qed (simp_all add: deliver_hook_def case_prod_beta)
  then show ?case using step flow_inv_step [OF assms(1)] by blast
qed

section \<open>Properties\<close>

text \<open>A run used by the witnesses: a serving receiver with a window of one grants it.\<close>

definition granted_run :: "nat flow" where
  "granted_run = (init_flow False 1 1)\<lparr>opened := True, gate := Grant 1 NewCreditGate, grants := []\<rparr>"

lemma granted_run_reachable: "(flow_step go_grow)\<^sup>*\<^sup>* (init_flow False 1 1) granted_run"
proof -
  let ?s0 = "init_flow False 1 1 :: nat flow"
  let ?s1 = "?s0\<lparr>opened := True, grants := grants ?s0 @ [window ?s0]\<rparr>"
  have "flow_step go_grow ?s0 ?s1" by (rule open_window) (simp_all add: init_flow_def)
  moreover have "flow_step go_grow ?s1 (?s1\<lparr>gate := Grant 1 (gate ?s1), grants := []\<rparr>)"
    by (rule granted) (simp add: init_flow_def)
  moreover have "?s1\<lparr>gate := Grant 1 (gate ?s1), grants := []\<rparr> = granted_run"
    by (simp add: granted_run_def init_flow_def)
  ultimately show ?thesis by simp
qed

text \<open>
  C7. Flow control is safe: in every reachable state of an open stream the receiver's pump has not
  overflowed; everything sent is either accepted by the pump or still on the wire, in order; and the
  values on the wire and in the receiver's buffer never exceed the window, plus one for the
  acknowledgement of a stream that starts with one.
\<close>

theorem flow_never_overflows:
  assumes "grows grow" and "0 < sint w" and "(flow_step grow)\<^sup>*\<^sup>* (init_flow ack w cap) s"
  shows "\<not> overflow (pump (rx s)) \<and>
         accepted (rx s) @ payloads (wire s) = (if ack then [None] else []) @ map Some (sent s) \<and>
         values_on_wire (wire s) + pending (pump (rx s)) \<le> sint w + (if ack then 1 else 0)"
proof -
  have inv: "flow_inv grow s" and eqs: "window s = w" "acked s = ack"
    using flow_inv_reachable [OF assms] by simp_all
  have sys: "sys_inv grow (rx s)" and op: "rx_open s" and acc: "account s"
    using inv by (simp_all add: flow_inv_def)
  have no: "\<not> overflow (pump (rx s))"
    using sys op by (auto simp: sys_inv_def finished_right_def rx_open_def)
  have "pending (pump (rx s)) \<le> undelivered (rx s)"
    using undelivered_pump [OF sys] op pending_contents [of "pump (rx s)"] sys
    by (simp add: rx_open_def sys_inv_def bounded_def)
  moreover have "- (if ack then 1 else 0) \<le> sint (counter s)"
    using inv eqs by (auto simp: flow_inv_def account_def ack_state_def)
  moreover have "in_flight s \<le> sint w" "0 \<le> sint (credit (gate s))" "0 \<le> sum_list (map sint (grants s))"
    using acc eqs assms(2) sum_grants_nonneg by (auto simp: account_def)
  ultimately have "values_on_wire (wire s) + pending (pump (rx s)) \<le> sint w + (if ack then 1 else 0)"
    using wire_counts_nonneg(2) [of "wire s"] unfolding in_flight_def by linarith
  then show ?thesis using no inv eqs by (simp add: flow_inv_def content_def)
qed

theorem flow_never_overflows_witness:
  "\<not> overflow (pump (rx granted_run)) \<and> sint (credit (gate granted_run)) = 1"
  using flow_never_overflows [OF grows_go_grow _ granted_run_reachable]
  by (simp add: granted_run_def Grant_def NewCreditGate_def)

text \<open>
  Flow control does not deadlock: whenever the receiver has drained everything it was sent and
  no credit message is outstanding, the sender holds credit, so its next \<open>Acquire\<close> succeeds. This
  needs that fewer values than half a window were nil or \<^verbatim>\<open>Null\<close>.
\<close>

theorem flow_no_deadlock:
  assumes "grows grow" and "0 < sint w" and "(flow_step grow)\<^sup>*\<^sup>* (init_flow ack w cap) s"
    and "opened s" and "wire s = []" and "grants s = []" and "undelivered (rx s) = 0"
    and "int (nulls s) \<le> sint w - half_window w"
  shows "\<exists>g. Acquire (gate s) = Some (True, g)"
proof -
  have inv: "flow_inv grow s" and eqs: "window s = w"
    using flow_inv_reachable [OF assms(1-3)] by simp_all
  have "in_flight s = sint w" "sint (counter s) < half_window w" "\<not> gate_closed (gate s)"
    using inv eqs assms(4) by (simp_all add: flow_inv_def account_def)
  then have "0 < sint (credit (gate s))"
    using assms(5-8) by (simp add: in_flight_def)
  then show ?thesis using \<open>\<not> gate_closed (gate s)\<close> by (simp add: Acquire_def)
qed

theorem flow_no_deadlock_witness:
  "\<exists>g. Acquire (gate granted_run) = Some (True, g)"
  by (rule flow_no_deadlock [OF grows_go_grow _ granted_run_reachable])
     (simp_all add: granted_run_def init_flow_def undelivered_def init_sys_def half_window_def)

end
