(* ===== verification/Stream_Link.thy ===== *)
theory Stream_Link
  imports Flow_Control "HOL-Library.Sublist"
begin

text \<open>
  One direction of a stream as a network of its two ends, independent of which side sends: the sender
  behind its credit, the messages it has queued and those on the wire, the receiver with its buffer, and
  the credit that travels back. The ends are operations (\<open>link_ops\<close>), the network is a step relation that
  interleaves them freely, and the locale \<open>stream_link\<close> states what the ends promise. Proved once from
  that contract: nothing is lost or reordered, every run is finite, and a run that cannot go on has
  delivered everything and the end.
\<close>

section \<open>The network\<close>

text \<open>
  The operations of the two ends. Sending a value or the end waits for credit or a connection
  (\<^term>\<open>None\<close>); taking from the receiver gives a value, or \<^term>\<open>None\<close> once the channel is closed. The flag
  resolves a \<^verbatim>\<open>select\<close> of the handling loop.
\<close>

record ('s, 'r, 'm, 'v) link_ops =
  l_send :: "'v \<Rightarrow> 's \<Rightarrow> 's option"
  l_close :: "'s \<Rightarrow> 's option"
  l_transmit :: "'s \<Rightarrow> ('m \<times> 's) option"
  l_credit :: "bool \<Rightarrow> 'm \<Rightarrow> 's \<Rightarrow> 's option"
  l_handle :: "bool \<Rightarrow> 'm \<Rightarrow> 'r \<Rightarrow> 'r option"
  l_take :: "'r \<Rightarrow> ('v option \<times> 'r) option"
  l_return :: "'r \<Rightarrow> ('m \<times> 'r) option"

record ('s, 'r, 'm, 'v) link =
  lk_src :: "'v list"
  lk_open :: bool
  lk_sender :: 's
  lk_wire :: "'m list"
  lk_receiver :: 'r
  lk_back :: "'m list"
  lk_got :: "'v option list"

definition link_start :: "'v list \<Rightarrow> 's \<Rightarrow> 'r \<Rightarrow> ('s, 'r, 'm, 'v) link" where
  "link_start vs s r = \<lparr>lk_src = vs, lk_open = True, lk_sender = s, lk_wire = [], lk_receiver = r, lk_back = [], lk_got = []\<rparr>"

inductive link_step ::
    "('s, 'r, 'm, 'v) link_ops \<Rightarrow> ('s, 'r, 'm, 'v) link \<Rightarrow> ('s, 'r, 'm, 'v) link \<Rightarrow> bool" for L where
  produce: "lk_src n = v # vs \<Longrightarrow> l_send L v (lk_sender n) = Some s \<Longrightarrow>
    link_step L n (n\<lparr>lk_src := vs, lk_sender := s\<rparr>)"
| finish: "lk_src n = [] \<Longrightarrow> lk_open n \<Longrightarrow> l_close L (lk_sender n) = Some s \<Longrightarrow>
    link_step L n (n\<lparr>lk_open := False, lk_sender := s\<rparr>)"
| transmit: "l_transmit L (lk_sender n) = Some (m, s) \<Longrightarrow>
    link_step L n (n\<lparr>lk_sender := s, lk_wire := lk_wire n @ [m]\<rparr>)"
| handle: "lk_wire n = m # ms \<Longrightarrow> l_handle L pick m (lk_receiver n) = Some r \<Longrightarrow>
    link_step L n (n\<lparr>lk_wire := ms, lk_receiver := r\<rparr>)"
| consume: "None \<notin> set (lk_got n) \<Longrightarrow> l_take L (lk_receiver n) = Some (x, r) \<Longrightarrow>
    link_step L n (n\<lparr>lk_receiver := r, lk_got := lk_got n @ [x]\<rparr>)"
| give_back: "l_return L (lk_receiver n) = Some (m, r) \<Longrightarrow>
    link_step L n (n\<lparr>lk_receiver := r, lk_back := lk_back n @ [m]\<rparr>)"
| granted: "lk_back n = m # ms \<Longrightarrow> l_credit L pick m (lk_sender n) = Some s \<Longrightarrow>
    link_step L n (n\<lparr>lk_back := ms, lk_sender := s\<rparr>)"

text \<open>If the runs from a state are bounded, one of them cannot go on, and has what such runs have.\<close>

lemma bounded_run_ends:
  assumes run: "\<And>k n. (R ^^ k) s n \<Longrightarrow> k \<le> B \<and> ((\<nexists>n'. R n n') \<longrightarrow> P n)"
  shows "\<exists>k n. (R ^^ k) s n \<and> (\<nexists>n'. R n n') \<and> P n"
proof (rule ccontr)
  assume "\<not> ?thesis"
  then have next_step: "\<exists>n'. R n n'" if "(R ^^ k) s n" for k n using that run by blast
  have "\<exists>n. (R ^^ k) s n" for k
  proof (induction k)
    case (Suc k)
    then obtain n n' where "(R ^^ k) s n" "R n n'" using next_step by blast
    then show ?case by (metis relpowp_Suc_I)
  qed simp
  then obtain n where "(R ^^ Suc B) s n" by blast
  then show False using run by fastforce
qed

section \<open>The contract of the ends\<close>

text \<open>
  The predicates describe the ends by what matters to the stream: a sender by its credit and its queue,
  a receiver by its buffer, the deliveries it has not granted yet, and its queue. A grant is due after half
  the window.
\<close>

definition batch_of :: "int \<Rightarrow> int" where
  "batch_of w = max 1 (w div 2)"

text \<open>The counter of a receiver of the program is that of the contract.\<close>

lemma replenish_batch:
  assumes "0 < w" and "w < 2 ^ 63" and "sint n = d" and "0 \<le> d" and "d < batch_of w"
  shows "replenish (word_of_int w) n = (if batch_of w \<le> d + 1 then (0, Some (word_of_int (d + 1))) else (word_of_int (d + 1), None))"
    and "sint (word_of_int (d + 1) :: int64) = d + 1"
proof -
  let ?w = "word_of_int w :: int64"
  have w: "sint ?w = w" using assms(1,2) by (intro sint_of_int64) auto
  then have half: "half_window ?w = batch_of w" by (simp add: half_window_def batch_of_def)
  have succ: "word_of_int (d + 1) = n + 1" by (simp add: assms(3) [symmetric])
  show "replenish ?w n = (if batch_of w \<le> d + 1 then (0, Some (word_of_int (d + 1))) else (word_of_int (d + 1), None))"
    "sint (word_of_int (d + 1) :: int64) = d + 1"
    unfolding succ using replenish_cases [of ?w n] assms(1,3-5) by (simp_all add: w half)
qed

locale stream_link =
  fixes L :: "('s, 'r, 'm, 'v) link_ops"
    and w :: int
    and vmsg :: "'v \<Rightarrow> 'm" and emsg :: 'm and cmsg :: "int \<Rightarrow> 'm"
    and fit :: "'v \<Rightarrow> bool"
    and sending :: "int \<Rightarrow> 'm list \<Rightarrow> 's \<Rightarrow> bool"
    and finished :: "'m list \<Rightarrow> 's \<Rightarrow> bool"
    and receiving :: "'v list \<Rightarrow> int \<Rightarrow> 'm list \<Rightarrow> 'r \<Rightarrow> bool"
    and draining :: "'v list \<Rightarrow> int \<Rightarrow> 'm list \<Rightarrow> 'r \<Rightarrow> bool"
  assumes send_credit: "sending c q s \<Longrightarrow> 0 < c \<Longrightarrow> \<exists>s'. l_send L v s = Some s' \<and> sending (c - 1) (q @ [vmsg v]) s'"
    and send_blocks: "sending c q s \<Longrightarrow> c = 0 \<Longrightarrow> l_send L v s = None"
    and close_ends: "sending c q s \<Longrightarrow> \<exists>s'. l_close L s = Some s' \<and> finished (q @ [emsg]) s'"
    and transmit_sending: "sending c (m # q) s \<Longrightarrow> \<exists>s'. l_transmit L s = Some (m, s') \<and> sending c q s'"
    and transmit_finished: "finished (m # q) s \<Longrightarrow> \<exists>s'. l_transmit L s = Some (m, s') \<and> finished q s'"
    and transmit_empty: "sending c [] s \<Longrightarrow> l_transmit L s = None" "finished [] s \<Longrightarrow> l_transmit L s = None"
    and credit_sending: "sending c q s \<Longrightarrow> 0 \<le> c \<Longrightarrow> 0 < k \<Longrightarrow> c + k \<le> w \<Longrightarrow>
      \<exists>s'. l_credit L pick (cmsg k) s = Some s' \<and> sending (c + k) q s'"
    and credit_finished: "finished q s \<Longrightarrow> \<exists>s'. l_credit L pick (cmsg k) s = Some s' \<and> finished q s'"
    and handle_value: "receiving xs d b r \<Longrightarrow> fit v \<Longrightarrow> int (length xs) < w \<Longrightarrow>
      \<exists>r'. l_handle L pick (vmsg v) r = Some r' \<and> receiving (xs @ [v]) d b r'"
    and handle_end: "receiving xs d b r \<Longrightarrow> \<exists>r'. l_handle L pick emsg r = Some r' \<and> draining xs d b r'"
    and take_receiving: "receiving (x # xs) d b r \<Longrightarrow> 0 \<le> d \<Longrightarrow> d < batch_of w \<Longrightarrow>
      \<exists>r'. l_take L r = Some (Some x, r') \<and>
        (if batch_of w \<le> d + 1 then receiving xs 0 (b @ [cmsg (d + 1)]) r' else receiving xs (d + 1) b r')"
    and take_draining: "draining (x # xs) d b r \<Longrightarrow> 0 \<le> d \<Longrightarrow> d < batch_of w \<Longrightarrow>
      \<exists>r'. l_take L r = Some (Some x, r') \<and>
        (if batch_of w \<le> d + 1 then draining xs 0 (b @ [cmsg (d + 1)]) r' else draining xs (d + 1) b r')"
    and take_empty: "receiving [] d b r \<Longrightarrow> l_take L r = None"
    and take_end: "draining [] d b r \<Longrightarrow> \<exists>r'. l_take L r = Some (None, r') \<and> draining [] d b r'"
    and return_receiving: "receiving xs d (m # b) r \<Longrightarrow> \<exists>r'. l_return L r = Some (m, r') \<and> receiving xs d b r'"
    and return_draining: "draining xs d (m # b) r \<Longrightarrow> \<exists>r'. l_return L r = Some (m, r') \<and> draining xs d b r'"
    and return_empty: "receiving xs d [] r \<Longrightarrow> l_return L r = None" "draining xs d [] r \<Longrightarrow> l_return L r = None"
    and window_pos: "sending c q s \<Longrightarrow> 0 < w"
begin

text \<open>The ends in either phase: sending or finished, receiving or draining.\<close>

definition sender_at :: "bool \<Rightarrow> int \<Rightarrow> 'm list \<Rightarrow> 's \<Rightarrow> bool" where
  "sender_at sends c q s \<longleftrightarrow> (if sends then sending c q s else finished q s)"

definition receiver_at :: "bool \<Rightarrow> 'v list \<Rightarrow> int \<Rightarrow> 'm list \<Rightarrow> 'r \<Rightarrow> bool" where
  "receiver_at ended xs d b r \<longleftrightarrow> (if ended then draining xs d b r else receiving xs d b r)"

lemma transmit_at:
  assumes "sender_at a c q s" and "l_transmit L s = Some (m, s')"
  obtains q' where "q = m # q'" "sender_at a c q' s'"
proof (cases q)
  case Nil
  then show ?thesis using assms transmit_empty by (auto simp: sender_at_def split: if_splits)
next
  case (Cons m' q')
  then show ?thesis
    using assms that transmit_sending [of c m' q' s] transmit_finished [of m' q' s] by (cases a) (auto simp: sender_at_def)
qed

lemma return_at:
  assumes "receiver_at z xs d b r" and "l_return L r = Some (m, r')"
  obtains b' where "b = m # b'" "receiver_at z xs d b' r'"
proof (cases b)
  case Nil
  then show ?thesis using assms return_empty by (auto simp: receiver_at_def split: if_splits)
next
  case (Cons m' b')
  then show ?thesis
    using assms that return_receiving [of xs d m' b' r] return_draining [of xs d m' b' r] by (cases z) (auto simp: receiver_at_def)
qed

lemma take_at:
  assumes "receiver_at z (x # xs) d b r" and "0 \<le> d" and "d < batch_of w"
  shows "\<exists>r'. l_take L r = Some (Some x, r') \<and>
    (if batch_of w \<le> d + 1 then receiver_at z xs 0 (b @ [cmsg (d + 1)]) r' else receiver_at z xs (d + 1) b r')"
  using assms take_receiving [of x xs d b r] take_draining [of x xs d b r]
  by (cases z) (simp_all add: receiver_at_def split del: if_split cong: if_cong)

text \<open>
  What the consumer has, what is buffered, what is on the way and what is still to be sent make up the
  stream; while values are sent, the credit of all places adds up to the window. The number bounds the
  steps that are left.
\<close>

definition grants_ok :: "int list \<Rightarrow> 'm list \<Rightarrow> bool" where
  "grants_ok ks ms \<longleftrightarrow> ms = map cmsg ks \<and> (\<forall>k \<in> set ks. 0 < k)"

definition link_inv :: "'v list \<Rightarrow> nat \<Rightarrow> ('s, 'r, 'm, 'v) link \<Rightarrow> bool" where
  "link_inv vs e n \<longleftrightarrow> (\<exists>c q d b xs ys ks g ended fin.
     sender_at (lk_open n) c q (lk_sender n) \<and> receiver_at ended xs d b (lk_receiver n) \<and>
     lk_wire n @ q = map vmsg ys @ (if lk_open n \<or> ended then [] else [emsg]) \<and>
     lk_got n = map Some g @ (if fin then [None] else []) \<and> vs = g @ xs @ ys @ lk_src n \<and>
     (\<not> lk_open n \<longrightarrow> lk_src n = []) \<and> (ended \<longrightarrow> \<not> lk_open n \<and> ys = []) \<and> (fin \<longrightarrow> ended \<and> xs = []) \<and>
     grants_ok ks (lk_back n @ b) \<and> 0 \<le> c \<and> 0 \<le> d \<and> d < batch_of w \<and>
     int (length ys) + int (length xs) \<le> w \<and>
     (lk_open n \<longrightarrow> c + int (length ys) + int (length xs) + d + sum_list ks = w) \<and>
     e = 7 * length (lk_src n) + (if lk_open n then 7 else 0) + 6 * length q + 5 * length (lk_wire n) + 4 * length xs +
       (if ended \<and> \<not> fin then 4 else 0) + 2 * length b + length (lk_back n))"

lemma sum_grants: "grants_ok ks ms \<Longrightarrow> 0 \<le> sum_list ks"
  by (auto simp: grants_ok_def intro: sum_list_nonneg less_imp_le)

lemma grants_okE:
  assumes "grants_ok ks (m # ms)"
  obtains k ks' where "ks = k # ks'" "m = cmsg k" "0 < k" "grants_ok ks' ms"
  using assms by (cases ks) (auto simp: grants_ok_def)

lemma grants_ok_snoc: "grants_ok ks ms \<Longrightarrow> 0 < k \<Longrightarrow> grants_ok (ks @ [k]) (ms @ [cmsg k])"
  by (auto simp: grants_ok_def)

lemma link_invE:
  assumes "link_inv vs e n"
  obtains c q d b xs ys ks g ended fin where
    "sender_at (lk_open n) c q (lk_sender n)" "receiver_at ended xs d b (lk_receiver n)"
    "lk_wire n @ q = map vmsg ys @ (if lk_open n \<or> ended then [] else [emsg])"
    "lk_got n = map Some g @ (if fin then [None] else [])" "vs = g @ xs @ ys @ lk_src n"
    "\<not> lk_open n \<longrightarrow> lk_src n = []" "ended \<longrightarrow> \<not> lk_open n \<and> ys = []" "fin \<longrightarrow> ended \<and> xs = []"
    "grants_ok ks (lk_back n @ b)" "0 \<le> c" "0 \<le> d" "d < batch_of w" "int (length ys) + int (length xs) \<le> w"
    "lk_open n \<longrightarrow> c + int (length ys) + int (length xs) + d + sum_list ks = w"
    "e = 7 * length (lk_src n) + (if lk_open n then 7 else 0) + 6 * length q + 5 * length (lk_wire n) + 4 * length xs +
       (if ended \<and> \<not> fin then 4 else 0) + 2 * length b + length (lk_back n)"
  using assms unfolding link_inv_def by blast

lemma link_invI:
  assumes "sender_at (lk_open n) c q (lk_sender n)" "receiver_at ended xs d b (lk_receiver n)"
    "lk_wire n @ q = map vmsg ys @ (if lk_open n \<or> ended then [] else [emsg])"
    "lk_got n = map Some g @ (if fin then [None] else [])" "vs = g @ xs @ ys @ lk_src n"
    "\<not> lk_open n \<longrightarrow> lk_src n = []" "ended \<longrightarrow> \<not> lk_open n \<and> ys = []" "fin \<longrightarrow> ended \<and> xs = []"
    "grants_ok ks (lk_back n @ b)" "0 \<le> c" "0 \<le> d" "d < batch_of w" "int (length ys) + int (length xs) \<le> w"
    "lk_open n \<longrightarrow> c + int (length ys) + int (length xs) + d + sum_list ks = w"
    "7 * length (lk_src n) + (if lk_open n then 7 else 0) + 6 * length q + 5 * length (lk_wire n) + 4 * length xs +
       (if ended \<and> \<not> fin then 4 else 0) + 2 * length b + length (lk_back n) < e"
  shows "\<exists>e' < e. link_inv vs e' n"
  using assms unfolding link_inv_def by blast

lemma inv_step:
  assumes "link_step L n n'" and "link_inv vs e n" and fit: "\<forall>v \<in> set vs. fit v"
  shows "\<exists>e' < e. link_inv vs e' n'"
proof -
  from assms(2) obtain c q d b xs ys ks g ended fin where i:
    "sender_at (lk_open n) c q (lk_sender n)" "receiver_at ended xs d b (lk_receiver n)"
    "lk_wire n @ q = map vmsg ys @ (if lk_open n \<or> ended then [] else [emsg])"
    "lk_got n = map Some g @ (if fin then [None] else [])" "vs = g @ xs @ ys @ lk_src n"
    "\<not> lk_open n \<longrightarrow> lk_src n = []" "ended \<longrightarrow> \<not> lk_open n \<and> ys = []" "fin \<longrightarrow> ended \<and> xs = []"
    "grants_ok ks (lk_back n @ b)" "0 \<le> c" "0 \<le> d" "d < batch_of w" "int (length ys) + int (length xs) \<le> w"
    "lk_open n \<longrightarrow> c + int (length ys) + int (length xs) + d + sum_list ks = w"
    "e = 7 * length (lk_src n) + (if lk_open n then 7 else 0) + 6 * length q + 5 * length (lk_wire n) + 4 * length xs +
       (if ended \<and> \<not> fin then 4 else 0) + 2 * length b + length (lk_back n)"
    by (rule link_invE)
  note sums = sum_grants [OF i(9)]
  from assms(1) show ?thesis
  proof cases
    case (produce v us s)
    then have op: "lk_open n" "\<not> ended" "\<not> fin" using i(6-8) by auto
    then have "sending c q (lk_sender n)" using i(1) by (simp add: sender_at_def)
    moreover from this have "c \<noteq> 0" using send_blocks produce(3) by force
    ultimately have c: "0 < c" "sending (c - 1) (q @ [vmsg v]) s"
      using i(10) send_credit [of c q "lk_sender n" v] produce(3) by auto
    show ?thesis
      unfolding produce(1)
      by (rule link_invI [of _ "c - 1" "q @ [vmsg v]" ended xs d b "ys @ [v]" g fin _ ks])
        (use i op c sums produce(2) in \<open>auto simp: sender_at_def\<close>)
  next
    case (finish s)
    then have op: "lk_open n" "\<not> ended" "\<not> fin" using i(7,8) by auto
    then have "finished (q @ [emsg]) s" using i(1) close_ends [of c q "lk_sender n"] finish(4) by (auto simp: sender_at_def)
    then show ?thesis
      unfolding finish(1)
      by (intro link_invI [of _ c "q @ [emsg]" ended xs d b ys g fin _ ks])
        (use i op sums finish(2) in \<open>auto simp: sender_at_def\<close>)
  next
    case (transmit m s)
    from transmit_at [OF i(1) transmit(2)] obtain q' where "q = m # q'" "sender_at (lk_open n) c q' s" .
    then show ?thesis
      unfolding transmit(1)
      by (intro link_invI [of _ c q' ended xs d b ys g fin _ ks]) (use i in auto)
  next
    case (handle m ms pick r)
    then have z: "\<not> ended" "\<not> fin" "receiving xs d b (lk_receiver n)"
      using i(2,3,7,8) by (auto simp: receiver_at_def split: if_splits)
    show ?thesis
    proof (cases ys)
      case Nil
      then have m: "\<not> lk_open n" "m = emsg" "ms = []" "q = []" using handle(2) i(3) z(1) by (auto split: if_splits)
      then have "draining xs d b r" using handle_end [OF z(3), of pick] handle(3) by auto
      then show ?thesis
        unfolding handle(1)
        by (intro link_invI [of _ c q True xs d b "[]" g False _ ks])
          (use i z m Nil handle(2) in \<open>auto simp: receiver_at_def\<close>)
    next
      case (Cons y ys')
      then have m: "m = vmsg y" "ms @ q = map vmsg ys' @ (if lk_open n then [] else [emsg])"
        using handle(2) i(3) z(1) by auto
      have "fit y" using fit i(5) Cons by simp
      moreover have "int (length xs) < w" using i(13) Cons by simp
      ultimately have "receiving (xs @ [y]) d b r" using handle_value [OF z(3), of y pick] handle(3) m(1) by auto
      then show ?thesis
        unfolding handle(1)
        by (intro link_invI [of _ c q ended "xs @ [y]" d b ys' g fin _ ks])
          (use i z m Cons handle(2) in \<open>auto simp: receiver_at_def\<close>)
    qed
  next
    case (consume x r)
    then have "\<not> fin" using i(4) by auto
    show ?thesis
    proof (cases xs)
      case Nil
      then have z: "ended" "x = None" "draining [] d b r"
        using consume(3) i(2) take_empty [of d b "lk_receiver n"] take_end [of d b "lk_receiver n"]
        by (auto simp: receiver_at_def split: if_splits)
      then show ?thesis
        unfolding consume(1)
        by (intro link_invI [of _ c q True "[]" d b ys g True _ ks])
          (use i \<open>\<not> fin\<close> Nil in \<open>auto simp: receiver_at_def\<close>)
    next
      case (Cons x' xs')
      from take_at [OF i(2) [unfolded Cons] i(11,12)] consume(3)
      have t: "x = Some x'" "if batch_of w \<le> d + 1 then receiver_at ended xs' 0 (b @ [cmsg (d + 1)]) r else receiver_at ended xs' (d + 1) b r"
        by auto
      show ?thesis
      proof (cases "batch_of w \<le> d + 1")
        case True
        have "grants_ok (ks @ [d + 1]) (lk_back n @ b @ [cmsg (d + 1)])" using grants_ok_snoc [OF i(9), of "d + 1"] i(11) by simp
        then show ?thesis
          unfolding consume(1)
          by (intro link_invI [of _ c q ended xs' 0 "b @ [cmsg (d + 1)]" ys "g @ [x']" fin _ "ks @ [d + 1]"])
            (use i t True \<open>\<not> fin\<close> Cons in \<open>auto simp: batch_of_def\<close>)
      next
        case False
        then show ?thesis
          unfolding consume(1)
          by (intro link_invI [of _ c q ended xs' "d + 1" b ys "g @ [x']" fin _ ks]) (use i t \<open>\<not> fin\<close> Cons in auto)
      qed
    qed
  next
    case (give_back m r)
    from return_at [OF i(2) give_back(2)] obtain b' where "b = m # b'" "receiver_at ended xs d b' r" .
    then show ?thesis
      unfolding give_back(1)
      by (intro link_invI [of _ c q ended xs d b' ys g fin _ ks]) (use i in auto)
  next
    case (granted m ms pick s)
    from i(9) granted(2) have "grants_ok ks (m # ms @ b)" by simp
    then obtain k ks' where k: "ks = k # ks'" "m = cmsg k" "0 < k" "grants_ok ks' (ms @ b)" by (rule grants_okE)
    note sums' = sum_grants [OF k(4)]
    have "sender_at (lk_open n) (c + k) q s"
    proof (cases "lk_open n")
      case True
      then have "c + k \<le> w" using i(11,14) sums' k(1) by auto
      then show ?thesis
        using True i(1,10) k(2,3) credit_sending [of c q "lk_sender n" k pick] granted(3) by (auto simp: sender_at_def)
    next
      case False
      then show ?thesis using i(1) credit_finished [of q "lk_sender n" pick k] granted(3) k(2) by (auto simp: sender_at_def)
    qed
    then show ?thesis
      unfolding granted(1)
      by (intro link_invI [of _ "c + k" q ended xs d b ys g fin _ ks']) (use i k granted(2) in auto)
  qed
qed

lemma inv_prefix: "link_inv vs e n \<Longrightarrow> prefix (lk_got n) (map Some vs @ [None])"
  by (erule link_invE) (auto split: if_splits)

text \<open>A state in which no end can do anything has nothing left to do.\<close>

lemma stuck_complete:
  assumes "link_inv vs e n" and fit: "\<forall>v \<in> set vs. fit v" and stuck: "\<And>n'. \<not> link_step L n n'"
  shows "lk_got n = map Some vs @ [None]"
proof -
  from assms(1) obtain c q d b xs ys ks g ended fin where i:
    "sender_at (lk_open n) c q (lk_sender n)" "receiver_at ended xs d b (lk_receiver n)"
    "lk_wire n @ q = map vmsg ys @ (if lk_open n \<or> ended then [] else [emsg])"
    "lk_got n = map Some g @ (if fin then [None] else [])" "vs = g @ xs @ ys @ lk_src n"
    "\<not> lk_open n \<longrightarrow> lk_src n = []" "ended \<longrightarrow> \<not> lk_open n \<and> ys = []" "fin \<longrightarrow> ended \<and> xs = []"
    "grants_ok ks (lk_back n @ b)" "0 \<le> c" "0 \<le> d" "d < batch_of w" "int (length ys) + int (length xs) \<le> w"
    "lk_open n \<longrightarrow> c + int (length ys) + int (length xs) + d + sum_list ks = w"
    by (rule link_invE)
  have q: "q = []"
  proof (rule ccontr)
    assume "q \<noteq> []"
    then obtain m q' where "q = m # q'" by (cases q) auto
    with i(1) obtain s' where "l_transmit L (lk_sender n) = Some (m, s')"
      using transmit_sending [of c m q' "lk_sender n"] transmit_finished [of m q' "lk_sender n"]
      by (cases "lk_open n") (auto simp: sender_at_def)
    from link_step.transmit [OF this] stuck show False by blast
  qed
  have wire: "lk_wire n = []"
  proof (rule ccontr)
    assume "lk_wire n \<noteq> []"
    then obtain m ms where m: "lk_wire n = m # ms" by (cases "lk_wire n") auto
    then have z: "receiving xs d b (lk_receiver n)" using i(2,3,7) by (auto simp: receiver_at_def split: if_splits)
    have "\<exists>r. l_handle L True m (lk_receiver n) = Some r"
    proof (cases ys)
      case Nil
      then show ?thesis using m i(3) handle_end [OF z, of True] by (auto split: if_splits)
    next
      case (Cons y ys')
      then have "fit y" "int (length xs) < w" "m = vmsg y" using m i(3,5,13) fit by auto
      then show ?thesis using handle_value [OF z, of y True] by auto
    qed
    with link_step.handle [OF m] stuck show False by blast
  qed
  have taken: "fin \<or> xs = [] \<and> \<not> ended"
  proof (rule ccontr)
    assume a: "\<not> (fin \<or> xs = [] \<and> \<not> ended)"
    have "\<exists>x r. l_take L (lk_receiver n) = Some (x, r)"
    proof (cases xs)
      case Nil
      then show ?thesis using a i(2) take_end [of d b "lk_receiver n"] by (auto simp: receiver_at_def)
    next
      case (Cons x xs')
      from take_at [OF i(2) [unfolded Cons] i(11,12)] show ?thesis by blast
    qed
    moreover have "None \<notin> set (lk_got n)" using a i(4) by auto
    ultimately show False using link_step.consume [of n L] stuck by metis
  qed
  show ?thesis
  proof (cases fin)
    case True
    then show ?thesis using i(4-8) by simp
  next
    case False
    then have e: "xs = []" "\<not> ended" "ys = []" "lk_open n" using taken i(3) wire q by (auto split: if_splits)
    have "b = []"
    proof (rule ccontr)
      assume "b \<noteq> []"
      then obtain m b' where "b = m # b'" by (cases b) auto
      then obtain r where "l_return L (lk_receiver n) = Some (m, r)" using i(2) return_receiving [of xs d m b' "lk_receiver n"] e(2) by (auto simp: receiver_at_def)
      from link_step.give_back [OF this] stuck show False by blast
    qed
    moreover have "lk_back n = []"
    proof (rule ccontr)
      assume "lk_back n \<noteq> []"
      then obtain m ms where m: "lk_back n = m # ms" by (cases "lk_back n") auto
      with i(9) obtain k ks' where k: "ks = k # ks'" "m = cmsg k" "0 < k" "grants_ok ks' (ms @ b)" by (auto elim: grants_okE)
      have "c + k \<le> w" using i(11,14) e k(1) sum_grants [OF k(4)] by simp
      then obtain s where "l_credit L True m (lk_sender n) = Some s"
        using credit_sending [of c q "lk_sender n" k True] i(1,10) e(4) k(2,3) by (auto simp: sender_at_def)
      from link_step.granted [OF m this] stuck show False by blast
    qed
    ultimately have "ks = []" using i(9) by (auto simp: grants_ok_def)
    have s: "sending c q (lk_sender n)" using i(1) e(4) by (simp add: sender_at_def)
    have "d < w" using i(12) window_pos [OF s] by (auto simp: batch_of_def)
    then have "0 < c" using i(14) e \<open>ks = []\<close> by simp
    have False
    proof (cases "lk_src n")
      case Nil
      with close_ends [OF s] link_step.finish [OF Nil e(4)] stuck show False by blast
    next
      case (Cons v us)
      with send_credit [OF s \<open>0 < c\<close>, of v] link_step.produce [OF Cons] stuck show False by blast
    qed
    then show ?thesis ..
  qed
qed

lemma run_inv:
  "(link_step L ^^ k) n n' \<Longrightarrow> link_inv vs e n \<Longrightarrow> \<forall>v \<in> set vs. fit v \<Longrightarrow> \<exists>e'. k + e' \<le> e \<and> link_inv vs e' n'"
proof (induction k arbitrary: n')
  case 0
  then show ?case by auto
next
  case (Suc k)
  then obtain m where m: "(link_step L ^^ k) n m" "link_step L m n'" by auto
  from Suc.IH [OF m(1) Suc.prems(2,3)] obtain e1 where e1: "k + e1 \<le> e" "link_inv vs e1 m" by blast
  from inv_step [OF m(2) e1(2) Suc.prems(3)] obtain e' where "e' < e1" "link_inv vs e' n'" by blast
  then show ?case using e1(1) by (intro exI [of _ e']) simp
qed

lemma start_inv:
  assumes "sending c [] s" and "receiving [] 0 (map cmsg ks) r" and "\<forall>k \<in> set ks. 0 < k" and "0 \<le> c" and "c + sum_list ks = w"
  shows "link_inv vs (7 * length vs + 7 + 2 * length ks) (link_start vs s r)"
  unfolding link_inv_def
  by (rule exI [of _ c], rule exI [of _ "[]"], rule exI [of _ 0], rule exI [of _ "map cmsg ks"], rule exI [of _ "[]"],
      rule exI [of _ "[]"], rule exI [of _ ks], rule exI [of _ "[]"], rule exI [of _ False], rule exI [of _ False])
    (use assms window_pos [OF assms(1)] in \<open>auto simp: link_start_def sender_at_def receiver_at_def grants_ok_def batch_of_def\<close>)

text \<open>The promise of a link to its client: safety, a bound on every run, and completeness of the runs that end.\<close>

theorem delivers:
  assumes "sending c [] s" and "receiving [] 0 (map cmsg ks) r" and "\<forall>k \<in> set ks. 0 < k" and "0 \<le> c" and "c + sum_list ks = w"
    and "\<forall>v \<in> set vs. fit v" and "(link_step L ^^ k) (link_start vs s r) n"
  shows "k \<le> 7 * length vs + 7 + 2 * length ks \<and> prefix (lk_got n) (map Some vs @ [None]) \<and>
    ((\<nexists>n'. link_step L n n') \<longrightarrow> lk_got n = map Some vs @ [None])"
proof -
  from run_inv [OF assms(7) start_inv [OF assms(1-5)] assms(6)] obtain e
    where "k + e \<le> 7 * length vs + 7 + 2 * length ks" "link_inv vs e n" by blast
  then show ?thesis using inv_prefix stuck_complete [OF _ assms(6)] by auto
qed

end

end
