(* ===== verification/Request_Ctx.thy ===== *)
theory Request_Ctx
  imports Protocol Flow_Control
begin

text \<open>
  The client's record of one request in flight: \<^verbatim>\<open>rpcRequestCtx\<close> of \<^verbatim>\<open>valueclient/request.go\<close>. Every
  method is a function on the record; the events of the metrics sink (\<^verbatim>\<open>valuerpc/metrics.go\<close>) are
  collected in a log, without their durations. Closing a Go channel twice panics, so the model counts
  how often the request itself closes its result channel (for streaming kinds the pump does it).
  The lifecycle contract shared with the server's \<^verbatim>\<open>clientStream\<close> is the locale \<open>initiator\<close>.
\<close>

section \<open>Metrics\<close>

datatype metric_event =
    RequestBegin string
  | RequestEnd string Code
  | StreamValueMetric string
  | ReconnectMetric

definition request_ends :: "metric_event list \<Rightarrow> nat" where
  "request_ends es = length (filter (\<lambda>e. case e of RequestEnd _ _ \<Rightarrow> True | _ \<Rightarrow> False) es)"

section \<open>The request\<close>

datatype streamKind = unaryKind | getStreamKind | putStreamKind | chatKind

record 'v rpcRequestCtx =
  requestId :: int64
  skind :: streamKind
  req :: 'v
  resultCh :: "'v option list"
  resultCap :: nat
  resultCloses :: nat
  resultPump :: "'v StreamPump option"
  sendCredit :: "CreditGate option"
  done_closed :: bool
  closeOnce :: bool
  cancelOnce :: bool
  getClosed :: bool
  putClosed :: bool
  resultErr :: "gerror option"
  creditWindow :: int64
  recvDelivered :: int64
  grantCredit :: bool
  metrics :: bool
  mlog :: "metric_event list"

definition NewRequestCtx ::
    "int64 \<Rightarrow> streamKind \<Rightarrow> 'v \<Rightarrow> nat \<Rightarrow> int \<Rightarrow> bool \<Rightarrow> 'v rpcRequestCtx" where
  "NewRequestCtx rid k m receiveCap maxPnd grant =
     (let t = \<lparr>requestId = rid, skind = k, req = m, resultCh = [], resultCap = receiveCap, resultCloses = 0,
               resultPump = None, sendCredit = None, done_closed = False, closeOnce = False,
               cancelOnce = False, getClosed = False, putClosed = False, resultErr = None,
               creditWindow = 0, recvDelivered = 0, grantCredit = grant, metrics = False, mlog = []\<rparr>;
          t = (if k = getStreamKind \<or> k = chatKind then
                 (let maxPnd = (if maxPnd \<le> 0 then DefaultMaxPending else maxPnd)
                  in t\<lparr>creditWindow := word_of_int maxPnd, recvDelivered := - 1,
                       resultPump := Some (NewStreamPump maxPnd)\<rparr>)
               else t)
      in if k = putStreamKind \<or> k = chatKind then t\<lparr>sendCredit := Some NewCreditGate\<rparr> else t)"

text \<open>The credit that a call sends to the server, if any.\<close>

definition sendInitialCredit :: "'v rpcRequestCtx \<Rightarrow> int64 option" where
  "sendInitialCredit t =
     (if resultPump t \<noteq> None \<and> grantCredit t then Some (creditWindow t) else None)"

definition grantRecv :: "'v rpcRequestCtx \<Rightarrow> 'v rpcRequestCtx \<times> int64 option" where
  "grantRecv t =
     (let t = t\<lparr>recvDelivered := recvDelivered t + 1\<rparr>;
          batch = div64 (creditWindow t) 2;
          batch = (if sint batch < 1 then 1 else batch)
      in if sint (recvDelivered t) \<ge> sint batch then
           (let n = recvDelivered t; t = t\<lparr>recvDelivered := 0\<rparr>
            in (t, if grantCredit t then Some n else None))
         else (t, None))"

definition Name :: "'v value_api \<Rightarrow> Dialect \<Rightarrow> 'v rpcRequestCtx \<Rightarrow> string" where
  "Name V d t =
     (case map_GetString V (req t) (FunctionNameField d) of
        Some fn \<Rightarrow> string_String V fn
      | None \<Rightarrow> ''unknown'')"

text \<open>The typed accessor never returns nil, so a request without a function name is metered under the empty name.\<close>

lemma nameless_request:
  "value_laws V \<Longrightarrow> Get V (req t) (FunctionNameField d) = Some (Null V) \<Longrightarrow> Name V d t = []"
  by (simp add: Name_def value_laws.GetString_absent value_laws.String_Utf8)

definition Stats_request :: "'v rpcRequestCtx \<Rightarrow> nat \<times> nat" where
  "Stats_request t = (length (resultCh t), resultCap t)"

definition SetError :: "gerror \<Rightarrow> 'v rpcRequestCtx \<Rightarrow> 'v rpcRequestCtx" where
  "SetError err t = t\<lparr>resultErr := Some err\<rparr>"

definition Error_of :: "'v rpcRequestCtx \<Rightarrow> gerror option \<Rightarrow> gerror option" where
  "Error_of t defaultError = (case resultErr t of Some e \<Rightarrow> Some e | None \<Rightarrow> defaultError)"

text \<open>
  Delivery: through the pump, or directly into the buffered channel. The direct path blocks
  (\<^term>\<open>None\<close>) while the buffer is full and the request is open; a send that races with the close of
  the channel panics and is recovered, which returns false; \<open>pick\<close> decides a \<^verbatim>\<open>select\<close> with both
  branches ready.
\<close>

definition notifyResult ::
    "(nat \<Rightarrow> nat) \<Rightarrow> bool \<Rightarrow> 'v option \<Rightarrow> 'v rpcRequestCtx \<Rightarrow> (bool \<times> 'v rpcRequestCtx) option" where
  "notifyResult grow pick res t =
     (case resultPump t of
        Some p \<Rightarrow> (let (ok, p) = Push grow res p in Some (ok, t\<lparr>resultPump := Some p\<rparr>))
      | None \<Rightarrow>
          if resultCloses t > 0 then Some (False, t)
          else if length (resultCh t) < resultCap t \<and> (pick \<or> \<not> done_closed t)
          then Some (True, t\<lparr>resultCh := resultCh t @ [res]\<rparr>)
          else if done_closed t then Some (False, t)
          else None)"

definition closeResult :: "'v value_api \<Rightarrow> Dialect \<Rightarrow> 'v rpcRequestCtx \<Rightarrow> 'v rpcRequestCtx" where
  "closeResult V d t =
     (if closeOnce t then t
      else
        (let t = t\<lparr>closeOnce := True, done_closed := True, sendCredit := map_option gate_Close (sendCredit t)\<rparr>;
             t = (case resultPump t of
                    Some p \<Rightarrow> t\<lparr>resultPump := Some (Close p)\<rparr>
                  | None \<Rightarrow> t\<lparr>resultCloses := resultCloses t + 1\<rparr>)
         in if metrics t
            then t\<lparr>mlog := mlog t @ [RequestEnd (Name V d t) (metricsCode (Error_of t None))]\<rparr>
            else t))"

definition Close_request :: "'v value_api \<Rightarrow> Dialect \<Rightarrow> 'v rpcRequestCtx \<Rightarrow> 'v rpcRequestCtx" where
  "Close_request V d t =
     closeResult V d
       (t\<lparr>getClosed := True, putClosed := True, resultPump := map_option Stop (resultPump t)\<rparr>)"

definition IsGetOpen :: "'v rpcRequestCtx \<Rightarrow> bool" where
  "IsGetOpen t = (\<not> getClosed t)"

definition IsPutOpen :: "'v rpcRequestCtx \<Rightarrow> bool" where
  "IsPutOpen t = (\<not> putClosed t)"

definition TryGetClose :: "'v value_api \<Rightarrow> Dialect \<Rightarrow> 'v rpcRequestCtx \<Rightarrow> bool \<times> 'v rpcRequestCtx" where
  "TryGetClose V d t =
     (let t = closeResult V d (t\<lparr>getClosed := True\<rparr>)
      in if skind t = chatKind then (putClosed t, t) else (True, t))"

definition TryPutClose :: "'v value_api \<Rightarrow> Dialect \<Rightarrow> 'v rpcRequestCtx \<Rightarrow> bool \<times> 'v rpcRequestCtx" where
  "TryPutClose V d t =
     (let t = t\<lparr>putClosed := True\<rparr>
      in if skind t = putStreamKind then (True, closeResult V d t) else (getClosed t, t))"

text \<open>
  The first of the events \<^verbatim>\<open>SingleResp\<close> waits for. The result tells whether \<open>onTimeout\<close> ran (it sends
  a \<^verbatim>\<open>CancelRequest\<close>).
\<close>

datatype 'v resp_event =
    ResultReceived "'v option"
  | ResultClosed
  | CtxDone gerror
  | TimerFired "gerror option"

definition SingleResp :: "'v resp_event \<Rightarrow> 'v rpcRequestCtx \<Rightarrow> (gerror + 'v option) \<times> bool" where
  "SingleResp ev t =
     (case ev of
        ResultReceived v \<Rightarrow> (Inr v, False)
      | ResultClosed \<Rightarrow> (Inl (the (Error_of t (Some ErrNoResponse))), False)
      | CtxDone e \<Rightarrow> (Inl e, True)
      | TimerFired ctxErr \<Rightarrow>
          (case ctxErr of
             Some e \<Rightarrow> (Inl e, True)
           | None \<Rightarrow> (Inl (the (Error_of t (Some ErrTimeoutError))), True)))"

section \<open>The lifecycle of a stream initiator\<close>

locale initiator =
  fixes finished get_closed put_closed :: "'s \<Rightarrow> bool"
    and is_chat is_put :: "'s \<Rightarrow> bool"
    and try_get try_put :: "'s \<Rightarrow> bool \<times> 's"
    and force :: "'s \<Rightarrow> 's"
  assumes try_get_state: "get_closed (snd (try_get s))" "put_closed (snd (try_get s)) = put_closed s"
      "finished (snd (try_get s))" "is_chat (snd (try_get s)) = is_chat s" "is_put (snd (try_get s)) = is_put s"
    and try_get_result: "fst (try_get s) = (if is_chat s then put_closed s else True)"
    and try_put_state: "put_closed (snd (try_put s))" "get_closed (snd (try_put s)) = get_closed s"
      "finished (snd (try_put s)) = (is_put s \<or> finished s)"
      "is_chat (snd (try_put s)) = is_chat s" "is_put (snd (try_put s)) = is_put s"
    and try_put_result: "fst (try_put s) = (if is_put s then True else get_closed s)"
    and force_state: "get_closed (force s)" "put_closed (force s)" "finished (force s)"
begin

lemmas initiator_simps =
  try_get_state try_get_result try_put_state try_put_result force_state

text \<open>Half-closing: whichever side of a chat ends first keeps the request, the second retires it.\<close>

lemma chat_retired_by_second:
  assumes "is_chat s" and "\<not> is_put s" and "\<not> get_closed s" and "\<not> put_closed s"
  shows "\<not> fst (try_get s) \<and> fst (try_put (snd (try_get s)))"
    and "\<not> fst (try_put s) \<and> fst (try_get (snd (try_put s)))"
  using assms by (simp_all add: initiator_simps)

text \<open>The put side of a get stream or of a chat never ends the result stream.\<close>

lemma put_keeps_results:
  assumes "\<not> is_put s" and "\<not> finished s"
  shows "\<not> finished (snd (try_put s))"
  using assms by (simp add: initiator_simps)

end

section \<open>The client's requests satisfy the contracts\<close>

lemma closeResult_fields [simp]:
  "getClosed (closeResult V d t) = getClosed t" "putClosed (closeResult V d t) = putClosed t"
  "closeOnce (closeResult V d t)" "skind (closeResult V d t) = skind t"
  by (simp_all add: closeResult_def Let_def split: option.splits)

interpretation client_request: initiator closeOnce getClosed putClosed
    "\<lambda>t. skind t = chatKind" "\<lambda>t. skind t = putStreamKind" "TryGetClose V d" "TryPutClose V d"
    "Close_request V d" for V d
  by unfold_locales
     (auto simp: TryGetClose_def TryPutClose_def Close_request_def Let_def)

interpretation client_credit: credit_receiver grantCredit creditWindow recvDelivered grantRecv
  by unfold_locales (auto simp: grantRecv_def replenish_def Let_def)

text \<open>What happens to a request over its life, in any order and any number of times.\<close>

datatype 'v request_op =
    OpNotify bool "'v option"
  | OpCloseRequest
  | OpTryGetClose
  | OpTryPutClose
  | OpSetError gerror
  | OpDelivered

definition request_step ::
    "'v value_api \<Rightarrow> Dialect \<Rightarrow> (nat \<Rightarrow> nat) \<Rightarrow> 'v request_op \<Rightarrow> 'v rpcRequestCtx \<Rightarrow> 'v rpcRequestCtx" where
  "request_step V d grow p t =
     (case p of
        OpNotify b v \<Rightarrow> (case notifyResult grow b v t of None \<Rightarrow> t | Some (_, t') \<Rightarrow> t')
      | OpCloseRequest \<Rightarrow> Close_request V d t
      | OpTryGetClose \<Rightarrow> snd (TryGetClose V d t)
      | OpTryPutClose \<Rightarrow> snd (TryPutClose V d t)
      | OpSetError e \<Rightarrow> SetError e t
      | OpDelivered \<Rightarrow> fst (grantRecv t))"

definition closed_once :: "'v rpcRequestCtx \<Rightarrow> bool" where
  "closed_once t =
     (resultCloses t = (if closeOnce t \<and> resultPump t = None then 1 else 0) \<and>
      request_ends (mlog t) = (if closeOnce t \<and> metrics t then 1 else 0) \<and>
      done_closed t = closeOnce t \<and>
      (closeOnce t \<longrightarrow> (\<forall>g. sendCredit t = Some g \<longrightarrow> gate_closed g)) \<and>
      (closeOnce t \<longrightarrow> (\<forall>p. resultPump t = Some p \<longrightarrow> inputEnd p)))"

lemma request_ends_append [simp]: "request_ends (xs @ ys) = request_ends xs + request_ends ys"
  by (simp add: request_ends_def)

lemma closed_once_closeResult:
  assumes "\<not> closeOnce t \<longrightarrow> closed_once t" and "closeOnce t \<longrightarrow> closed_once t"
  shows "closed_once (closeResult V d t)"
  using assms
  by (auto simp: closeResult_def closed_once_def Let_def request_ends_def gate_Close_def Close_def
      split: option.splits)

lemma Push_inputEnd: "inputEnd p \<Longrightarrow> inputEnd (snd (Push grow v p))"
  by (simp add: Push_def)

lemma closed_once_step:
  assumes "closed_once t"
  shows "closed_once (request_step V d grow p t)"
proof (cases p)
  case (OpNotify b v)
  show ?thesis
  proof (cases "resultPump t")
    case None
    then show ?thesis using OpNotify assms
      by (auto simp: request_step_def notifyResult_def closed_once_def split: option.splits)
  next
    case (Some q)
    then show ?thesis using OpNotify assms Push_inputEnd [of q grow v]
      by (simp add: request_step_def notifyResult_def closed_once_def case_prod_beta)
  qed
next
  case OpCloseRequest
  have "closed_once (t\<lparr>getClosed := True, putClosed := True, resultPump := map_option Stop (resultPump t)\<rparr>)"
    using assms by (auto simp: closed_once_def Stop_def)
  then show ?thesis using OpCloseRequest
    by (simp add: request_step_def Close_request_def closed_once_closeResult)
next
  case OpTryGetClose
  have "closed_once (t\<lparr>getClosed := True\<rparr>)" using assms by (simp add: closed_once_def)
  then show ?thesis using OpTryGetClose
    by (simp add: request_step_def TryGetClose_def Let_def closed_once_closeResult)
next
  case OpTryPutClose
  have "closed_once (t\<lparr>putClosed := True\<rparr>)" using assms by (simp add: closed_once_def)
  then show ?thesis using OpTryPutClose
    by (simp add: request_step_def TryPutClose_def Let_def closed_once_closeResult)
next
  case (OpSetError e)
  then show ?thesis using assms by (simp add: request_step_def SetError_def closed_once_def)
next
  case OpDelivered
  then show ?thesis using assms by (simp add: request_step_def grantRecv_def closed_once_def Let_def)
qed

lemma closed_once_run:
  "closed_once t \<Longrightarrow> closed_once (fold (request_step V d grow) ops t)"
  by (induction ops arbitrary: t) (simp_all add: closed_once_step)

lemma closed_once_new: "closed_once ((NewRequestCtx rid k m cap mp g)\<lparr>metrics := b\<rparr>)"
  by (simp add: NewRequestCtx_def Let_def closed_once_def request_ends_def)

section \<open>Properties\<close>

text \<open>
  C15. A request closes exactly once: whatever mixture of responses, stream ends, cancellations,
  timeouts and errors hits it, in any order, its result channel is closed at most once (the pump
  closes it for streaming kinds), a \<^verbatim>\<open>RequestEnd\<close> metric is emitted exactly when it closed, and a
  closed request has closed its credit gate, so no sender stays blocked on it.
\<close>

theorem request_closes_once:
  "closed_once (fold (request_step V d grow) ops ((NewRequestCtx rid k m cap mp g)\<lparr>metrics := True\<rparr>))"
  by (rule closed_once_run [OF closed_once_new])

text \<open>
  Half-close of a chat: whichever side finishes first leaves the request registered, the second
  one retires it; the results of a chat or of a get stream are not ended by the put side finishing.
\<close>

theorem chat_half_close:
  assumes "skind t = chatKind" and "\<not> getClosed t" and "\<not> putClosed t" and "\<not> closeOnce t"
  shows "\<not> fst (TryGetClose V d t) \<and> fst (TryPutClose V d (snd (TryGetClose V d t))) \<and>
         \<not> fst (TryPutClose V d t) \<and> fst (TryGetClose V d (snd (TryPutClose V d t))) \<and>
         \<not> closeOnce (snd (TryPutClose V d t))"
  using client_request.chat_retired_by_second [of t V d] client_request.put_keeps_results [of t V d] assms
  by simp

theorem chat_half_close_witness:
  "let t = NewRequestCtx 5 chatKind (GMap []) 2 0 True
   in \<not> fst (TryPutClose ref_api NewDialect t) \<and>
      fst (TryGetClose ref_api NewDialect (snd (TryPutClose ref_api NewDialect t)))"
  using chat_half_close [of "NewRequestCtx 5 chatKind (GMap []) 2 0 True" ref_api NewDialect]
  by (simp add: Let_def NewRequestCtx_def)

text \<open>
  The client grants back what its consumer takes: after \<open>n\<close> deliveries of a get stream or a chat
  (the first of which is the acknowledgement) the total granted is \<open>n - 1\<close> minus less than half a
  window still being batched, for every window below \<open>2^63\<close>.
\<close>

theorem client_grants_follow_deliveries:
  assumes "k = getStreamKind \<or> k = chatKind" and "0 < mp" and "mp < 2 ^ 63"
  shows "fst (client_credit.deliveries n (NewRequestCtx rid k m cap mp True)) \<le> int n - 1 + (if n = 0 then 1 else 0) \<and>
         int n - 1 - max 1 (mp div 2) < fst (client_credit.deliveries n (NewRequestCtx rid k m cap mp True))"
proof -
  let ?t = "NewRequestCtx rid k m cap mp True"
  let ?r = "snd (client_credit.deliveries n ?t)"
  have w: "sint (word_of_int mp :: int64) = mp" using assms(2,3) by (intro sint_of_int64) auto
  have t: "grantCredit ?t" "creditWindow ?t = word_of_int mp" "recvDelivered ?t = - 1"
    using assms(1,2) by (auto simp: NewRequestCtx_def Let_def)
  have "fst (client_credit.deliveries n ?t) + sint (recvDelivered ?r) = - 1 + int n \<and>
      (n \<noteq> 0 \<longrightarrow> 0 \<le> sint (recvDelivered ?r)) \<and> sint (recvDelivered ?r) < half_window (creditWindow ?t)"
    using client_credit.deliveries_conserve [of ?t n] t w assms(2) by (simp add: half_window_def)
  then show ?thesis using t w by (cases n) (auto simp: half_window_def)
qed

theorem client_grants_follow_deliveries_witness:
  "fst (client_credit.deliveries 3 (NewRequestCtx 1 getStreamKind (GMap []) 2 4 True)) = 2"
  using client_grants_follow_deliveries [of getStreamKind 4 3 1 "GMap []" 2]
  by (simp add: numeral_3_eq_3 NewRequestCtx_def Let_def grantRecv_def div64_def go_div_def)

end
