(* ===== verification/Serving_Request.thy ===== *)
theory Serving_Request
  imports Request_Ctx Verify
begin

text \<open>
  The server's record of one stream it serves: \<^verbatim>\<open>servingRequest\<close> of
  \<^verbatim>\<open>valueserver/serving_request.go\<close>. A method changes the record and acts on the serving client it
  belongs to (sending a frame, retiring the request, counting a metric); the model returns those
  actions as a list, in order, which \<^verbatim>\<open>Serving_Client\<close> performs. The goroutine
  \<^verbatim>\<open>outgoingStreamer\<close> is a step function over what its \<^verbatim>\<open>select\<close> receives.
\<close>

section \<open>Environment and actions\<close>

text \<open>
  What every handler needs besides its state: the value interface, the active dialect, the growth
  rule of slices, and the rendering of payloads in error messages, which is off unless
  \<^verbatim>\<open>DebugPayloadInErrors\<close> is set.
\<close>

record 'v rpc_env =
  env_V :: "'v value_api"
  env_d :: Dialect
  env_grow :: "nat \<Rightarrow> nat"
  env_debug :: "('v option \<Rightarrow> string) option"

definition reqDetail :: "'v rpc_env \<Rightarrow> 'v \<Rightarrow> string" where
  "reqDetail E m = (case env_debug E of Some render \<Rightarrow> '': '' @ render (Some m) | None \<Rightarrow> [])"

definition valDetail :: "'v rpc_env \<Rightarrow> 'v option \<Rightarrow> string" where
  "valDetail E v = (case env_debug E of Some render \<Rightarrow> '': '' @ render v | None \<Rightarrow> [])"

datatype 'v action =
    Send 'v
  | DeleteRequest 'v
  | DeletePending int64
  | Metric metric_event

text \<open>The frames of \<^verbatim>\<open>serving_client.go\<close> are built like those of \<^verbatim>\<open>valuerpc/peer.go\<close>.\<close>

definition FunctionResult :: "'v value_api \<Rightarrow> Dialect \<Rightarrow> 'v \<Rightarrow> 'v option \<Rightarrow> 'v" where
  "FunctionResult V d rid result =
     (let resp = Puts V (EmptyMap V)
        [(MessageTypeField d, MessageType_Long V FunctionResponse), (RequestIdField d, rid)]
      in if result \<noteq> None then Put V resp (ResultField d) result else resp)"

definition FunctionError :: "'v value_api \<Rightarrow> Dialect \<Rightarrow> 'v \<Rightarrow> Code \<Rightarrow> string \<Rightarrow> 'v" where
  "FunctionError V d rid code msg =
     Puts V (EmptyMap V)
       [(MessageTypeField d, MessageType_Long V ErrorResponse), (RequestIdField d, rid),
        (CodeField d, Long V (Code_to_int64 code)), (ErrorField d, Utf8 V msg)]"

definition StreamReady_msg :: "'v value_api \<Rightarrow> Dialect \<Rightarrow> 'v \<Rightarrow> 'v" where
  "StreamReady_msg V d rid =
     Puts V (EmptyMap V)
       [(MessageTypeField d, MessageType_Long V StreamReady), (RequestIdField d, rid)]"

definition StreamValue_msg :: "'v value_api \<Rightarrow> Dialect \<Rightarrow> 'v \<Rightarrow> 'v option \<Rightarrow> 'v" where
  "StreamValue_msg V d rid val =
     Put V (Puts V (EmptyMap V)
       [(MessageTypeField d, MessageType_Long V StreamValue), (RequestIdField d, rid)])
       (ValueField d) val"

definition StreamEnd_msg :: "'v value_api \<Rightarrow> Dialect \<Rightarrow> 'v \<Rightarrow> 'v option \<Rightarrow> 'v" where
  "StreamEnd_msg V d rid val =
     (let resp = Puts V (EmptyMap V)
        [(MessageTypeField d, MessageType_Long V StreamEnd), (RequestIdField d, rid)]
      in if val \<noteq> None then Put V resp (ValueField d) val else resp)"

lemmas [builder_defs] =
  FunctionResult_def FunctionError_def StreamReady_msg_def StreamValue_msg_def StreamEnd_msg_def

section \<open>The serving request\<close>

datatype functionType = singleFunction | outgoingStream | incomingStream | chat

record 'v servingRequest =
  sr_ft :: functionType
  sr_requestId :: 'v
  sr_inPump :: "'v StreamPump option"
  sr_inCap :: nat
  sr_sendCredit :: "CreditGate option"
  sr_cancel :: bool
  sr_cancelled :: bool
  sr_creditWindow :: int64
  sr_inboundDelivered :: int64
  sr_method :: string
  sr_code :: Code
  sr_closed :: bool
  sr_inClosed :: bool
  sr_done :: bool

definition setCode :: "Code \<Rightarrow> 'v servingRequest \<Rightarrow> 'v servingRequest" where
  "setCode c t = (if sr_code t = CodeOK then t\<lparr>sr_code := c\<rparr> else t)"

definition NewServingRequest :: "functionType \<Rightarrow> 'v \<Rightarrow> 'v servingRequest" where
  "NewServingRequest ft rid =
     (let sr = \<lparr>sr_ft = ft, sr_requestId = rid, sr_inPump = None, sr_inCap = 0, sr_sendCredit = None,
                sr_cancel = False, sr_cancelled = False, sr_creditWindow = 0, sr_inboundDelivered = 0,
                sr_method = [], sr_code = CodeOK, sr_closed = False, sr_inClosed = False, sr_done = False\<rparr>
      in if ft = outgoingStream \<or> ft = chat then sr\<lparr>sr_sendCredit := Some NewCreditGate\<rparr> else sr)"

definition setupInbound :: "nat \<Rightarrow> int \<Rightarrow> 'v servingRequest \<Rightarrow> 'v servingRequest" where
  "setupInbound incomingQueueCap maxPnd t =
     t\<lparr>sr_creditWindow := word_of_int maxPnd, sr_inCap := incomingQueueCap,
       sr_inPump := Some (NewStreamPump maxPnd)\<rparr>"

definition grantInitialInbound :: "'v rpc_env \<Rightarrow> 'v servingRequest \<Rightarrow> 'v action list" where
  "grantInitialInbound E t =
     [Send (NewStreamCredit (env_V E) (env_d E) (sr_requestId t) (sr_creditWindow t))]"

text \<open>The credit a delivery grants to the client, if any; it is sent as a \<^verbatim>\<open>StreamCredit\<close> frame.\<close>

definition grantInbound :: "'v servingRequest \<Rightarrow> 'v servingRequest \<times> int64 option" where
  "grantInbound t =
     (let t = t\<lparr>sr_inboundDelivered := sr_inboundDelivered t + 1\<rparr>;
          batch = div64 (sr_creditWindow t) 2;
          batch = (if sint batch < 1 then 1 else batch)
      in if sint (sr_inboundDelivered t) \<ge> sint batch then
           (let n = sr_inboundDelivered t; t = t\<lparr>sr_inboundDelivered := 0\<rparr> in (t, Some n))
         else (t, None))"

definition cancelCtx :: "'v servingRequest \<Rightarrow> 'v servingRequest" where
  "cancelCtx t = (if sr_cancel t then t\<lparr>sr_cancelled := True\<rparr> else t)"

definition Close_serving :: "'v servingRequest \<Rightarrow> 'v servingRequest" where
  "Close_serving t =
     (if sr_closed t then t
      else
        (let t = cancelCtx (t\<lparr>sr_closed := True, sr_done := True\<rparr>);
             t = t\<lparr>sr_sendCredit := map_option gate_Close (sr_sendCredit t)\<rparr>
         in t\<lparr>sr_inClosed := True, sr_inPump := map_option Stop (sr_inPump t)\<rparr>))"

definition closeInboundChan :: "'v servingRequest \<Rightarrow> 'v servingRequest" where
  "closeInboundChan t =
     (if sr_inClosed t then t
      else t\<lparr>sr_inClosed := True, sr_inPump := map_option Close (sr_inPump t)\<rparr>)"

definition offer :: "'v rpc_env \<Rightarrow> 'v option \<Rightarrow> 'v servingRequest \<Rightarrow> bool \<times> 'v servingRequest" where
  "offer E val t =
     (case sr_inPump t of
        None \<Rightarrow> (False, t)
      | Some p \<Rightarrow> (let (ok, p) = Push (env_grow E) val p in (ok, t\<lparr>sr_inPump := Some p\<rparr>)))"

definition closeRequest :: "'v servingRequest \<Rightarrow> 'v servingRequest \<times> 'v action list" where
  "closeRequest t = (Close_serving t, [DeleteRequest (sr_requestId t)])"

definition incomingStreamValue ::
    "'v rpc_env \<Rightarrow> 'v \<Rightarrow> 'v servingRequest \<Rightarrow> gerror option \<times> 'v servingRequest" where
  "incomingStreamValue E m t =
     (if sr_inPump t = None
      then (Some (PlainError (''incoming value stream not found in serving request for ''
              @ show_int (sint (number_Long (env_V E) (sr_requestId t))))), t)
      else
        (let val = Get (env_V E) m (ValueField (env_d E))
         in if val \<noteq> Some (Null (env_V E)) then (None, snd (offer E val t)) else (None, t)))"

definition incomingStreamEnd ::
    "'v rpc_env \<Rightarrow> 'v \<Rightarrow> 'v servingRequest \<Rightarrow> gerror option \<times> 'v servingRequest \<times> 'v action list" where
  "incomingStreamEnd E m t =
     (if sr_inPump t = None
      then (Some (PlainError (''incoming end stream not found in serving request for ''
              @ show_int (sint (number_Long (env_V E) (sr_requestId t))))), t, [])
      else
        (let val = Get (env_V E) m (ValueField (env_d E));
             (t, acts) = (if val \<noteq> Some (Null (env_V E))
                          then (snd (offer E val t), [Metric (StreamValueMetric (sr_method t))])
                          else (t, []))
         in if sr_ft t = chat then (None, closeInboundChan t, acts)
            else (None, cancelCtx (closeInboundChan t), acts @ [DeleteRequest (sr_requestId t)])))"

definition serveRunningRequest ::
    "'v rpc_env \<Rightarrow> MessageType \<Rightarrow> 'v \<Rightarrow> 'v servingRequest \<Rightarrow>
     gerror option \<times> 'v servingRequest \<times> 'v action list" where
  "serveRunningRequest E msgType m t =
     (if msgType = CancelRequest then
        (let (t, acts) = closeRequest (setCode CodeCanceled t) in (None, t, acts))
      else if msgType = StreamValue then
        (case incomingStreamValue E m t of
           (Some err, t) \<Rightarrow> (Some err, t, [])
         | (None, t) \<Rightarrow>
             (let acts = [Metric (StreamValueMetric (sr_method t))]
              in if (case sr_inPump t of Some p \<Rightarrow> Overflowed p | None \<Rightarrow> False) then
                   (let reply = FunctionError (env_V E) (env_d E) (sr_requestId t) CodeResourceExhausted
                          (''inbound stream '' @ show_int (sint (number_Long (env_V E) (sr_requestId t)))
                           @ '' truncated: client exceeded flow-control credit'');
                        (t, cl) = closeRequest (setCode CodeResourceExhausted t)
                    in (None, t, acts @ [Send reply] @ cl))
                 else (None, t, acts)))
      else if msgType = StreamEnd then incomingStreamEnd E m t
      else if msgType = StreamCredit then
        (case GetNumberField (env_V E) m (CreditField (env_d E)) of
           Some cr \<Rightarrow>
             (None, t\<lparr>sr_sendCredit := map_option (Grant (number_Long (env_V E) cr)) (sr_sendCredit t)\<rparr>, [])
         | None \<Rightarrow> (None, t, []))
      else (Some (PlainError (''unknown message type'' @ reqDetail E m)), t, []))"

section \<open>The outgoing streamer\<close>

text \<open>
  What the streamer's \<^verbatim>\<open>select\<close> returns: a value from the handler's channel, its end, or the
  request's \<^verbatim>\<open>done\<close>.
\<close>

datatype 'v out_event = OutValue "'v option" | OutClosed | OutDone

text \<open>
  One iteration of the loop: \<^term>\<open>None\<close> while it waits for credit; otherwise whether the streamer has
  returned, the request, and the actions.
\<close>

definition streamer_step ::
    "'v rpc_env \<Rightarrow> 'v out_event \<Rightarrow> 'v servingRequest \<Rightarrow> (bool \<times> 'v servingRequest \<times> 'v action list) option" where
  "streamer_step E ev t =
     (let (val, ok) = (case ev of OutValue v \<Rightarrow> (v, True) | _ \<Rightarrow> (None, False))
      in if \<not> ok \<or> sr_closed t then
           (let (t', cl) = closeRequest t
            in Some (True, t', Send (StreamEnd_msg (env_V E) (env_d E) (sr_requestId t) val) # cl))
         else
           (let sent = [Send (StreamValue_msg (env_V E) (env_d E) (sr_requestId t) val),
                        Metric (StreamValueMetric (sr_method t))]
            in case sr_sendCredit t of
                 None \<Rightarrow> Some (False, t, sent)
               | Some g \<Rightarrow>
                   (case Acquire g of
                      None \<Rightarrow> None
                    | Some (False, _) \<Rightarrow> (let (t', cl) = closeRequest t in Some (True, t', cl))
                    | Some (True, g') \<Rightarrow> Some (False, t\<lparr>sr_sendCredit := Some g'\<rparr>, sent))))"

text \<open>
  The whole goroutine over a list of events, each iteration preceded by the credit that arrived in
  the meantime (\<open>grants\<close>); it stops with its events, when it returns, or when it blocks.
\<close>

fun streamer_loop ::
    "'v rpc_env \<Rightarrow> (int64 list \<times> 'v out_event) list \<Rightarrow> 'v servingRequest \<Rightarrow> 'v action list" where
  "streamer_loop E [] t = []"
| "streamer_loop E ((gs, ev) # evs) t =
     (let t = t\<lparr>sr_sendCredit := map_option (fold Grant gs) (sr_sendCredit t)\<rparr>
      in case streamer_step E ev t of
           None \<Rightarrow> []
         | Some (True, t', acts) \<Rightarrow> acts
         | Some (False, t', acts) \<Rightarrow> acts @ streamer_loop E evs t')"

definition outgoingStreamer ::
    "'v rpc_env \<Rightarrow> (int64 list \<times> 'v out_event) list \<Rightarrow> 'v servingRequest \<Rightarrow> 'v action list" where
  "outgoingStreamer E evs t =
     Send (StreamReady_msg (env_V E) (env_d E) (sr_requestId t)) # streamer_loop E evs t"

section \<open>The server's receivers satisfy the credit contract\<close>

interpretation server_credit: credit_receiver "\<lambda>_. True" sr_creditWindow sr_inboundDelivered grantInbound
  by unfold_locales (auto simp: grantInbound_def replenish_def Let_def)

section \<open>What the streamer sends\<close>

fun sends :: "'v action list \<Rightarrow> 'v list" where
  "sends [] = []"
| "sends (Send m # as) = m # sends as"
| "sends (_ # as) = sends as"

lemma sends_append [simp]: "sends (xs @ ys) = sends xs @ sends ys"
  by (induction xs rule: sends.induct) simp_all

primrec out_values :: "(int64 list \<times> 'v out_event) list \<Rightarrow> 'v option list" where
  "out_values [] = []"
| "out_values (e # es) = (case snd e of OutValue v \<Rightarrow> v # out_values es | _ \<Rightarrow> [])"

primrec granted_total :: "(int64 list \<times> 'v out_event) list \<Rightarrow> int" where
  "granted_total [] = 0"
| "granted_total (e # es) = sum_list (map (\<lambda>n. max 0 (sint n)) (fst e)) + granted_total es"

lemma granted_total_nonneg: "0 \<le> granted_total evs"
  by (induction evs) (auto intro!: add_nonneg_nonneg sum_list_nonneg)

definition credit_of :: "'v servingRequest \<Rightarrow> int" where
  "credit_of t = (case sr_sendCredit t of Some g \<Rightarrow> sint (credit g) | None \<Rightarrow> 0)"

lemma sint_fold_Grant:
  assumes "0 \<le> sint (credit g)" and "sint (credit g) + sum_list (map (\<lambda>n. max 0 (sint n)) gs) < 2 ^ 63"
  shows "sint (credit (fold Grant gs g)) = sint (credit g) + sum_list (map (\<lambda>n. max 0 (sint n)) gs)"
  using assms
proof (induction gs arbitrary: g)
  case Nil
  then show ?case by simp
next
  case (Cons n gs)
  have "0 \<le> sum_list (map (\<lambda>n. max 0 (sint (n :: int64))) gs)" by (auto intro!: sum_list_nonneg)
  then have "sint (credit (Grant n g)) = sint (credit g) + max 0 (sint n)"
    using Cons.prems by (intro sint_Grant) auto
  then show ?case using Cons.IH [of "Grant n g"] Cons.prems by simp
qed

lemma closeRequest_sends [simp]: "sends (snd (closeRequest t)) = []"
  by (simp add: closeRequest_def)

text \<open>One iteration either sends one value for one credit, or ends with at most a \<^verbatim>\<open>StreamEnd\<close>.\<close>

lemma streamer_step_cases:
  assumes "streamer_step E ev t = Some (stop, t', acts)"
  obtains (one_value) v where "ev = OutValue v" "\<not> stop"
      "sends acts = [StreamValue_msg (env_V E) (env_d E) (sr_requestId t) v]"
      "sr_requestId t' = sr_requestId t"
      "case sr_sendCredit t of None \<Rightarrow> sr_sendCredit t' = None
       | Some g \<Rightarrow> \<exists>g'. sr_sendCredit t' = Some g' \<and> Acquire g = Some (True, g')"
  | (ended) x where "stop" "sends acts \<in> {[], [StreamEnd_msg (env_V E) (env_d E) (sr_requestId t) x]}"
proof (cases "(\<exists>v. ev = OutValue v) \<and> \<not> sr_closed t")
  case False
  then have "stop" "\<exists>x. sends acts = [StreamEnd_msg (env_V E) (env_d E) (sr_requestId t) x]"
    using assms by (auto simp: streamer_step_def closeRequest_def split: out_event.splits prod.splits if_splits)
  then show ?thesis using ended by blast
next
  case True
  then obtain v where v: "ev = OutValue v" "\<not> sr_closed t" by blast
  show ?thesis
  proof (cases "sr_sendCredit t")
    case None
    then have "stop = False" "t' = t"
      "sends acts = [StreamValue_msg (env_V E) (env_d E) (sr_requestId t) v]"
      using assms v by (auto simp: streamer_step_def)
    then show ?thesis using None v by (intro one_value [of v]) simp_all
  next
    case (Some g)
    then obtain b g' where acq: "Acquire g = Some (b, g')"
      using assms v by (auto simp: streamer_step_def split: option.splits)
    show ?thesis
    proof (cases b)
      case True
      then have "stop = False" "t' = t\<lparr>sr_sendCredit := Some g'\<rparr>"
        "sends acts = [StreamValue_msg (env_V E) (env_d E) (sr_requestId t) v]"
        using assms v Some acq by (auto simp: streamer_step_def)
      then show ?thesis using Some acq True v by (intro one_value [of v]) simp_all
    next
      case False
      then have "stop" "sends acts = []"
        using assms v Some acq by (auto simp: streamer_step_def closeRequest_def)
      then show ?thesis using ended by blast
    qed
  qed
qed

lemma streamer_loop_shape:
  "\<exists>vs tail. sends (streamer_loop E evs t)
       = map (StreamValue_msg (env_V E) (env_d E) (sr_requestId t)) vs @ tail \<and>
     prefix vs (out_values evs) \<and>
     (tail = [] \<or> (\<exists>x. tail = [StreamEnd_msg (env_V E) (env_d E) (sr_requestId t) x])) \<and>
     (sr_sendCredit t \<noteq> None \<and> 0 \<le> credit_of t \<and> credit_of t + granted_total evs < 2 ^ 63 \<longrightarrow>
        int (length vs) \<le> credit_of t + granted_total evs)"
proof (induction evs arbitrary: t)
  case Nil
  then show ?case by (intro exI [of _ "[]"]) simp
next
  case (Cons e evs)
  obtain gs ev where e: "e = (gs, ev)" by force
  let ?t = "t\<lparr>sr_sendCredit := map_option (fold Grant gs) (sr_sendCredit t)\<rparr>"
  let ?gsum = "sum_list (map (\<lambda>n. max 0 (sint n)) gs)"
  have gs: "0 \<le> ?gsum" by (auto intro!: sum_list_nonneg)
  have cr: "credit_of ?t = credit_of t + ?gsum"
    if "sr_sendCredit t \<noteq> None" "0 \<le> credit_of t" "credit_of t + granted_total (e # evs) < 2 ^ 63"
    using that sint_fold_Grant granted_total_nonneg [of evs] by (auto simp: credit_of_def e)
  show ?case
  proof (cases "streamer_step E ev ?t")
    case None
    then show ?thesis using gs granted_total_nonneg [of evs]
      by (intro exI [of _ "[]"] exI [of _ "[]"]) (simp add: e Let_def)
  next
    case (Some r)
    obtain stop t' acts where r: "r = (stop, t', acts)" by (cases r) auto
    note step = Some [unfolded r]
    show ?thesis
    proof (rule streamer_step_cases [OF step])
      fix x assume f: "stop" "sends acts \<in> {[], [StreamEnd_msg (env_V E) (env_d E) (sr_requestId ?t) x]}"
      then show ?thesis using step gs granted_total_nonneg [of evs]
        by (intro exI [of _ "[]"] exI [of _ "sends acts"]) (auto simp: e Let_def)
    next
      fix v
      assume v: "ev = OutValue v" "\<not> stop"
        "sends acts = [StreamValue_msg (env_V E) (env_d E) (sr_requestId ?t) v]"
        "sr_requestId t' = sr_requestId ?t"
        "case sr_sendCredit ?t of None \<Rightarrow> sr_sendCredit t' = None
         | Some g \<Rightarrow> \<exists>g'. sr_sendCredit t' = Some g' \<and> Acquire g = Some (True, g')"
      from Cons.IH [of t'] obtain vs tail where IH:
        "sends (streamer_loop E evs t') = map (StreamValue_msg (env_V E) (env_d E) (sr_requestId t)) vs @ tail"
        "prefix vs (out_values evs)"
        "tail = [] \<or> (\<exists>x. tail = [StreamEnd_msg (env_V E) (env_d E) (sr_requestId t) x])"
        "sr_sendCredit t' \<noteq> None \<and> 0 \<le> credit_of t' \<and> credit_of t' + granted_total evs < 2 ^ 63 \<longrightarrow>
          int (length vs) \<le> credit_of t' + granted_total evs"
        using v(4) by auto
      have cr': "sr_sendCredit t' \<noteq> None" "credit_of t' = credit_of ?t - 1" "0 \<le> credit_of t'"
        if sc: "sr_sendCredit t \<noteq> None"
      proof -
        obtain g where g: "sr_sendCredit t = Some g" using sc by auto
        then obtain g' where g': "sr_sendCredit t' = Some g'" "Acquire (fold Grant gs g) = Some (True, g')"
          using v(5) by auto
        show "sr_sendCredit t' \<noteq> None" "credit_of t' = credit_of ?t - 1" "0 \<le> credit_of t'"
          using g g' Acquire_True [OF g'(2)] by (simp_all add: credit_of_def)
      qed
      have "sends (streamer_loop E (e # evs) t)
          = map (StreamValue_msg (env_V E) (env_d E) (sr_requestId t)) (v # vs) @ tail"
        using step v(2,3) IH(1) by (simp add: e Let_def)
      moreover have "prefix (v # vs) (out_values (e # evs))" using IH(2) v(1) by (simp add: e)
      moreover have "int (length (v # vs)) \<le> credit_of t + granted_total (e # evs)"
        if "sr_sendCredit t \<noteq> None \<and> 0 \<le> credit_of t \<and> credit_of t + granted_total (e # evs) < 2 ^ 63"
        using that cr cr' IH(4) by (auto simp: e)
      ultimately show ?thesis using IH(3) by blast
    qed
  qed
qed

text \<open>The environment of the examples: the reference values, the default dialect, Go's slices.\<close>

definition sample_env :: "gval rpc_env" where
  "sample_env = \<lparr>env_V = ref_api, env_d = NewDialect, env_grow = go_grow, env_debug = None\<rparr>"

lemma sample_env_simps [simp]: "env_V sample_env = ref_api" "env_d sample_env = NewDialect"
  by (simp_all add: sample_env_def)

section \<open>Properties\<close>

text \<open>
  C16. The outgoing streamer respects the protocol and the credit: over every sequence of handler
  values, credit arrivals and teardown it sends one \<^verbatim>\<open>StreamReady\<close>, then one \<^verbatim>\<open>StreamValue\<close> for each of
  an initial segment of the handler's values, in order, then at most one \<^verbatim>\<open>StreamEnd\<close> and nothing
  after it; and the number of values never exceeds the credit the client granted.
\<close>

theorem streamer_within_credit:
  assumes "ft = outgoingStream \<or> ft = chat" and "granted_total evs < 2 ^ 63"
  shows "\<exists>vs tail.
     sends (outgoingStreamer E evs (NewServingRequest ft rid)) =
       StreamReady_msg (env_V E) (env_d E) rid # map (StreamValue_msg (env_V E) (env_d E) rid) vs @ tail \<and>
     prefix vs (out_values evs) \<and>
     (tail = [] \<or> (\<exists>x. tail = [StreamEnd_msg (env_V E) (env_d E) rid x])) \<and>
     int (length vs) \<le> granted_total evs"
proof -
  let ?t = "NewServingRequest ft rid"
  have t: "sr_sendCredit ?t = Some NewCreditGate" "sr_requestId ?t = rid" "credit_of ?t = 0"
    using assms(1) by (auto simp: NewServingRequest_def Let_def credit_of_def NewCreditGate_def)
  from streamer_loop_shape [of E evs ?t] t assms(2) show ?thesis
    by (simp add: outgoingStreamer_def)
qed

theorem streamer_within_credit_witness:
  "\<exists>vs tail.
     sends (outgoingStreamer \<lparr>env_V = ref_api, env_d = NewDialect, env_grow = go_grow, env_debug = None\<rparr>
       [([1], OutValue (Some (GLong 7))), ([], OutValue (Some (GLong 8))), ([], OutClosed)]
       (NewServingRequest outgoingStream (GLong 3))) =
       StreamReady_msg ref_api NewDialect (GLong 3) # map (StreamValue_msg ref_api NewDialect (GLong 3)) vs @ tail \<and>
     length vs \<le> 1"
  using streamer_within_credit [of outgoingStream
    "[([1], OutValue (Some (GLong 7))), ([], OutValue (Some (GLong 8))), ([], OutClosed)]"
    "\<lparr>env_V = ref_api, env_d = NewDialect, env_grow = go_grow, env_debug = None\<rparr>" "GLong 3"]
  by (auto simp: max_def)

text \<open>
  A client that overruns its credit is told: when a value arrives and the inbound pump is full,
  the server answers with a \<^verbatim>\<open>ResourceExhausted\<close> error frame, records that code, retires the request,
  closes it and stops the pump; nothing is dropped silently.
\<close>

theorem overrun_is_reported:
  assumes "sr_inPump t = Some p" and "\<not> inputEnd p" and "\<not> isStopped p" and "pending p \<ge> maxPending p"
    and "Get (env_V E) m (ValueField (env_d E)) = Some v" and "v \<noteq> Null (env_V E)"
    and "\<not> sr_closed t" and "sr_code t = CodeOK"
  shows "\<exists>msg t'. serveRunningRequest E StreamValue m t =
           (None, t', [Metric (StreamValueMetric (sr_method t)),
                       Send (FunctionError (env_V E) (env_d E) (sr_requestId t) CodeResourceExhausted msg),
                       DeleteRequest (sr_requestId t)]) \<and>
         sr_closed t' \<and> sr_code t' = CodeResourceExhausted \<and>
         (\<exists>q. sr_inPump t' = Some q \<and> isStopped q \<and> Overflowed q)"
proof -
  let ?p = "p\<lparr>overflow := True, inputEnd := True\<rparr>"
  let ?t = "t\<lparr>sr_inPump := Some ?p\<rparr>"
  have "incomingStreamValue E m t = (None, ?t)"
    using assms by (simp add: incomingStreamValue_def offer_def Push_def)
  then show ?thesis
    using assms(7,8)
    by (simp add: serveRunningRequest_def mt_defs Overflowed_def closeRequest_def setCode_def code_defs
        Close_serving_def cancelCtx_def isStopped_def Stop_def Let_def) blast
qed

theorem overrun_is_reported_witness:
  "let E = \<lparr>env_V = ref_api, env_d = NewDialect, env_grow = go_grow, env_debug = None\<rparr>;
       p = (NewStreamPump 1)\<lparr>queue := [Some (GLong 1)], queue_cap := 1\<rparr>;
       t = (NewServingRequest incomingStream (GLong 3))\<lparr>sr_inPump := Some p\<rparr>;
       m = StreamValue_msg ref_api NewDialect (GLong 3) (Some (GLong 9))
   in \<exists>t'. fst (snd (serveRunningRequest E StreamValue m t)) = t' \<and> sr_closed t'"
  using overrun_is_reported
    [of "(NewServingRequest incomingStream (GLong 3))\<lparr>sr_inPump :=
           Some ((NewStreamPump 1)\<lparr>queue := [Some (GLong 1)], queue_cap := 1\<rparr>)\<rparr>"
        "(NewStreamPump 1)\<lparr>queue := [Some (GLong 1)], queue_cap := 1\<rparr>"
        "\<lparr>env_V = ref_api, env_d = NewDialect, env_grow = go_grow, env_debug = None\<rparr>"
        "StreamValue_msg ref_api NewDialect (GLong 3) (Some (GLong 9))" "GLong 9"]
  by (auto simp: Let_def NewStreamPump_def isStopped_def pending_def NewServingRequest_def
      StreamValue_msg_def ref_api_def Puts_def gentries_def NewDialect_def MessageType_Long_def)

text \<open>
  The end of a client's input loses nothing: on \<^verbatim>\<open>StreamEnd\<close> for an incoming stream the pump is
  asked to drain (its queued values, with the final one if there is one, stay queued and it is not
  stopped), and the request is retired.
\<close>

theorem stream_end_drains:
  assumes "sr_inPump t = Some p" and "\<not> sr_inClosed t" and "sr_ft t = incomingStream"
    and "grows (env_grow E)" and "slots_ok p" and "\<not> inputEnd p" and "\<not> isStopped p"
    and "pending p < maxPending p"
    and "Get (env_V E) m (ValueField (env_d E)) = Some v"
  shows "\<exists>t' q acts. serveRunningRequest E StreamEnd m t = (None, t', acts @ [DeleteRequest (sr_requestId t)]) \<and>
           sr_inPump t' = Some q \<and> inputEnd q \<and> \<not> isStopped q \<and> sends acts = [] \<and>
           contents q = contents p @ (if v = Null (env_V E) then [] else [Some v])"
proof (cases "v = Null (env_V E)")
  case True
  then show ?thesis
    using assms by (simp add: serveRunningRequest_def incomingStreamEnd_def mt_defs closeInboundChan_def
        cancelCtx_def Close_def isStopped_def contents_def)
next
  case False
  let ?q = "append_slot (env_grow E) (Some v) (compact p)"
  have "Push (env_grow E) (Some v) p = (True, ?q)" using assms(6-8) by (simp add: Push_def)
  moreover have "contents ?q = contents p @ [Some v]"
    using append_slot_ok [OF assms(4), of "compact p" "Some v"] compact_ok [OF assms(5)] by simp
  ultimately show ?thesis
    using assms False
    by (intro exI [of _ "cancelCtx (t\<lparr>sr_inClosed := True, sr_inPump := Some (Close ?q)\<rparr>)"]
        exI [of _ "Close ?q"] exI [of _ "[Metric (StreamValueMetric (sr_method t))]"])
       (simp add: serveRunningRequest_def incomingStreamEnd_def mt_defs offer_def Let_def
        closeInboundChan_def cancelCtx_def Close_def isStopped_def contents_def)
qed

theorem stream_end_drains_witness:
  "let E = \<lparr>env_V = ref_api, env_d = NewDialect, env_grow = go_grow, env_debug = None\<rparr>;
       t = (NewServingRequest incomingStream (GLong 3))\<lparr>sr_inPump := Some (NewStreamPump 4)\<rparr>
   in \<exists>t' q acts. serveRunningRequest E StreamEnd (EmptyMap ref_api) t
        = (None, t', acts @ [DeleteRequest (GLong 3)]) \<and> sr_inPump t' = Some q \<and> \<not> isStopped q"
  using stream_end_drains
    [of "(NewServingRequest incomingStream (GLong 3))\<lparr>sr_inPump := Some (NewStreamPump 4)\<rparr>" "NewStreamPump 4"
        "\<lparr>env_V = ref_api, env_d = NewDialect, env_grow = go_grow, env_debug = None\<rparr>" "EmptyMap ref_api" GNull]
    grows_go_grow
  by (auto simp: Let_def NewStreamPump_def isStopped_def pending_def NewServingRequest_def slots_ok_def
      ref_api_def gentries_def)

text \<open>
  A non-positive pending bound stalls every stream the server receives: the pump and the client
  replace it by the default of 4096, but the server grants the raw value as the window, and a gate
  ignores a grant that is not positive, so the client's sender never gets its first credit.
\<close>

theorem nonpositive_window_stalls:
  assumes "mp \<le> 0" and "- (2 ^ 63) \<le> mp"
  shows "Acquire (Grant (sr_creditWindow (setupInbound cap mp (NewServingRequest ft rid))) NewCreditGate) = None \<and>
         map_option maxPending (sr_inPump (setupInbound cap mp (NewServingRequest ft rid))) = Some 4096 \<and>
         sint (creditWindow (NewRequestCtx cid getStreamKind m rcap mp True)) = 4096"
proof -
  have "sint (word_of_int mp :: int64) = mp" using assms by (intro sint_of_int64) auto
  then show ?thesis
    using assms(1)
    by (simp add: setupInbound_def Grant_def NewCreditGate_def Acquire_def NewStreamPump_def
        DefaultMaxPending_def NewRequestCtx_def)
qed

theorem nonpositive_window_stalls_witness:
  "Acquire (Grant (sr_creditWindow (setupInbound 8 0 (NewServingRequest incomingStream (GLong 3)))) NewCreditGate) = None"
  using nonpositive_window_stalls [of 0 8 incomingStream "GLong 3" 1 GNull 1] by simp

end
