(* ===== verification/Client_Stream.thy ===== *)
theory Client_Stream
  imports Serving_Request
begin

text \<open>
  A stream the server opens toward its client: \<^verbatim>\<open>clientStream\<close> of
  \<^verbatim>\<open>valueserver/serving_stream.go\<close>. It mirrors the client's \<^typ>\<open>'v rpcRequestCtx\<close>, without metrics, and
  satisfies the same two contracts; \<open>handleInbound\<close> is the dispatch of the frames the client sends
  back, with its actions on the serving client as a list.
\<close>

record 'v clientStream =
  cs_requestId :: int64
  cs_kind :: streamKind
  cs_resultCh :: "'v option list"
  cs_resultCap :: nat
  cs_resultCloses :: nat
  cs_resultPump :: "'v StreamPump option"
  cs_sendCredit :: "CreditGate option"
  cs_done :: bool
  cs_closeOnce :: bool
  cs_getClosed :: bool
  cs_putClosed :: bool
  cs_resultErr :: "gerror option"
  cs_creditWindow :: int64
  cs_recvDelivered :: int64
  cs_grantCredit :: bool

definition newClientStream :: "int64 \<Rightarrow> streamKind \<Rightarrow> nat \<Rightarrow> int \<Rightarrow> bool \<Rightarrow> 'v clientStream" where
  "newClientStream reqId k receiveCap maxPnd grant =
     (let t = \<lparr>cs_requestId = reqId, cs_kind = k, cs_resultCh = [], cs_resultCap = receiveCap,
               cs_resultCloses = 0, cs_resultPump = None, cs_sendCredit = None, cs_done = False,
               cs_closeOnce = False, cs_getClosed = False, cs_putClosed = False, cs_resultErr = None,
               cs_creditWindow = 0, cs_recvDelivered = 0, cs_grantCredit = grant\<rparr>;
          t = (if k = getStreamKind \<or> k = chatKind then
                 (let maxPnd = (if maxPnd \<le> 0 then DefaultMaxPending else maxPnd)
                  in t\<lparr>cs_creditWindow := word_of_int maxPnd, cs_recvDelivered := - 1,
                       cs_resultPump := Some (NewStreamPump maxPnd)\<rparr>)
               else t)
      in if k = putStreamKind \<or> k = chatKind then t\<lparr>cs_sendCredit := Some NewCreditGate\<rparr> else t)"

definition cs_sendInitialCredit :: "'v clientStream \<Rightarrow> int64 option" where
  "cs_sendInitialCredit t =
     (if cs_resultPump t \<noteq> None \<and> cs_grantCredit t then Some (cs_creditWindow t) else None)"

definition cs_grantRecv :: "'v clientStream \<Rightarrow> 'v clientStream \<times> int64 option" where
  "cs_grantRecv t =
     (let t = t\<lparr>cs_recvDelivered := cs_recvDelivered t + 1\<rparr>;
          batch = div64 (cs_creditWindow t) 2;
          batch = (if sint batch < 1 then 1 else batch)
      in if sint (cs_recvDelivered t) \<ge> sint batch then
           (let n = cs_recvDelivered t; t = t\<lparr>cs_recvDelivered := 0\<rparr>
            in (t, if cs_grantCredit t then Some n else None))
         else (t, None))"

definition cs_notifyResult ::
    "(nat \<Rightarrow> nat) \<Rightarrow> bool \<Rightarrow> 'v option \<Rightarrow> 'v clientStream \<Rightarrow> (bool \<times> 'v clientStream) option" where
  "cs_notifyResult grow pick res t =
     (case cs_resultPump t of
        Some p \<Rightarrow> (let (ok, p) = Push grow res p in Some (ok, t\<lparr>cs_resultPump := Some p\<rparr>))
      | None \<Rightarrow>
          if cs_resultCloses t > 0 then Some (False, t)
          else if length (cs_resultCh t) < cs_resultCap t \<and> (pick \<or> \<not> cs_done t)
          then Some (True, t\<lparr>cs_resultCh := cs_resultCh t @ [res]\<rparr>)
          else if cs_done t then Some (False, t)
          else None)"

definition cs_closeResult :: "'v clientStream \<Rightarrow> 'v clientStream" where
  "cs_closeResult t =
     (if cs_closeOnce t then t
      else
        (let t = t\<lparr>cs_closeOnce := True, cs_done := True,
                   cs_sendCredit := map_option gate_Close (cs_sendCredit t)\<rparr>
         in case cs_resultPump t of
              Some p \<Rightarrow> t\<lparr>cs_resultPump := Some (Close p)\<rparr>
            | None \<Rightarrow> t\<lparr>cs_resultCloses := cs_resultCloses t + 1\<rparr>))"

definition cs_Close :: "'v clientStream \<Rightarrow> 'v clientStream" where
  "cs_Close t =
     cs_closeResult
       (t\<lparr>cs_getClosed := True, cs_putClosed := True, cs_resultPump := map_option Stop (cs_resultPump t)\<rparr>)"

definition cs_IsPutOpen :: "'v clientStream \<Rightarrow> bool" where
  "cs_IsPutOpen t = (\<not> cs_putClosed t)"

definition cs_setError :: "gerror \<Rightarrow> 'v clientStream \<Rightarrow> 'v clientStream" where
  "cs_setError e t = t\<lparr>cs_resultErr := Some e\<rparr>"

definition cs_err :: "'v clientStream \<Rightarrow> gerror \<Rightarrow> gerror" where
  "cs_err t def = (case cs_resultErr t of Some e \<Rightarrow> e | None \<Rightarrow> def)"

definition tryGetClose :: "'v clientStream \<Rightarrow> bool \<times> 'v clientStream" where
  "tryGetClose t =
     (let t = cs_closeResult (t\<lparr>cs_getClosed := True\<rparr>)
      in if cs_kind t = chatKind then (cs_putClosed t, t) else (True, t))"

definition tryPutClose :: "'v clientStream \<Rightarrow> bool \<times> 'v clientStream" where
  "tryPutClose t =
     (let t = t\<lparr>cs_putClosed := True\<rparr>
      in if cs_kind t = putStreamKind then (True, cs_closeResult t) else (cs_getClosed t, t))"

section \<open>Frames from the client\<close>

text \<open>A payload that is present: neither nil nor of kind \<^const>\<open>NULL\<close>.\<close>

definition payload :: "'v rpc_env \<Rightarrow> 'v \<Rightarrow> 'v option" where
  "payload E m =
     (case Get (env_V E) m (ValueField (env_d E)) of
        None \<Rightarrow> None
      | Some v \<Rightarrow> if Kind (env_V E) v \<noteq> NULL then Some v else None)"

text \<open>
  A call that may block the read loop (a direct send into a full channel) is \<^term>\<open>None\<close> of the
  option; \<open>pick\<close> resolves the \<^verbatim>\<open>select\<close> of the direct path.
\<close>

definition handleInbound ::
    "'v rpc_env \<Rightarrow> bool \<Rightarrow> MessageType \<Rightarrow> 'v \<Rightarrow> 'v clientStream \<Rightarrow>
     ('v clientStream \<times> 'v action list) option" where
  "handleInbound E pick msgType m t =
     (if msgType = StreamReady then
        (case cs_notifyResult (env_grow E) pick None t of
           None \<Rightarrow> None
         | Some (_, t) \<Rightarrow> Some (t, []))
      else if msgType = StreamValue then
        (case payload E m of
           None \<Rightarrow> Some (t, [])
         | Some v \<Rightarrow>
             (case cs_notifyResult (env_grow E) pick (Some v) t of
                None \<Rightarrow> None
              | Some (ok, t) \<Rightarrow>
                  if \<not> ok \<and> (case cs_resultPump t of Some p \<Rightarrow> Overflowed p | None \<Rightarrow> False) then
                    Some (cs_Close t,
                      [Send (NewFunctionError (env_V E) (env_d E) (Long (env_V E) (cs_requestId t))
                         CodeResourceExhausted
                         (''reverse stream '' @ show_int (sint (cs_requestId t))
                          @ '' truncated: peer exceeded flow-control credit'')),
                       DeletePending (cs_requestId t)])
                  else Some (t, [])))
      else if msgType = StreamEnd then
        (case (case payload E m of
                 None \<Rightarrow> Some t
               | Some v \<Rightarrow> map_option snd (cs_notifyResult (env_grow E) pick (Some v) t)) of
           None \<Rightarrow> None
         | Some t \<Rightarrow>
             (let (whole, t) = tryGetClose t
              in Some (t, if whole then [DeletePending (cs_requestId t)] else [])))
      else if msgType = StreamCredit then
        (case GetNumberField (env_V E) m (CreditField (env_d E)) of
           Some cr \<Rightarrow>
             Some (t\<lparr>cs_sendCredit := map_option (Grant (number_Long (env_V E) cr)) (cs_sendCredit t)\<rparr>, [])
         | None \<Rightarrow> Some (t, []))
      else if msgType = ErrorResponse then
        (let code = (case GetNumberField (env_V E) m (CodeField (env_d E)) of
                       Some c \<Rightarrow> Code_of_int64 (number_Long (env_V E) c) | None \<Rightarrow> CodeUnknown);
             msg = (case GetStringField (env_V E) m (ErrorField (env_d E)) of
                      Some s \<Rightarrow> string_String (env_V E) s | None \<Rightarrow> [])
         in Some (cs_Close (cs_setError (RpcError code msg) t), [DeletePending (cs_requestId t)]))
      else Some (t, []))"

section \<open>The stream satisfies the contracts\<close>

lemma cs_closeResult_fields [simp]:
  "cs_getClosed (cs_closeResult t) = cs_getClosed t" "cs_putClosed (cs_closeResult t) = cs_putClosed t"
  "cs_closeOnce (cs_closeResult t)" "cs_kind (cs_closeResult t) = cs_kind t"
  "cs_requestId (cs_closeResult t) = cs_requestId t" "cs_resultErr (cs_closeResult t) = cs_resultErr t"
  by (simp_all add: cs_closeResult_def Let_def split: option.splits)

interpretation server_stream: initiator cs_closeOnce cs_getClosed cs_putClosed
    "\<lambda>t. cs_kind t = chatKind" "\<lambda>t. cs_kind t = putStreamKind" tryGetClose tryPutClose cs_Close
  by unfold_locales (auto simp: tryGetClose_def tryPutClose_def cs_Close_def Let_def)

interpretation stream_credit: credit_receiver cs_grantCredit cs_creditWindow cs_recvDelivered cs_grantRecv
  by unfold_locales (auto simp: cs_grantRecv_def replenish_def Let_def)

text \<open>The two initiators are the same machine: the server's stream is the client's without metrics.\<close>

definition as_request :: "'v \<Rightarrow> 'v clientStream \<Rightarrow> 'v rpcRequestCtx" where
  "as_request m t =
     \<lparr>requestId = cs_requestId t, skind = cs_kind t, req = m, resultCh = cs_resultCh t,
      resultCap = cs_resultCap t, resultCloses = cs_resultCloses t, resultPump = cs_resultPump t,
      sendCredit = cs_sendCredit t, done_closed = cs_done t, closeOnce = cs_closeOnce t,
      cancelOnce = False, getClosed = cs_getClosed t, putClosed = cs_putClosed t,
      resultErr = cs_resultErr t, creditWindow = cs_creditWindow t, recvDelivered = cs_recvDelivered t,
      grantCredit = cs_grantCredit t, metrics = False, mlog = []\<rparr>"

lemma as_request_fields [simp]:
  "skind (as_request m t) = cs_kind t" "getClosed (as_request m t) = cs_getClosed t"
  "putClosed (as_request m t) = cs_putClosed t"
  by (simp_all add: as_request_def)

lemma as_request_closeResult: "as_request m (cs_closeResult t) = closeResult V d (as_request m t)"
  by (simp add: as_request_def cs_closeResult_def closeResult_def Let_def split: option.splits)

section \<open>Properties\<close>

text \<open>
  C18. The server's reverse stream is the client's request machine: under the correspondence that
  forgets the metrics, construction, delivery, credit granting, both half-closes and the forced close
  commute, so what is proved of the client's requests holds of the server's streams.
\<close>

theorem reverse_stream_simulates_request:
  "as_request m (newClientStream rid k cap mp g) = NewRequestCtx rid k m cap mp g \<and>
   map_option (map_prod id (as_request m)) (cs_notifyResult grow b v t) = notifyResult grow b v (as_request m t) \<and>
   map_prod (as_request m) id (cs_grantRecv t) = grantRecv (as_request m t) \<and>
   map_prod id (as_request m) (tryGetClose t) = TryGetClose V d (as_request m t) \<and>
   map_prod id (as_request m) (tryPutClose t) = TryPutClose V d (as_request m t) \<and>
   as_request m (cs_Close t) = Close_request V d (as_request m t)"
proof (intro conjI)
  show "as_request m (newClientStream rid k cap mp g) = NewRequestCtx rid k m cap mp g"
    by (simp add: as_request_def newClientStream_def NewRequestCtx_def Let_def)
  show "map_option (map_prod id (as_request m)) (cs_notifyResult grow b v t) = notifyResult grow b v (as_request m t)"
    by (simp add: as_request_def cs_notifyResult_def notifyResult_def case_prod_beta split: option.splits)
  show "map_prod (as_request m) id (cs_grantRecv t) = grantRecv (as_request m t)"
    by (simp add: as_request_def cs_grantRecv_def grantRecv_def Let_def)
  have get: "as_request m (t\<lparr>cs_getClosed := True\<rparr>) = (as_request m t)\<lparr>getClosed := True\<rparr>"
    and put: "as_request m (t\<lparr>cs_putClosed := True\<rparr>) = (as_request m t)\<lparr>putClosed := True\<rparr>"
    by (simp_all add: as_request_def)
  show "map_prod id (as_request m) (tryGetClose t) = TryGetClose V d (as_request m t)"
    using as_request_closeResult [of m "t\<lparr>cs_getClosed := True\<rparr>" V d] get
    by (simp add: tryGetClose_def TryGetClose_def Let_def)
  show "map_prod id (as_request m) (tryPutClose t) = TryPutClose V d (as_request m t)"
    using as_request_closeResult [of m "t\<lparr>cs_putClosed := True\<rparr>" V d] put
    by (simp add: tryPutClose_def TryPutClose_def Let_def)
  show "as_request m (cs_Close t) = Close_request V d (as_request m t)"
    unfolding cs_Close_def Close_request_def as_request_closeResult [of m _ V d]
    by (simp add: as_request_def)
qed

text \<open>
  The read loop of a streaming reverse stream never blocks: whatever frame arrives for a get
  stream or a chat, its handler returns, because delivery goes through the pump.
\<close>

theorem reverse_stream_never_blocks:
  assumes "cs_resultPump t = Some p"
  shows "\<exists>t' acts. handleInbound E pick mt m t = Some (t', acts)"
proof -
  have push: "cs_notifyResult (env_grow E) pick v t
      = Some (fst (Push (env_grow E) v p), t\<lparr>cs_resultPump := Some (snd (Push (env_grow E) v p))\<rparr>)" for v
    using assms by (simp add: cs_notifyResult_def case_prod_beta)
  show ?thesis
    by (simp add: handleInbound_def push Let_def case_prod_beta split: option.splits)
qed

theorem reverse_stream_never_blocks_witness:
  "\<exists>t' acts. handleInbound \<lparr>env_V = ref_api, env_d = NewDialect, env_grow = go_grow, env_debug = None\<rparr>
     True StreamValue (EmptyMap ref_api) (newClientStream (- 1) getStreamKind 0 4 True) = Some (t', acts)"
  by (rule reverse_stream_never_blocks [of _ "NewStreamPump 4"])
     (simp add: newClientStream_def Let_def)

end
