(* ===== verification/Call_Context.thy ===== *)
theory Call_Context
  imports Protocol
begin

text \<open>
  What travels with a call besides its arguments: request metadata (\<^verbatim>\<open>valuerpc/metadata.go\<close>), the
  principal and peer a handler sees on its context (\<^verbatim>\<open>valuerpc/principal.go\<close>,
  \<^verbatim>\<open>valueserver/peer.go\<close>), the interceptor chain (\<^verbatim>\<open>valuerpc/interceptor.go\<close>), and the typed wrappers
  over codecs (\<^verbatim>\<open>valuerpc/codec.go\<close>, \<^verbatim>\<open>valueclient/typed.go\<close>, \<^verbatim>\<open>valueserver/typed.go\<close>). A Go map of
  strings is an association list with distinct keys, compared through \<^const>\<open>map_of\<close> because Go
  iterates maps in no particular order.
\<close>

section \<open>Metadata\<close>

type_synonym Metadata = "(string \<times> string) list"

definition EncodeMetadata :: "'v value_api \<Rightarrow> Metadata \<Rightarrow> 'v option" where
  "EncodeMetadata V md =
     (if length md = 0 then None
      else Some (ImmutableMapOf V (map (\<lambda>(k, v). (k, Utf8 V v)) md)))"

definition DecodeMetadata :: "'v value_api \<Rightarrow> Dialect \<Rightarrow> 'v \<Rightarrow> Metadata option" where
  "DecodeMetadata V d m =
     (case Get V m (MetadataField d) of
        None \<Rightarrow> None
      | Some v \<Rightarrow>
          if Kind V v \<noteq> MAP then None
          else
            (let hm = map_HashMap V v
             in if length hm = 0 then None
                else Some (map (\<lambda>(k, s). (k, string_String V s)) (filter (\<lambda>(k, s). Kind V s = STRING) hm))))"

section \<open>Contexts\<close>

text \<open>
  The values and bounds the sources attach to a \<^verbatim>\<open>context.Context\<close>: a deadline (in nanoseconds from
  now), whether it was cancelled, the metadata, the principal and the peer.
\<close>

record call_ctx =
  ctx_deadline :: "int option"
  ctx_err :: "gerror option"
  ctx_metadata :: "Metadata option"
  ctx_principal :: "string option"
  ctx_peer :: bool

definition Background :: call_ctx where
  "Background = \<lparr>ctx_deadline = None, ctx_err = None, ctx_metadata = None, ctx_principal = None, ctx_peer = False\<rparr>"

definition ContextWithMetadata :: "call_ctx \<Rightarrow> Metadata \<Rightarrow> call_ctx" where
  "ContextWithMetadata ctx md = ctx\<lparr>ctx_metadata := Some md\<rparr>"

definition MetadataFromContext :: "call_ctx \<Rightarrow> Metadata" where
  "MetadataFromContext ctx = (case ctx_metadata ctx of Some md \<Rightarrow> md | None \<Rightarrow> [])"

definition ContextWithPrincipal :: "call_ctx \<Rightarrow> string \<Rightarrow> call_ctx" where
  "ContextWithPrincipal ctx p = ctx\<lparr>ctx_principal := Some p\<rparr>"

definition PrincipalFromContext :: "call_ctx \<Rightarrow> string" where
  "PrincipalFromContext ctx = (case ctx_principal ctx of Some p \<Rightarrow> p | None \<Rightarrow> [])"

definition contextWithPeer :: "call_ctx \<Rightarrow> call_ctx" where
  "contextWithPeer ctx = ctx\<lparr>ctx_peer := True\<rparr>"

definition PeerFromContext :: "call_ctx \<Rightarrow> bool" where
  "PeerFromContext ctx = ctx_peer ctx"

section \<open>Interceptors\<close>

text \<open>An invoker transforms a state (counters, the network) and returns a result or an error.\<close>

type_synonym ('s, 'v) Invoker =
  "call_ctx \<Rightarrow> string \<Rightarrow> 'v option \<Rightarrow> 's \<Rightarrow> (gerror + 'v option) \<times> 's"
type_synonym ('s, 'v) ClientInterceptor =
  "('s, 'v) Invoker \<Rightarrow> ('s, 'v) Invoker"

text \<open>The loop wraps from the last interceptor to the first.\<close>

fun chain_loop :: "nat \<Rightarrow> ('s, 'v) ClientInterceptor list \<Rightarrow> ('s, 'v) Invoker \<Rightarrow> ('s, 'v) Invoker" where
  "chain_loop 0 ics invoker = invoker"
| "chain_loop (Suc i) ics invoker = chain_loop i ics ((ics ! i) invoker)"

definition ChainClientInterceptors ::
    "('s, 'v) Invoker \<Rightarrow> ('s, 'v) ClientInterceptor list \<Rightarrow> ('s, 'v) Invoker" where
  "ChainClientInterceptors final_inv ics = chain_loop (length ics) ics final_inv"

lemma chain_loop_foldr:
  "i \<le> length ics \<Longrightarrow> chain_loop i ics f = foldr (\<lambda>ic nxt. ic nxt) (take i ics) f"
proof (induction i arbitrary: f)
  case 0
  then show ?case by simp
next
  case (Suc i)
  then show ?case by (simp add: take_Suc_conv_app_nth)
qed

section \<open>Typed calls\<close>

record ('a, 'v) Codec =
  Encode :: "'a \<Rightarrow> 'v option"
  Decode :: "'v option \<Rightarrow> gerror + 'a"

definition ValueCodec :: "('v option, 'v) Codec" where
  "ValueCodec = \<lparr>Encode = (\<lambda>v. v), Decode = (\<lambda>v. Inr v)\<rparr>"

text \<open>The handler that \<^verbatim>\<open>AddUnary\<close> registers around a typed function.\<close>

definition AddUnary_handler ::
    "('a, 'v) Codec \<Rightarrow> ('b, 'v) Codec \<Rightarrow> (call_ctx \<Rightarrow> 'a \<Rightarrow> gerror + 'b) \<Rightarrow>
     call_ctx \<Rightarrow> 'v option \<Rightarrow> gerror + 'v option" where
  "AddUnary_handler reqCodec respCodec fn ctx args =
     (case Decode reqCodec args of
        Inl err \<Rightarrow> Inl (NewError CodeInvalidArgument (''decode request: '' @ Error_text err))
      | Inr r \<Rightarrow>
          (case fn ctx r of
             Inl err \<Rightarrow> Inl err
           | Inr resp \<Rightarrow> Inr (Encode respCodec resp)))"

definition CallUnary ::
    "('s, 'v) Invoker \<Rightarrow> ('a, 'v) Codec \<Rightarrow> ('b, 'v) Codec \<Rightarrow> call_ctx \<Rightarrow> string \<Rightarrow> 'a \<Rightarrow> 's \<Rightarrow>
     (gerror + 'b) \<times> 's" where
  "CallUnary invoker reqCodec respCodec ctx name r s =
     (case invoker ctx name (Encode reqCodec r) s of
        (Inl err, s) \<Rightarrow> (Inl err, s)
      | (Inr res, s) \<Rightarrow> (Decode respCodec res, s))"

text \<open>
  The goroutines of the typed streams, on the values their source channel carries: every value is
  encoded; a receiver decodes until the first value that does not decode and leaves the rest unread.
\<close>

definition PutStreamTyped_loop :: "('a, 'v) Codec \<Rightarrow> 'a list \<Rightarrow> 'v option list" where
  "PutStreamTyped_loop valCodec vs = map (Encode valCodec) vs"

fun GetStreamTyped_loop :: "('a, 'v) Codec \<Rightarrow> 'v option list \<Rightarrow> 'a list \<times> gerror option \<times> 'v option list" where
  "GetStreamTyped_loop respCodec [] = ([], None, [])"
| "GetStreamTyped_loop respCodec (v # vs) =
     (case Decode respCodec v of
        Inl derr \<Rightarrow> ([], Some derr, vs)
      | Inr decoded \<Rightarrow>
          (let (out, err, rest) = GetStreamTyped_loop respCodec vs in (decoded # out, err, rest)))"

definition AddOutgoingStreamTyped_handler ::
    "('a, 'v) Codec \<Rightarrow> ('b, 'v) Codec \<Rightarrow> (call_ctx \<Rightarrow> 'a \<Rightarrow> gerror + 'b list) \<Rightarrow>
     call_ctx \<Rightarrow> 'v option \<Rightarrow> gerror + 'v option list" where
  "AddOutgoingStreamTyped_handler reqCodec respCodec fn ctx args =
     (case Decode reqCodec args of
        Inl err \<Rightarrow> Inl (NewError CodeInvalidArgument (''decode request: '' @ Error_text err))
      | Inr r \<Rightarrow>
          (case fn ctx r of
             Inl err \<Rightarrow> Inl err
           | Inr typed \<Rightarrow> Inr (map (Encode respCodec) typed)))"

definition codec_ok :: "('a, 'v) Codec \<Rightarrow> 'a \<Rightarrow> bool" where
  "codec_ok c x = (Decode c (Encode c x) = Inr x)"

section \<open>Handlers\<close>

text \<open>What calling an application's handler leads to.\<close>

datatype 'a outcome = Returned 'a | Failed gerror | Panicked

text \<open>The verb \<^verbatim>\<open>'%s'\<close> of the error messages.\<close>

definition quoted :: "string \<Rightarrow> string" where
  "quoted name = [CHR 0x27] @ name @ [CHR 0x27]"

text \<open>
  The verb \<^verbatim>\<open>%q\<close> of the error messages: \<^verbatim>\<open>strconv.Quote\<close> on ASCII. Other bytes are taken as they are,
  as they are in printable UTF-8.
\<close>

definition hex2 :: "nat \<Rightarrow> string" where
  "hex2 n = (let h = (\<lambda>i. ''0123456789abcdef'' ! i) in [h (n div 16), h (n mod 16)])"

definition quote_char :: "char \<Rightarrow> string" where
  "quote_char c =
     (let n = of_char c :: nat; bs = CHR 0x5C
      in if c = CHR 0x22 \<or> c = bs then [bs, c]
         else if n = 7 then [bs, CHR ''a''] else if n = 8 then [bs, CHR ''b'']
         else if n = 12 then [bs, CHR ''f''] else if n = 10 then [bs, CHR ''n'']
         else if n = 13 then [bs, CHR ''r''] else if n = 9 then [bs, CHR ''t'']
         else if n = 11 then [bs, CHR ''v'']
         else if n < 32 \<or> n = 127 then [bs, CHR ''x''] @ hex2 n
         else [c])"

definition Quote :: "string \<Rightarrow> string" where
  "Quote s = [CHR 0x22] @ concat (map quote_char s) @ [CHR 0x22]"

section \<open>Properties\<close>

text \<open>
  Metadata round trip: metadata put into a request reads back on the other side with exactly the
  same keys and values, and empty metadata leaves no trace.
\<close>

theorem metadata_roundtrip:
  assumes "value_laws V" and "Kind V m = MAP" and "distinct (map fst md)" and "md \<noteq> []"
  shows "EncodeMetadata V [] = None \<and>
    (\<exists>md'. DecodeMetadata V d (Put V m (MetadataField d) (EncodeMetadata V md)) = Some md' \<and> map_of md' = map_of md)"
proof -
  let ?kvs = "map (\<lambda>(k, v). (k, Utf8 V v)) md"
  let ?hm = "map_HashMap V (ImmutableMapOf V ?kvs)"
  have keys: "map fst ?kvs = map fst md" by (induction md) auto
  have dist: "distinct (map fst ?kvs)" unfolding keys by (rule assms(3))
  have set: "set ?hm = set ?kvs"
    by (rule map_of_inject_set [THEN iffD1, OF value_laws.HashMap_distinct [OF assms(1)] dist
        value_laws.HashMap_ImmutableMapOf [OF assms(1) dist]])
  then have "?hm \<noteq> []" using assms(4) by (cases md) auto
  have all: "filter (\<lambda>(k, s). Kind V s = STRING) ?hm = ?hm"
    using set value_laws.Kind_Utf8 [OF assms(1)] by (auto simp: filter_id_conv)
  let ?md = "map (\<lambda>(k, s). (k, string_String V s)) ?hm"
  have "DecodeMetadata V d (Put V m (MetadataField d) (EncodeMetadata V md)) = Some ?md"
    using assms(2,4) all \<open>?hm \<noteq> []\<close>
    by (simp add: DecodeMetadata_def EncodeMetadata_def Let_def value_laws.Get_Put_same [OF assms(1)]
        value_laws.Kind_ImmutableMapOf [OF assms(1)])
  moreover have "map_of ?md = map_of md"
  proof (rule map_of_inject_set [THEN iffD2])
    have md: "map fst ?md = map fst ?hm" by (induction ?hm) auto
    show "distinct (map fst ?md)" unfolding md by (rule value_laws.HashMap_distinct [OF assms(1)])
    show "distinct (map fst md)" by (rule assms(3))
    show "set ?md = set md"
      using set by (force simp: value_laws.String_Utf8 [OF assms(1)])
  qed
  ultimately show ?thesis by (simp add: EncodeMetadata_def)
qed

theorem metadata_roundtrip_witness:
  "\<exists>md'. DecodeMetadata ref_api NewDialect
      (Put ref_api (EmptyMap ref_api) ''md'' (EncodeMetadata ref_api [(''traceparent'', ''00'')])) = Some md' \<and>
    map_of md' = map_of [(''traceparent'', ''00'')]"
  using metadata_roundtrip [OF ref_value_laws ref.Kind_EmptyMap, of "[(''traceparent'', ''00'')]" NewDialect]
  by (simp add: NewDialect_def)

text \<open>
  The first interceptor is outermost: the composed invoker is the nesting of the interceptors in
  list order around the final call, and no interceptor at all is the final call itself.
\<close>

theorem interceptors_nest_in_order:
  "ChainClientInterceptors f [] = f \<and>
   ChainClientInterceptors f (ic # ics) = ic (ChainClientInterceptors f ics)"
  using chain_loop_foldr [of "length (ic # ics)" "ic # ics" f] chain_loop_foldr [of "length ics" ics f]
  by (simp add: ChainClientInterceptors_def)

text \<open>
  A typed call that reaches a typed handler returns what the handler computes, when the codecs
  round-trip the request and the response.
\<close>

lemma typed_call_transparent:
  assumes "codec_ok reqCodec r" and "\<And>x. fn ctx r = Inr x \<Longrightarrow> codec_ok respCodec x"
    and "invoker ctx name (Encode reqCodec r) s
      = (AddUnary_handler reqCodec respCodec fn ctx (Encode reqCodec r), s)"
  shows "CallUnary invoker reqCodec respCodec ctx name r s = (fn ctx r, s)"
  using assms by (auto simp: CallUnary_def AddUnary_handler_def codec_ok_def split: sum.splits)

text \<open>A typed stream carries every value, in order, when the codec round-trips them.\<close>

lemma typed_stream_roundtrip:
  "\<forall>x \<in> set xs. codec_ok c x \<Longrightarrow> GetStreamTyped_loop c (PutStreamTyped_loop c xs) = (xs, None, [])"
  by (induction xs) (auto simp: PutStreamTyped_loop_def codec_ok_def)

text \<open>After a value that does not decode the rest of the stream is neither read nor cancelled.\<close>

lemma typed_stream_stops_reading:
  assumes "\<forall>x \<in> set xs. codec_ok c x" and "Decode c v = Inl err"
  shows "GetStreamTyped_loop c (PutStreamTyped_loop c xs @ v # rest) = (xs, Some err, rest)"
  using assms by (induction xs) (auto simp: PutStreamTyped_loop_def codec_ok_def)

end
