(* ===== verification/Framing.thy ===== *)
theory Framing
  imports Protocol
begin

text \<open>
  Length-prefixed framing of messages over a byte stream: \<^verbatim>\<open>messageConnAdapter\<close> of
  \<^verbatim>\<open>valuerpc/rpc.go\<close>. The underlying \<^verbatim>\<open>io.ReadWriteCloser\<close> is supplied by the caller, so
  its operations are a parameter \<open>C\<close>; \<^verbatim>\<open>value.Pack\<close> and \<^verbatim>\<open>value.Unpack\<close> are the external
  MessagePack codec, parameters \<open>pack\<close> and \<open>unpack\<close>. The buffered reader is the sequence of
  bytes the stream still delivers, with the error that ends it. The write buffer is kept with
  its stale contents, because the code reuses it from message to message.
\<close>

unbundle bit_operations_syntax

section \<open>encoding/binary\<close>

definition PutUint32 :: "uint32 \<Rightarrow> byte list" where
  "PutUint32 v = [ucast (drop_bit 24 v), ucast (drop_bit 16 v), ucast (drop_bit 8 v), ucast v]"

definition Uint32 :: "byte list \<Rightarrow> uint32" where
  "Uint32 b = ucast (b ! 3) OR push_bit 8 (ucast (b ! 2)) OR push_bit 16 (ucast (b ! 1))
     OR push_bit 24 (ucast (b ! 0))"

lemma length_PutUint32 [simp]: "length (PutUint32 v) = 4"
  by (simp add: PutUint32_def)

lemma Uint32_PutUint32 [simp]: "Uint32 (PutUint32 v) = v"
proof (rule bit_word_eqI)
  fix n :: nat
  assume n: "n < LENGTH(32)"
  then have "n < 8 \<or> 8 \<le> n \<and> n < 16 \<or> 16 \<le> n \<and> n < 24 \<or> 24 \<le> n \<and> n < 32" by auto
  with n show "bit (Uint32 (PutUint32 v)) n = bit v n"
    by (auto simp: Uint32_def PutUint32_def bit_or_iff bit_push_bit_iff bit_ucast_iff bit_drop_bit_eq)
qed

section \<open>io.ReadFull on a buffered reader\<close>

record byte_reader =
  unread :: "byte list"
  end_err :: gerror

definition ReadFull :: "nat \<Rightarrow> byte_reader \<Rightarrow> (gerror + byte list) \<times> byte_reader" where
  "ReadFull n r =
     (if n \<le> length (unread r) then (Inr (take n (unread r)), r\<lparr>unread := drop n (unread r)\<rparr>)
      else (Inl (if unread r \<noteq> [] \<and> end_err r = io_EOF then io_ErrUnexpectedEOF else end_err r),
            r\<lparr>unread := []\<rparr>))"

section \<open>The framed connection\<close>

text \<open>
  The stream a connection wraps: \<^verbatim>\<open>Write\<close> and \<^verbatim>\<open>Close\<close> always, the deadline and address
  methods only when the concrete type has them (Go's type assertion \<^verbatim>\<open>conn.(writeDeadlineConn)\<close>).
\<close>

record 'c stream_api =
  conn_Write :: "'c \<Rightarrow> byte list \<Rightarrow> 'c \<times> gerror option"
  conn_Close :: "'c \<Rightarrow> 'c \<times> gerror option"
  conn_SetWriteDeadline :: "('c \<Rightarrow> int \<Rightarrow> 'c \<times> gerror option) option"
  conn_SetReadDeadline :: "('c \<Rightarrow> int \<Rightarrow> 'c \<times> gerror option) option"
  conn_RemoteAddr :: "('c \<Rightarrow> string option) option"

record 'c messageConnAdapter =
  conn :: 'c
  reader :: byte_reader
  timeout :: int
  maxFrameSize :: int
  writeBuf :: "byte list"
  shutdown :: bool

definition reusableWriteBufCap :: nat where
  "reusableWriteBufCap = 64 * 1024"

definition MaxFrameSize :: int where
  "MaxFrameSize = 16 * 1024 * 1024"

definition NewMsgConn :: "'c \<Rightarrow> byte_reader \<Rightarrow> int \<Rightarrow> int \<Rightarrow> 'c messageConnAdapter" where
  "NewMsgConn c r tmo maxSize =
     \<lparr>conn = c, reader = r, timeout = tmo, maxFrameSize = maxSize, writeBuf = [], shutdown = False\<rparr>"

definition ReadMessage ::
    "'v value_api \<Rightarrow> (byte list \<Rightarrow> gerror + 'v) \<Rightarrow> 'c messageConnAdapter \<Rightarrow>
     (gerror + 'v) \<times> 'c messageConnAdapter" where
  "ReadMessage V unpack t =
     (case ReadFull 4 (reader t) of
        (Inl e, r) \<Rightarrow> (Inl e, t\<lparr>reader := r\<rparr>)
      | (Inr lenBuf, r) \<Rightarrow>
          (let n = Uint32 lenBuf in
           if maxFrameSize t > 0 \<and> uint n > maxFrameSize t
           then (Inl (PlainError (''frame too large: '' @ show_int (uint n) @ '' bytes (max ''
                   @ show_int (maxFrameSize t) @ '')'')), t\<lparr>reader := r\<rparr>)
           else
             (case ReadFull (unat n) r of
                (Inl e, r) \<Rightarrow> (Inl e, t\<lparr>reader := r\<rparr>)
              | (Inr payload, r) \<Rightarrow>
                  (case unpack payload of
                     Inl e \<Rightarrow> (Inl (PlainError (''msgpack unpack, '' @ Error_text e)), t\<lparr>reader := r\<rparr>)
                   | Inr msg \<Rightarrow>
                       if Kind V msg \<noteq> MAP
                       then (Inl (PlainError ''expected msgpack map''), t\<lparr>reader := r\<rparr>)
                       else (Inr msg, t\<lparr>reader := r\<rparr>)))))"

text \<open>
  The frame is assembled in the retained buffer when it fits. A slice \<^verbatim>\<open>writeBuf[:need]\<close> sees the
  bytes earlier messages left there; \<^const>\<open>writeBuf\<close> is the whole backing array (its length is
  the slice's capacity). \<^verbatim>\<open>make\<close> returns zeroed memory.
\<close>

definition copy_at :: "nat \<Rightarrow> byte list \<Rightarrow> byte list \<Rightarrow> byte list" where
  "copy_at i src dst = take i dst @ take (length dst - i) src @ drop (i + length src) dst"

definition doWriteFrame ::
    "'c stream_api \<Rightarrow> int \<Rightarrow> byte list \<Rightarrow> 'c messageConnAdapter \<Rightarrow>
     'c messageConnAdapter \<times> gerror option" where
  "doWriteFrame C now payload t =
     (case (if timeout t > 0 then
              (case conn_SetWriteDeadline C of
                 None \<Rightarrow> (conn t, None)
               | Some f \<Rightarrow> f (conn t) (now + timeout t))
            else (conn t, None)) of
        (c, Some e) \<Rightarrow> (t\<lparr>conn := c\<rparr>, Some e)
      | (c, None) \<Rightarrow>
          (let need = 4 + length payload;
               buf = (if need \<le> reusableWriteBufCap \<and> length (writeBuf t) < need
                      then replicate reusableWriteBufCap 0 else writeBuf t);
               frame = (if need \<le> reusableWriteBufCap then take need buf else replicate need 0);
               frame = copy_at 0 (PutUint32 (of_nat (length payload))) frame;
               frame = copy_at 4 payload frame;
               buf = (if need \<le> reusableWriteBufCap then copy_at 0 frame buf else buf);
               (c, err) = conn_Write C c frame
           in (t\<lparr>conn := c, writeBuf := buf\<rparr>, err)))"

definition WriteMessage ::
    "'c stream_api \<Rightarrow> ('v \<Rightarrow> gerror + byte list) \<Rightarrow> int \<Rightarrow> 'v \<Rightarrow> 'c messageConnAdapter \<Rightarrow>
     'c messageConnAdapter \<times> gerror option" where
  "WriteMessage C pack now msg t =
     (if shutdown t then (t, Some ErrClientClosed)
      else (case pack msg of
              Inl e \<Rightarrow> (t, Some (PlainError (''msgpack pack, '' @ Error_text e)))
            | Inr payload \<Rightarrow> doWriteFrame C now payload t))"

definition SetReadDeadline ::
    "'c stream_api \<Rightarrow> int \<Rightarrow> 'c messageConnAdapter \<Rightarrow> 'c messageConnAdapter \<times> gerror option" where
  "SetReadDeadline C deadline t =
     (case conn_SetReadDeadline C of
        Some f \<Rightarrow> (let (c, e) = f (conn t) deadline in (t\<lparr>conn := c\<rparr>, e))
      | None \<Rightarrow> (t, None))"

definition RemoteAddr :: "'c stream_api \<Rightarrow> 'c messageConnAdapter \<Rightarrow> string" where
  "RemoteAddr C t =
     (case conn_RemoteAddr C of
        Some f \<Rightarrow> (case f (conn t) of Some addr \<Rightarrow> addr | None \<Rightarrow> [])
      | None \<Rightarrow> [])"

definition Close_conn :: "'c stream_api \<Rightarrow> 'c messageConnAdapter \<Rightarrow> 'c messageConnAdapter \<times> gerror option" where
  "Close_conn C t =
     (let t = t\<lparr>shutdown := True\<rparr>; (c, e) = conn_Close C (conn t) in (t\<lparr>conn := c\<rparr>, e))"

section \<open>Frames\<close>

text \<open>The wire format of the package comment: four bytes of length, then the payload.\<close>

definition frame_of :: "byte list \<Rightarrow> byte list" where
  "frame_of payload = PutUint32 (of_nat (length payload)) @ payload"

lemma length_copy_at [simp]: "i + length src \<le> length dst \<Longrightarrow> length (copy_at i src dst) = length dst"
  by (simp add: copy_at_def)

lemma copy_frame:
  assumes "length dst = 4 + length payload"
  shows "copy_at 4 payload (copy_at 0 (PutUint32 v) dst) = PutUint32 v @ payload"
  using assms by (simp add: copy_at_def)

definition buf_ok :: "'c messageConnAdapter \<Rightarrow> bool" where
  "buf_ok t = (length (writeBuf t) \<in> {0, reusableWriteBufCap})"

lemma buf_ok_NewMsgConn: "buf_ok (NewMsgConn c r tmo m)"
  by (simp add: buf_ok_def NewMsgConn_def)

text \<open>The frame handed to the stream does not depend on what the buffer held.\<close>

lemma doWriteFrame_writes:
  assumes "buf_ok t" and "timeout t \<le> 0 \<or> conn_SetWriteDeadline C = None"
  shows "conn (fst (doWriteFrame C now payload t)) = fst (conn_Write C (conn t) (frame_of payload))"
    and "snd (doWriteFrame C now payload t) = snd (conn_Write C (conn t) (frame_of payload))"
    and "buf_ok (fst (doWriteFrame C now payload t))"
proof -
  let ?need = "4 + length payload"
  have len: "?need \<le> reusableWriteBufCap \<Longrightarrow> length (writeBuf t) \<ge> ?need \<Longrightarrow>
      length (writeBuf t) = reusableWriteBufCap"
    using assms(1) by (auto simp: buf_ok_def)
  have c: "(if timeout t > 0 then (case conn_SetWriteDeadline C of
        None \<Rightarrow> (conn t, None) | Some f \<Rightarrow> f (conn t) (now + timeout t)) else (conn t, None)) = (conn t, None)"
    using assms(2) by auto
  show "conn (fst (doWriteFrame C now payload t)) = fst (conn_Write C (conn t) (frame_of payload))"
    and "snd (doWriteFrame C now payload t) = snd (conn_Write C (conn t) (frame_of payload))"
    and "buf_ok (fst (doWriteFrame C now payload t))"
    using assms(1) len unfolding doWriteFrame_def c
    by (auto simp: Let_def copy_frame frame_of_def buf_ok_def copy_at_def split: prod.splits)
qed


lemma ReadFull_append:
  "length bs = n \<Longrightarrow> ReadFull n \<lparr>unread = bs @ rest, end_err = e\<rparr> = (Inr bs, \<lparr>unread = rest, end_err = e\<rparr>)"
  by (simp add: ReadFull_def)

lemma uint_of_length:
  assumes "length p < 2 ^ 32"
  shows "uint (of_nat (length p) :: uint32) = int (length p)"
    and "unat (of_nat (length p) :: uint32) = length p"
proof -
  show n: "unat (of_nat (length p) :: uint32) = length p"
    using assms by (simp add: unat_of_nat)
  show "uint (of_nat (length p) :: uint32) = int (length p)"
    using n by (simp add: uint_nat)
qed

lemma ReadMessage_frame:
  assumes "length p < 2 ^ 32" and "maxFrameSize t \<le> 0 \<or> int (length p) \<le> maxFrameSize t"
    and "reader t = \<lparr>unread = frame_of p @ rest, end_err = e\<rparr>"
    and "unpack p = Inr m" and "Kind V m = MAP"
  shows "ReadMessage V unpack t = (Inr m, t\<lparr>reader := \<lparr>unread = rest, end_err = e\<rparr>\<rparr>)"
proof -
  let ?n = "of_nat (length p) :: uint32"
  have 1: "ReadFull 4 (reader t) = (Inr (PutUint32 ?n), \<lparr>unread = p @ rest, end_err = e\<rparr>)"
    using ReadFull_append [of "PutUint32 ?n" 4 "p @ rest" e] assms(3) by (simp add: frame_of_def)
  have 2: "ReadFull (unat ?n) \<lparr>unread = p @ rest, end_err = e\<rparr> = (Inr p, \<lparr>unread = rest, end_err = e\<rparr>)"
    by (rule ReadFull_append) (simp add: uint_of_length [OF assms(1)])
  have 3: "\<not> (maxFrameSize t > 0 \<and> uint ?n > maxFrameSize t)"
    using assms(2) by (auto simp: uint_of_length [OF assms(1)])
  show ?thesis
    using 3 assms(4,5) by (simp add: ReadMessage_def 1 2 Let_def)
qed

text \<open>Sending and receiving several messages in a row.\<close>

fun WriteMessages ::
    "'c stream_api \<Rightarrow> ('v \<Rightarrow> gerror + byte list) \<Rightarrow> int \<Rightarrow> 'v list \<Rightarrow> 'c messageConnAdapter \<Rightarrow>
     'c messageConnAdapter" where
  "WriteMessages C pack now [] t = t"
| "WriteMessages C pack now (m # ms) t = WriteMessages C pack now ms (fst (WriteMessage C pack now m t))"

fun ReadMessages ::
    "'v value_api \<Rightarrow> (byte list \<Rightarrow> gerror + 'v) \<Rightarrow> nat \<Rightarrow> 'c messageConnAdapter \<Rightarrow>
     (gerror + 'v) list \<times> 'c messageConnAdapter" where
  "ReadMessages V unpack 0 t = ([], t)"
| "ReadMessages V unpack (Suc n) t =
     (let (r, t) = ReadMessage V unpack t; (rs, t) = ReadMessages V unpack n t in (r # rs, t))"

text \<open>A message the codec carries: it packs, fits the limits and unpacks to itself.\<close>

definition carried ::
    "'v value_api \<Rightarrow> ('v \<Rightarrow> gerror + byte list) \<Rightarrow> (byte list \<Rightarrow> gerror + 'v) \<Rightarrow> int \<Rightarrow> 'v \<Rightarrow> bool" where
  "carried V pack unpack maxSize m =
     (Kind V m = MAP \<and>
      (case pack m of
         Inl _ \<Rightarrow> False
       | Inr p \<Rightarrow> unpack p = Inr m \<and> length p < 2 ^ 32 \<and> (maxSize \<le> 0 \<or> int (length p) \<le> maxSize)))"

definition payload_of :: "('v \<Rightarrow> gerror + byte list) \<Rightarrow> 'v \<Rightarrow> byte list" where
  "payload_of pack m = (case pack m of Inl _ \<Rightarrow> [] | Inr p \<Rightarrow> p)"

text \<open>A lossless byte stream: writes append to what the peer will read.\<close>

definition wire_api :: "byte list stream_api" where
  "wire_api = \<lparr>conn_Write = (\<lambda>c bs. (c @ bs, None)), conn_Close = (\<lambda>c. (c, None)),
     conn_SetWriteDeadline = None, conn_SetReadDeadline = None, conn_RemoteAddr = None\<rparr>"

lemma WriteMessages_wire:
  assumes "list_all (carried V pack unpack mx) ms" and "buf_ok t" and "\<not> shutdown t"
  shows "conn (WriteMessages wire_api pack now ms t)
         = conn t @ concat (map (\<lambda>m. frame_of (payload_of pack m)) ms)"
  using assms
proof (induction ms arbitrary: t)
  case Nil
  then show ?case by simp
next
  case (Cons m ms)
  obtain p where p: "pack m = Inr p"
    using Cons.prems(1) by (auto simp: carried_def split: sum.splits)
  let ?t = "fst (doWriteFrame wire_api now p t)"
  have w: "fst (WriteMessage wire_api pack now m t) = ?t"
    using Cons.prems(3) p by (simp add: WriteMessage_def)
  have "conn ?t = conn t @ frame_of p" and "buf_ok ?t"
    using doWriteFrame_writes [OF Cons.prems(2), of wire_api now p] by (simp_all add: wire_api_def)
  moreover have "\<not> shutdown ?t"
    using Cons.prems(3) by (simp add: doWriteFrame_def wire_api_def Let_def)
  ultimately show ?case
    using Cons.IH [of ?t] Cons.prems(1) p by (simp add: w payload_of_def)
qed

lemma ReadMessages_frames:
  assumes "list_all (carried V pack unpack (maxFrameSize t)) ms"
    and "reader t = \<lparr>unread = concat (map (\<lambda>m. frame_of (payload_of pack m)) ms) @ rest, end_err = e\<rparr>"
  shows "ReadMessages V unpack (length ms) t
         = (map Inr ms, t\<lparr>reader := \<lparr>unread = rest, end_err = e\<rparr>\<rparr>)"
  using assms
proof (induction ms arbitrary: t)
  case Nil
  then show ?case by simp
next
  case (Cons m ms)
  let ?tail = "concat (map (\<lambda>m. frame_of (payload_of pack m)) ms) @ rest"
  let ?t = "t\<lparr>reader := \<lparr>unread = ?tail, end_err = e\<rparr>\<rparr>"
  obtain p where p: "pack m = Inr p" "payload_of pack m = p"
    using Cons.prems(1) by (auto simp: carried_def payload_of_def split: sum.splits)
  have "ReadMessage V unpack t = (Inr m, ?t)"
    using Cons.prems p by (intro ReadMessage_frame [where p = p]) (auto simp: carried_def)
  moreover have "ReadMessages V unpack (length ms) ?t
      = (map Inr ms, ?t\<lparr>reader := \<lparr>unread = rest, end_err = e\<rparr>\<rparr>)"
    using Cons.prems by (intro Cons.IH) simp_all
  ultimately show ?case by simp
qed

section \<open>Properties\<close>

text \<open>
  C12. Framing round trip: the messages one side writes on a lossless stream are exactly the
  messages the other side reads, in order and with nothing left over, whatever bytes the reused
  write buffer held, provided each message survives the external codec and fits the frame limit.
\<close>

theorem framing_roundtrip:
  assumes "list_all (carried V pack unpack maxSize) ms"
  shows "ReadMessages V unpack (length ms)
           (NewMsgConn c \<lparr>unread = conn (WriteMessages wire_api pack now ms (NewMsgConn [] r tmo maxSize')),
                         end_err = e\<rparr> tmo' maxSize)
         = (map Inr ms, NewMsgConn c \<lparr>unread = [], end_err = e\<rparr> tmo' maxSize)"
proof -
  have "conn (WriteMessages wire_api pack now ms (NewMsgConn [] r tmo maxSize'))
      = concat (map (\<lambda>m. frame_of (payload_of pack m)) ms) @ []"
    using WriteMessages_wire [OF assms buf_ok_NewMsgConn] by (simp add: NewMsgConn_def)
  then show ?thesis
    using ReadMessages_frames [of V pack unpack "NewMsgConn c _ tmo' maxSize" ms "[]" e] assms
    by (simp add: NewMsgConn_def)
qed

theorem framing_roundtrip_witness:
  "ReadMessages ref_api (\<lambda>p. Inr (GMap [(''t'', GLong (ucast (hd p)))])) 2
     (NewMsgConn ()
        \<lparr>unread = conn (WriteMessages wire_api
             (\<lambda>m. Inr [ucast (number_Long ref_api (the (Get ref_api m ''t'')))]) 0
             [GMap [(''t'', GLong 8)], GMap [(''t'', GLong 10)]]
             (NewMsgConn [] \<lparr>unread = [], end_err = io_EOF\<rparr> 0 0)),
         end_err = io_EOF\<rparr> 0 16)
   = ([Inr (GMap [(''t'', GLong 8)]), Inr (GMap [(''t'', GLong 10)])],
      NewMsgConn () \<lparr>unread = [], end_err = io_EOF\<rparr> 0 16)"
proof -
  have "list_all (carried ref_api
      (\<lambda>m. Inr [ucast (number_Long ref_api (the (Get ref_api m ''t'')))])
      (\<lambda>p. Inr (GMap [(''t'', GLong (ucast (hd p)))])) 16)
      [GMap [(''t'', GLong 8)], GMap [(''t'', GLong 10)]]"
    by (simp add: carried_def ref_api_def gentries_def)
  note framing_roundtrip [OF this, of "()" 0 "\<lparr>unread = [], end_err = io_EOF\<rparr>" 0 0 io_EOF 0]
  then show ?thesis by (simp only: list.size list.map add_0 Suc_1 One_nat_def [symmetric] one_add_one)
qed

text \<open>
  A frame longer than the connection's limit is refused from its four-byte prefix: no payload
  byte is consumed or allocated, whatever follows on the stream.
\<close>

theorem oversized_frame_refused:
  assumes "0 < maxFrameSize t" and "maxFrameSize t < uint n"
    and "unread (reader t) = PutUint32 n @ rest"
  shows "\<exists>msg. ReadMessage V unpack t =
           (Inl (PlainError msg), t\<lparr>reader := (reader t)\<lparr>unread := rest\<rparr>\<rparr>)"
proof -
  have "ReadFull 4 (reader t) = (Inr (PutUint32 n), (reader t)\<lparr>unread := rest\<rparr>)"
    using assms(3) by (simp add: ReadFull_def)
  then show ?thesis using assms(1,2) by (simp add: ReadMessage_def Let_def)
qed

theorem oversized_frame_refused_witness:
  "\<exists>msg. ReadMessage ref_api (\<lambda>p. Inr GNull)
       (NewMsgConn () \<lparr>unread = PutUint32 17 @ [1, 2], end_err = io_EOF\<rparr> 0 16)
     = (Inl (PlainError msg), NewMsgConn () \<lparr>unread = [1, 2], end_err = io_EOF\<rparr> 0 16)"
  using oversized_frame_refused
    [of "NewMsgConn () \<lparr>unread = PutUint32 17 @ [1, 2], end_err = io_EOF\<rparr> 0 16" 17 "[1, 2]"
        ref_api "\<lambda>p. Inr GNull"]
  by (simp add: NewMsgConn_def)

text \<open>
  A connection that breaks inside a frame never yields a message: reading a proper prefix of a
  frame returns an error, \<^verbatim>\<open>io.EOF\<close> exactly when the break is at a frame boundary.
\<close>

theorem truncated_frame_is_error:
  assumes "length p < 2 ^ 32" and "n < length (frame_of p)" and "maxFrameSize t \<le> 0"
    and "reader t = \<lparr>unread = take n (frame_of p), end_err = io_EOF\<rparr>"
  shows "fst (ReadMessage V unpack t)
         = Inl (if n \<in> {0, 4} then io_EOF else io_ErrUnexpectedEOF)"
proof (cases "n < 4")
  case True
  then show ?thesis using assms(2,4) by (auto simp: ReadMessage_def ReadFull_def frame_of_def PutUint32_def)
next
  case False
  let ?n = "of_nat (length p) :: uint32"
  have 1: "ReadFull 4 (reader t) = (Inr (PutUint32 ?n), \<lparr>unread = take (n - 4) p, end_err = io_EOF\<rparr>)"
    using False assms(4) by (simp add: ReadFull_def frame_of_def)
  have 2: "length (take (n - 4) p) < unat ?n"
    using False assms(2) by (simp add: uint_of_length [OF assms(1)] frame_of_def)
  then have "take (n - 4) p = [] \<longleftrightarrow> n = 4" using False by auto
  with 2 have 3: "ReadFull (unat ?n) \<lparr>unread = take (n - 4) p, end_err = io_EOF\<rparr>
      = (Inl (if n = 4 then io_EOF else io_ErrUnexpectedEOF), \<lparr>unread = [], end_err = io_EOF\<rparr>)"
    by (auto simp: ReadFull_def)
  show ?thesis
    using False assms(3) by (simp add: ReadMessage_def 1 3 Let_def)
qed

theorem truncated_frame_is_error_witness:
  "fst (ReadMessage ref_api (\<lambda>p. Inr (GMap []))
     (NewMsgConn () \<lparr>unread = take 5 (frame_of [1, 2]), end_err = io_EOF\<rparr> 0 0)) = Inl io_ErrUnexpectedEOF"
  using truncated_frame_is_error
    [of "[1, 2]" 5 "NewMsgConn () \<lparr>unread = take 5 (frame_of [1, 2]), end_err = io_EOF\<rparr> 0 0"
        ref_api "\<lambda>p. Inr (GMap [])"]
  by (simp add: NewMsgConn_def frame_of_def)

end
