(* ===== verification/Sha256.thy ===== *)
theory Sha256
  imports Framing
begin

text \<open>
  The standard library's \<^verbatim>\<open>crypto/sha256.Sum256\<close>, which the session hash chain is built from,
  as FIPS 180-4 defines it, on lists of bytes. What the chain needs of it is that it is a total
  function into 32-byte digests.
\<close>

definition rotr :: "nat \<Rightarrow> uint32 \<Rightarrow> uint32" where
  "rotr n x = (drop_bit n x) OR (push_bit (32 - n) x)"

definition sha_K :: "uint32 list" where
  "sha_K =
    [1116352408, 1899447441, 3049323471, 3921009573, 961987163, 1508970993, 2453635748, 2870763221,
     3624381080, 310598401, 607225278, 1426881987, 1925078388, 2162078206, 2614888103, 3248222580,
     3835390401, 4022224774, 264347078, 604807628, 770255983, 1249150122, 1555081692, 1996064986,
     2554220882, 2821834349, 2952996808, 3210313671, 3336571891, 3584528711, 113926993, 338241895,
     666307205, 773529912, 1294757372, 1396182291, 1695183700, 1986661051, 2177026350, 2456956037,
     2730485921, 2820302411, 3259730800, 3345764771, 3516065817, 3600352804, 4094571909, 275423344,
     430227734, 506948616, 659060556, 883997877, 958139571, 1322822218, 1537002063, 1747873779,
     1955562222, 2024104815, 2227730452, 2361852424, 2428436474, 2756734187, 3204031479, 3329325298]"

text \<open>
  The table against its definition in FIPS 180-4: the \<open>i\<close>-th constant is the first 32 bits of the
  fractional part of the cube root of the \<open>i\<close>-th prime. With \<open>n\<close> the cube root of \<open>p\<close> times \<open>2\<^sup>3\<^sup>2\<close>,
  rounded down, the constant is \<open>n\<close> without its integer part.
\<close>

definition cube_root_bits :: "nat \<Rightarrow> uint32 \<Rightarrow> bool" where
  "cube_root_bits p k =
     list_ex (\<lambda>a. let n = a * 4294967296 + uint k
                  in a ^ 3 \<le> int p \<and> n ^ 3 \<le> int p * 4294967296 ^ 3 \<and> int p * 4294967296 ^ 3 < (n + 1) ^ 3)
       [1, 2, 3, 4, 5, 6]"

lemma sha_K_cube_roots:
  "list_all2 cube_root_bits
    [2, 3, 5, 7, 11, 13, 17, 19, 23, 29, 31, 37, 41, 43, 47, 53,
     59, 61, 67, 71, 73, 79, 83, 89, 97, 101, 103, 107, 109, 113, 127, 131,
     137, 139, 149, 151, 157, 163, 167, 173, 179, 181, 191, 193, 197, 199, 211, 223,
     227, 229, 233, 239, 241, 251, 257, 263, 269, 271, 277, 281, 283, 293, 307, 311] sha_K"
  by (simp add: sha_K_def cube_root_bits_def Let_def)


record sha_regs =
  rA :: uint32
  rB :: uint32
  rC :: uint32
  rD :: uint32
  rE :: uint32
  rF :: uint32
  rG :: uint32
  rH :: uint32

definition sha_init :: sha_regs where
  "sha_init = \<lparr>rA = 0x6a09e667, rB = 0xbb67ae85, rC = 0x3c6ef372, rD = 0xa54ff53a,
     rE = 0x510e527f, rF = 0x9b05688c, rG = 0x1f83d9ab, rH = 0x5be0cd19\<rparr>"

text \<open>Padding: a one bit, zeros, and the message length in bits as a 64-bit number.\<close>

definition sha_pad :: "byte list \<Rightarrow> byte list" where
  "sha_pad m =
     (let bits = 8 * of_nat (length m) :: 64 word
      in m @ [0x80] @ replicate ((119 - length m mod 64) mod 64) 0
         @ PutUint32 (ucast (drop_bit 32 bits)) @ PutUint32 (ucast bits))"

fun sha_words :: "byte list \<Rightarrow> uint32 list" where
  "sha_words (a # b # c # d # bs) = Uint32 [a, b, c, d] # sha_words bs"
| "sha_words _ = []"

text \<open>
  The message schedule, one word per round: the window holds the last sixteen words, oldest
  first; the head is the word of the current round.
\<close>

definition sha_next :: "uint32 list \<Rightarrow> uint32 list" where
  "sha_next w =
     (let s0 = rotr 7 (w ! 1) XOR rotr 18 (w ! 1) XOR drop_bit 3 (w ! 1);
          s1 = rotr 17 (w ! 14) XOR rotr 19 (w ! 14) XOR drop_bit 10 (w ! 14)
      in tl w @ [hd w + s0 + w ! 9 + s1])"

definition sha_round :: "uint32 \<Rightarrow> uint32 \<Rightarrow> sha_regs \<Rightarrow> sha_regs" where
  "sha_round k w r =
     (let s1 = rotr 6 (rE r) XOR rotr 11 (rE r) XOR rotr 25 (rE r);
          ch = (rE r AND rF r) XOR (NOT (rE r) AND rG r);
          t1 = rH r + s1 + ch + k + w;
          s0 = rotr 2 (rA r) XOR rotr 13 (rA r) XOR rotr 22 (rA r);
          maj = (rA r AND rB r) XOR (rA r AND rC r) XOR (rB r AND rC r);
          t2 = s0 + maj
      in \<lparr>rA = t1 + t2, rB = rA r, rC = rB r, rD = rC r, rE = rD r + t1, rF = rE r, rG = rF r, rH = rG r\<rparr>)"

fun sha_rounds :: "uint32 list \<Rightarrow> uint32 list \<Rightarrow> sha_regs \<Rightarrow> sha_regs" where
  "sha_rounds [] w r = r"
| "sha_rounds (k # ks) w r = sha_rounds ks (sha_next w) (sha_round k (hd w) r)"

definition sha_block :: "byte list \<Rightarrow> sha_regs \<Rightarrow> sha_regs" where
  "sha_block b r =
     (let q = sha_rounds sha_K (sha_words b) r
      in \<lparr>rA = rA r + rA q, rB = rB r + rB q, rC = rC r + rC q, rD = rD r + rD q,
          rE = rE r + rE q, rF = rF r + rF q, rG = rG r + rG q, rH = rH r + rH q\<rparr>)"

fun sha_blocks :: "nat \<Rightarrow> byte list \<Rightarrow> sha_regs \<Rightarrow> sha_regs" where
  "sha_blocks 0 bs r = r"
| "sha_blocks (Suc n) bs r = sha_blocks n (drop 64 bs) (sha_block (take 64 bs) r)"

definition Sum256 :: "byte list \<Rightarrow> byte list" where
  "Sum256 m =
     (let p = sha_pad m; r = sha_blocks (length p div 64) p sha_init
      in concat (map PutUint32 [rA r, rB r, rC r, rD r, rE r, rF r, rG r, rH r]))"

lemma length_Sum256 [simp]: "length (Sum256 m) = 32"
  by (simp add: Sum256_def Let_def)

lemma sha_pad_blocks: "64 dvd length (sha_pad m)"
proof -
  define q r where "q = length m div 64" and "r = length m mod 64"
  have m: "length m = 64 * q + r" and "r < 64" by (simp_all add: q_def r_def)
  have len: "length (sha_pad m) = 64 * q + r + 9 + (119 - r) mod 64"
    using m \<open>r < 64\<close> by (simp add: sha_pad_def Let_def)
  show ?thesis
  proof (cases "r < 56")
    case True
    then have "(119 - r) mod 64 = 55 - r" by (simp add: mod_if)
    with True have "length (sha_pad m) = 64 * (q + 1)" unfolding len by simp
    then show ?thesis by simp
  next
    case False
    then have "(119 - r) mod 64 = 119 - r" by simp
    with \<open>r < 64\<close> have "length (sha_pad m) = 64 * (q + 2)" unfolding len by simp
    then show ?thesis by simp
  qed
qed

text \<open>A known answer: the digest of 32 zero bytes.\<close>

lemma Sum256_zeros:
  "Sum256 (replicate 32 0) =
    [102, 104, 122, 173, 248, 98, 189, 119, 108, 143, 193, 139, 142, 159, 142, 32,
     8, 151, 20, 133, 110, 226, 51, 179, 144, 42, 89, 29, 13, 95, 41, 37]"
  by code_simp

end
