(* ===== verification/Hash_Chain.thy ===== *)
theory Hash_Chain
  imports Sha256
begin

text \<open>
  The reverse hash chain of \<^verbatim>\<open>valuerpc/hashchain.go\<close>: the client's chain of one-time resumption
  tokens and the server's forward-hashing check. Links travel hex-encoded, with Go's
  \<^verbatim>\<open>encoding/hex\<close>. The random seed is the result of \<^verbatim>\<open>rand.Read\<close>, an argument of
  \<open>NewHashChain\<close>. The lemmas show that the array holds the iterates of SHA-256, that the check
  is the bounded search for the first matching iterate, and which tokens it accepts.
\<close>

section \<open>encoding/hex\<close>

definition hextable :: string where
  "hextable = ''0123456789abcdef''"

definition EncodeToString :: "byte list \<Rightarrow> string" where
  "EncodeToString bs = concat (map (\<lambda>b. [hextable ! (unat b div 16), hextable ! (unat b mod 16)]) bs)"

definition fromHexChar :: "char \<Rightarrow> nat option" where
  "fromHexChar c =
     (let n = of_char c :: nat in
      if 48 \<le> n \<and> n \<le> 57 then Some (n - 48)
      else if 97 \<le> n \<and> n \<le> 102 then Some (n - 97 + 10)
      else if 65 \<le> n \<and> n \<le> 70 then Some (n - 65 + 10)
      else None)"

fun hex_Decode :: "string \<Rightarrow> byte list option" where
  "hex_Decode [] = Some []"
| "hex_Decode [c] = None"
| "hex_Decode (a # b # s) =
     (case (fromHexChar a, fromHexChar b) of
        (Some x, Some y) \<Rightarrow> map_option ((#) (of_nat (16 * x + y))) (hex_Decode s)
      | _ \<Rightarrow> None)"

section \<open>The client's chain\<close>

definition DefaultHashChainLen :: int where
  "DefaultHashChainLen = 10000"

definition DefaultResyncWindow :: int where
  "DefaultResyncWindow = 1024"

definition hashChainLinkBytes :: nat where
  "hashChainLinkBytes = 32"

record HashChain =
  links :: "byte list list"
  hc_next :: int

fun fill_links :: "nat \<Rightarrow> nat \<Rightarrow> byte list list \<Rightarrow> byte list list" where
  "fill_links 0 i ls = ls"
| "fill_links (Suc k) i ls = fill_links k (Suc i) (ls[i := Sum256 (ls ! (i - 1))])"

definition NewHashChain :: "gerror + byte list \<Rightarrow> int \<Rightarrow> gerror + HashChain" where
  "NewHashChain rnd n =
     (let n = (if n \<le> 0 then DefaultHashChainLen else n);
          ls = replicate (nat n + 1) (replicate hashChainLinkBytes 0)
      in case rnd of
           Inl e \<Rightarrow> Inl e
         | Inr seed \<Rightarrow> Inr \<lparr>links = fill_links (nat n) 1 (ls[0 := seed]), hc_next = n - 1\<rparr>)"

definition Anchor :: "HashChain \<Rightarrow> string" where
  "Anchor c = EncodeToString (links c ! (length (links c) - 1))"

definition Next :: "HashChain \<Rightarrow> string \<times> HashChain" where
  "Next c =
     (if hc_next c < 0 then ([], c)
      else (EncodeToString (links c ! nat (hc_next c)), c\<lparr>hc_next := hc_next c - 1\<rparr>))"

definition Remaining :: "HashChain \<Rightarrow> int" where
  "Remaining c = hc_next c + 1"

section \<open>The server's check\<close>

definition decodeLink :: "string \<Rightarrow> byte list option" where
  "decodeLink s = (if length s \<noteq> 2 * hashChainLinkBytes then None else hex_Decode s)"

fun hash_forward :: "nat \<Rightarrow> nat \<Rightarrow> byte list \<Rightarrow> byte list \<Rightarrow> nat option" where
  "hash_forward 0 step h target = None"
| "hash_forward (Suc k) step h target =
     (let h = Sum256 h in if h = target then Some step else hash_forward k (Suc step) h target)"

text \<open>The pair \<^verbatim>\<open>(step, true)\<close> is \<^term>\<open>Some step\<close>, the pair \<^verbatim>\<open>(0, false)\<close> is \<^term>\<open>None\<close>.\<close>

definition VerifyHashStep :: "string \<Rightarrow> string \<Rightarrow> int \<Rightarrow> nat option" where
  "VerifyHashStep presented lastVerified window =
     (case decodeLink presented of
        None \<Rightarrow> None
      | Some cur \<Rightarrow>
          (case decodeLink lastVerified of
             None \<Rightarrow> None
           | Some target \<Rightarrow>
               let window = (if window \<le> 0 then DefaultResyncWindow else window)
               in hash_forward (nat window) 1 cur target))"

definition SameToken :: "string \<Rightarrow> string \<Rightarrow> bool" where
  "SameToken a b =
     (case decodeLink a of
        None \<Rightarrow> False
      | Some da \<Rightarrow> (case decodeLink b of None \<Rightarrow> False | Some db \<Rightarrow> da = db))"

section \<open>Hex round trip\<close>

lemma fromHexChar_hextable: "i < 16 \<Longrightarrow> fromHexChar (hextable ! i) = Some i"
proof -
  have "\<forall>i \<in> set [0..<16]. fromHexChar (hextable ! i) = Some i" by code_simp
  then show "i < 16 \<Longrightarrow> ?thesis" by simp
qed

lemma length_EncodeToString [simp]: "length (EncodeToString bs) = 2 * length bs"
  by (induction bs) (simp_all add: EncodeToString_def)

lemma hex_Decode_Encode [simp]: "hex_Decode (EncodeToString bs) = Some bs"
proof (induction bs)
  case Nil
  show ?case by (simp add: EncodeToString_def)
next
  case (Cons b bs)
  have "unat b < 2 ^ LENGTH(8)" by (rule unsigned_less)
  then have "unat b < 256" by simp
  then have "unat b div 16 < 16" and "unat b mod 16 < 16" by auto
  moreover have "of_nat (16 * (unat b div 16) + unat b mod 16) = b" by simp
  ultimately show ?case
    using Cons by (simp add: EncodeToString_def fromHexChar_hextable del: of_nat_add of_nat_mult)
qed

lemma decodeLink_Encode [simp]: "length bs = 32 \<Longrightarrow> decodeLink (EncodeToString bs) = Some bs"
  by (simp add: decodeLink_def hashChainLinkBytes_def)

section \<open>The chain holds the iterates of the hash\<close>

abbreviation link :: "byte list \<Rightarrow> nat \<Rightarrow> byte list" where
  "link seed i \<equiv> (Sum256 ^^ i) seed"

lemma length_link: "length seed = 32 \<Longrightarrow> length (link seed i) = 32"
  by (cases i) simp_all

lemma link_add: "link (link seed j) k = link seed (k + j)"
  by (simp add: funpow_add)

lemma fill_links_spec:
  assumes "1 \<le> i" and "i + k \<le> length ls" and "\<forall>j < i. ls ! j = link seed j"
  shows "length (fill_links k i ls) = length ls \<and>
         (\<forall>j < i + k. fill_links k i ls ! j = link seed j)"
  using assms
proof (induction k i ls rule: fill_links.induct)
  case (1 i ls)
  then show ?case by simp
next
  case (2 k i ls)
  let ?ls = "ls[i := Sum256 (ls ! (i - 1))]"
  have "ls ! (i - 1) = link seed (i - 1)" using 2 by simp
  then have "Sum256 (ls ! (i - 1)) = link seed i"
    using 2 by (metis funpow_simps_right(2) funpow_swap1 Suc_pred' comp_apply less_le_trans zero_less_one)
  then have "\<forall>j < Suc i. ?ls ! j = link seed j"
    using 2 by (auto simp: less_Suc_eq nth_list_update)
  then show ?case using 2 by simp
qed

definition chain_of :: "byte list \<Rightarrow> nat \<Rightarrow> HashChain \<Rightarrow> bool" where
  "chain_of seed n c =
     (length seed = 32 \<and> length (links c) = n + 1 \<and> - 1 \<le> hc_next c \<and> hc_next c < int n \<and>
      (\<forall>j \<le> n. links c ! j = link seed j))"

lemma chain_of_NewHashChain:
  assumes "length seed = 32" and "NewHashChain (Inr seed) n = Inr c"
  shows "chain_of seed (nat (if n \<le> 0 then DefaultHashChainLen else n)) c"
proof -
  define m where "m = nat (if n \<le> 0 then DefaultHashChainLen else n)"
  have m: "0 < m" "(if n \<le> 0 then DefaultHashChainLen else n) = int m"
    by (auto simp: m_def DefaultHashChainLen_def)
  let ?ls = "(replicate (m + 1) (replicate hashChainLinkBytes 0))[0 := seed]"
  have "c = \<lparr>links = fill_links m 1 ?ls, hc_next = int m - 1\<rparr>"
    using assms(2) unfolding NewHashChain_def m(2) Let_def by simp
  then show ?thesis
    using fill_links_spec [of 1 m ?ls seed] assms(1) m(1)
    by (simp add: chain_of_def flip: m_def)
qed

lemma chain_of_Next: "chain_of seed n c \<Longrightarrow> chain_of seed n (snd (Next c))"
  by (auto simp: chain_of_def Next_def)

lemma Anchor_link: "chain_of seed n c \<Longrightarrow> Anchor c = EncodeToString (link seed n)"
  by (simp add: chain_of_def Anchor_def)

lemma Next_link:
  "chain_of seed n c \<Longrightarrow> 0 \<le> hc_next c \<Longrightarrow> fst (Next c) = EncodeToString (link seed (nat (hc_next c)))"
  by (auto simp: chain_of_def Next_def)

section \<open>The check is a bounded search\<close>

lemma hash_forward_iff:
  "hash_forward k step h target = Some s \<longleftrightarrow>
     step \<le> s \<and> s < step + k \<and> (Sum256 ^^ (s - step + 1)) h = target \<and>
     (\<forall>j < s - step. (Sum256 ^^ (j + 1)) h \<noteq> target)"
proof (induction k step h target arbitrary: s rule: hash_forward.induct)
  case (1 step h target)
  then show ?case by simp
next
  case (2 k step h target)
  show ?case
  proof (cases "Sum256 h = target")
    case True
    then have "\<not> (\<forall>j < s - step. (Sum256 ^^ (j + 1)) h \<noteq> target)" if "step < s"
      using that by (auto intro!: exI [of _ 0])
    with True show ?thesis by (cases "step < s") auto
  next
    case False
    have all: "(\<forall>j < Suc d. (Sum256 ^^ (j + 1)) h \<noteq> target) \<longleftrightarrow>
        (\<forall>j < d. (Sum256 ^^ (j + 1)) (Sum256 h) \<noteq> target)" for d
      using False by (auto simp: less_Suc_eq_0_disj funpow_swap1)
    show ?thesis
    proof (cases "step < s")
      case True
      then obtain d where s: "s = Suc step + d" using less_iff_Suc_add by auto
      show ?thesis
        using 2 [of "Sum256 h" s] False all [of d] by (simp add: s funpow_swap1)
    next
      case not_less: False
      then show ?thesis using 2 [of "Sum256 h" s] False by (cases "s = step") auto
    qed
  qed
qed


lemma VerifyHashStep_iff:
  assumes "decodeLink p = Some a" and "decodeLink l = Some b" and "0 < w"
  shows "VerifyHashStep p l w = Some s \<longleftrightarrow>
    1 \<le> s \<and> int s \<le> w \<and> (Sum256 ^^ s) a = b \<and> (\<forall>j. 1 \<le> j \<and> j < s \<longrightarrow> (Sum256 ^^ j) a \<noteq> b)"
proof (cases s)
  case 0
  then show ?thesis using assms by (simp add: VerifyHashStep_def hash_forward_iff)
next
  case (Suc d)
  have "(\<forall>j < d. (Sum256 ^^ (j + 1)) a \<noteq> b) \<longleftrightarrow> (\<forall>j. 1 \<le> j \<and> j < Suc d \<longrightarrow> (Sum256 ^^ j) a \<noteq> b)"
    by (metis One_nat_def Suc_eq_plus1 Suc_le_D Suc_less_eq le_add2)
  then show ?thesis
    using assms by (auto simp: VerifyHashStep_def hash_forward_iff Suc)
qed

lemma VerifyHashStep_link:
  assumes "length seed = 32" and "j < i" and "int (i - j) \<le> w"
  shows "\<exists>s. 1 \<le> s \<and> s \<le> i - j \<and>
    VerifyHashStep (EncodeToString (link seed j)) (EncodeToString (link seed i)) w = Some s"
proof -
  let ?P = "\<lambda>s. 1 \<le> s \<and> link (link seed j) s = link seed i"
  have ex: "?P (i - j)" using assms(2) by (simp add: link_add)
  let ?s = "LEAST s. ?P s"
  have "?P ?s" by (rule LeastI [of ?P, OF ex])
  moreover have "?s \<le> i - j" by (rule Least_le [of ?P, OF ex])
  moreover have "\<forall>j'. 1 \<le> j' \<and> j' < ?s \<longrightarrow> link (link seed j) j' \<noteq> link seed i"
    using not_less_Least [of _ ?P] by blast
  ultimately show ?thesis
    using assms VerifyHashStep_iff
      [OF decodeLink_Encode [OF length_link [of seed j]] decodeLink_Encode [OF length_link [of seed i]],
       of w ?s]
    by (intro exI [of _ ?s]) auto
qed

text \<open>The \<open>k\<close>-th token a client reveals, counting from zero.\<close>

definition token :: "nat \<Rightarrow> HashChain \<Rightarrow> string" where
  "token k c = fst (Next (((snd \<circ> Next) ^^ k) c))"

lemma token_state:
  assumes "chain_of seed n c" and "hc_next c = int n - 1"
  shows "chain_of seed n (((snd \<circ> Next) ^^ k) c) \<and> hc_next (((snd \<circ> Next) ^^ k) c) = max (-1) (int n - 1 - int k)"
  using assms by (induction k) (auto simp: chain_of_Next, auto simp: Next_def)

lemma token_link:
  assumes "chain_of seed n c" and "hc_next c = int n - 1"
  shows "token k c = (if k < n then EncodeToString (link seed (n - 1 - k)) else [])"
proof -
  note st = token_state [OF assms, of k]
  show ?thesis
  proof (cases "k < n")
    case True
    then have "0 \<le> hc_next (((snd \<circ> Next) ^^ k) c)"
      and "nat (hc_next (((snd \<circ> Next) ^^ k) c)) = n - 1 - k" using st by auto
    then show ?thesis using True Next_link [OF conjunct1 [OF st]] by (simp add: token_def)
  next
    case False
    then show ?thesis using st by (simp add: token_def Next_def)
  qed
qed

lemma new_chain:
  assumes "length seed = 32" and "NewHashChain (Inr seed) n = Inr c" and "0 < n"
  shows "chain_of seed (nat n) c" and "hc_next c = int (nat n) - 1"
  using chain_of_NewHashChain [OF assms(1,2)] assms(2,3) by (auto simp: NewHashChain_def Let_def)

section \<open>Properties\<close>

text \<open>
  The tokens of a fresh chain of \<open>n\<close> links are the hex forms of the iterates
  \<open>n-1, n-2, ..., 0\<close> of SHA-256 on the seed, each revealed once; the anchor is iterate \<open>n\<close>; after
  \<open>n\<close> tokens the chain is exhausted and only reveals the empty string.
\<close>

theorem tokens_in_reverse_order:
  assumes "length seed = 32" and "NewHashChain (Inr seed) n = Inr c" and "0 < n"
  shows "Anchor c = EncodeToString ((Sum256 ^^ nat n) seed) \<and>
    token k c = (if int k < n then EncodeToString ((Sum256 ^^ (nat n - 1 - k)) seed) else [])"
  using Anchor_link [OF new_chain(1) [OF assms]] token_link [OF new_chain [OF assms], of k] assms(3)
  by auto

theorem tokens_in_reverse_order_witness:
  "let c = projr (NewHashChain (Inr (replicate 32 0)) 2)
   in Anchor c = EncodeToString (Sum256 (Sum256 (replicate 32 0))) \<and>
      token 0 c = EncodeToString (Sum256 (replicate 32 0)) \<and>
      token 1 c = EncodeToString (replicate 32 0) \<and> token 2 c = []"
proof -
  have new: "NewHashChain (Inr (replicate 32 0)) 2 = Inr (projr (NewHashChain (Inr (replicate 32 0)) 2))"
    by (simp add: NewHashChain_def Let_def)
  from tokens_in_reverse_order [OF _ new, of 0] tokens_in_reverse_order [OF _ new, of 1]
    tokens_in_reverse_order [OF _ new, of 2]
  show ?thesis by (simp add: Let_def numeral_2_eq_2)
qed

text \<open>
  C25. Self-healing: after the server accepted token \<open>i\<close>, wherever in the chain it is, it accepts every later
  token \<open>j\<close> whose distance \<open>j - i\<close> is at most the window, so a run of lost reconnect handshakes shorter than
  the window does not end the session; and a server that only has the anchor accepts every token among
  the first \<open>w\<close>. The number of hashes is at most the distance.
\<close>

theorem resync_within_window:
  assumes "length seed = 32" and "NewHashChain (Inr seed) n = Inr c" and "0 < n" and "int j < n"
  shows "(\<forall>i. i < j \<and> int (j - i) \<le> w \<longrightarrow>
           (\<exists>s. 1 \<le> s \<and> s \<le> j - i \<and> VerifyHashStep (token j c) (token i c) w = Some s)) \<and>
         (int j < w \<longrightarrow> (\<exists>s. 1 \<le> s \<and> s \<le> j + 1 \<and> VerifyHashStep (token j c) (Anchor c) w = Some s))"
proof (intro conjI allI impI)
  note tok = token_link [OF new_chain [OF assms(1-3)]]
  let ?j = "nat n - 1 - j"
  have j: "j < nat n" using assms(3,4) by linarith
  show "\<exists>s. 1 \<le> s \<and> s \<le> j - i \<and> VerifyHashStep (token j c) (token i c) w = Some s"
    if "i < j \<and> int (j - i) \<le> w" for i
  proof -
    have "?j < nat n - 1 - i" "(nat n - 1 - i) - ?j = j - i" using j that by auto
    then show ?thesis
      using VerifyHashStep_link [OF assms(1), of ?j "nat n - 1 - i" w] j that tok [of i] tok [of j] by simp
  qed
  show "\<exists>s. 1 \<le> s \<and> s \<le> j + 1 \<and> VerifyHashStep (token j c) (Anchor c) w = Some s" if "int j < w"
  proof -
    have "?j < nat n" "nat n - ?j = j + 1" using j by auto
    then show ?thesis
      using VerifyHashStep_link [OF assms(1), of ?j "nat n" w] j that tok [of j]
        Anchor_link [OF new_chain(1) [OF assms(1-3)]] by simp
  qed
qed

text \<open>A session well past the first window: the last accepted token is number 2998 and the next four were lost.\<close>

theorem resync_within_window_witness:
  "let c = projr (NewHashChain (Inr (replicate 32 0)) 5000)
   in \<exists>s. 1 \<le> s \<and> s \<le> 5 \<and> VerifyHashStep (token 3003 c) (token 2998 c) 1024 = Some s"
proof -
  have new: "NewHashChain (Inr (replicate 32 0)) 5000 = Inr (projr (NewHashChain (Inr (replicate 32 0)) 5000))"
    by (simp add: NewHashChain_def Let_def)
  have "length (replicate 32 0) = 32" "0 < (5000 :: int)" "int 3003 < 5000" by simp_all
  from conjunct1 [OF resync_within_window [OF this(1) new this(2,3), of 1024], rule_format, of 2998]
  show ?thesis by (simp add: Let_def)
qed

text \<open>
  C26. Replay of a consumed token: if SHA-256 has no collision among the iterates the chain and
  the window span, a token that was already accepted (the most recent one included) never passes
  the forward-hashing check again.
\<close>

theorem consumed_token_rejected:
  assumes "length seed = 32" and "NewHashChain (Inr seed) n = Inr c" and "0 < n" and "0 < w"
    and "inj_on (\<lambda>i. (Sum256 ^^ i) seed) {..<nat n + nat w}"
    and "int j < n" and "i \<le> j"
  shows "VerifyHashStep (token i c) (token j c) w = None"
proof (rule ccontr)
  let ?a = "nat n - 1 - i" and ?b = "nat n - 1 - j"
  assume "VerifyHashStep (token i c) (token j c) w \<noteq> None"
  then obtain s where "VerifyHashStep (token i c) (token j c) w = Some s" by blast
  then have "VerifyHashStep (EncodeToString (link seed ?a)) (EncodeToString (link seed ?b)) w = Some s"
    using token_link [OF new_chain [OF assms(1-3)]] assms(3,6,7) by (simp split: if_splits)
  then have s: "1 \<le> s" "int s \<le> w" and eq: "link seed (s + ?a) = link seed ?b"
    using VerifyHashStep_iff
      [OF decodeLink_Encode [OF length_link [OF assms(1), of ?a]]
          decodeLink_Encode [OF length_link [OF assms(1), of ?b]] assms(4)]
    by (auto simp: link_add)
  have "s + ?a = ?b"
    using inj_onD [OF assms(5) eq] s assms(3,4,6,7) by auto
  then show False using s(1) assms(6,7) by auto
qed

theorem consumed_token_rejected_witness:
  "let c = projr (NewHashChain (Inr (replicate 32 0)) 1)
   in VerifyHashStep (token 0 c) (token 0 c) 1 = None"
proof -
  have new: "NewHashChain (Inr (replicate 32 0)) 1 = Inr (projr (NewHashChain (Inr (replicate 32 0)) 1))"
    by (simp add: NewHashChain_def Let_def)
  have "hd (Sum256 (replicate 32 0)) \<noteq> hd (replicate 32 0)" unfolding Sum256_zeros by simp
  then have "Sum256 (replicate 32 0) \<noteq> replicate 32 0" by metis
  then have "inj_on (\<lambda>i. (Sum256 ^^ i) (replicate 32 0)) {..<nat 1 + nat 1}"
    by (auto simp: inj_on_def less_Suc_eq numeral_2_eq_2)
  from consumed_token_rejected [OF _ new _ _ this, of 0 0] show ?thesis by (simp add: Let_def)
qed

end
