(* ===== verification/Serving_Client.thy ===== *)
theory Serving_Client
  imports Client_Stream Call_Context Hash_Chain
begin

text \<open>
  The server's side of one client session: \<^verbatim>\<open>servingClient\<close> of \<^verbatim>\<open>valueserver/serving_client.go\<close> with
  the reverse-stream operations of \<^verbatim>\<open>valueserver/serving_stream.go\<close>. The record keeps the request
  maps as partial functions, the goroutines that were started but have not finished as a list
  (\<open>sc_workers\<close>), and the requests a streamer goroutine was started for (\<open>sc_streamers\<close>).
  A request handler is a parameter (the functions registered with the server): on a context and
  arguments it returns, fails or panics. Serving a request is split at its two atomic points, the
  admission checks and the registration with the handler call, because other goroutines of the
  session run in between.

  The outgoing queue is a list: a sender that finds the bounded queue full waits, which delays its
  frame but does not reorder the frames of one goroutine. Sending after the session was closed fails.
\<close>

section \<open>Registered functions and configuration\<close>

text \<open>
  A stream handler that returns hands over its output channel, whose values are the events of
  \<^const>\<open>outgoingStreamer\<close>; only its error matters here.
\<close>

record 'v function_def =
  fn_name :: string
  fn_args :: TypeDef
  fn_res :: TypeDef
  fn_ft :: functionType
  fn_single :: "call_ctx \<Rightarrow> 'v option \<Rightarrow> 'v option outcome"
  fn_stream :: "call_ctx \<Rightarrow> 'v option \<Rightarrow> unit outcome"

record serverConfig =
  maxConnections :: int64
  maxConcurrentRequests :: int64
  maxConcurrentStreams :: int64
  outgoingQueueCap :: nat
  incomingQueueCap :: nat
  cfg_maxPending :: int
  handshakeTimeout :: int64
  metadataExtractor :: "(call_ctx \<Rightarrow> Metadata \<Rightarrow> call_ctx) option"
  keepAlive :: int64
  writeTimeout :: int64
  maxFrameSize :: int

section \<open>The session\<close>

text \<open>A goroutine serving a request: just started, or past the admission checks.\<close>

datatype 'v worker =
    Started functionType 'v
  | Admitted functionType 'v 'v string "'v function_def" "'v option"

record 'v servingClient =
  sc_clientId :: int64
  sc_resumeToken :: string
  sc_principal :: string
  sc_activeConn :: "nat option"
  sc_closedConns :: "nat list"
  sc_cfg :: serverConfig
  sc_ctxCancelled :: bool
  sc_outgoingQueue :: "'v list"
  sc_done :: bool
  sc_requestMap :: "int64 \<rightharpoonup> 'v servingRequest"
  sc_requestCancels :: "int64 \<rightharpoonup> bool"
  sc_inFlight :: int64
  sc_liveStreams :: int64
  sc_pendingCalls :: "int64 \<rightharpoonup> unit"
  sc_callResults :: "int64 \<rightharpoonup> (gerror + 'v option)"
  sc_pendingStreams :: "int64 \<rightharpoonup> 'v clientStream"
  sc_lastServerRequest :: int64
  sc_closeOnce :: bool
  sc_mlog :: "metric_event list"
  sc_workers :: "'v worker list"
  sc_streamers :: "int64 list"

definition NewServingClient ::
    "int64 \<Rightarrow> string \<Rightarrow> string \<Rightarrow> nat \<Rightarrow> serverConfig \<Rightarrow> bool \<Rightarrow> 'v servingClient" where
  "NewServingClient cid tok princ c cfg parentCancelled =
     \<lparr>sc_clientId = cid, sc_resumeToken = tok, sc_principal = princ, sc_activeConn = Some c,
      sc_closedConns = [], sc_cfg = cfg, sc_ctxCancelled = parentCancelled, sc_outgoingQueue = [],
      sc_done = False, sc_requestMap = Map.empty, sc_requestCancels = Map.empty, sc_inFlight = 0,
      sc_liveStreams = 0, sc_pendingCalls = Map.empty, sc_callResults = Map.empty,
      sc_pendingStreams = Map.empty, sc_lastServerRequest = 0, sc_closeOnce = False, sc_mlog = [],
      sc_workers = [], sc_streamers = []\<rparr>"

definition authorizeResume :: "string \<Rightarrow> 'v servingClient \<Rightarrow> gerror option \<times> 'v servingClient" where
  "authorizeResume presented t =
     (case VerifyHashStep presented (sc_resumeToken t) DefaultResyncWindow of
        Some _ \<Rightarrow> (None, t\<lparr>sc_resumeToken := presented\<rparr>)
      | None \<Rightarrow>
          if SameToken presented (sc_resumeToken t) then (None, t)
          else (Some (PlainError (''handshake rejected: resumption token mismatch for client ''
                        @ show_int (sint (sc_clientId t)))), t))"

definition Close_client :: "'v servingClient \<Rightarrow> 'v servingClient" where
  "Close_client t =
     (if sc_closeOnce t then t
      else
        (let t = t\<lparr>sc_closeOnce := True, sc_ctxCancelled := True, sc_done := True\<rparr>;
             t = (case sc_activeConn t of
                    Some c \<Rightarrow> t\<lparr>sc_closedConns := sc_closedConns t @ [c]\<rparr>
                  | None \<Rightarrow> t)
         in t\<lparr>sc_requestMap := map_option Close_serving \<circ> sc_requestMap t,
              sc_pendingStreams := map_option cs_Close \<circ> sc_pendingStreams t\<rparr>))"

definition replaceConn :: "nat \<Rightarrow> 'v servingClient \<Rightarrow> 'v servingClient" where
  "replaceConn newConn t =
     (let t = (case sc_activeConn t of
                 Some c \<Rightarrow> t\<lparr>sc_closedConns := sc_closedConns t @ [c]\<rparr>
               | None \<Rightarrow> t)
      in t\<lparr>sc_activeConn := Some newConn\<rparr>)"

definition send :: "'v \<Rightarrow> 'v servingClient \<Rightarrow> gerror option \<times> 'v servingClient" where
  "send resp t =
     (if sc_done t then (Some ErrClientClosed, t)
      else (None, t\<lparr>sc_outgoingQueue := sc_outgoingQueue t @ [resp]\<rparr>))"

text \<open>
  One turn of the sender goroutine: the message written, with the connection it goes to. A failed
  write is logged and the message dropped.
\<close>

definition sender :: "'v servingClient \<Rightarrow> ((nat \<times> 'v) option \<times> 'v servingClient) option" where
  "sender t =
     (if sc_done t then None
      else (case sc_outgoingQueue t of
              [] \<Rightarrow> None
            | resp # rest \<Rightarrow>
                Some (map_option (\<lambda>c. (c, resp)) (sc_activeConn t), t\<lparr>sc_outgoingQueue := rest\<rparr>)))"

definition record_metric :: "metric_event \<Rightarrow> 'v servingClient \<Rightarrow> 'v servingClient" where
  "record_metric e t = t\<lparr>sc_mlog := sc_mlog t @ [e]\<rparr>"

definition deleteRequest :: "'v rpc_env \<Rightarrow> 'v \<Rightarrow> 'v servingClient \<Rightarrow> 'v servingClient" where
  "deleteRequest E rid t =
     (case sc_requestMap t (number_Long (env_V E) rid) of
        Some sr \<Rightarrow>
          record_metric (RequestEnd (sr_method sr) (sr_code sr))
            (t\<lparr>sc_requestMap := (sc_requestMap t)(number_Long (env_V E) rid := None),
               sc_liveStreams := sc_liveStreams t - 1\<rparr>)
      | None \<Rightarrow> t)"

definition deletePendingStream :: "int64 \<Rightarrow> 'v servingClient \<Rightarrow> 'v servingClient" where
  "deletePendingStream reqId t = t\<lparr>sc_pendingStreams := (sc_pendingStreams t)(reqId := None)\<rparr>"

fun perform :: "'v rpc_env \<Rightarrow> 'v action list \<Rightarrow> 'v servingClient \<Rightarrow> 'v servingClient" where
  "perform E [] t = t"
| "perform E (Send m # as) t = perform E as (snd (send m t))"
| "perform E (DeleteRequest rid # as) t = perform E as (deleteRequest E rid t)"
| "perform E (DeletePending rid # as) t = perform E as (deletePendingStream rid t)"
| "perform E (Metric e # as) t = perform E as (record_metric e t)"

section \<open>Error replies\<close>

definition handlerErrCode :: "gerror \<Rightarrow> Code" where
  "handlerErrCode err =
     (if CodeOf (Some err) \<noteq> CodeUnknown then CodeOf (Some err)
      else if err = context_DeadlineExceeded then CodeDeadlineExceeded
      else if err = context_Canceled then CodeCanceled
      else CodeInternal)"

definition handlerError :: "'v value_api \<Rightarrow> Dialect \<Rightarrow> 'v \<Rightarrow> string \<Rightarrow> gerror \<Rightarrow> 'v" where
  "handlerError V d rid loc err =
     (let msg = (case err of RpcError _ m \<Rightarrow> m | _ \<Rightarrow> Error_text err)
      in FunctionError V d rid (handlerErrCode err) (loc @ '': '' @ msg))"

definition responseCode :: "'v value_api \<Rightarrow> Dialect \<Rightarrow> 'v option \<Rightarrow> Code" where
  "responseCode V d resp =
     (case resp of
        None \<Rightarrow> CodeOK
      | Some r \<Rightarrow>
          if map_option (number_Long V) (GetNumberField V r (MessageTypeField d)) = Some ErrorResponse
          then (case GetNumberField V r (CodeField d) of
                  Some c \<Rightarrow> Code_of_int64 (number_Long V c)
                | None \<Rightarrow> CodeUnknown)
          else CodeOK)"

section \<open>Serving a request\<close>

primrec ft_index :: "functionType \<Rightarrow> nat" where
  "ft_index singleFunction = 0"
| "ft_index outgoingStream = 1"
| "ft_index incomingStream = 2"
| "ft_index chat = 3"

definition findFunction :: "(string \<rightharpoonup> 'v function_def) \<Rightarrow> string \<Rightarrow> 'v function_def option" where
  "findFunction F name = F name"

text \<open>A deadline is in nanoseconds: \<^verbatim>\<open>time.Duration(sla) * time.Millisecond\<close> wraps.\<close>

definition newRequestContext ::
    "'v rpc_env \<Rightarrow> 'v \<Rightarrow> functionType \<Rightarrow> 'v servingClient \<Rightarrow> call_ctx" where
  "newRequestContext E m ft t =
     (let ctx = Background\<lparr>ctx_err := (if sc_ctxCancelled t then Some context_Canceled else None)\<rparr>
      in if ft = singleFunction then
           (case GetNumberField (env_V E) m (TimeoutField (env_d E)) of
              Some sla \<Rightarrow>
                if sint (number_Long (env_V E) sla) > 0
                then ctx\<lparr>ctx_deadline := Some (sint (number_Long (env_V E) sla * 1000000))\<rparr>
                else ctx
            | None \<Rightarrow> ctx)
         else ctx)"

definition handler_context ::
    "'v rpc_env \<Rightarrow> 'v \<Rightarrow> functionType \<Rightarrow> 'v servingClient \<Rightarrow> call_ctx" where
  "handler_context E m ft t =
     (let ctx = newRequestContext E m ft t;
          ctx = (case DecodeMetadata (env_V E) (env_d E) m of
                   None \<Rightarrow> ctx
                 | Some md \<Rightarrow>
                     (let ctx = ContextWithMetadata ctx md
                      in case metadataExtractor (sc_cfg t) of None \<Rightarrow> ctx | Some ex \<Rightarrow> ex ctx md));
          ctx = (if sc_principal t \<noteq> [] then ContextWithPrincipal ctx (sc_principal t) else ctx)
      in contextWithPeer ctx)"

text \<open>
  The checks of \<^verbatim>\<open>doServeFunctionRequest\<close> up to the stream cap: an error reply, or the request id, the
  function and its arguments.
\<close>

definition admit ::
    "'v rpc_env \<Rightarrow> (string \<rightharpoonup> 'v function_def) \<Rightarrow> functionType \<Rightarrow> 'v \<Rightarrow> 'v servingClient \<Rightarrow>
     'v + ('v \<times> string \<times> 'v function_def \<times> 'v option)" where
  "admit E F ft m t =
     (let V = env_V E; d = env_d E;
          reqId = (case GetNumberField V m (RequestIdField d) of Some r \<Rightarrow> r | None \<Rightarrow> Long V 0)
      in case GetStringField V m (FunctionNameField d) of
           None \<Rightarrow> Inl (FunctionError V d reqId CodeInvalidArgument ''function name field not found'')
         | Some nm \<Rightarrow>
             (let name = string_String V nm
              in case findFunction F name of
                   None \<Rightarrow> Inl (FunctionError V d reqId CodeNotFound (''function not found '' @ name))
                 | Some fn \<Rightarrow>
                     (let args = Get V m (ArgumentsField d)
                      in if \<not> Verify V args (fn_args fn) then
                           Inl (FunctionError V d reqId CodeInvalidArgument
                             (''function '' @ quoted name @ '' invalid args'' @ valDetail E args))
                         else if fn_ft fn \<noteq> ft then
                           Inl (FunctionError V d reqId CodeInvalidArgument (''function wrong type '' @ name @ '', expected '' @ show_nat (ft_index (fn_ft fn))
                              @ '', actual '' @ show_nat (ft_index ft)))
                         else if ft \<noteq> singleFunction \<and> sint (maxConcurrentStreams (sc_cfg t)) > 0 \<and>
                                 sint (sc_liveStreams t) \<ge> sint (maxConcurrentStreams (sc_cfg t)) then
                           Inl (FunctionError V d reqId CodeResourceExhausted
                             (''server busy: too many concurrent streams (max ''
                              @ show_int (sint (maxConcurrentStreams (sc_cfg t))) @ '')''))
                         else Inr (reqId, name, fn, args))))"

definition newServingRequest ::
    "'v rpc_env \<Rightarrow> functionType \<Rightarrow> 'v \<Rightarrow> string \<Rightarrow> 'v servingClient \<Rightarrow> 'v servingRequest \<times> 'v servingClient" where
  "newServingRequest E ft rid name t =
     (let sr = (NewServingRequest ft rid)\<lparr>sr_cancel := True, sr_method := name\<rparr>;
          inbound = (ft = incomingStream \<or> ft = chat);
          sr = (if inbound then setupInbound (incomingQueueCap (sc_cfg t)) (cfg_maxPending (sc_cfg t)) sr else sr);
          t = record_metric (RequestBegin name) t;
          t = t\<lparr>sc_requestMap := (sc_requestMap t)(number_Long (env_V E) rid \<mapsto> sr),
                sc_liveStreams := sc_liveStreams t + 1\<rparr>;
          t = (if inbound then perform E (grantInitialInbound E sr) t else t)
      in (sr, t))"

text \<open>
  The rest of \<^verbatim>\<open>doServeFunctionRequest\<close>: run the handler and produce the reply, if there is one. A
  panicking unary handler still has its cancel function unregistered (a deferred call); a panicking
  stream handler leaves its request registered, and no \<^verbatim>\<open>go outgoingStreamer\<close> is reached for it.
\<close>

datatype 'v reply = Reply 'v | NoReply | HandlerPanic

definition stream_place :: "functionType \<Rightarrow> string" where
  "stream_place ft =
     (case ft of outgoingStream \<Rightarrow> ''out stream '' | incomingStream \<Rightarrow> ''in stream '' | _ \<Rightarrow> ''chat '')"

definition run_handler ::
    "'v rpc_env \<Rightarrow> functionType \<Rightarrow> 'v \<Rightarrow> 'v \<Rightarrow> string \<Rightarrow> 'v function_def \<Rightarrow> 'v option \<Rightarrow> 'v servingClient \<Rightarrow>
     'v reply \<times> 'v servingClient" where
  "run_handler E ft m reqId name fn args t =
     (let V = env_V E; d = env_d E; ctx = handler_context E m ft t
      in if fn_ft fn = singleFunction then
           (let t = t\<lparr>sc_requestCancels := (sc_requestCancels t)(number_Long V reqId := None)\<rparr>
            in case fn_single fn ctx args of
                 Panicked \<Rightarrow> (HandlerPanic, t)
               | Failed err \<Rightarrow> (Reply (handlerError V d reqId (''function '' @ name) err), t)
               | Returned res \<Rightarrow>
                   if \<not> Verify V res (fn_res fn) then
                     (Reply (FunctionError V d reqId CodeInternal
                        (''function '' @ quoted name @ '' invalid results'' @ valDetail E res)), t)
                   else (Reply (FunctionResult V d reqId res), t))
         else
           (let (sr, t) = newServingRequest E ft reqId name t
            in case fn_stream fn ctx args of
                 Panicked \<Rightarrow> (HandlerPanic, t)
               | Failed err \<Rightarrow>
                   (let sr = setCode (handlerErrCode err) sr;
                        t = t\<lparr>sc_requestMap := (sc_requestMap t)(number_Long V reqId \<mapsto> sr)\<rparr>;
                        (_, acts) = closeRequest sr
                    in (Reply (handlerError V d reqId (stream_place ft @ name) err), perform E acts t))
               | Returned _ \<Rightarrow>
                   if fn_ft fn = incomingStream then (Reply (StreamReady_msg V d reqId), t)
                   else (NoReply, t\<lparr>sc_streamers := sc_streamers t @ [number_Long V reqId]\<rparr>)))"

text \<open>
  The goroutine of \<^verbatim>\<open>serveFunctionRequest\<close> in its two steps. A unary request is metered around the
  whole call; a panic is recovered, and the handler slot is released on every path.
\<close>

definition request_name :: "'v rpc_env \<Rightarrow> 'v \<Rightarrow> string" where
  "request_name E m =
     (case GetStringField (env_V E) m (FunctionNameField (env_d E)) of
        Some nm \<Rightarrow> string_String (env_V E) nm
      | None \<Rightarrow> [])"

definition finish_worker :: "'v rpc_env \<Rightarrow> functionType \<Rightarrow> 'v \<Rightarrow> 'v reply \<Rightarrow> 'v servingClient \<Rightarrow> 'v servingClient" where
  "finish_worker E ft m r t =
     (let t = (case r of
                 HandlerPanic \<Rightarrow> t
               | NoReply \<Rightarrow>
                   if ft = singleFunction then record_metric (RequestEnd (request_name E m) CodeOK) t else t
               | Reply resp \<Rightarrow>
                   snd (send resp
                     (if ft = singleFunction
                      then record_metric
                        (RequestEnd (request_name E m) (responseCode (env_V E) (env_d E) (Some resp))) t
                      else t)))
      in t\<lparr>sc_inFlight := sc_inFlight t - 1\<rparr>)"

definition start_worker ::
    "'v rpc_env \<Rightarrow> (string \<rightharpoonup> 'v function_def) \<Rightarrow> functionType \<Rightarrow> 'v \<Rightarrow> 'v servingClient \<Rightarrow>
     'v worker option \<times> 'v servingClient" where
  "start_worker E F ft m t =
     (let t = (if ft = singleFunction then record_metric (RequestBegin (request_name E m)) t else t)
      in case admit E F ft m t of
           Inl resp \<Rightarrow> (None, finish_worker E ft m (Reply resp) t)
         | Inr (reqId, name, fn, args) \<Rightarrow>
             (Some (Admitted ft m reqId name fn args),
              if ft = singleFunction
              then t\<lparr>sc_requestCancels := (sc_requestCancels t)(number_Long (env_V E) reqId \<mapsto> False)\<rparr>
              else t))"

definition run_worker ::
    "'v rpc_env \<Rightarrow> functionType \<Rightarrow> 'v \<Rightarrow> 'v \<Rightarrow> string \<Rightarrow> 'v function_def \<Rightarrow> 'v option \<Rightarrow>
     'v servingClient \<Rightarrow> 'v servingClient" where
  "run_worker E ft m reqId name fn args t =
     (let (r, t) = run_handler E ft m reqId name fn args t in finish_worker E ft m r t)"

definition serveFunctionRequest ::
    "'v rpc_env \<Rightarrow> (string \<rightharpoonup> 'v function_def) \<Rightarrow> functionType \<Rightarrow> 'v \<Rightarrow> 'v servingClient \<Rightarrow> 'v servingClient" where
  "serveFunctionRequest E F ft m t =
     (case start_worker E F ft m t of
        (Some (Admitted ft m reqId name fn args), t) \<Rightarrow> run_worker E ft m reqId name fn args t
      | (_, t) \<Rightarrow> t)"

section \<open>Dispatch\<close>

definition serveNewRequest ::
    "'v rpc_env \<Rightarrow> MessageType \<Rightarrow> 'v \<Rightarrow> 'v servingClient \<Rightarrow> gerror option \<times> 'v servingClient" where
  "serveNewRequest E msgType m t =
     (case (if msgType = FunctionRequest then Some singleFunction
            else if msgType = GetStreamRequest then Some outgoingStream
            else if msgType = PutStreamRequest then Some incomingStream
            else if msgType = ChatRequest then Some chat
            else None) of
        None \<Rightarrow> (Some (PlainError (''unknown message type for new request'' @ reqDetail E m)), t)
      | Some ft \<Rightarrow>
          (let t = t\<lparr>sc_inFlight := sc_inFlight t + 1\<rparr>;
               n = sc_inFlight t;
               mx = maxConcurrentRequests (sc_cfg t)
           in if sint mx > 0 \<and> sint n > sint mx then
                (let t = t\<lparr>sc_inFlight := sc_inFlight t - 1\<rparr>
                 in case GetNumberField (env_V E) m (RequestIdField (env_d E)) of
                      Some reqId \<Rightarrow>
                        (None, snd (send (FunctionError (env_V E) (env_d E) reqId CodeResourceExhausted
                           (''server busy: too many concurrent requests (max '' @ show_int (sint mx) @ '')'')) t))
                    | None \<Rightarrow> (None, t))
              else (None, t\<lparr>sc_workers := sc_workers t @ [Started ft m]\<rparr>)))"

text \<open>A reply to a call the server made to its client.\<close>

definition completePendingCall ::
    "'v rpc_env \<Rightarrow> 'v \<Rightarrow> MessageType \<Rightarrow> 'v \<Rightarrow> 'v servingClient \<Rightarrow> 'v servingClient" where
  "completePendingCall E reqId msgType resp t =
     (let V = env_V E; d = env_d E; k = number_Long V reqId
      in case sc_pendingCalls t k of
           None \<Rightarrow> t
         | Some _ \<Rightarrow>
             (let t = t\<lparr>sc_pendingCalls := (sc_pendingCalls t)(k := None)\<rparr>
              in if msgType = ErrorResponse then
                   (let code = (case GetNumberField V resp (CodeField d) of
                                  Some c \<Rightarrow> Code_of_int64 (number_Long V c) | None \<Rightarrow> CodeUnknown);
                        msg = (case GetStringField V resp (ErrorField d) of
                                 Some s \<Rightarrow> string_String V s | None \<Rightarrow> [])
                    in t\<lparr>sc_callResults := (sc_callResults t)(k \<mapsto> Inl (RpcError code msg))\<rparr>)
                 else
                   (let result = Get V resp (ResultField d);
                        result = (case result of
                                    Some v \<Rightarrow> if Kind V v = NULL then None else Some v
                                  | None \<Rightarrow> None)
                    in t\<lparr>sc_callResults := (sc_callResults t)(k \<mapsto> Inr result)\<rparr>)))"

definition findServingRequest :: "'v rpc_env \<Rightarrow> 'v \<Rightarrow> 'v servingClient \<Rightarrow> 'v servingRequest option" where
  "findServingRequest E rid t = sc_requestMap t (number_Long (env_V E) rid)"

definition findPendingStream :: "'v rpc_env \<Rightarrow> 'v \<Rightarrow> 'v servingClient \<Rightarrow> 'v clientStream option" where
  "findPendingStream E rid t = sc_pendingStreams t (number_Long (env_V E) rid)"

text \<open>\<^term>\<open>None\<close> when the frame blocks the read loop (a direct send into a full channel).\<close>

definition processRequest ::
    "'v rpc_env \<Rightarrow> bool \<Rightarrow> 'v \<Rightarrow> 'v servingClient \<Rightarrow> (gerror option \<times> 'v servingClient) option" where
  "processRequest E pick m t =
     (let V = env_V E; d = env_d E
      in case GetNumberField V m (MessageTypeField d) of
           None \<Rightarrow> Some (Some (PlainError (''empty message type'' @ reqDetail E m)), t)
         | Some mt \<Rightarrow>
             (let msgType = number_Long V mt
              in case GetNumberField V m (RequestIdField d) of
                   None \<Rightarrow> Some (Some (PlainError (''request id not found'' @ reqDetail E m)), t)
                 | Some reqId \<Rightarrow>
                     (let k = number_Long V reqId
                      in case findPendingStream E reqId t of
                           Some cs \<Rightarrow>
                             (case handleInbound E pick msgType m cs of
                                None \<Rightarrow> None
                              | Some (cs, acts) \<Rightarrow>
                                  Some (None, perform E acts
                                    (t\<lparr>sc_pendingStreams := (sc_pendingStreams t)(k \<mapsto> cs)\<rparr>)))
                         | None \<Rightarrow>
                             if msgType = FunctionResponse \<or> msgType = ErrorResponse
                             then Some (None, completePendingCall E reqId msgType m t)
                             else
                               (case findServingRequest E reqId t of
                                  Some sr \<Rightarrow>
                                    (let (err, sr, acts) = serveRunningRequest E msgType m sr
                                     in Some (err, perform E acts
                                          (t\<lparr>sc_requestMap := (sc_requestMap t)(k \<mapsto> sr)\<rparr>)))
                                | None \<Rightarrow>
                                    if msgType = CancelRequest then
                                      (case sc_requestCancels t k of
                                         Some _ \<Rightarrow>
                                           Some (None, t\<lparr>sc_requestCancels := (sc_requestCancels t)(k \<mapsto> True)\<rparr>)
                                       | None \<Rightarrow> Some (None, t))
                                    else Some (serveNewRequest E msgType m t)))))"

section \<open>Calls toward the client\<close>

definition nextServerRequestId :: "'v servingClient \<Rightarrow> int64 \<times> 'v servingClient" where
  "nextServerRequestId t =
     (let n = sc_lastServerRequest t + 1 in (- n, t\<lparr>sc_lastServerRequest := n\<rparr>))"

text \<open>
  \<^verbatim>\<open>CallFunction\<close> up to its wait: the id of the call, or the error of a failed send (whose deferred
  cleanup has run). The second part is what the wait ends with.
\<close>

definition CallFunction_begin ::
    "'v rpc_env \<Rightarrow> call_ctx \<Rightarrow> string \<Rightarrow> 'v option \<Rightarrow> 'v servingClient \<Rightarrow> (gerror + int64) \<times> 'v servingClient" where
  "CallFunction_begin E ctx name args t =
     (let V = env_V E; d = env_d E;
          (reqId, t) = nextServerRequestId t;
          t = t\<lparr>sc_pendingCalls := (sc_pendingCalls t)(reqId \<mapsto> ())\<rparr>;
          m = NewFunctionRequest V d reqId name args;
          m = (case EncodeMetadata V (MetadataFromContext ctx) of
                 None \<Rightarrow> m | Some md \<Rightarrow> Put V m (MetadataField d) (Some md))
      in case send m t of
           (Some err, t) \<Rightarrow> (Inl err, t\<lparr>sc_pendingCalls := (sc_pendingCalls t)(reqId := None)\<rparr>)
         | (None, t) \<Rightarrow> (Inr reqId, t))"

datatype call_event = CallCtxDone gerror | CallSessionDone | CallCompleted

text \<open>The result channel holds one result; receiving from it before one was sent waits (\<^term>\<open>None\<close>).\<close>

definition CallFunction_end ::
    "int64 \<Rightarrow> call_event \<Rightarrow> 'v servingClient \<Rightarrow> ((gerror + 'v option) \<times> 'v servingClient) option" where
  "CallFunction_end reqId ev t =
     (let t' = t\<lparr>sc_pendingCalls := (sc_pendingCalls t)(reqId := None)\<rparr>
      in case ev of
           CallCtxDone e \<Rightarrow> Some (Inl e, t')
         | CallSessionDone \<Rightarrow> if sc_done t then Some (Inl ErrClientClosed, t') else None
         | CallCompleted \<Rightarrow> map_option (\<lambda>r. (r, t')) (sc_callResults t reqId))"

text \<open>Cancelling removes the stream from the map and closes the object its users still hold.\<close>

definition cancelClientStream ::
    "'v rpc_env \<Rightarrow> 'v clientStream \<Rightarrow> 'v servingClient \<Rightarrow> 'v clientStream \<times> 'v servingClient" where
  "cancelClientStream E cs t =
     (let V = env_V E; d = env_d E;
          t = snd (send (Puts V (EmptyMap V)
                [(MessageTypeField d, MessageType_Long V CancelRequest),
                 (RequestIdField d, Long V (cs_requestId cs))]) t)
      in (cs_Close cs, deletePendingStream (cs_requestId cs) t))"

text \<open>
  \<^verbatim>\<open>openStream\<close> up to \<^verbatim>\<open>awaitReady\<close>: the stream is registered before the open frame is sent, so
  that the acknowledgement finds it.
\<close>

definition openStream_begin ::
    "'v rpc_env \<Rightarrow> MessageType \<Rightarrow> streamKind \<Rightarrow> string \<Rightarrow> 'v option \<Rightarrow> nat \<Rightarrow> 'v servingClient \<Rightarrow>
     (gerror + int64) \<times> 'v servingClient" where
  "openStream_begin E mt k name args receiveCap t =
     (let V = env_V E; d = env_d E;
          (reqId, t) = nextServerRequestId t;
          cs = newClientStream reqId k receiveCap DefaultMaxPending True;
          t = t\<lparr>sc_pendingStreams := (sc_pendingStreams t)(reqId \<mapsto> cs)\<rparr>
      in case send (NewStreamRequest V d mt reqId name args) t of
           (Some err, t) \<Rightarrow> (Inl err, deletePendingStream reqId t)
         | (None, t) \<Rightarrow> (Inr reqId, t))"

datatype ready_event = ReadyAck | ReadyClosed | ReadyCtxDone gerror | ReadySessionDone | ReadyTimeout "gerror option"

definition awaitReady ::
    "'v rpc_env \<Rightarrow> 'v clientStream \<Rightarrow> ready_event \<Rightarrow> 'v servingClient \<Rightarrow>
     gerror option \<times> 'v clientStream \<times> 'v servingClient" where
  "awaitReady E cs ev t =
     (case ev of
        ReadyAck \<Rightarrow> (None, cs, t)
      | ReadyClosed \<Rightarrow>
          (Some (cs_err cs (NewError CodeUnavailable ''reverse stream closed before ready'')), cs, t)
      | ReadyCtxDone e \<Rightarrow> (Some e, cancelClientStream E cs t)
      | ReadySessionDone \<Rightarrow> (Some ErrClientClosed, cancelClientStream E cs t)
      | ReadyTimeout ctxErr \<Rightarrow>
          (Some (case ctxErr of
                   Some e \<Rightarrow> e
                 | None \<Rightarrow> NewError CodeDeadlineExceeded
                     (''reverse stream '' @ show_int (sint (cs_requestId cs)) @ '': client did not ack'')),
           cancelClientStream E cs t))"

text \<open>Once acknowledged, a stream that receives grants its initial window.\<close>

definition openStream_ready :: "'v rpc_env \<Rightarrow> 'v clientStream \<Rightarrow> 'v servingClient \<Rightarrow> 'v servingClient" where
  "openStream_ready E cs t =
     (case cs_sendInitialCredit cs of
        Some n \<Rightarrow> snd (send (NewStreamCredit (env_V E) (env_d E) (Long (env_V E) (cs_requestId cs)) n) t)
      | None \<Rightarrow> t)"

text \<open>The three kinds of reverse streams open with their own frame, kind and receive buffer.\<close>

definition GetStream_open ::
    "'v rpc_env \<Rightarrow> string \<Rightarrow> 'v option \<Rightarrow> nat \<Rightarrow> 'v servingClient \<Rightarrow> (gerror + int64) \<times> 'v servingClient" where
  "GetStream_open E name args receiveCap t = openStream_begin E GetStreamRequest getStreamKind name args receiveCap t"

definition PutStream_open ::
    "'v rpc_env \<Rightarrow> string \<Rightarrow> 'v option \<Rightarrow> 'v servingClient \<Rightarrow> (gerror + int64) \<times> 'v servingClient" where
  "PutStream_open E name args t = openStream_begin E PutStreamRequest putStreamKind name args 1 t"

definition Chat_open ::
    "'v rpc_env \<Rightarrow> string \<Rightarrow> 'v option \<Rightarrow> nat \<Rightarrow> 'v servingClient \<Rightarrow> (gerror + int64) \<times> 'v servingClient" where
  "Chat_open E name args receiveCap t = openStream_begin E ChatRequest chatKind name args (receiveCap + 1) t"

datatype watch_event = WatchCtxDone | WatchStreamDone | WatchSessionDone

definition watchStream ::
    "'v rpc_env \<Rightarrow> watch_event \<Rightarrow> 'v clientStream \<Rightarrow> 'v servingClient \<Rightarrow> 'v clientStream \<times> 'v servingClient" where
  "watchStream E ev cs t = (case ev of WatchCtxDone \<Rightarrow> cancelClientStream E cs t | _ \<Rightarrow> (cs, t))"

text \<open>
  One turn of \<^verbatim>\<open>streamOut\<close>: what the caller's channel yields (\<^term>\<open>None\<close> when it was closed). The result
  says whether the loop goes on; \<^term>\<open>None\<close> while it waits for credit.
\<close>

definition streamOut_step ::
    "'v rpc_env \<Rightarrow> 'v option option \<Rightarrow> 'v clientStream \<Rightarrow> 'v servingClient \<Rightarrow>
     (bool \<times> 'v clientStream \<times> 'v servingClient) option" where
  "streamOut_step E item cs t =
     (let V = env_V E; d = env_d E; rid = Long V (cs_requestId cs);
          leave = (\<lambda>t. let (whole, cs) = tryPutClose cs
                       in (False, cs, if whole then deletePendingStream (cs_requestId cs) t else t))
      in if \<not> cs_IsPutOpen cs then Some (leave t)
         else (case item of
                 None \<Rightarrow> Some (leave (snd (send (NewStreamEnd V d rid None) t)))
               | Some val \<Rightarrow>
                   (case cs_sendCredit cs of
                      None \<Rightarrow> Some (True, cs, snd (send (NewStreamValue V d rid val) t))
                    | Some g \<Rightarrow>
                        (case Acquire g of
                           None \<Rightarrow> None
                         | Some (False, _) \<Rightarrow> Some (leave t)
                         | Some (True, g) \<Rightarrow>
                             Some (True, cs\<lparr>cs_sendCredit := Some g\<rparr>,
                                   snd (send (NewStreamValue V d rid val) t))))))"

section \<open>Interleaving\<close>

text \<open>
  A session under all its goroutines: the read loop takes a frame, a request goroutine takes its next
  step, a stream goroutine retires its request, the session is closed, the server calls its client,
  the sender writes a frame, the client resumes on a new connection.
\<close>

inductive session_step ::
    "'v rpc_env \<Rightarrow> (string \<rightharpoonup> 'v function_def) \<Rightarrow> 'v servingClient \<Rightarrow> 'v servingClient \<Rightarrow> bool" for E F where
  frame: "processRequest E pick m t = Some (err, t') \<Longrightarrow> session_step E F t t'"
| start: "sc_workers t = ws1 @ Started ft m # ws2 \<Longrightarrow>
    start_worker E F ft m (t\<lparr>sc_workers := ws1 @ ws2\<rparr>) = (None, t') \<Longrightarrow> session_step E F t t'"
| admitted: "sc_workers t = ws1 @ Started ft m # ws2 \<Longrightarrow>
    start_worker E F ft m (t\<lparr>sc_workers := ws1 @ ws2\<rparr>) = (Some w, t') \<Longrightarrow>
    session_step E F t (t'\<lparr>sc_workers := ws1 @ w # ws2\<rparr>)"
| handler: "sc_workers t = ws1 @ Admitted ft m reqId name fn args # ws2 \<Longrightarrow>
    session_step E F t (run_worker E ft m reqId name fn args (t\<lparr>sc_workers := ws1 @ ws2\<rparr>))"
| retire: "session_step E F t (deleteRequest E rid t)"
| close_session: "session_step E F t (Close_client t)"
| call_out: "session_step E F t (snd (CallFunction_begin E ctx name args t))"
| call_done: "CallFunction_end reqId ev t = Some (res, t') \<Longrightarrow> session_step E F t t'"
| open_stream: "session_step E F t (snd (openStream_begin E mt k name args cap t))"
| cancel_stream: "session_step E F t (snd (cancelClientStream E cs t))"
| sent: "sender t = Some (out, t') \<Longrightarrow> session_step E F t t'"
| resumed: "authorizeResume tok t = (None, t') \<Longrightarrow> session_step E F t (replaceConn newc t')"

section \<open>The handler cap\<close>

text \<open>Everything the bookkeeping of handler slots depends on; nothing else touches it.\<close>

definition slots :: "'v servingClient \<Rightarrow> int64 \<times> 'v worker list \<times> serverConfig" where
  "slots t = (sc_inFlight t, sc_workers t, sc_cfg t)"

lemma slots_simple [simp]:
  "slots (t\<lparr>sc_requestMap := rm\<rparr>) = slots t" "slots (t\<lparr>sc_requestCancels := rc\<rparr>) = slots t"
  "slots (t\<lparr>sc_pendingStreams := ps\<rparr>) = slots t" "slots (record_metric e t) = slots t"
  "slots (snd (send m t)) = slots t" "slots (deletePendingStream k t) = slots t"
  "slots (t\<lparr>sc_requestMap := rm, sc_liveStreams := n\<rparr>) = slots t" "slots (t\<lparr>sc_streamers := ss\<rparr>) = slots t"
  by (simp_all add: slots_def record_metric_def send_def deletePendingStream_def)

lemma slots_deleteRequest [simp]: "slots (deleteRequest E rid t) = slots t"
  by (simp add: deleteRequest_def split: option.splits)

lemma slots_perform [simp]: "slots (perform E acts t) = slots t"
  by (induction E acts t rule: perform.induct) simp_all

lemma slots_completePendingCall [simp]: "slots (completePendingCall E reqId mt m t) = slots t"
  by (simp add: completePendingCall_def Let_def slots_def split: option.splits)

lemma slots_Close [simp]: "slots (Close_client t) = slots t"
  by (simp add: Close_client_def Let_def slots_def split: option.splits)

lemma slots_CallFunction:
  "slots (snd (CallFunction_begin E ctx name args t)) = slots t"
  "CallFunction_end reqId ev t = Some (res, t') \<Longrightarrow> slots t' = slots t"
  by (auto simp: CallFunction_begin_def CallFunction_end_def nextServerRequestId_def send_def slots_def Let_def
      split: call_event.splits if_splits)

lemma slots_reverse_streams:
  "slots (snd (openStream_begin E mt k name args cap t)) = slots t"
  "slots (snd (cancelClientStream E cs t)) = slots t"
  by (simp_all add: openStream_begin_def cancelClientStream_def deletePendingStream_def
      nextServerRequestId_def send_def slots_def Let_def)

lemma slots_connection:
  "sender t = Some (out, t') \<Longrightarrow> slots t' = slots t"
  "authorizeResume tok t = (e, t') \<Longrightarrow> slots (replaceConn newc t') = slots t"
  by (auto simp: sender_def authorizeResume_def replaceConn_def slots_def Let_def
      split: if_splits list.splits option.splits)

lemma slots_newServingRequest: "slots (snd (newServingRequest E ft rid name t)) = slots t"
  by (simp add: newServingRequest_def Let_def)

lemma slots_run_handler: "slots (snd (run_handler E ft m reqId name fn args t)) = slots t"
proof -
  obtain sr t' where n: "newServingRequest E ft reqId name t = (sr, t')" by force
  then have "slots t' = slots t" using slots_newServingRequest [of E ft reqId name t] by simp
  then show ?thesis
    by (simp add: run_handler_def n Let_def case_prod_beta split: outcome.splits)
qed

lemma slots_finish_worker:
  "slots (finish_worker E ft m r t) = (sc_inFlight t - 1, sc_workers t, sc_cfg t)"
proof -
  have "slots (snd (send resp (record_metric e t))) = slots t" for resp e by simp
  then show ?thesis
    by (cases r) (auto simp: finish_worker_def Let_def slots_def record_metric_def send_def)
qed

lemma slots_start_worker:
  assumes "start_worker E F ft m t = (w, t')"
  shows "slots t' = (if w = None then (sc_inFlight t - 1, sc_workers t, sc_cfg t) else slots t)"
proof -
  define u where "u = (if ft = singleFunction then record_metric (RequestBegin (request_name E m)) t else t)"
  have "slots u = slots t" by (simp add: u_def)
  then have u: "sc_inFlight u = sc_inFlight t" "sc_workers u = sc_workers t" "sc_cfg u = sc_cfg t"
    by (simp_all add: slots_def)
  show ?thesis
  proof (cases "admit E F ft m u")
    case (Inl resp)
    then have "w = None" "t' = finish_worker E ft m (Reply resp) u"
      using assms by (simp_all add: start_worker_def u_def Let_def)
    then show ?thesis using u by (simp add: slots_finish_worker)
  next
    case (Inr q)
    obtain reqId name fn args where "q = (reqId, name, fn, args)" by (cases q)
    with Inr show ?thesis
      using assms \<open>slots u = slots t\<close>
      by (auto simp: start_worker_def Let_def slots_def simp flip: u_def split: if_splits)
  qed
qed

text \<open>The counter is the number of workers (as a 64-bit number), and a positive cap is respected.\<close>

definition capped :: "int64 \<Rightarrow> nat \<Rightarrow> bool" where
  "capped mx n \<longleftrightarrow> (0 < sint mx \<and> sint mx < 2 ^ 63 - 1 \<longrightarrow> int n \<le> sint mx)"

definition cap_ok :: "'v servingClient \<Rightarrow> bool" where
  "cap_ok t \<longleftrightarrow> sc_inFlight t = of_nat (length (sc_workers t)) \<and>
     capped (maxConcurrentRequests (sc_cfg t)) (length (sc_workers t))"

lemma cap_ok_slots: "slots t' = slots t \<Longrightarrow> cap_ok t \<Longrightarrow> cap_ok t'"
  by (simp add: cap_ok_def slots_def)

lemma cap_ok_release:
  assumes "cap_ok t" and "sc_workers t = ws1 @ w # ws2"
    and "slots t' = (sc_inFlight t - 1, ws1 @ ws2, sc_cfg t)"
  shows "cap_ok t'"
  using assms by (auto simp: cap_ok_def slots_def capped_def)

lemma sint_of_nat64: "int n < 2 ^ 63 \<Longrightarrow> sint (of_nat n :: int64) = int n"
  using sint_of_int64 [of "int n"] by simp

lemma capped_Suc:
  assumes "capped mx n" and "\<not> (0 < sint mx \<and> sint mx < sint (of_nat n + 1 :: int64))"
  shows "capped mx (Suc n)"
  unfolding capped_def
proof
  assume mx: "0 < sint mx \<and> sint mx < 2 ^ 63 - 1"
  then have "int (Suc n) < 2 ^ 63" using assms(1) by (simp add: capped_def)
  from sint_of_nat64 [OF this] show "int (Suc n) \<le> sint mx" using assms(2) mx by (simp add: add.commute)
qed

lemma cap_ok_serveNewRequest:
  assumes "cap_ok t"
  shows "cap_ok (snd (serveNewRequest E mt m t)) \<and> sc_cfg (snd (serveNewRequest E mt m t)) = sc_cfg t"
  using assms capped_Suc [of "maxConcurrentRequests (sc_cfg t)" "length (sc_workers t)"]
  by (auto simp: serveNewRequest_def cap_ok_def Let_def send_def add.commute split: option.splits)

lemma cap_ok_processRequest:
  assumes "cap_ok t" and "processRequest E pick m t = Some (err, t')"
  shows "cap_ok t' \<and> sc_cfg t' = sc_cfg t"
proof -
  have "slots t' = slots t \<or> (\<exists>mt. t' = snd (serveNewRequest E mt m t))"
    using assms(2)
    by (auto simp: processRequest_def Let_def split: option.splits if_splits prod.splits) (metis snd_conv)+
  then show ?thesis
    using cap_ok_serveNewRequest [OF assms(1)] assms(1) cap_ok_slots [of t' t] by (auto simp: slots_def)
qed

lemma cap_ok_step:
  assumes "session_step E F t t'" and "cap_ok t"
  shows "cap_ok t' \<and> sc_cfg t' = sc_cfg t"
  using assms(1)
proof cases
  case (frame pick m err)
  then show ?thesis using cap_ok_processRequest [OF assms(2)] by simp
next
  case (start ws1 ft m ws2)
  then have "slots t' = (sc_inFlight t - 1, ws1 @ ws2, sc_cfg t)"
    using slots_start_worker [OF start(2)] by simp
  then show ?thesis using cap_ok_release [OF assms(2) start(1)] by (simp add: slots_def)
next
  case (admitted ws1 ft m ws2 w u)
  have "slots u = slots (t\<lparr>sc_workers := ws1 @ ws2\<rparr>)"
    using slots_start_worker [OF admitted(3)] by simp
  then show ?thesis using assms(2) admitted by (simp add: cap_ok_def slots_def)
next
  case (handler ws1 ft m reqId name fn args ws2)
  let ?u = "t\<lparr>sc_workers := ws1 @ ws2\<rparr>"
  have "slots (snd (run_handler E ft m reqId name fn args ?u)) = (sc_inFlight t, ws1 @ ws2, sc_cfg t)"
    by (simp add: slots_run_handler) (simp add: slots_def)
  then have "slots t' = (sc_inFlight t - 1, ws1 @ ws2, sc_cfg t)"
    using handler(1) by (simp add: run_worker_def case_prod_beta slots_finish_worker) (simp add: slots_def)
  then show ?thesis using cap_ok_release [OF assms(2) handler(2)] by (simp add: slots_def)
next
  case (retire rid)
  then show ?thesis using assms(2) cap_ok_slots [of t' t] slots_deleteRequest [of E rid t] by (auto simp: slots_def)
next
  case close_session
  then show ?thesis using assms(2) cap_ok_slots [of t' t] slots_Close [of t] by (auto simp: slots_def)
next
  case (call_out ctx name args)
  then show ?thesis using assms(2) cap_ok_slots [of t' t] slots_CallFunction(1) [of E ctx name args t] by (simp add: slots_def)
next
  case (call_done reqId ev res)
  then show ?thesis using assms(2) cap_ok_slots [of t' t] slots_CallFunction(2) [OF call_done] by (simp add: slots_def)
next
  case (open_stream mt k name args cap)
  then show ?thesis using assms(2) cap_ok_slots [of t' t] slots_reverse_streams(1) [of E mt k name args cap t] by (simp add: slots_def)
next
  case (cancel_stream cs)
  then show ?thesis using assms(2) cap_ok_slots [of t' t] slots_reverse_streams(2) [of E cs t] by (simp add: slots_def)
next
  case (sent out)
  then show ?thesis using assms(2) cap_ok_slots [of t' t] slots_connection(1) [OF sent] by (simp add: slots_def)
next
  case (resumed tok u newc)
  then show ?thesis using assms(2) cap_ok_slots [of t' t] slots_connection(2) [OF resumed(2), of newc] by (simp add: slots_def)
qed

section \<open>Replies\<close>

text \<open>A reply that the client can route: one of the two response types, with the request's id.\<close>

definition reply_to :: "'v rpc_env \<Rightarrow> 'v \<Rightarrow> 'v \<Rightarrow> bool" where
  "reply_to E rid resp =
     (GetNumberField (env_V E) resp (RequestIdField (env_d E)) = Some rid \<and>
      map_option (number_Long (env_V E)) (GetNumberField (env_V E) resp (MessageTypeField (env_d E)))
        \<in> {Some FunctionResponse, Some ErrorResponse})"

lemma FunctionError_NewFunctionError: "FunctionError V d rid code msg = NewFunctionError V d rid code msg"
  by (simp add: FunctionError_def NewFunctionError_def)

lemma reply_to_error:
  assumes "value_laws (env_V E)" and "wf_dialect (env_d E)" and "Kind (env_V E) rid = NUMBER"
  shows "reply_to E rid (FunctionError (env_V E) (env_d E) rid code msg)"
  using value_laws.error_response_fields(1,2) [OF assms] value_laws.Long_Long [OF assms(1)]
  by (simp add: reply_to_def FunctionError_NewFunctionError)

lemma reply_to_result:
  assumes "value_laws (env_V E)" and "wf_dialect (env_d E)" and "Kind (env_V E) rid = NUMBER"
  shows "reply_to E rid (FunctionResult (env_V E) (env_d E) rid res)"
  using assms(2,3)
  by (simp add: reply_to_def FunctionResult_def MessageType_Long_def Let_def wf_fields
      value_laws.msg_simps [OF assms(1)])

lemma admit_error_reply:
  assumes "value_laws (env_V E)" and "wf_dialect (env_d E)"
    and "GetNumberField (env_V E) m (RequestIdField (env_d E)) = Some rid"
    and "admit E F ft m t = Inl resp"
  shows "reply_to E rid resp"
proof -
  have "Kind (env_V E) rid = NUMBER"
    using assms(3) by (auto simp: GetNumberField_def split: option.splits if_splits)
  then have "reply_to E rid (FunctionError (env_V E) (env_d E) rid code msg)" for code msg
    by (rule reply_to_error [OF assms(1,2)])
  then show ?thesis
    using assms(3,4) by (auto simp: admit_def Let_def split: option.splits if_splits)
qed

lemma admit_ok:
  assumes "admit E F ft m t = Inr (reqId, name, fn, args)"
    and "GetNumberField (env_V E) m (RequestIdField (env_d E)) = Some rid"
  shows "reqId = rid" and "fn_ft fn = ft" and "F name = Some fn"
    and "args = Get (env_V E) m (ArgumentsField (env_d E))" and "Verify (env_V E) args (fn_args fn)"
  using assms by (auto simp: admit_def Let_def findFunction_def split: option.splits if_splits)

lemma single_reply:
  assumes "value_laws (env_V E)" and "wf_dialect (env_d E)" and "Kind (env_V E) rid = NUMBER"
    and "fn_ft fn = singleFunction" and "fn_single fn (handler_context E m ft t) args \<noteq> Panicked"
  obtains resp where "run_handler E ft m rid name fn args t =
      (Reply resp, t\<lparr>sc_requestCancels := (sc_requestCancels t)(number_Long (env_V E) rid := None)\<rparr>)"
    and "reply_to E rid resp"
proof -
  have err: "reply_to E rid (FunctionError (env_V E) (env_d E) rid code msg)" for code msg
    by (rule reply_to_error [OF assms(1-3)])
  have "\<exists>resp. run_handler E ft m rid name fn args t =
      (Reply resp, t\<lparr>sc_requestCancels := (sc_requestCancels t)(number_Long (env_V E) rid := None)\<rparr>) \<and>
      reply_to E rid resp"
    using assms(4,5) err reply_to_result [OF assms(1-3)]
    by (cases "fn_single fn (handler_context E m ft t) args")
       (simp_all add: run_handler_def handlerError_def Let_def)
  then show ?thesis using that by blast
qed

section \<open>Properties\<close>

text \<open>
  The handler cap holds: whatever frames arrive and however the session's goroutines interleave,
  at most \<open>maxConcurrentRequests\<close> request goroutines are alive, and the in-flight counter is exactly
  their number.
\<close>

theorem handler_cap_holds:
  assumes "(session_step E F)\<^sup>*\<^sup>* (NewServingClient cid tok princ c cfg b) t"
    and "0 < sint (maxConcurrentRequests cfg)" and "sint (maxConcurrentRequests cfg) < 2 ^ 63 - 1"
  shows "int (length (sc_workers t)) \<le> sint (maxConcurrentRequests cfg) \<and>
         sint (sc_inFlight t) = int (length (sc_workers t))"
proof -
  have "cap_ok t \<and> sc_cfg t = cfg"
    using assms(1)
  proof (induction rule: rtranclp_induct)
    case base
    show ?case by (simp add: cap_ok_def capped_def NewServingClient_def)
  next
    case (step t t')
    then show ?case using cap_ok_step [OF step.hyps(2)] by simp
  qed
  then have t: "sc_inFlight t = of_nat (length (sc_workers t))" "int (length (sc_workers t)) \<le> sint (maxConcurrentRequests cfg)"
    using assms(2,3) by (auto simp: cap_ok_def capped_def)
  with assms(3) have "sint (sc_inFlight t) = int (length (sc_workers t))" by (simp add: sint_of_nat64)
  with t(2) show ?thesis by simp
qed

definition sample_cfg :: serverConfig where
  "sample_cfg = \<lparr>maxConnections = 0, maxConcurrentRequests = 2, maxConcurrentStreams = 1,
     outgoingQueueCap = 8, incomingQueueCap = 8, cfg_maxPending = 4, handshakeTimeout = 0,
     metadataExtractor = None, keepAlive = 0, writeTimeout = 0, maxFrameSize = 0\<rparr>"

definition sample_request :: "int64 \<Rightarrow> string \<Rightarrow> int64 \<Rightarrow> gval" where
  "sample_request mt name rid =
     GMap [(''t'', GLong mt), (''rid'', GLong rid), (''fn'', GUtf8 name), (''args'', GNull)]"

lemma sample_request_fields [simp]:
  "GetNumberField ref_api (sample_request mt name rid) ''t'' = Some (GLong mt)"
  "GetNumberField ref_api (sample_request mt name rid) ''rid'' = Some (GLong rid)"
  "GetStringField ref_api (sample_request mt name rid) ''fn'' = Some (GUtf8 name)"
  "Get ref_api (sample_request mt name rid) ''args'' = Some GNull"
  "number_Long ref_api (GLong n) = n" "string_String ref_api (GUtf8 w) = w"
  by (simp_all add: ref_api_def GetNumberField_def GetStringField_def sample_request_def gentries_def)

lemma dialect_fields [simp]:
  "MessageTypeField NewDialect = ''t''" "RequestIdField NewDialect = ''rid''"
  "FunctionNameField NewDialect = ''fn''" "ArgumentsField NewDialect = ''args''"
  by (simp_all add: NewDialect_def)

theorem handler_cap_holds_witness:
  "int (length (sc_workers (snd (the (processRequest sample_env True (sample_request FunctionRequest ''f'' 1)
      (NewServingClient 7 [] [] 0 sample_cfg False)))))) \<le> 2"
proof -
  let ?t0 = "NewServingClient 7 [] [] 0 sample_cfg False :: gval servingClient"
  let ?r = "processRequest sample_env True (sample_request FunctionRequest ''f'' 1) ?t0"
  have "\<exists>x. ?r = Some x"
    by (simp add: processRequest_def findPendingStream_def findServingRequest_def NewServingClient_def mt_defs)
  then obtain err t where r: "?r = Some (err, t)" by force
  have "session_step sample_env F ?t0 t" for F by (rule frame [OF r])
  then have "(session_step sample_env Map.empty)\<^sup>*\<^sup>* ?t0 t" by blast
  from handler_cap_holds [OF this] show ?thesis unfolding r by (simp add: sample_cfg_def)
qed

definition sample_functions :: "string \<rightharpoonup> gval function_def" where
  "sample_functions =
     [''f'' \<mapsto> \<lparr>fn_name = ''f'', fn_args = AnyDef, fn_res = AnyDef, fn_ft = singleFunction,
                fn_single = (\<lambda>ctx args. Returned args), fn_stream = (\<lambda>ctx args. Returned ())\<rparr>,
      ''s'' \<mapsto> \<lparr>fn_name = ''s'', fn_args = AnyDef, fn_res = AnyDef, fn_ft = outgoingStream,
                fn_single = (\<lambda>ctx args. Returned args), fn_stream = (\<lambda>ctx args. Returned ())\<rparr>]"

lemma run_worker_outgoing:
  assumes "fn_ft fn = outgoingStream" and "fn_stream fn (handler_context E m outgoingStream t) args = Returned r"
  shows "run_worker E outgoingStream m reqId name fn args t =
    t\<lparr>sc_mlog := sc_mlog t @ [RequestBegin name],
      sc_requestMap := (sc_requestMap t)(number_Long (env_V E) reqId \<mapsto>
        (NewServingRequest outgoingStream reqId)\<lparr>sr_cancel := True, sr_method := name\<rparr>),
      sc_liveStreams := sc_liveStreams t + 1, sc_inFlight := sc_inFlight t - 1,
      sc_streamers := sc_streamers t @ [number_Long (env_V E) reqId]\<rparr>"
  using assms by (simp add: run_worker_def run_handler_def newServingRequest_def finish_worker_def record_metric_def Let_def)

lemma sample_admission:
  fixes n
  defines "m \<equiv> sample_request GetStreamRequest ''s'' n"
  defines "t ws \<equiv> (NewServingClient 7 [] [] 0 sample_cfg False)\<lparr>sc_inFlight := 2, sc_workers := ws\<rparr>"
  shows "session_step sample_env sample_functions (t (ws1 @ Started outgoingStream m # ws2))
    (t (ws1 @ Admitted outgoingStream m (GLong n) ''s'' (the (sample_functions ''s'')) (Some GNull) # ws2))"
proof -
  have "start_worker sample_env sample_functions outgoingStream m (t ws) =
      (Some (Admitted outgoingStream m (GLong n) ''s'' (the (sample_functions ''s'')) (Some GNull)), t ws)" for ws
    by (simp add: m_def t_def start_worker_def admit_def findFunction_def sample_functions_def NewServingClient_def
        Verify_def Let_def)
  then show ?thesis
    using admitted [where E = sample_env and F = sample_functions and ft = outgoingStream and m = m and
        ?ws1.0 = ws1 and ?ws2.0 = ws2 and t = "t (ws1 @ Started outgoingStream m # ws2)"]
    by (simp add: t_def)
qed

text \<open>
  The stream cap does not hold. Its check and the registration of the stream are two atomic steps
  of different goroutines, so two stream requests that both pass the check before either registers
  exceed it.
\<close>

theorem stream_cap_exceeded:
  "\<exists>t. (session_step sample_env sample_functions)\<^sup>*\<^sup>* (NewServingClient 7 [] [] 0 sample_cfg False) t \<and>
       sint (sc_liveStreams t) > sint (maxConcurrentStreams sample_cfg)"
proof -
  let ?m1 = "sample_request GetStreamRequest ''s'' 1" and ?m2 = "sample_request GetStreamRequest ''s'' 2"
  let ?fn = "the (sample_functions ''s'')"
  let ?w1 = "Admitted outgoingStream ?m1 (GLong 1) ''s'' ?fn (Some GNull)"
  let ?w2 = "Admitted outgoingStream ?m2 (GLong 2) ''s'' ?fn (Some GNull)"
  let ?t0 = "NewServingClient 7 [] [] 0 sample_cfg False :: gval servingClient"
  let ?t1 = "?t0\<lparr>sc_inFlight := 1, sc_workers := [Started outgoingStream ?m1]\<rparr>"
  let ?t2 = "?t0\<lparr>sc_inFlight := 2, sc_workers := [Started outgoingStream ?m1, Started outgoingStream ?m2]\<rparr>"
  let ?step = "session_step sample_env sample_functions"
  note disp = processRequest_def findPendingStream_def findServingRequest_def serveNewRequest_def
    NewServingClient_def sample_cfg_def mt_defs Let_def
  have 1: "?step ?t0 ?t1" by (rule frame [where pick = True and m = ?m1 and err = None]) (simp add: disp)
  have 2: "?step ?t1 ?t2" by (rule frame [where pick = True and m = ?m2 and err = None]) (simp add: disp)
  have 3: "?step ?t2 (?t0\<lparr>sc_inFlight := 2, sc_workers := [?w1, Started outgoingStream ?m2]\<rparr>)"
    using sample_admission [of "[]" 1 "[Started outgoingStream ?m2]"] by simp
  have 4: "?step (?t0\<lparr>sc_inFlight := 2, sc_workers := [?w1, Started outgoingStream ?m2]\<rparr>)
      (?t0\<lparr>sc_inFlight := 2, sc_workers := [?w1, ?w2]\<rparr>)"
    using sample_admission [of "[?w1]" 2 "[]"] by simp
  define t4 where "t4 = ?t0\<lparr>sc_inFlight := 2, sc_workers := [?w1, ?w2]\<rparr>"
  define t5 where "t5 = run_worker sample_env outgoingStream ?m1 (GLong 1) ''s'' ?fn (Some GNull) (t4\<lparr>sc_workers := [?w2]\<rparr>)"
  define t6 where "t6 = run_worker sample_env outgoingStream ?m2 (GLong 2) ''s'' ?fn (Some GNull) (t5\<lparr>sc_workers := []\<rparr>)"
  have run: "run_worker sample_env outgoingStream m r ''s'' ?fn a t =
      t\<lparr>sc_mlog := sc_mlog t @ [RequestBegin ''s''],
        sc_requestMap := (sc_requestMap t)(number_Long ref_api r \<mapsto>
          (NewServingRequest outgoingStream r)\<lparr>sr_cancel := True, sr_method := ''s''\<rparr>),
        sc_liveStreams := sc_liveStreams t + 1, sc_inFlight := sc_inFlight t - 1,
        sc_streamers := sc_streamers t @ [number_Long ref_api r]\<rparr>" for m r a t
    using run_worker_outgoing [of ?fn sample_env m t a "()" r "''s''"] by (simp add: sample_functions_def)
  have "sc_workers t4 = [] @ ?w1 # [?w2]" by (simp add: t4_def)
  from handler [OF this] have 5: "?step t4 t5" by (simp add: t5_def)
  have "sc_workers t5 = [] @ ?w2 # []" by (simp add: t5_def run)
  from handler [OF this] have 6: "?step t5 t6" by (simp add: t6_def)
  have "sc_liveStreams t6 = 2" by (simp add: t6_def t5_def t4_def run NewServingClient_def)
  moreover have "?step\<^sup>*\<^sup>* ?t0 t6"
    using 1 2 3 4 [folded t4_def] 5 6 by (meson rtranclp.rtrancl_into_rtrancl rtranclp.rtrancl_refl)
  ultimately show ?thesis by (intro exI [of _ t6]) (simp add: sample_cfg_def)
qed

text \<open>The credit a stream with an inbound side grants when it is registered.\<close>

definition initial_grant :: "'v rpc_env \<Rightarrow> functionType \<Rightarrow> 'v \<Rightarrow> serverConfig \<Rightarrow> 'v list" where
  "initial_grant E ft reqId cfg =
     (if ft = incomingStream \<or> ft = chat
      then [NewStreamCredit (env_V E) (env_d E) reqId (word_of_int (cfg_maxPending cfg))] else [])"

lemma newServingRequest_registers:
  assumes "newServingRequest E ft reqId name t = (sr, t')" and "\<not> sc_done t"
  shows "sr_requestId sr = reqId" and "\<not> sr_closed sr" and "sr_code sr = CodeOK" and "sr_method sr = name"
    and "t' = t\<lparr>sc_requestMap := (sc_requestMap t)(number_Long (env_V E) reqId \<mapsto> sr), sc_liveStreams := sc_liveStreams t + 1,
      sc_mlog := sc_mlog t @ [RequestBegin name], sc_outgoingQueue := sc_outgoingQueue t @ initial_grant E ft reqId (sc_cfg t)\<rparr>"
  using assms
  by (auto simp: newServingRequest_def NewServingRequest_def setupInbound_def grantInitialInbound_def initial_grant_def
      record_metric_def send_def Let_def split: if_splits)

text \<open>
  C33. What becomes of a stream request, for every kind of stream and every outcome of its handler. A handler
  that returned leaves an open, counted request, acknowledged at once for a put stream and otherwise handed
  to a streamer goroutine. One that failed leaves no trace but its error reply: the request is retired, metered
  with its code, and its place in the stream count is free again. One that panicked leaks: the request stays
  registered, open and counted as after a success, but there is no reply, no streamer that would ever retire
  it, and no end of its metering. The handler slot is released in all three cases.
\<close>

theorem stream_handler_outcomes:
  fixes E :: "'v rpc_env" and reqId
  defines "k \<equiv> number_Long (env_V E) reqId"
  assumes "fn_ft fn = ft" and "ft \<noteq> singleFunction" and "\<not> sc_done t" and "sc_requestMap t k = None"
  shows "let t' = run_worker E ft m reqId name fn args t;
             q = sc_outgoingQueue t @ initial_grant E ft reqId (sc_cfg t);
             registered = (\<exists>sr. sc_requestMap t' = (sc_requestMap t)(k \<mapsto> sr) \<and> \<not> sr_closed sr) \<and>
               sc_liveStreams t' = sc_liveStreams t + 1 \<and> sc_mlog t' = sc_mlog t @ [RequestBegin name]
         in sc_inFlight t' = sc_inFlight t - 1 \<and>
            (case fn_stream fn (handler_context E m ft t) args of
               Returned _ \<Rightarrow> registered \<and>
                 (if ft = incomingStream
                  then sc_outgoingQueue t' = q @ [StreamReady_msg (env_V E) (env_d E) reqId] \<and> sc_streamers t' = sc_streamers t
                  else sc_outgoingQueue t' = q \<and> sc_streamers t' = sc_streamers t @ [k])
             | Failed err \<Rightarrow>
                 sc_requestMap t' = sc_requestMap t \<and> sc_liveStreams t' = sc_liveStreams t \<and>
                 sc_mlog t' = sc_mlog t @ [RequestBegin name, RequestEnd name (handlerErrCode err)] \<and>
                 sc_outgoingQueue t' = q @ [handlerError (env_V E) (env_d E) reqId (stream_place ft @ name) err] \<and>
                 sc_streamers t' = sc_streamers t
             | Panicked \<Rightarrow> registered \<and> sc_outgoingQueue t' = q \<and> sc_streamers t' = sc_streamers t)"
proof -
  obtain sr u where n: "newServingRequest E ft reqId name t = (sr, u)" by force
  note sr = newServingRequest_registers [OF n assms(4)]
  note run = run_worker_def run_handler_def finish_worker_def n assms(2,3) case_prod_beta Let_def
  show ?thesis
  proof (cases "fn_stream fn (handler_context E m ft t) args")
    case (Returned r)
    then show ?thesis using sr assms(4) by (auto simp: run send_def k_def)
  next
    case (Failed err)
    have "(sc_requestMap t)(k := None) = sc_requestMap t" using assms(5) by auto
    then show ?thesis
      using Failed sr assms(4)
      by (auto simp: run send_def k_def setCode_def closeRequest_def deleteRequest_def record_metric_def)
  next
    case Panicked
    then show ?thesis using sr by (auto simp: run k_def)
  qed
qed

theorem stream_handler_outcomes_witness:
  "let t = NewServingClient 7 [] [] 0 sample_cfg False;
       fn = (the (sample_functions ''s''))\<lparr>fn_ft := chat, fn_stream := \<lambda>ctx args. Panicked\<rparr>;
       t' = run_worker sample_env chat (sample_request ChatRequest ''s'' 1) (GLong 1) ''s'' fn None t
   in sc_requestMap t' 1 \<noteq> None \<and> sc_liveStreams t' = 1 \<and> sc_streamers t' = [] \<and>
      sc_outgoingQueue t' = [NewStreamCredit ref_api NewDialect (GLong 1) 4]"
proof -
  let ?t = "NewServingClient 7 [] [] 0 sample_cfg False :: gval servingClient"
  let ?fn = "(the (sample_functions ''s''))\<lparr>fn_ft := chat, fn_stream := \<lambda>ctx args. Panicked\<rparr>"
  have "\<not> sc_done ?t" "sc_requestMap ?t (number_Long (env_V sample_env) (GLong 1)) = None"
    by (simp_all add: NewServingClient_def)
  from stream_handler_outcomes [OF _ _ this, of ?fn chat "sample_request ChatRequest ''s'' 1" "''s''" None]
  show ?thesis by (auto simp: initial_grant_def NewServingClient_def sample_cfg_def sample_env_def Let_def)
qed

lemma reverse_call_dispatch:
  fixes loc :: string and err :: gerror
  assumes "value_laws (env_V E)" and "wf_dialect (env_d E)"
    and "CallFunction_begin E ctx name args t = (Inr k, t1)" and "sc_pendingStreams t k = None"
  defines "m \<equiv> NewHandlerError (env_V E) (env_d E) (Long (env_V E) k) loc err"
  shows "processRequest E pick m t1 =
      Some (None, completePendingCall E (Long (env_V E) k) ErrorResponse m t1)"
    and "sc_pendingCalls t1 k = Some ()"
proof -
  have kind: "Kind (env_V E) (Long (env_V E) k) = NUMBER" by (rule value_laws.Kind_Long [OF assms(1)])
  note fields = value_laws.error_response_fields [OF assms(1,2) kind]
  have t1: "sc_pendingCalls t1 k = Some ()" "sc_pendingStreams t1 k = None"
    using assms(3,4) by (auto simp: CallFunction_begin_def nextServerRequestId_def send_def Let_def split: if_splits)
  then show "processRequest E pick m t1 =
      Some (None, completePendingCall E (Long (env_V E) k) ErrorResponse m t1)"
    by (simp add: m_def processRequest_def fields NewHandlerError_def findPendingStream_def Let_def
        value_laws.Long_Long [OF assms(1)])
  show "sc_pendingCalls t1 k = Some ()" by (rule t1)
qed

text \<open>
  A call from the server to its client ends with the error the client's handler returned: the
  call is found by its id, and its code and message come back unchanged.
\<close>

theorem reverse_call_returns_error:
  assumes "value_laws (env_V E)" and "wf_dialect (env_d E)"
    and "CallFunction_begin E ctx name args t = (Inr k, t1)" and "sc_pendingStreams t k = None"
    and "processRequest E pick (NewHandlerError (env_V E) (env_d E) (Long (env_V E) k) loc err) t1 = Some (e, t2)"
  shows "e = None \<and>
    map_option fst (CallFunction_end k CallCompleted t2) =
      Some (Inl (RpcError (HandlerErrorCode err) (loc @ '': '' @ handler_error_message err)))"
proof -
  let ?V = "env_V E"
  have kind: "Kind ?V (Long ?V k) = NUMBER" by (rule value_laws.Kind_Long [OF assms(1)])
  note fields = value_laws.error_response_fields [OF assms(1,2) kind]
  show ?thesis
    using assms(5) reverse_call_dispatch [OF assms(1-4)]
    by (auto simp: completePendingCall_def CallFunction_end_def fields NewHandlerError_def Let_def
        value_laws.Long_Long [OF assms(1)] value_laws.String_Utf8 [OF assms(1)])
qed

theorem reverse_call_returns_error_witness:
  "let t = NewServingClient 7 [] [] 0 sample_cfg False;
       t1 = snd (CallFunction_begin sample_env Background ''f'' None t);
       t2 = snd (the (processRequest sample_env True
              (NewHandlerError ref_api NewDialect (GLong (- 1)) ''function f'' (RpcError CodeNotFound ''x'')) t1))
   in map_option fst (CallFunction_end (- 1) CallCompleted t2) = Some (Inl (RpcError CodeNotFound ''function f: x''))"
proof -
  let ?t = "NewServingClient 7 [] [] 0 sample_cfg False :: gval servingClient"
  let ?r = "CallFunction_begin sample_env Background ''f'' None ?t"
  let ?err = "RpcError CodeNotFound ''x''"
  let ?m = "NewHandlerError ref_api NewDialect (GLong (- 1)) ''function f'' ?err"
  have r: "?r = (Inr (- 1), snd ?r)"
    by (simp add: CallFunction_begin_def nextServerRequestId_def NewServingClient_def send_def Let_def)
  have l: "Long ref_api = GLong" by (simp add: ref_api_def)
  obtain e t2 where p: "processRequest sample_env True ?m (snd ?r) = Some (e, t2)"
    using reverse_call_dispatch(1) [where E = sample_env and pick = True and loc = "''function f''" and err = ?err, OF _ _ r]
    by (simp add: ref_value_laws wf_NewDialect NewServingClient_def l)
  have "HandlerErrorCode ?err = CodeNotFound" "handler_error_message ?err = ''x''"
    by (simp_all add: HandlerErrorCode_def handler_error_message_def code_defs)
  then show ?thesis
    using reverse_call_returns_error [where E = sample_env and loc = "''function f''" and err = ?err and e = e and ?t2.0 = t2
        and pick = True, OF _ _ r] p
    by (simp add: Let_def ref_value_laws wf_NewDialect NewServingClient_def l)
qed

end
