(* ===== verification/Server.thy ===== *)
theory Server
  imports Serving_Client Framing
begin

text \<open>
  The server (\<^verbatim>\<open>valueserver/server.go\<close>): its configuration (\<^verbatim>\<open>options.go\<close>), the functions registered
  with it (\<^verbatim>\<open>function.go\<close>), the accept loop with its connection cap and back-off, the handshake, and
  the attachment of a connection to a new or an existing session. Connections are numbers; what is
  read from one is an argument. The authorizer and the authenticator are the application's: fields
  of the server, as in the code. Durations are \<^verbatim>\<open>int64\<close> nanoseconds.
\<close>

section \<open>Configuration\<close>

definition MaxConnections :: int64 where "MaxConnections = 0"

definition MaxConcurrentRequests :: int64 where "MaxConcurrentRequests = 4096"

definition MaxConcurrentStreams :: int64 where "MaxConcurrentStreams = 0"

definition OutgoingQueueCap :: nat where "OutgoingQueueCap = 4096"

definition IncomingQueueCap :: nat where "IncomingQueueCap = 4096"

definition HandshakeTimeout :: int64 where "HandshakeTimeout = 10000000000"

definition KeepAlivePeriod :: int64 where "KeepAlivePeriod = 15000000000"

definition DefaultTimeout :: int64 where "DefaultTimeout = 10000000000"

type_synonym ServerOption = "serverConfig \<Rightarrow> serverConfig"

definition newServerConfig :: "ServerOption list \<Rightarrow> serverConfig" where
  "newServerConfig opts =
     fold (\<lambda>opt cfg. opt cfg) opts
       \<lparr>maxConnections = MaxConnections, maxConcurrentRequests = MaxConcurrentRequests,
        maxConcurrentStreams = MaxConcurrentStreams, outgoingQueueCap = OutgoingQueueCap,
        incomingQueueCap = IncomingQueueCap, cfg_maxPending = DefaultMaxPending,
        handshakeTimeout = HandshakeTimeout, metadataExtractor = None, keepAlive = KeepAlivePeriod,
        writeTimeout = DefaultTimeout, maxFrameSize = MaxFrameSize\<rparr>"

definition WithMaxConnections :: "int64 \<Rightarrow> ServerOption" where
  "WithMaxConnections n cfg = cfg\<lparr>maxConnections := n\<rparr>"

definition WithMaxConcurrentRequests :: "int64 \<Rightarrow> ServerOption" where
  "WithMaxConcurrentRequests n cfg = cfg\<lparr>maxConcurrentRequests := n\<rparr>"

definition WithMaxConcurrentStreams :: "int64 \<Rightarrow> ServerOption" where
  "WithMaxConcurrentStreams n cfg = cfg\<lparr>maxConcurrentStreams := n\<rparr>"

definition WithOutgoingQueueCap :: "nat \<Rightarrow> ServerOption" where
  "WithOutgoingQueueCap n cfg = cfg\<lparr>outgoingQueueCap := n\<rparr>"

definition WithIncomingQueueCap :: "nat \<Rightarrow> ServerOption" where
  "WithIncomingQueueCap n cfg = cfg\<lparr>incomingQueueCap := n\<rparr>"

definition WithStreamMaxPending :: "int \<Rightarrow> ServerOption" where
  "WithStreamMaxPending n cfg = cfg\<lparr>cfg_maxPending := n\<rparr>"

definition WithHandshakeTimeout :: "int64 \<Rightarrow> ServerOption" where
  "WithHandshakeTimeout n cfg = cfg\<lparr>handshakeTimeout := n\<rparr>"

definition WithMetadataExtractor :: "(call_ctx \<Rightarrow> Metadata \<Rightarrow> call_ctx) \<Rightarrow> ServerOption" where
  "WithMetadataExtractor extract cfg = cfg\<lparr>metadataExtractor := Some extract\<rparr>"

definition WithKeepAlivePeriod :: "int64 \<Rightarrow> ServerOption" where
  "WithKeepAlivePeriod n cfg = cfg\<lparr>keepAlive := n\<rparr>"

definition WithWriteTimeout :: "int64 \<Rightarrow> ServerOption" where
  "WithWriteTimeout n cfg = cfg\<lparr>writeTimeout := n\<rparr>"

definition WithMaxFrameSize :: "int \<Rightarrow> ServerOption" where
  "WithMaxFrameSize n cfg = cfg\<lparr>maxFrameSize := n\<rparr>"

section \<open>The server\<close>

type_synonym ConnectAuthorizer = "nat \<Rightarrow> gerror option"

type_synonym 'v Authenticator = "nat \<Rightarrow> 'v option \<Rightarrow> gerror + string"

record 'v rpcServer =
  srv_shutdown :: bool
  srv_ctxCancelled :: bool
  srv_listening :: bool
  srv_cfg :: serverConfig
  srv_clientMap :: "int64 \<rightharpoonup> 'v servingClient"
  srv_functionMap :: "string \<rightharpoonup> 'v function_def"
  srv_connMap :: "nat set"
  srv_liveConns :: int64
  srv_authorizer :: "ConnectAuthorizer option"
  srv_authenticator :: "'v Authenticator option"
  srv_closeOnce :: bool
  srv_closedConns :: "nat list"
  srv_backoff :: int64

definition NewServerWithListener :: "ServerOption list \<Rightarrow> 'v rpcServer" where
  "NewServerWithListener opts =
     \<lparr>srv_shutdown = False, srv_ctxCancelled = False, srv_listening = True, srv_cfg = newServerConfig opts,
      srv_clientMap = Map.empty, srv_functionMap = Map.empty, srv_connMap = {}, srv_liveConns = 0,
      srv_authorizer = None, srv_authenticator = None, srv_closeOnce = False, srv_closedConns = [],
      srv_backoff = 0\<rparr>"

definition SetConnectAuthorizer :: "ConnectAuthorizer option \<Rightarrow> 'v rpcServer \<Rightarrow> 'v rpcServer" where
  "SetConnectAuthorizer fn t = t\<lparr>srv_authorizer := fn\<rparr>"

definition getConnectAuthorizer :: "'v rpcServer \<Rightarrow> ConnectAuthorizer option" where
  "getConnectAuthorizer t = srv_authorizer t"

definition SetAuthenticator :: "'v Authenticator option \<Rightarrow> 'v rpcServer \<Rightarrow> 'v rpcServer" where
  "SetAuthenticator fn t = t\<lparr>srv_authenticator := fn\<rparr>"

definition getAuthenticator :: "'v rpcServer \<Rightarrow> 'v Authenticator option" where
  "getAuthenticator t = srv_authenticator t"

definition Close_server :: "'v rpcServer \<Rightarrow> 'v rpcServer" where
  "Close_server t =
     (if srv_closeOnce t then t
      else t\<lparr>srv_closeOnce := True, srv_ctxCancelled := True, srv_shutdown := True, srv_listening := False,
             srv_closedConns := srv_closedConns t @ sorted_list_of_set (srv_connMap t),
             srv_clientMap := map_option Close_client \<circ> srv_clientMap t\<rparr>)"

section \<open>Registration\<close>

definition hasFunction :: "string \<Rightarrow> 'v rpcServer \<Rightarrow> bool" where
  "hasFunction name t = (srv_functionMap t name \<noteq> None)"

text \<open>A callback the registration leaves nil panics when it is called.\<close>

definition AddFunction ::
    "string \<Rightarrow> TypeDef \<Rightarrow> TypeDef \<Rightarrow> (call_ctx \<Rightarrow> 'v option \<Rightarrow> 'v option outcome) \<Rightarrow> 'v rpcServer \<Rightarrow>
     gerror option \<times> 'v rpcServer" where
  "AddFunction name args res cb t =
     (if hasFunction name t then (Some ErrFunctionAlreadyExist, t)
      else (None, t\<lparr>srv_functionMap := (srv_functionMap t)(name \<mapsto>
              \<lparr>fn_name = name, fn_args = args, fn_res = res, fn_ft = singleFunction,
               fn_single = cb, fn_stream = (\<lambda>_ _. Panicked)\<rparr>)\<rparr>))"

definition AddOutgoingStream ::
    "string \<Rightarrow> TypeDef \<Rightarrow> (call_ctx \<Rightarrow> 'v option \<Rightarrow> unit outcome) \<Rightarrow> 'v rpcServer \<Rightarrow>
     gerror option \<times> 'v rpcServer" where
  "AddOutgoingStream name args cb t =
     (if hasFunction name t then (Some ErrFunctionAlreadyExist, t)
      else (None, t\<lparr>srv_functionMap := (srv_functionMap t)(name \<mapsto>
              \<lparr>fn_name = name, fn_args = args, fn_res = VoidDef, fn_ft = outgoingStream,
               fn_single = (\<lambda>_ _. Panicked), fn_stream = cb\<rparr>)\<rparr>))"

definition AddIncomingStream ::
    "string \<Rightarrow> TypeDef \<Rightarrow> (call_ctx \<Rightarrow> 'v option \<Rightarrow> unit outcome) \<Rightarrow> 'v rpcServer \<Rightarrow>
     gerror option \<times> 'v rpcServer" where
  "AddIncomingStream name args cb t =
     (if hasFunction name t then (Some ErrFunctionAlreadyExist, t)
      else (None, t\<lparr>srv_functionMap := (srv_functionMap t)(name \<mapsto>
              \<lparr>fn_name = name, fn_args = args, fn_res = VoidDef, fn_ft = incomingStream,
               fn_single = (\<lambda>_ _. Panicked), fn_stream = cb\<rparr>)\<rparr>))"

definition AddChat ::
    "string \<Rightarrow> TypeDef \<Rightarrow> (call_ctx \<Rightarrow> 'v option \<Rightarrow> unit outcome) \<Rightarrow> 'v rpcServer \<Rightarrow>
     gerror option \<times> 'v rpcServer" where
  "AddChat name args cb t =
     (if hasFunction name t then (Some ErrFunctionAlreadyExist, t)
      else (None, t\<lparr>srv_functionMap := (srv_functionMap t)(name \<mapsto>
              \<lparr>fn_name = name, fn_args = args, fn_res = VoidDef, fn_ft = chat,
               fn_single = (\<lambda>_ _. Panicked), fn_stream = cb\<rparr>)\<rparr>))"

section \<open>The accept loop\<close>

text \<open>What \<^verbatim>\<open>Accept\<close> returns; a turn of \<^verbatim>\<open>Run\<close> ends the loop with \<^term>\<open>None\<close>.\<close>

datatype accept_event = AcceptError | Accepted nat

definition Run_step :: "accept_event \<Rightarrow> 'v rpcServer \<Rightarrow> 'v rpcServer option" where
  "Run_step ev t =
     (case ev of
        AcceptError \<Rightarrow>
          if srv_shutdown t then None
          else (let backoff = (if srv_backoff t = 0 then 5000000 else srv_backoff t * 2);
                    backoff = (if sint backoff > 1000000000 then 1000000000 else backoff)
                in Some (t\<lparr>srv_backoff := backoff\<rparr>))
      | Accepted c \<Rightarrow>
          (let t = t\<lparr>srv_backoff := 0\<rparr>;
               mx = maxConnections (srv_cfg t)
           in if sint mx > 0 \<and> sint (srv_liveConns t) \<ge> sint mx then
                Some (t\<lparr>srv_closedConns := srv_closedConns t @ [c]\<rparr>)
              else if srv_shutdown t then
                Some (t\<lparr>srv_closedConns := srv_closedConns t @ [c]\<rparr>)
              else Some (t\<lparr>srv_liveConns := srv_liveConns t + 1, srv_connMap := insert c (srv_connMap t)\<rparr>)))"

text \<open>The deferred calls of a connection's goroutine (\<^verbatim>\<open>handleConnection\<close> closes the connection).\<close>

definition connection_done :: "nat \<Rightarrow> 'v rpcServer \<Rightarrow> 'v rpcServer" where
  "connection_done c t =
     t\<lparr>srv_closedConns := srv_closedConns t @ [c], srv_connMap := srv_connMap t - {c},
       srv_liveConns := srv_liveConns t - 1\<rparr>"

section \<open>Sessions\<close>

definition resume ::
    "int64 \<Rightarrow> string \<Rightarrow> string \<Rightarrow> nat \<Rightarrow> 'v servingClient \<Rightarrow> gerror + 'v servingClient" where
  "resume cid presented princ c existing =
     (if sc_principal existing \<noteq> princ then
        Inl (PlainError (''handshake rejected: principal mismatch for client '' @ show_int (sint cid)))
      else (case authorizeResume presented existing of
              (Some err, _) \<Rightarrow> Inl err
            | (None, existing) \<Rightarrow> Inr (replaceConn c existing)))"

text \<open>
  The argument \<open>between\<close> is what other connections do to the server between the first lookup of the
  client id and the atomic load-or-store.
\<close>

definition createOrUpdateServingClient ::
    "('v rpcServer \<Rightarrow> 'v rpcServer) \<Rightarrow> int64 \<Rightarrow> string \<Rightarrow> string \<Rightarrow> nat \<Rightarrow> 'v rpcServer \<Rightarrow>
     (gerror + 'v servingClient) \<times> 'v rpcServer" where
  "createOrUpdateServingClient between cid presented princ c t =
     (let attach = (\<lambda>existing t.
            case resume cid presented princ c existing of
              Inl err \<Rightarrow> (Inl err, t)
            | Inr cli \<Rightarrow> (Inr cli, t\<lparr>srv_clientMap := (srv_clientMap t)(cid \<mapsto> cli)\<rparr>))
      in case srv_clientMap t cid of
           Some existing \<Rightarrow> attach existing t
         | None \<Rightarrow>
             (let client = NewServingClient cid presented princ c (srv_cfg t) (srv_ctxCancelled t);
                  t = between t
              in case srv_clientMap t cid of
                   Some existing \<Rightarrow>
                     (let t = t\<lparr>srv_closedConns := srv_closedConns t @ sc_closedConns (Close_client client)\<rparr>
                      in attach existing t)
                 | None \<Rightarrow> (Inr client, t\<lparr>srv_clientMap := (srv_clientMap t)(cid \<mapsto> client)\<rparr>)))"

text \<open>
  \<open>read\<close> is what the first read yields, \<open>write_err\<close> the outcome of writing the response; a
  handshake that succeeds writes that response and yields the session.
\<close>

definition handshake ::
    "'v rpc_env \<Rightarrow> ('v rpcServer \<Rightarrow> 'v rpcServer) \<Rightarrow> nat \<Rightarrow> gerror + 'v \<Rightarrow> gerror option \<Rightarrow> 'v rpcServer \<Rightarrow>
     (gerror + 'v servingClient) \<times> 'v rpcServer" where
  "handshake E between c read write_err t =
     (let V = env_V E; d = env_d E
      in case read of
           Inl err \<Rightarrow> (Inl err, t)
         | Inr m \<Rightarrow>
             (case GetNumberField V m (MessageTypeField d) of
                None \<Rightarrow> (Inl (PlainError (''on handshake, empty message type'' @ reqDetail E m)), t)
              | Some mt \<Rightarrow>
                  if number_Long V mt \<noteq> HandshakeRequest then
                    (Inl (PlainError (''on handshake, wrong message type'' @ reqDetail E m)), t)
                  else if \<not> ValidMagicAndVersion V d m then
                    (Inl (PlainError (''on handshake, unsupported client version'' @ reqDetail E m)), t)
                  else
                    (case (case getAuthenticator t of
                             None \<Rightarrow> Inr []
                           | Some authn \<Rightarrow> authn c (Get V m (AuthField d))) of
                       Inl err \<Rightarrow>
                         (Inl (PlainError (''on handshake, authentication failed: '' @ Error_text err)), t)
                     | Inr princ \<Rightarrow>
                         (case GetNumberField V m (ClientIdField d) of
                            None \<Rightarrow> (Inl (PlainError (''on handshake, no client id'' @ reqDetail E m)), t)
                          | Some cid \<Rightarrow>
                              (let presented = (case GetStringField V m (SessionTokenField d) of
                                                  Some tok \<Rightarrow> string_String V tok | None \<Rightarrow> [])
                               in case createOrUpdateServingClient between (number_Long V cid) presented princ c t of
                                    (Inl err, t) \<Rightarrow> (Inl err, t)
                                  | (Inr cli, t) \<Rightarrow>
                                      (case write_err of
                                         Some err \<Rightarrow> (Inl (PlainError (''on handshake, '' @ Error_text err)), t)
                                       | None \<Rightarrow> (Inr cli, t)))))))"

text \<open>
  The read loop on what the connection yields: messages until an error, \<^verbatim>\<open>EOF\<close> being a clean end. A
  message is processed by the session as it is in the server's map at that time.
\<close>

fun read_loop ::
    "'v rpc_env \<Rightarrow> int64 \<Rightarrow> bool \<Rightarrow> (gerror + 'v) list \<Rightarrow> 'v rpcServer \<Rightarrow> (gerror option \<times> 'v rpcServer) option" where
  "read_loop E cid pick [] t = None"
| "read_loop E cid pick (Inl err # reads) t = Some (if err = io_EOF then None else Some err, t)"
| "read_loop E cid pick (Inr m # reads) t =
     (case srv_clientMap t cid of
        None \<Rightarrow> None
      | Some cli \<Rightarrow>
          (case processRequest E pick m cli of
             None \<Rightarrow> None
           | Some (_, cli) \<Rightarrow>
               read_loop E cid pick reads (t\<lparr>srv_clientMap := (srv_clientMap t)(cid \<mapsto> cli)\<rparr>)))"

definition handleConnection ::
    "'v rpc_env \<Rightarrow> ('v rpcServer \<Rightarrow> 'v rpcServer) \<Rightarrow> nat \<Rightarrow> (gerror + 'v) list \<Rightarrow> gerror option \<Rightarrow> bool \<Rightarrow>
     'v rpcServer \<Rightarrow> (gerror option \<times> 'v rpcServer) option" where
  "handleConnection E between c reads write_err pick t =
     (case (case getConnectAuthorizer t of None \<Rightarrow> None | Some authz \<Rightarrow> authz c) of
        Some err \<Rightarrow> Some (Some (PlainError (''connection rejected by authorizer: '' @ Error_text err)), t)
      | None \<Rightarrow>
          (case reads of
             [] \<Rightarrow> None
           | rd # reads \<Rightarrow>
               (case handshake E between c rd write_err t of
                  (Inl err, t) \<Rightarrow> Some (Some err, t)
                | (Inr cli, t) \<Rightarrow> read_loop E (sc_clientId cli) pick reads t)))"

section \<open>The running server\<close>

text \<open>
  The accept loop, the goroutines of the connections (handshake, read loop, end) and of the sessions,
  and the application closing the server. Anything the server can do may happen between the lookup of a
  handshake and its load-or-store, other handshakes for the same client included.
\<close>

inductive server_step :: "'v rpc_env \<Rightarrow> 'v rpcServer \<Rightarrow> 'v rpcServer \<Rightarrow> bool" for E where
  accept: "c \<notin> srv_connMap t \<Longrightarrow> Run_step (Accepted c) t = Some t' \<Longrightarrow> server_step E t t'"
| accept_error: "Run_step AcceptError t = Some t' \<Longrightarrow> server_step E t t'"
| shake: "c \<in> srv_connMap t \<Longrightarrow> (server_step E)\<^sup>*\<^sup>* t (between t) \<Longrightarrow>
    handshake E between c rd write_err t = (res, t') \<Longrightarrow> server_step E t t'"
| session: "srv_clientMap t cid = Some cli \<Longrightarrow> session_step E (srv_functionMap t) cli cli' \<Longrightarrow>
    server_step E t (t\<lparr>srv_clientMap := (srv_clientMap t)(cid \<mapsto> cli')\<rparr>)"
| conn_done: "c \<in> srv_connMap t \<Longrightarrow> server_step E t (connection_done c t)"
| close_server: "server_step E t (Close_server t)"

section \<open>Sessions are resumed by their owner\<close>

lemma resume_Inr:
  assumes "resume cid presented princ c existing = Inr cli"
  shows "sc_principal existing = princ"
    and "VerifyHashStep presented (sc_resumeToken existing) DefaultResyncWindow \<noteq> None \<or>
         SameToken presented (sc_resumeToken existing)"
    and "slots cli = slots existing"
  using assms slots_connection(2) [of presented existing None _ c]
  by (auto simp: resume_def authorizeResume_def split: if_splits option.splits prod.splits)

text \<open>
  The state a handshake acts on is the one it found, or the one the other goroutines left (with the
  connections of its own discarded session closed).
\<close>

definition found_in :: "('v rpcServer \<Rightarrow> 'v rpcServer) \<Rightarrow> 'v rpcServer \<Rightarrow> 'v rpcServer \<Rightarrow> bool" where
  "found_in between t u \<longleftrightarrow> u = t \<or> (\<exists>cs. u = (between t)\<lparr>srv_closedConns := cs\<rparr>)"

lemma create_cases:
  fixes t :: "'v rpcServer"
  assumes "createOrUpdateServingClient between cid presented princ c t = (res, t')"
  obtains (rejected) err where "res = Inl err" "found_in between t t'"
  | (resumed) u existing cli where "res = Inr cli" "found_in between t u" "srv_clientMap u cid = Some existing"
      "resume cid presented princ c existing = Inr cli"
      "t' = u\<lparr>srv_clientMap := (srv_clientMap u)(cid \<mapsto> cli)\<rparr>"
  | (created) cli where "res = Inr cli" "srv_clientMap (between t) cid = None"
      "cli = NewServingClient cid presented princ c (srv_cfg t) (srv_ctxCancelled t)"
      "t' = (between t)\<lparr>srv_clientMap := (srv_clientMap (between t))(cid \<mapsto> cli)\<rparr>"
proof -
  let ?new = "NewServingClient cid presented princ c (srv_cfg t) (srv_ctxCancelled t) :: 'v servingClient"
  let ?u = "(between t)\<lparr>srv_closedConns := srv_closedConns (between t) @ sc_closedConns (Close_client ?new)\<rparr>"
  have att: ?thesis if "found_in between t u" "srv_clientMap u cid = Some existing"
    "(res, t') = (case resume cid presented princ c existing of
        Inl err \<Rightarrow> (Inl err, u) | Inr cli \<Rightarrow> (Inr cli, u\<lparr>srv_clientMap := (srv_clientMap u)(cid \<mapsto> cli)\<rparr>))"
    for u existing
    using that rejected resumed by (cases "resume cid presented princ c existing") auto
  have found: "found_in between t t" "found_in between t ?u" by (auto simp: found_in_def)
  note create = assms [unfolded createOrUpdateServingClient_def Let_def]
  show ?thesis
  proof (cases "srv_clientMap t cid")
    case (Some existing)
    show ?thesis by (rule att [OF found(1) Some]) (use create Some in simp)
  next
    case None
    note load = None
    show ?thesis
    proof (cases "srv_clientMap (between t) cid")
      case None
      show ?thesis by (rule created [OF _ None refl]) (use create load None in auto)
    next
      case (Some existing)
      show ?thesis by (rule att [OF found(2), of existing]) (use create load Some in simp_all)
    qed
  qed
qed

text \<open>The messages a handshake goes on with, and what it passes on.\<close>

lemma handshake_cases:
  assumes "handshake E between c rd write_err t = (res, t')"
  obtains (rejected) err where "res = Inl err" "t' = t"
  | (attached) m cid princ r where "rd = Inr m" "GetNumberField (env_V E) m (ClientIdField (env_d E)) = Some cid"
      "(case getAuthenticator t of None \<Rightarrow> Inr [] | Some authn \<Rightarrow> authn c (Get (env_V E) m (AuthField (env_d E)))) = Inr princ"
      "createOrUpdateServingClient between (number_Long (env_V E) cid)
         (case GetStringField (env_V E) m (SessionTokenField (env_d E)) of
            Some tok \<Rightarrow> string_String (env_V E) tok | None \<Rightarrow> []) princ c t = (r, t')"
      "res = r \<or> write_err \<noteq> None \<and> (\<exists>err. res = Inl err)"
proof (cases rd)
  case (Inl err)
  then show ?thesis using assms rejected [of err] by (simp add: handshake_def)
next
  case (Inr m)
  let ?auth = "case getAuthenticator t of None \<Rightarrow> Inr [] | Some authn \<Rightarrow> authn c (Get (env_V E) m (AuthField (env_d E)))"
  show ?thesis
  proof (cases "\<exists>princ cid. ?auth = Inr princ \<and> GetNumberField (env_V E) m (ClientIdField (env_d E)) = Some cid")
    case False
    then show ?thesis
      using assms rejected Inr
      by (auto simp: handshake_def Let_def split: option.splits if_splits sum.splits)
  next
    case True
    then obtain princ cid where p: "?auth = Inr princ" "GetNumberField (env_V E) m (ClientIdField (env_d E)) = Some cid"
      by blast
    show ?thesis
      using assms rejected attached [OF Inr p(2,1)] Inr p
      by (auto simp: handshake_def Let_def split: option.splits if_splits sum.splits prod.splits)
  qed
qed


text \<open>The handshake of this library's own client reaches the session table.\<close>

lemma own_handshake:
  assumes "value_laws (env_V E)" and "wf_dialect (env_d E)" and "getAuthenticator t = None"
  shows "handshake E between c (Inr (NewHandshakeRequest (env_V E) (env_d E) cid tok)) None t =
    createOrUpdateServingClient between cid tok [] c t"
proof -
  note laws = value_laws.value_simps [OF assms(1)]
    and fields = value_laws.handshake_request_fields [OF assms(1,2)]
  show ?thesis
    using value_laws.valid_own_handshake [OF assms(1,2)] assms(3)
    by (auto simp: handshake_def Let_def GetNumberField_def GetStringField_def fields laws
        split: prod.splits sum.splits)
qed

lemma resume_same_token:
  assumes "sc_principal existing = princ" and "SameToken tok (sc_resumeToken existing)"
  shows "\<exists>cli. resume cid tok princ c existing = Inr cli"
  using assms by (auto simp: resume_def authorizeResume_def split: option.splits)

section \<open>The limits of the server\<close>

text \<open>
  What the limits depend on of the server: the counter of connections is their number (as a 64-bit number),
  a positive maximum is respected, and every session respects its own limit.
\<close>

definition limits_ok :: "serverConfig \<Rightarrow> 'v rpcServer \<Rightarrow> bool" where
  "limits_ok cfg t \<longleftrightarrow> srv_cfg t = cfg \<and> finite (srv_connMap t) \<and>
     srv_liveConns t = of_nat (card (srv_connMap t)) \<and>
     (0 < sint (maxConnections cfg) \<longrightarrow> int (card (srv_connMap t)) \<le> sint (maxConnections cfg)) \<and>
     (\<forall>cid cli. srv_clientMap t cid = Some cli \<longrightarrow> cap_ok cli \<and> sc_cfg cli = cfg)"

lemma limits_ok_attach:
  assumes "limits_ok cfg t" and "cap_ok cli" and "sc_cfg cli = cfg"
  shows "limits_ok cfg (t\<lparr>srv_clientMap := (srv_clientMap t)(cid \<mapsto> cli)\<rparr>)"
  using assms by (simp add: limits_ok_def)

lemma limits_ok_found:
  assumes "found_in between t u" and "limits_ok cfg t" and "limits_ok cfg (between t)"
  shows "limits_ok cfg u"
  using assms by (auto simp: found_in_def limits_ok_def)

lemma limits_ok_Run_step:
  assumes "limits_ok cfg t" and "Run_step ev t = Some t'"
    and "\<And>c. ev = Accepted c \<Longrightarrow> c \<notin> srv_connMap t"
  shows "limits_ok cfg t'"
proof (cases ev)
  case AcceptError
  then show ?thesis using assms(1,2) by (auto simp: Run_step_def limits_ok_def Let_def split: if_splits)
next
  case (Accepted c)
  let ?n = "card (srv_connMap t)" and ?mx = "sint (maxConnections cfg)"
  have "int (Suc ?n) \<le> ?mx" if "0 < ?mx" "\<not> ?mx \<le> sint (srv_liveConns t)"
  proof -
    have "int ?n \<le> ?mx" "?mx < 2 ^ 63" using assms(1) that(1) sint_lt [of "maxConnections cfg"] by (auto simp: limits_ok_def)
    then have "sint (srv_liveConns t) = int ?n" using assms(1) by (auto simp: limits_ok_def intro!: sint_of_nat64)
    with that(2) show ?thesis by simp
  qed
  then show ?thesis
    using assms Accepted by (auto simp: Run_step_def limits_ok_def Let_def add.commute split: if_splits)
qed

lemma limits_ok_connection_done:
  assumes "limits_ok cfg t" and "c \<in> srv_connMap t"
  shows "limits_ok cfg (connection_done c t)"
proof -
  have "0 < card (srv_connMap t)" using assms by (auto simp: limits_ok_def card_gt_0_iff)
  then obtain n where n: "card (srv_connMap t) = Suc n" using gr0_conv_Suc by blast
  then show ?thesis using assms by (auto simp: limits_ok_def connection_done_def)
qed

lemma limits_ok_handshake:
  assumes "limits_ok cfg t" and "limits_ok cfg (between t)"
    and "handshake E between c rd write_err t = (res, t')"
  shows "limits_ok cfg t'"
  using assms(3)
proof (cases rule: handshake_cases)
  case (rejected err)
  then show ?thesis using assms(1) by simp
next
  case (attached m cid princ r)
  from attached(4) show ?thesis
  proof (cases rule: create_cases)
    case (rejected err)
    then show ?thesis using limits_ok_found assms(1,2) by blast
  next
    case (resumed u existing cli)
    have u: "limits_ok cfg u" by (rule limits_ok_found [OF resumed(2) assms(1,2)])
    then have "cap_ok existing" "sc_cfg existing = cfg" using resumed(3) by (auto simp: limits_ok_def)
    moreover note resume_Inr(3) [OF resumed(4)]
    ultimately have "cap_ok cli" "sc_cfg cli = cfg" using cap_ok_slots [of cli existing] by (auto simp: slots_def)
    then show ?thesis using limits_ok_attach [OF u] resumed(5) by simp
  next
    case (created cli)
    have "cap_ok cli" "sc_cfg cli = cfg"
      using created(3) assms(1) by (simp_all add: cap_ok_def capped_def NewServingClient_def limits_ok_def)
    then show ?thesis using limits_ok_attach [OF assms(2)] created(4) by simp
  qed
qed

lemma limits_ok_Close: "limits_ok cfg t \<Longrightarrow> limits_ok cfg (Close_server t)"
proof -
  have "cap_ok (Close_client cli) \<and> sc_cfg (Close_client cli) = cfg" if "cap_ok cli" "sc_cfg cli = cfg"
    for cli :: "'a servingClient"
    using that cap_ok_slots [OF slots_Close that(1)] slots_Close [of cli] by (simp add: slots_def)
  then show "limits_ok cfg t \<Longrightarrow> limits_ok cfg (Close_server t)"
    by (auto simp: limits_ok_def Close_server_def)
qed

text \<open>What every step keeps, the steps nested in a handshake keep together.\<close>

lemma nested_run_keeps: "(\<lambda>x y. R x y \<and> (I x \<longrightarrow> I y))\<^sup>*\<^sup>* a b \<Longrightarrow> I a \<Longrightarrow> I b"
  by (induction rule: rtranclp_induct) auto

lemma limits_ok_step: "server_step E t t' \<Longrightarrow> limits_ok cfg t \<longrightarrow> limits_ok cfg t'"
proof (induction rule: server_step.induct)
  case (accept c t t')
  then show ?case using limits_ok_Run_step by blast
next
  case (accept_error t t')
  then show ?case using limits_ok_Run_step by blast
next
  case (shake c t between rd write_err res t')
  have "limits_ok cfg t \<Longrightarrow> limits_ok cfg (between t)" by (rule nested_run_keeps [OF shake.IH])
  then show ?case using limits_ok_handshake [OF _ _ shake.hyps(2)] by blast
next
  case (session t cid cli cli')
  have "cap_ok cli' \<and> sc_cfg cli' = cfg" if "limits_ok cfg t"
    using cap_ok_step [OF session(2)] that session(1) by (auto simp: limits_ok_def)
  then show ?case using limits_ok_attach by blast
next
  case (conn_done c t)
  then show ?case using limits_ok_connection_done by blast
next
  case (close_server t)
  show ?case using limits_ok_Close by blast
qed

section \<open>Properties\<close>


lemma sample_config:
  "newServerConfig [WithMaxConnections 2] =
     \<lparr>maxConnections = 2, maxConcurrentRequests = 4096, maxConcurrentStreams = 0, outgoingQueueCap = 4096,
      incomingQueueCap = 4096, cfg_maxPending = DefaultMaxPending, handshakeTimeout = 10000000000,
      metadataExtractor = None, keepAlive = 15000000000, writeTimeout = 10000000000, maxFrameSize = MaxFrameSize\<rparr>"
  by (simp add: newServerConfig_def WithMaxConnections_def MaxConcurrentRequests_def MaxConcurrentStreams_def
      OutgoingQueueCap_def IncomingQueueCap_def HandshakeTimeout_def KeepAlivePeriod_def DefaultTimeout_def)


lemma admit_name:
  assumes "admit E F ft m t = Inr (reqId, name, fn, args)"
  shows "request_name E m = name"
  using assms by (auto simp: admit_def request_name_def Let_def split: option.splits if_splits)

text \<open>
  C32. A unary request gets exactly one reply: unless the session is closed, or the function it names is a
  unary one whose handler panics, serving it appends one message to the outgoing queue, of a response type
  and with the request's id, whatever check fails or succeeds; and it releases its handler slot. The other
  functions of the server, streams included, may be anything.
\<close>

theorem unary_gets_one_reply:
  assumes "value_laws (env_V E)" and "wf_dialect (env_d E)"
    and "GetNumberField (env_V E) m (RequestIdField (env_d E)) = Some rid" and "\<not> sc_done t"
    and "\<And>fn ctx args. F (request_name E m) = Some fn \<Longrightarrow> fn_ft fn = singleFunction \<Longrightarrow> fn_single fn ctx args \<noteq> Panicked"
  shows "\<exists>resp. sc_outgoingQueue (serveFunctionRequest E F singleFunction m t) = sc_outgoingQueue t @ [resp] \<and>
           reply_to E rid resp \<and>
           sc_inFlight (serveFunctionRequest E F singleFunction m t) = sc_inFlight t - 1"
proof -
  let ?t = "record_metric (RequestBegin (request_name E m)) t"
  have kind: "Kind (env_V E) rid = NUMBER"
    using assms(3) by (auto simp: GetNumberField_def split: option.splits if_splits)
  show ?thesis
  proof (cases "admit E F singleFunction m ?t")
    case (Inl resp)
    then show ?thesis
      using admit_error_reply [OF assms(1-3) Inl] assms(4)
      by (simp add: serveFunctionRequest_def start_worker_def Let_def finish_worker_def send_def record_metric_def)
  next
    case (Inr q)
    obtain reqId name fn args where q: "q = (reqId, name, fn, args)" by (cases q)
    note ok = admit_ok [OF Inr [unfolded q] assms(3)]
    let ?u = "?t\<lparr>sc_requestCancels := (sc_requestCancels ?t)(number_Long (env_V E) rid \<mapsto> False)\<rparr>"
    obtain resp where run: "run_handler E singleFunction m rid name fn args ?u =
        (Reply resp, ?u\<lparr>sc_requestCancels := (sc_requestCancels ?u)(number_Long (env_V E) rid := None)\<rparr>)"
      and to: "reply_to E rid resp"
      using single_reply [OF assms(1,2) kind ok(2), of m singleFunction ?u args name] assms(5) ok(2,3)
      by (auto simp: admit_name [OF Inr [unfolded q]])
    show ?thesis
      using Inr q ok run to assms(4)
      by (simp add: serveFunctionRequest_def start_worker_def run_worker_def Let_def finish_worker_def
          send_def record_metric_def)
  qed
qed

text \<open>A server with a unary and a stream function, each registered with its own method.\<close>

definition registered_functions :: "string \<rightharpoonup> gval function_def" where
  "registered_functions =
     srv_functionMap (snd (AddOutgoingStream ''s'' AnyDef (\<lambda>ctx args. Returned ())
       (snd (AddFunction ''f'' AnyDef AnyDef (\<lambda>ctx args. Returned args) (NewServerWithListener [])))))"

theorem unary_gets_one_reply_witness:
  "\<exists>resp resp'. sc_outgoingQueue (serveFunctionRequest sample_env registered_functions singleFunction
        (sample_request FunctionRequest ''f'' 1) (NewServingClient 7 [] [] 0 sample_cfg False)) = [resp] \<and>
     reply_to sample_env (GLong 1) resp \<and>
     sc_outgoingQueue (serveFunctionRequest sample_env registered_functions singleFunction
        (sample_request FunctionRequest ''s'' 2) (NewServingClient 7 [] [] 0 sample_cfg False)) = [resp'] \<and>
     reply_to sample_env (GLong 2) resp'"
proof -
  let ?t = "NewServingClient 7 [] [] 0 sample_cfg False :: gval servingClient"
  have laws: "value_laws (env_V sample_env)" "wf_dialect (env_d sample_env)"
    by (simp_all add: sample_env_def ref_value_laws wf_NewDialect)
  have t: "\<not> sc_done ?t" "sc_outgoingQueue ?t = []" by (simp_all add: NewServingClient_def)
  have ok: "fn_single fn ctx args \<noteq> Panicked" if "registered_functions name = Some fn" "fn_ft fn = singleFunction"
    for name fn ctx args
    using that by (auto simp: registered_functions_def AddOutgoingStream_def AddFunction_def hasFunction_def
        NewServerWithListener_def split: if_splits)
  have id: "GetNumberField (env_V sample_env) (sample_request FunctionRequest nm k) (RequestIdField (env_d sample_env)) =
      Some (GLong k)" for nm k
    by simp
  have "\<exists>resp. sc_outgoingQueue (serveFunctionRequest sample_env registered_functions singleFunction
        (sample_request FunctionRequest nm k) ?t) = [resp] \<and> reply_to sample_env (GLong k) resp" for nm k
    using unary_gets_one_reply [where F = registered_functions, OF laws id t(1), of nm k] ok t(2) by auto
  from this [of "''f''" 1] this [of "''s''" 2] show ?thesis by blast
qed

text \<open>
  C9. A session is resumed only by its owner: a handshake that is attached to an existing session
  was authenticated as that session's principal, and it presented a token that hashes forward to the
  last accepted link, or that link itself. This holds even when another connection created the
  session while the handshake was running.
\<close>

theorem resume_needs_principal_and_link:
  assumes "handshake E between c (Inr m) write_err t = (Inr cli, t')"
    and "GetNumberField (env_V E) m (ClientIdField (env_d E)) = Some cid"
    and "srv_clientMap t (number_Long (env_V E) cid) = Some existing \<or>
         srv_clientMap t (number_Long (env_V E) cid) = None \<and>
           srv_clientMap (between t) (number_Long (env_V E) cid) = Some existing"
  shows "\<exists>tok. (case GetStringField (env_V E) m (SessionTokenField (env_d E)) of
              Some s \<Rightarrow> string_String (env_V E) s | None \<Rightarrow> []) = tok \<and>
      (VerifyHashStep tok (sc_resumeToken existing) DefaultResyncWindow \<noteq> None \<or>
       SameToken tok (sc_resumeToken existing)) \<and>
      (case getAuthenticator t of None \<Rightarrow> Inr [] | Some authn \<Rightarrow> authn c (Get (env_V E) m (AuthField (env_d E)))) =
        Inr (sc_principal existing)"
  using assms(1)
proof (cases rule: handshake_cases)
  case (attached m' cid' princ r)
  then have "m' = m" "cid' = cid" "r = Inr cli" using assms(2) by auto
  note create = attached(4) [unfolded this]
  have "resume (number_Long (env_V E) cid)
      (case GetStringField (env_V E) m (SessionTokenField (env_d E)) of
         Some s \<Rightarrow> string_String (env_V E) s | None \<Rightarrow> []) princ c existing = Inr cli"
    using create assms(3)
    by (auto simp: createOrUpdateServingClient_def Let_def split: sum.splits)
  from resume_Inr(1,2) [OF this] show ?thesis using attached(3) \<open>m' = m\<close> by auto
qed simp

theorem resume_needs_principal_and_link_witness:
  "let tok = replicate 64 (CHR ''a'');
       t = (NewServerWithListener [])\<lparr>srv_clientMap := [7 \<mapsto> NewServingClient 7 tok [] 0 sample_cfg False]\<rparr>
   in \<exists>cli t'. handshake sample_env (\<lambda>t. t) 5 (Inr (NewHandshakeRequest ref_api NewDialect 7 tok)) None t = (Inr cli, t') \<and>
        (VerifyHashStep tok tok DefaultResyncWindow \<noteq> None \<or> SameToken tok tok)"
proof -
  define tok where "tok = replicate 64 (CHR ''a'')"
  define old :: "gval servingClient" where "old = NewServingClient 7 tok [] 0 sample_cfg False"
  define t where "t = (NewServerWithListener [])\<lparr>srv_clientMap := [7 \<mapsto> old]\<rparr>"
  let ?m = "NewHandshakeRequest ref_api NewDialect 7 tok"
  have "SameToken tok tok" unfolding tok_def by code_simp
  then obtain cli where "resume 7 tok [] 5 old = Inr cli"
    using resume_same_token [of old "[]" tok 7 5] by (auto simp: old_def NewServingClient_def)
  then have "createOrUpdateServingClient (\<lambda>t. t) 7 tok [] 5 t = (Inr cli, t\<lparr>srv_clientMap := (srv_clientMap t)(7 \<mapsto> cli)\<rparr>)"
    by (simp add: createOrUpdateServingClient_def t_def)
  then have h: "handshake sample_env (\<lambda>t. t) 5 (Inr ?m) None t = (Inr cli, t\<lparr>srv_clientMap := (srv_clientMap t)(7 \<mapsto> cli)\<rparr>)"
    using own_handshake [of sample_env t "\<lambda>t. t" 5 7 tok]
    by (simp add: ref_value_laws wf_NewDialect t_def getAuthenticator_def NewServerWithListener_def)
  note fields = ref.handshake_request_fields [OF wf_NewDialect, of 7 tok]
  have c: "GetNumberField (env_V sample_env) ?m (ClientIdField (env_d sample_env)) = Some (GLong 7)"
    by (simp add: GetNumberField_def fields) (simp add: ref_api_def)
  have "GetStringField ref_api ?m (SessionTokenField NewDialect) = Some (GUtf8 tok)"
    by (simp add: GetStringField_def fields) (simp add: ref_api_def tok_def)
  with resume_needs_principal_and_link [OF h c, of old] h show ?thesis
    by (simp add: t_def old_def tok_def NewServingClient_def Let_def)
qed

text \<open>
  A rejected handshake changes nothing: the sessions, their tokens and their connections are as
  before, or as the other goroutines left them.
\<close>

lemma rejected_handshake_changes_nothing:
  assumes "handshake E between c rd None t = (Inl err, t')"
  shows "found_in between t t'"
  using assms
proof (cases rule: handshake_cases)
  case (attached m cid princ r)
  from attached(4) show ?thesis using attached(5) by (cases rule: create_cases) auto
qed (simp add: found_in_def)

text \<open>The link a session was last resumed with is accepted again (and again).\<close>

lemma authorizeResume_again:
  assumes "authorizeResume tok t = (None, t')"
  shows "authorizeResume tok t' = (None, t')"
proof -
  have "decodeLink tok \<noteq> None"
    using assms by (auto simp: authorizeResume_def VerifyHashStep_def SameToken_def split: option.splits if_splits)
  then have "SameToken tok tok" by (auto simp: SameToken_def)
  then show ?thesis
    using assms by (auto simp: authorizeResume_def SameToken_def split: option.splits if_splits)
qed

end
