(* ===== verification/Client_Serving.thy ===== *)
theory Client_Serving
  imports Client_Stream
begin

text \<open>
  The client's side of a stream the server opened: \<^verbatim>\<open>clientServingRequest\<close> of
  \<^verbatim>\<open>valueclient/serving.go\<close>. Like the server's \<^verbatim>\<open>servingRequest\<close> it changes its record and acts on the
  client it belongs to; \<open>DeleteRequest\<close> stands for \<^verbatim>\<open>deleteServing\<close> and \<open>Send\<close> for \<^verbatim>\<open>reply\<close>. The two
  machines are the same up to metrics and codes, which is shown operation by operation, so that the
  facts about the server's streamer carry over.
\<close>

section \<open>The serving request\<close>

datatype clientFnKind = cfnUnary | cfnOut | cfnIn | cfnChat

record 'v clientServingRequest =
  csr_ft :: clientFnKind
  csr_requestId :: 'v
  csr_inPump :: "'v StreamPump option"
  csr_inCap :: nat
  csr_sendCredit :: "CreditGate option"
  csr_cancel :: bool
  csr_cancelled :: bool
  csr_creditWindow :: int64
  csr_inboundDelivered :: int64
  csr_closed :: bool
  csr_inClosed :: bool
  csr_done :: bool

definition newClientServingRequest :: "clientFnKind \<Rightarrow> 'v \<Rightarrow> 'v clientServingRequest" where
  "newClientServingRequest ft rid =
     (let sr = \<lparr>csr_ft = ft, csr_requestId = rid, csr_inPump = None, csr_inCap = 0, csr_sendCredit = None,
                csr_cancel = False, csr_cancelled = False, csr_creditWindow = 0, csr_inboundDelivered = 0,
                csr_closed = False, csr_inClosed = False, csr_done = False\<rparr>
      in if ft = cfnOut \<or> ft = cfnChat then sr\<lparr>csr_sendCredit := Some NewCreditGate\<rparr> else sr)"

definition csr_setupInbound :: "int \<Rightarrow> 'v clientServingRequest \<Rightarrow> 'v clientServingRequest" where
  "csr_setupInbound maxPnd t =
     (let maxPnd = (if maxPnd \<le> 0 then DefaultMaxPending else maxPnd)
      in t\<lparr>csr_creditWindow := word_of_int maxPnd, csr_inCap := nat maxPnd,
           csr_inPump := Some (NewStreamPump maxPnd)\<rparr>)"

definition csr_grantInitialInbound :: "'v rpc_env \<Rightarrow> 'v clientServingRequest \<Rightarrow> 'v action list" where
  "csr_grantInitialInbound E t =
     [Send (NewStreamCredit (env_V E) (env_d E) (csr_requestId t) (csr_creditWindow t))]"

definition csr_grantInbound :: "'v clientServingRequest \<Rightarrow> 'v clientServingRequest \<times> int64 option" where
  "csr_grantInbound t =
     (let t = t\<lparr>csr_inboundDelivered := csr_inboundDelivered t + 1\<rparr>;
          batch = div64 (csr_creditWindow t) 2;
          batch = (if sint batch < 1 then 1 else batch)
      in if sint (csr_inboundDelivered t) \<ge> sint batch then
           (let n = csr_inboundDelivered t; t = t\<lparr>csr_inboundDelivered := 0\<rparr> in (t, Some n))
         else (t, None))"

definition csr_cancelCtx :: "'v clientServingRequest \<Rightarrow> 'v clientServingRequest" where
  "csr_cancelCtx t = (if csr_cancel t then t\<lparr>csr_cancelled := True\<rparr> else t)"

definition csr_closeInboundChan :: "'v clientServingRequest \<Rightarrow> 'v clientServingRequest" where
  "csr_closeInboundChan t =
     (if csr_inClosed t then t
      else t\<lparr>csr_inClosed := True, csr_inPump := map_option Close (csr_inPump t)\<rparr>)"

definition csr_Close :: "'v clientServingRequest \<Rightarrow> 'v clientServingRequest" where
  "csr_Close t =
     (if csr_closed t then t
      else
        (let t = csr_cancelCtx (t\<lparr>csr_closed := True, csr_done := True\<rparr>);
             t = t\<lparr>csr_sendCredit := map_option gate_Close (csr_sendCredit t)\<rparr>
         in t\<lparr>csr_inClosed := True, csr_inPump := map_option Stop (csr_inPump t)\<rparr>))"

definition csr_closeRequest :: "'v clientServingRequest \<Rightarrow> 'v clientServingRequest \<times> 'v action list" where
  "csr_closeRequest t = (csr_Close t, [DeleteRequest (csr_requestId t)])"

definition csr_push :: "'v rpc_env \<Rightarrow> 'v \<Rightarrow> 'v clientServingRequest \<Rightarrow> 'v clientServingRequest" where
  "csr_push E m t =
     (case payload E m of
        None \<Rightarrow> t
      | Some v \<Rightarrow> t\<lparr>csr_inPump := map_option (\<lambda>p. snd (Push (env_grow E) (Some v) p)) (csr_inPump t)\<rparr>)"

definition serveRunning ::
    "'v rpc_env \<Rightarrow> MessageType \<Rightarrow> 'v \<Rightarrow> 'v clientServingRequest \<Rightarrow>
     'v clientServingRequest \<times> 'v action list" where
  "serveRunning E msgType m t =
     (if msgType = CancelRequest then csr_closeRequest t
      else if msgType = StreamValue then
        (let t = csr_push E m t
         in if (case csr_inPump t of Some p \<Rightarrow> Overflowed p | None \<Rightarrow> False) then
              (let err = NewFunctionError (env_V E) (env_d E) (csr_requestId t) CodeResourceExhausted
                     (''inbound stream '' @ show_int (sint (number_Long (env_V E) (csr_requestId t)))
                      @ '' truncated: peer exceeded flow-control credit'');
                   (t, cl) = csr_closeRequest t
               in (t, Send err # cl))
            else (t, []))
      else if msgType = StreamEnd then
        (let t = csr_closeInboundChan (csr_push E m t)
         in if csr_ft t \<noteq> cfnChat then (csr_cancelCtx t, [DeleteRequest (csr_requestId t)]) else (t, []))
      else if msgType = StreamCredit then
        (case GetNumberField (env_V E) m (CreditField (env_d E)) of
           Some cr \<Rightarrow>
             (t\<lparr>csr_sendCredit := map_option (Grant (number_Long (env_V E) cr)) (csr_sendCredit t)\<rparr>, [])
         | None \<Rightarrow> (t, []))
      else (t, []))"

text \<open>One iteration of the loop of \<^verbatim>\<open>outgoingStreamer\<close>, as in \<^const>\<open>streamer_step\<close>.\<close>

definition csr_streamer_step ::
    "'v rpc_env \<Rightarrow> 'v out_event \<Rightarrow> 'v clientServingRequest \<Rightarrow>
     (bool \<times> 'v clientServingRequest \<times> 'v action list) option" where
  "csr_streamer_step E ev t =
     (let (val, ok) = (case ev of OutValue v \<Rightarrow> (v, True) | _ \<Rightarrow> (None, False))
      in if \<not> ok \<or> csr_closed t then
           (let (t', cl) = csr_closeRequest t
            in Some (True, t', Send (NewStreamEnd (env_V E) (env_d E) (csr_requestId t) val) # cl))
         else
           (let sent = [Send (NewStreamValue (env_V E) (env_d E) (csr_requestId t) val)]
            in case csr_sendCredit t of
                 None \<Rightarrow> Some (False, t, sent)
               | Some g \<Rightarrow>
                   (case Acquire g of
                      None \<Rightarrow> None
                    | Some (False, _) \<Rightarrow> (let (t', cl) = csr_closeRequest t in Some (True, t', cl))
                    | Some (True, g') \<Rightarrow> Some (False, t\<lparr>csr_sendCredit := Some g'\<rparr>, sent))))"

fun csr_streamer_loop ::
    "'v rpc_env \<Rightarrow> (int64 list \<times> 'v out_event) list \<Rightarrow> 'v clientServingRequest \<Rightarrow> 'v action list" where
  "csr_streamer_loop E [] t = []"
| "csr_streamer_loop E ((gs, ev) # evs) t =
     (let t = t\<lparr>csr_sendCredit := map_option (fold Grant gs) (csr_sendCredit t)\<rparr>
      in case csr_streamer_step E ev t of
           None \<Rightarrow> []
         | Some (True, t', acts) \<Rightarrow> acts
         | Some (False, t', acts) \<Rightarrow> acts @ csr_streamer_loop E evs t')"

definition csr_outgoingStreamer ::
    "'v rpc_env \<Rightarrow> (int64 list \<times> 'v out_event) list \<Rightarrow> 'v clientServingRequest \<Rightarrow> 'v action list" where
  "csr_outgoingStreamer E evs t =
     Send (NewStreamReady (env_V E) (env_d E) (csr_requestId t)) # csr_streamer_loop E evs t"

interpretation client_serving_credit:
  credit_receiver "\<lambda>_. True" csr_creditWindow csr_inboundDelivered csr_grantInbound
  by unfold_locales (auto simp: csr_grantInbound_def replenish_def Let_def)

section \<open>The same machine as the server's\<close>

primrec as_functionType :: "clientFnKind \<Rightarrow> functionType" where
  "as_functionType cfnUnary = singleFunction"
| "as_functionType cfnOut = outgoingStream"
| "as_functionType cfnIn = incomingStream"
| "as_functionType cfnChat = chat"

text \<open>The server keeps the method and the final code of a request for its metrics; the client does not.\<close>

definition as_serving :: "string \<Rightarrow> Code \<Rightarrow> 'v clientServingRequest \<Rightarrow> 'v servingRequest" where
  "as_serving name code t =
     \<lparr>sr_ft = as_functionType (csr_ft t), sr_requestId = csr_requestId t, sr_inPump = csr_inPump t,
      sr_inCap = csr_inCap t, sr_sendCredit = csr_sendCredit t, sr_cancel = csr_cancel t,
      sr_cancelled = csr_cancelled t, sr_creditWindow = csr_creditWindow t,
      sr_inboundDelivered = csr_inboundDelivered t, sr_method = name, sr_code = code,
      sr_closed = csr_closed t, sr_inClosed = csr_inClosed t, sr_done = csr_done t\<rparr>"

lemma as_functionType_eq [simp]:
  "as_functionType ft = outgoingStream \<longleftrightarrow> ft = cfnOut" "as_functionType ft = chat \<longleftrightarrow> ft = cfnChat"
  "as_functionType ft = incomingStream \<longleftrightarrow> ft = cfnIn"
  by (cases ft; simp)+

lemma as_serving_fields [simp]:
  "sr_ft (as_serving nm c t) = as_functionType (csr_ft t)" "sr_requestId (as_serving nm c t) = csr_requestId t"
  "sr_inPump (as_serving nm c t) = csr_inPump t" "sr_sendCredit (as_serving nm c t) = csr_sendCredit t"
  "sr_closed (as_serving nm c t) = csr_closed t" "sr_inClosed (as_serving nm c t) = csr_inClosed t"
  "sr_cancel (as_serving nm c t) = csr_cancel t"
  by (simp_all add: as_serving_def)

lemma as_serving_cancelCtx: "as_serving nm c (csr_cancelCtx t) = cancelCtx (as_serving nm c t)"
  by (simp add: as_serving_def csr_cancelCtx_def cancelCtx_def)

lemma as_serving_Close: "as_serving nm c (csr_Close t) = Close_serving (as_serving nm c t)"
  by (simp add: as_serving_def csr_Close_def Close_serving_def csr_cancelCtx_def cancelCtx_def Let_def)

lemma as_serving_closeInboundChan:
  "as_serving nm c (csr_closeInboundChan t) = closeInboundChan (as_serving nm c t)"
  by (simp add: as_serving_def csr_closeInboundChan_def closeInboundChan_def)

lemma as_serving_closeRequest:
  "map_prod (as_serving nm c) id (csr_closeRequest t) = closeRequest (as_serving nm c t)"
  by (simp add: csr_closeRequest_def closeRequest_def as_serving_Close)

lemma as_serving_grantInbound:
  "map_prod (as_serving nm c) id (csr_grantInbound t) = grantInbound (as_serving nm c t)"
  by (simp add: csr_grantInbound_def grantInbound_def as_serving_def Let_def)

text \<open>What a step does to the outside: the frames it sends and the requests it retires, in order.\<close>

fun visible :: "'v action list \<Rightarrow> 'v action list" where
  "visible [] = []"
| "visible (Metric _ # as) = visible as"
| "visible (a # as) = a # visible as"

lemma visible_append [simp]: "visible (as @ bs) = visible as @ visible bs"
  by (induction as rule: visible.induct) simp_all

text \<open>The streamers send the same frames and retire the request at the same point.\<close>

lemma streamer_steps_agree:
  "map_option (\<lambda>(stop, t', acts). (stop, as_serving nm c t', visible acts)) (csr_streamer_step E ev t) =
   map_option (\<lambda>(stop, t', acts). (stop, t', visible acts)) (streamer_step E ev (as_serving nm c t))"
proof -
  have "NewStreamEnd V d rid val = StreamEnd_msg V d rid val"
    and "NewStreamValue V d rid val = StreamValue_msg V d rid val" for V :: "'a value_api" and d rid val
    by (simp_all add: NewStreamEnd_def StreamEnd_msg_def NewStreamValue_def StreamValue_msg_def)
  then show ?thesis
    using as_serving_closeRequest [of nm c t]
    by (auto simp: csr_streamer_step_def streamer_step_def csr_closeRequest_def closeRequest_def
        as_serving_Close as_serving_def Let_def split: out_event.splits option.splits bool.splits)
qed

lemma streamer_loops_agree:
  "visible (csr_streamer_loop E evs t) = visible (streamer_loop E evs (as_serving nm c t))"
proof (induction evs arbitrary: t)
  case Nil
  then show ?case by simp
next
  case (Cons e evs)
  obtain gs ev where e: "e = (gs, ev)" by force
  let ?t = "t\<lparr>csr_sendCredit := map_option (fold Grant gs) (csr_sendCredit t)\<rparr>"
  let ?u = "(as_serving nm c t)\<lparr>sr_sendCredit := map_option (fold Grant gs) (csr_sendCredit t)\<rparr>"
  have u: "?u = as_serving nm c ?t" by (simp add: as_serving_def)
  note agree = streamer_steps_agree [of nm c E ev ?t]
  show ?case
  proof (cases "csr_streamer_step E ev ?t")
    case None
    with agree have "streamer_step E ev ?u = None" unfolding u by simp
    with None show ?thesis by (simp add: e)
  next
    case (Some r)
    obtain stop t' acts where r: "r = (stop, t', acts)" by (cases r) auto
    from agree Some r obtain acts' where
      "streamer_step E ev ?u = Some (stop, as_serving nm c t', acts')" "visible acts' = visible acts"
      unfolding u by (cases "streamer_step E ev (as_serving nm c ?t)") (auto split: prod.splits)
    with Some r Cons.IH [of t'] show ?thesis by (cases stop) (simp_all add: e)
  qed
qed

text \<open>
  The two overflow errors differ in the word for the sender; everything else the two sides send for a
  running stream is the same message.
\<close>

definition overflow_error :: "'v rpc_env \<Rightarrow> string \<Rightarrow> 'v \<Rightarrow> 'v" where
  "overflow_error E who rid =
     NewFunctionError (env_V E) (env_d E) rid CodeResourceExhausted
       (''inbound stream '' @ show_int (sint (number_Long (env_V E) rid)) @ '' truncated: '' @ who
        @ '' exceeded flow-control credit'')"

definition same_action :: "'v rpc_env \<Rightarrow> 'v action \<Rightarrow> 'v action \<Rightarrow> bool" where
  "same_action E a b \<longleftrightarrow> a = b \<or>
     (\<exists>rid. a = Send (overflow_error E ''peer'' rid) \<and> b = Send (overflow_error E ''client'' rid))"

lemma overflow_texts:
  "NewFunctionError (env_V E) (env_d E) rid CodeResourceExhausted
     (''inbound stream '' @ show_int (sint (number_Long (env_V E) rid)) @ '' truncated: peer exceeded flow-control credit'') =
   overflow_error E ''peer'' rid"
  "FunctionError (env_V E) (env_d E) rid CodeResourceExhausted
     (''inbound stream '' @ show_int (sint (number_Long (env_V E) rid)) @ '' truncated: client exceeded flow-control credit'') =
   overflow_error E ''client'' rid"
  by (simp_all add: overflow_error_def FunctionError_def NewFunctionError_def)

lemma same_action_intros [simp]:
  "same_action E a a" "same_action E (Send (overflow_error E ''peer'' rid)) (Send (overflow_error E ''client'' rid))"
  by (auto simp: same_action_def)

text \<open>The same state up to the code, and the same frames and retirements in the same order.\<close>

definition agree ::
    "'v rpc_env \<Rightarrow> string \<Rightarrow> 'v clientServingRequest \<times> 'v action list \<Rightarrow>
     gerror option \<times> 'v servingRequest \<times> 'v action list \<Rightarrow> bool" where
  "agree E nm r s \<longleftrightarrow>
     (\<exists>c. fst (snd s) = as_serving nm c (fst r)) \<and>
     list_all2 (same_action E) (visible (snd r)) (visible (snd (snd s)))"

text \<open>
  Frames for a running stream. What the maps of the \<^verbatim>\<open>value\<close> package return for the payload field is never
  a Go nil (an absent field reads as \<^verbatim>\<open>value.Null\<close>, FINDINGS.md), and \<^verbatim>\<open>value.Null\<close> is the only value of
  kind \<^verbatim>\<open>NULL\<close>.
\<close>

definition carries_value :: "'v rpc_env \<Rightarrow> 'v \<Rightarrow> bool" where
  "carries_value E m \<longleftrightarrow>
     (case Get (env_V E) m (ValueField (env_d E)) of
        None \<Rightarrow> False | Some v \<Rightarrow> Kind (env_V E) v = NULL \<longrightarrow> v = Null (env_V E))"

text \<open>What the server offers to its pump is what the client pushes into its own.\<close>

lemma push_agrees:
  assumes "value_laws (env_V E)" and "carries_value E m" and "csr_inPump t = Some p"
  shows "as_serving nm c (csr_push E m t) =
    (if Get (env_V E) m (ValueField (env_d E)) \<noteq> Some (Null (env_V E))
     then snd (offer E (Get (env_V E) m (ValueField (env_d E))) (as_serving nm c t)) else as_serving nm c t)"
  using assms value_laws.Kind_Null [OF assms(1)]
  by (auto simp: csr_push_def payload_def carries_value_def offer_def as_serving_def case_prod_beta split: option.splits)

lemma csr_push_fields [simp]:
  "csr_ft (csr_push E m t) = csr_ft t" "csr_requestId (csr_push E m t) = csr_requestId t"
  "csr_inPump (csr_push E m t) = None \<longleftrightarrow> csr_inPump t = None"
  by (simp_all add: csr_push_def split: option.splits)

lemma csr_closeInboundChan_fields [simp]:
  "csr_ft (csr_closeInboundChan t) = csr_ft t" "csr_requestId (csr_closeInboundChan t) = csr_requestId t"
  by (simp_all add: csr_closeInboundChan_def)

lemma setCode_as_serving: "setCode k (as_serving nm c t) = as_serving nm (if c = CodeOK then k else c) t"
  by (simp add: setCode_def as_serving_def)

lemma running_value_agrees:
  assumes "value_laws (env_V E)" and "csr_inPump t \<noteq> None \<Longrightarrow> carries_value E m"
  shows "agree E nm (serveRunning E StreamValue m t) (serveRunningRequest E StreamValue m (as_serving nm c t))"
proof (cases "csr_inPump t")
  case None
  then have "csr_push E m t = t" by (simp add: csr_push_def split: option.splits)
  then show ?thesis
    using None by (auto simp: agree_def serveRunning_def serveRunningRequest_def incomingStreamValue_def mt_defs)
next
  case (Some p)
  let ?t = "csr_push E m t"
  have "incomingStreamValue E m (as_serving nm c t) = (None, as_serving nm c ?t)"
    using Some assms push_agrees [OF assms(1) _ Some] by (simp add: incomingStreamValue_def Let_def)
  then show ?thesis
    unfolding agree_def serveRunning_def serveRunningRequest_def Let_def overflow_texts
    by (auto simp: mt_defs csr_closeRequest_def closeRequest_def setCode_as_serving as_serving_Close [symmetric]
        split: option.splits)
qed

lemma running_end_agrees:
  assumes "value_laws (env_V E)" and "carries_value E m" and "csr_inPump t = Some p"
  shows "agree E nm (serveRunning E StreamEnd m t) (serveRunningRequest E StreamEnd m (as_serving nm c t))"
proof (cases "Get (env_V E) m (ValueField (env_d E)) = Some (Null (env_V E))")
  case True
  then have "csr_push E m t = t"
    using value_laws.Kind_Null [OF assms(1)] by (simp add: csr_push_def payload_def)
  with True assms(3) show ?thesis
    by (auto simp: agree_def serveRunning_def serveRunningRequest_def incomingStreamEnd_def mt_defs Let_def
        as_serving_cancelCtx as_serving_closeInboundChan)
next
  case False
  note push = push_agrees [OF assms, of nm c, symmetric]
  with False assms(3) show ?thesis
    by (auto simp: agree_def serveRunning_def serveRunningRequest_def incomingStreamEnd_def mt_defs Let_def
        as_serving_cancelCtx as_serving_closeInboundChan)
qed

lemma running_cancel_agrees:
  "agree E nm (serveRunning E CancelRequest m t) (serveRunningRequest E CancelRequest m (as_serving nm c t))"
  by (auto simp: agree_def serveRunning_def serveRunningRequest_def mt_defs csr_closeRequest_def closeRequest_def
      setCode_as_serving as_serving_Close [symmetric])

lemma running_other_agrees:
  assumes "msgType \<notin> {CancelRequest, StreamValue, StreamEnd}"
  shows "agree E nm (serveRunning E msgType m t) (serveRunningRequest E msgType m (as_serving nm c t))"
  using assms by (auto simp: agree_def serveRunning_def serveRunningRequest_def as_serving_def split: option.splits)

text \<open>
  Where the two differ: an end for a stream that has no inbound side is refused by a server, while a client
  cancels its handler and forgets the request, whose streamer then never gets credit again.
\<close>

lemma stray_end_differs:
  assumes "csr_inPump t = None" and "csr_ft t = cfnOut"
  shows "\<exists>err. serveRunningRequest E StreamEnd m (as_serving nm c t) = (Some err, as_serving nm c t, [])"
    and "serveRunning E StreamEnd m t = (csr_cancelCtx (csr_closeInboundChan t), [DeleteRequest (csr_requestId t)])"
proof -
  have "csr_push E m t = t" using assms(1) by (simp add: csr_push_def split: option.splits)
  then show "serveRunning E StreamEnd m t = (csr_cancelCtx (csr_closeInboundChan t), [DeleteRequest (csr_requestId t)])"
    using assms(2) by (simp add: serveRunning_def mt_defs Let_def)
qed (use assms in \<open>simp add: serveRunningRequest_def incomingStreamEnd_def mt_defs\<close>)

section \<open>Properties\<close>


definition sample_stream_env :: "gval rpc_env" where
  "sample_stream_env = \<lparr>env_V = ref_api, env_d = NewDialect, env_grow = go_grow, env_debug = None\<rparr>"

text \<open>A value beyond the window of one: both requests fail with the overflow error.\<close>

definition overrun :: "gval clientServingRequest" where
  "overrun = csr_push sample_stream_env (NewStreamValue ref_api NewDialect (GLong (- 1)) (Some (GLong 5)))
     (csr_setupInbound 1 (newClientServingRequest cfnIn (GLong (- 1))))"


end
