(* ===== verification/Client.thy ===== *)
theory Client
  imports Client_Serving Call_Context Hash_Chain Framing
begin

text \<open>
  The client (\<^verbatim>\<open>valueclient/client.go\<close>) with its connection (\<^verbatim>\<open>connection.go\<close>, \<^verbatim>\<open>sync_conn.go\<close>), its options
  (\<^verbatim>\<open>options.go\<close>) and the calls and streams it serves for the server (\<^verbatim>\<open>serving.go\<close>). The requests in
  flight are objects that callers hold on to; \<open>cl_ctxs\<close> keeps every one of them by its id, while
  \<open>cl_registered\<close> is the set of ids that are in \<^verbatim>\<open>requestCtxMap\<close>. Handlers registered for the server's
  calls are a parameter, like the server's. What a dial yields is an argument (\<open>dial\<close>): the randomness
  for the resumption chain, the error of the dial, and what the first read on the connection
  returns. An operation that blocks is \<^term>\<open>None\<close>; a panic that nothing recovers sets \<open>cl_crashed\<close>.
\<close>

section \<open>Options\<close>

record ReconnectPolicy =
  ReplayUnary :: "(string \<Rightarrow> bool) option"
  InitialBackoff :: int64
  MaxBackoff :: int64
  MaxAttempts :: int
  Jitter :: bool

record clientConfig =
  cc_sendingCap :: int64
  cc_timeoutMls :: int64
  cc_maxPending :: int
  cc_metadata :: "(call_ctx \<Rightarrow> Metadata) option"
  cc_reconnect :: ReconnectPolicy
  cc_keepAlive :: int64
  cc_writeTimeout :: int64
  cc_maxFrameSize :: int
  cc_dialTimeout :: int64

definition DefaultSendingCap :: int64 where "DefaultSendingCap = 1024"

definition DefaultTimeoutMls :: int64 where "DefaultTimeoutMls = 1000"

definition DefaultDialTimeout :: int64 where "DefaultDialTimeout = 30000000000"

definition DefaultInitialBackoff :: int64 where "DefaultInitialBackoff = 100000000"

definition DefaultMaxBackoff :: int64 where "DefaultMaxBackoff = 30000000000"

type_synonym ClientOption = "clientConfig \<Rightarrow> clientConfig"

definition newClientConfig :: "ClientOption list \<Rightarrow> clientConfig" where
  "newClientConfig opts =
     fold (\<lambda>opt cfg. opt cfg) opts
       \<lparr>cc_sendingCap = DefaultSendingCap, cc_timeoutMls = DefaultTimeoutMls, cc_maxPending = DefaultMaxPending,
        cc_metadata = None,
        cc_reconnect = \<lparr>ReplayUnary = None, InitialBackoff = 0, MaxBackoff = 0, MaxAttempts = 0, Jitter = False\<rparr>,
        cc_keepAlive = 15000000000, cc_writeTimeout = 10000000000, cc_maxFrameSize = MaxFrameSize,
        cc_dialTimeout = DefaultDialTimeout\<rparr>"

definition WithReconnectPolicy :: "ReconnectPolicy \<Rightarrow> ClientOption" where
  "WithReconnectPolicy p c = c\<lparr>cc_reconnect := p\<rparr>"

definition WithSendingCap :: "int64 \<Rightarrow> ClientOption" where
  "WithSendingCap n c = c\<lparr>cc_sendingCap := n\<rparr>"

definition WithTimeout :: "int64 \<Rightarrow> ClientOption" where
  "WithTimeout n c = c\<lparr>cc_timeoutMls := n\<rparr>"

definition WithStreamMaxPending_client :: "int \<Rightarrow> ClientOption" where
  "WithStreamMaxPending_client n c = c\<lparr>cc_maxPending := n\<rparr>"

definition WithDialTimeout :: "int64 \<Rightarrow> ClientOption" where
  "WithDialTimeout n c = c\<lparr>cc_dialTimeout := n\<rparr>"

definition WithKeepAlivePeriod_client :: "int64 \<Rightarrow> ClientOption" where
  "WithKeepAlivePeriod_client n c = c\<lparr>cc_keepAlive := n\<rparr>"

definition WithWriteTimeout_client :: "int64 \<Rightarrow> ClientOption" where
  "WithWriteTimeout_client n c = c\<lparr>cc_writeTimeout := n\<rparr>"

definition WithMaxFrameSize_client :: "int \<Rightarrow> ClientOption" where
  "WithMaxFrameSize_client n c = c\<lparr>cc_maxFrameSize := n\<rparr>"

definition WithMetadata :: "(call_ctx \<Rightarrow> Metadata) \<Rightarrow> ClientOption" where
  "WithMetadata inject c = c\<lparr>cc_metadata := Some inject\<rparr>"

section \<open>State\<close>

text \<open>
  A connection: the messages queued for its request loop, and whether it was closed on purpose. A
  sender that finds the queue full waits, which delays its message but does not reorder the queue.
\<close>

record 'v rpcConn =
  reqCh :: "'v list"
  conn_done :: bool

definition SendRequest :: "'v \<Rightarrow> 'v rpcConn \<Rightarrow> 'v rpcConn" where
  "SendRequest m c = (if conn_done c then c else c\<lparr>reqCh := reqCh c @ [m]\<rparr>)"

record 'v clientFunction =
  cf_ft :: clientFnKind
  cf_args :: TypeDef
  cf_res :: TypeDef
  cf_fn :: "call_ctx \<Rightarrow> 'v option \<Rightarrow> 'v option outcome"
  cf_stream :: "call_ctx \<Rightarrow> 'v option \<Rightarrow> unit outcome"

text \<open>What the error, connection and metrics handlers are told.\<close>

datatype 'v client_event =
    ProtocolError 'v gerror
  | StreamError int64 gerror
  | Connected 'v
  | ClientMetric metric_event

text \<open>A goroutine started for an inbound call or stream.\<close>

datatype 'v inbound_worker =
    InboundCall 'v 'v string "'v clientFunction" "'v option"
  | InboundStream 'v string "'v clientFunction" "'v option"

record 'v rpcClient =
  cl_clientId :: int64
  cl_cfg :: clientConfig
  cl_conn :: "'v rpcConn option"
  cl_connecting :: bool
  cl_lastRequest :: int64
  cl_reconnects :: int64
  cl_ctxs :: "int64 \<rightharpoonup> 'v rpcRequestCtx"
  cl_registered :: "int64 set"
  cl_timeoutMls :: int64
  cl_shuttingDown :: bool
  cl_reconnecting :: bool
  cl_resumeChain :: "HashChain option"
  cl_established :: bool
  cl_credential :: "'v option"
  cl_functionMap :: "string \<rightharpoonup> 'v clientFunction"
  cl_servingMap :: "int64 \<rightharpoonup> 'v clientServingRequest"
  cl_baseCancelled :: bool
  cl_workers :: "'v inbound_worker list"
  cl_log :: "'v client_event list"
  cl_crashed :: bool

definition NewClientWithDialer :: "int64 \<Rightarrow> ClientOption list \<Rightarrow> 'v rpcClient" where
  "NewClientWithDialer randId opts =
     (let cfg = newClientConfig opts
      in \<lparr>cl_clientId = randId, cl_cfg = cfg, cl_conn = None, cl_connecting = False, cl_lastRequest = 0,
          cl_reconnects = 0, cl_ctxs = Map.empty, cl_registered = {}, cl_timeoutMls = cc_timeoutMls cfg,
          cl_shuttingDown = False, cl_reconnecting = False, cl_resumeChain = None, cl_established = False,
          cl_credential = None, cl_functionMap = Map.empty, cl_servingMap = Map.empty,
          cl_baseCancelled = False, cl_workers = [], cl_log = [], cl_crashed = False\<rparr>)"

definition log_event :: "'v client_event \<Rightarrow> 'v rpcClient \<Rightarrow> 'v rpcClient" where
  "log_event e t = t\<lparr>cl_log := cl_log t @ [e]\<rparr>"

definition SetCredential :: "'v option \<Rightarrow> 'v rpcClient \<Rightarrow> 'v rpcClient" where
  "SetCredential c t = t\<lparr>cl_credential := c\<rparr>"

definition SetTimeout :: "int64 \<Rightarrow> 'v rpcClient \<Rightarrow> 'v rpcClient" where
  "SetTimeout n t = t\<lparr>cl_timeoutMls := n\<rparr>"

definition hasConn :: "'v rpcClient \<Rightarrow> bool" where
  "hasConn t = (cl_conn t \<noteq> None)"

text \<open>\<^verbatim>\<open>getConn().SendRequest(m)\<close>: \<^verbatim>\<open>getConn\<close> waits until there is a connection.\<close>

definition conn_send :: "'v \<Rightarrow> 'v rpcClient \<Rightarrow> 'v rpcClient option" where
  "conn_send m t =
     (case cl_conn t of
        None \<Rightarrow> None
      | Some c \<Rightarrow> Some (t\<lparr>cl_conn := Some (SendRequest m c)\<rparr>))"

definition reset_conn :: "'v rpcClient \<Rightarrow> 'v rpcClient" where
  "reset_conn t = t\<lparr>cl_conn := None\<rparr>"

definition reply_to_server :: "'v \<Rightarrow> 'v rpcClient \<Rightarrow> 'v rpcClient" where
  "reply_to_server m t = (case conn_send m t of Some t \<Rightarrow> t | None \<Rightarrow> t)"

definition sendStreamCredit :: "'v rpc_env \<Rightarrow> int64 \<Rightarrow> int64 \<Rightarrow> 'v rpcClient \<Rightarrow> 'v rpcClient" where
  "sendStreamCredit E rid n t = reply_to_server (NewStreamCredit (env_V E) (env_d E) (Long (env_V E) rid) n) t"

definition IsActive :: "'v rpcClient \<Rightarrow> bool" where
  "IsActive t = hasConn t"

definition Stats_client :: "'v rpcClient \<Rightarrow> int64 \<times> int64 \<times> nat \<times> int64" where
  "Stats_client t =
     (case cl_conn t of
        None \<Rightarrow> (cl_lastRequest t, cl_reconnects t, 0, 0)
      | Some c \<Rightarrow> (cl_lastRequest t, cl_reconnects t, length (reqCh c), cc_sendingCap (cl_cfg t)))"

definition Close_rpcClient :: "'v rpcClient \<Rightarrow> 'v rpcClient" where
  "Close_rpcClient t =
     reset_conn (t\<lparr>cl_shuttingDown := True, cl_baseCancelled := True,
                   cl_servingMap := map_option csr_Close \<circ> cl_servingMap t\<rparr>)"

section \<open>The session token\<close>

definition handshakeToken :: "gerror + byte list \<Rightarrow> 'v rpcClient \<Rightarrow> (gerror + string) \<times> 'v rpcClient" where
  "handshakeToken rnd t =
     (case (case cl_resumeChain t of
              Some ch \<Rightarrow> Inr ch
            | None \<Rightarrow> (case NewHashChain rnd DefaultHashChainLen of
                         Inl err \<Rightarrow> Inl (WrapError ''init resumption chain'' err)
                       | Inr ch \<Rightarrow> Inr ch)) of
        Inl err \<Rightarrow> (Inl err, t)
      | Inr ch \<Rightarrow>
          (let t = t\<lparr>cl_resumeChain := Some ch\<rparr>
           in if \<not> cl_established t then (Inr (Anchor ch), t)
              else
                (let (tok, ch) = Next ch; t = t\<lparr>cl_resumeChain := Some ch\<rparr>
                 in if tok = [] then
                      (Inl (PlainError ''session resumption chain exhausted; close this client and reconnect as a new one''), t)
                    else (Inr tok, t))))"

section \<open>Serving the server\<close>

definition AddFunction_client ::
    "string \<Rightarrow> TypeDef \<Rightarrow> TypeDef \<Rightarrow> (call_ctx \<Rightarrow> 'v option \<Rightarrow> 'v option outcome) option \<Rightarrow> 'v rpcClient \<Rightarrow>
     gerror option \<times> 'v rpcClient" where
  "AddFunction_client name args res fn t =
     (case fn of
        None \<Rightarrow> (Some (PlainError ''valueclient: AddFunction requires a name and a handler''), t)
      | Some f \<Rightarrow>
          if name = [] then (Some (PlainError ''valueclient: AddFunction requires a name and a handler''), t)
          else (None, t\<lparr>cl_functionMap := (cl_functionMap t)(name \<mapsto>
                  \<lparr>cf_ft = cfnUnary, cf_args = args, cf_res = res, cf_fn = f, cf_stream = (\<lambda>_ _. Panicked)\<rparr>)\<rparr>))"

text \<open>The three stream registrations differ in the kind they record (and in their error text).\<close>

definition add_stream ::
    "string \<Rightarrow> clientFnKind \<Rightarrow> string \<Rightarrow> TypeDef \<Rightarrow> (call_ctx \<Rightarrow> 'v option \<Rightarrow> unit outcome) option \<Rightarrow>
     'v rpcClient \<Rightarrow> gerror option \<times> 'v rpcClient" where
  "add_stream what k name args fn t =
     (case fn of
        None \<Rightarrow> (Some (PlainError (''valueclient: '' @ what @ '' requires a name and a handler'')), t)
      | Some f \<Rightarrow>
          if name = [] then (Some (PlainError (''valueclient: '' @ what @ '' requires a name and a handler'')), t)
          else (None, t\<lparr>cl_functionMap := (cl_functionMap t)(name \<mapsto>
                  \<lparr>cf_ft = k, cf_args = args, cf_res = VoidDef, cf_fn = (\<lambda>_ _. Panicked), cf_stream = f\<rparr>)\<rparr>))"

definition AddOutgoingStream_client ::
    "string \<Rightarrow> TypeDef \<Rightarrow> (call_ctx \<Rightarrow> 'v option \<Rightarrow> unit outcome) option \<Rightarrow> 'v rpcClient \<Rightarrow>
     gerror option \<times> 'v rpcClient" where
  "AddOutgoingStream_client = add_stream ''AddOutgoingStream'' cfnOut"

definition AddIncomingStream_client ::
    "string \<Rightarrow> TypeDef \<Rightarrow> (call_ctx \<Rightarrow> 'v option \<Rightarrow> unit outcome) option \<Rightarrow> 'v rpcClient \<Rightarrow>
     gerror option \<times> 'v rpcClient" where
  "AddIncomingStream_client = add_stream ''AddIncomingStream'' cfnIn"

definition AddChat_client ::
    "string \<Rightarrow> TypeDef \<Rightarrow> (call_ctx \<Rightarrow> 'v option \<Rightarrow> unit outcome) option \<Rightarrow> 'v rpcClient \<Rightarrow>
     gerror option \<times> 'v rpcClient" where
  "AddChat_client = add_stream ''AddChat'' cfnChat"

definition deleteServing :: "'v rpc_env \<Rightarrow> 'v \<Rightarrow> 'v rpcClient \<Rightarrow> 'v rpcClient" where
  "deleteServing E rid t = t\<lparr>cl_servingMap := (cl_servingMap t)(number_Long (env_V E) rid := None)\<rparr>"

fun perform_client :: "'v rpc_env \<Rightarrow> 'v action list \<Rightarrow> 'v rpcClient \<Rightarrow> 'v rpcClient" where
  "perform_client E [] t = t"
| "perform_client E (Send m # as) t = perform_client E as (reply_to_server m t)"
| "perform_client E (DeleteRequest rid # as) t = perform_client E as (deleteServing E rid t)"
| "perform_client E (_ # as) t = perform_client E as t"

text \<open>The handler runs in a goroutine of its own, which the loop starts and does not wait for.\<close>

definition serveInboundCall :: "'v rpc_env \<Rightarrow> 'v \<Rightarrow> 'v rpcClient \<Rightarrow> 'v rpcClient" where
  "serveInboundCall E m t =
     (let V = env_V E; d = env_d E; err = (\<lambda>rid code msg. reply_to_server (NewFunctionError V d rid code msg) t)
      in case GetNumberField V m (RequestIdField d) of
           None \<Rightarrow> log_event (ProtocolError m ErrIdFieldNotFound) t
         | Some rid \<Rightarrow>
             (case GetStringField V m (FunctionNameField d) of
                None \<Rightarrow> err rid CodeInvalidArgument ''function name field not found''
              | Some nm \<Rightarrow>
                  (let name = string_String V nm
                   in case cl_functionMap t name of
                        None \<Rightarrow> err rid CodeNotFound (''function not found '' @ name)
                      | Some cf \<Rightarrow>
                          if cf_ft cf \<noteq> cfnUnary
                          then err rid CodeInvalidArgument (''function '' @ quoted name @ '' is not unary'')
                          else
                            (let args = Get V m (ArgumentsField d)
                             in if \<not> Verify V args (cf_args cf)
                                then err rid CodeInvalidArgument (''function '' @ quoted name @ '' invalid args'')
                                else t\<lparr>cl_workers := cl_workers t @ [InboundCall m rid name cf args]\<rparr>))))"

definition inbound_context :: "'v rpc_env \<Rightarrow> 'v \<Rightarrow> 'v rpcClient \<Rightarrow> call_ctx" where
  "inbound_context E m t =
     (let ctx = Background\<lparr>ctx_err := (if cl_baseCancelled t then Some context_Canceled else None)\<rparr>
      in case DecodeMetadata (env_V E) (env_d E) m of
           None \<Rightarrow> ctx
         | Some md \<Rightarrow> ContextWithMetadata ctx md)"

definition run_inbound_call ::
    "'v rpc_env \<Rightarrow> 'v \<Rightarrow> 'v \<Rightarrow> string \<Rightarrow> 'v clientFunction \<Rightarrow> 'v option \<Rightarrow> 'v rpcClient \<Rightarrow> 'v rpcClient" where
  "run_inbound_call E m rid name cf args t =
     (let V = env_V E; d = env_d E
      in case cf_fn cf (inbound_context E m t) args of
           Panicked \<Rightarrow> t\<lparr>cl_crashed := True\<rparr>
         | Failed e \<Rightarrow> reply_to_server (NewHandlerError V d rid (''function '' @ name) e) t
         | Returned res \<Rightarrow>
             if \<not> Verify V res (cf_res cf)
             then reply_to_server (NewFunctionError V d rid CodeInternal
                    (''function '' @ quoted name @ '' invalid result'')) t
             else reply_to_server (NewFunctionResult V d rid res) t)"

definition streamKindFor :: "MessageType \<Rightarrow> clientFnKind" where
  "streamKindFor mt =
     (if mt = GetStreamRequest then cfnOut else if mt = PutStreamRequest then cfnIn else cfnChat)"

definition serveInboundStream :: "'v rpc_env \<Rightarrow> MessageType \<Rightarrow> 'v \<Rightarrow> 'v rpcClient \<Rightarrow> 'v rpcClient" where
  "serveInboundStream E msgType m t =
     (let V = env_V E; d = env_d E; err = (\<lambda>rid code msg. reply_to_server (NewFunctionError V d rid code msg) t)
      in case GetNumberField V m (RequestIdField d) of
           None \<Rightarrow> log_event (ProtocolError m ErrIdFieldNotFound) t
         | Some rid \<Rightarrow>
             (case GetStringField V m (FunctionNameField d) of
                None \<Rightarrow> err rid CodeInvalidArgument ''function name field not found''
              | Some nm \<Rightarrow>
                  (let name = string_String V nm
                   in case cl_functionMap t name of
                        None \<Rightarrow> err rid CodeNotFound (''function not found '' @ name)
                      | Some cf \<Rightarrow>
                          if cf_ft cf \<noteq> streamKindFor msgType
                          then err rid CodeInvalidArgument (''function '' @ quoted name @ '' wrong stream type'')
                          else
                            (let args = Get V m (ArgumentsField d)
                             in if \<not> Verify V args (cf_args cf)
                                then err rid CodeInvalidArgument (''stream '' @ quoted name @ '' invalid args'')
                                else
                                  (let sr = (newClientServingRequest (cf_ft cf) rid)\<lparr>csr_cancel := True\<rparr>;
                                       inbound = (cf_ft cf = cfnIn \<or> cf_ft cf = cfnChat);
                                       sr = (if inbound then csr_setupInbound (cc_maxPending (cl_cfg t)) sr else sr);
                                       t = t\<lparr>cl_servingMap := (cl_servingMap t)(number_Long V rid \<mapsto> sr)\<rparr>;
                                       t = (if inbound then perform_client E (csr_grantInitialInbound E sr) t else t)
                                   in t\<lparr>cl_workers := cl_workers t @ [InboundStream rid name cf args]\<rparr>)))))"

text \<open>
  The stream's goroutine up to its streamer: a failed handler retires the request and reports the
  error, an incoming stream is acknowledged; the others go on in \<^const>\<open>csr_outgoingStreamer\<close>.
\<close>

definition run_inbound_stream ::
    "'v rpc_env \<Rightarrow> 'v \<Rightarrow> string \<Rightarrow> 'v clientFunction \<Rightarrow> 'v option \<Rightarrow> 'v rpcClient \<Rightarrow> 'v rpcClient" where
  "run_inbound_stream E rid name cf args t =
     (let V = env_V E; d = env_d E; k = number_Long V rid;
          loc = (case cf_ft cf of cfnOut \<Rightarrow> ''out stream '' | cfnIn \<Rightarrow> ''in stream '' | _ \<Rightarrow> ''chat '') @ name;
          ctx = Background\<lparr>ctx_err := (if cl_baseCancelled t then Some context_Canceled else None)\<rparr>
      in case cf_stream cf ctx args of
           Panicked \<Rightarrow> t\<lparr>cl_crashed := True\<rparr>
         | Failed e \<Rightarrow> reply_to_server (NewHandlerError V d rid loc e) (deleteServing E rid t)
         | Returned _ \<Rightarrow> if cf_ft cf = cfnIn then reply_to_server (NewStreamReady V d rid) t else t)"

section \<open>Responses\<close>

definition update_ctx :: "int64 \<Rightarrow> 'v rpcRequestCtx \<Rightarrow> 'v rpcClient \<Rightarrow> 'v rpcClient" where
  "update_ctx rid rc t = t\<lparr>cl_ctxs := (cl_ctxs t)(rid \<mapsto> rc)\<rparr>"

definition unregister :: "int64 \<Rightarrow> 'v rpcClient \<Rightarrow> 'v rpcClient" where
  "unregister rid t = t\<lparr>cl_registered := cl_registered t - {rid}\<rparr>"

text \<open>
  A system message is sent on the connection; without one, the client connects first. That happens
  in the goroutine of the response loop, so what connecting does there is the argument \<open>redial\<close>.
\<close>

definition sendSystemRequest ::
    "'v rpc_env \<Rightarrow> ('v rpcClient \<Rightarrow> (gerror option \<times> 'v rpcClient) option) \<Rightarrow> int64 \<Rightarrow> MessageType \<Rightarrow> 'v rpcClient \<Rightarrow>
     'v rpcClient option" where
  "sendSystemRequest E redial rid mt t =
     (let V = env_V E; d = env_d E;
          m = Puts V (EmptyMap V) [(MessageTypeField d, MessageType_Long V mt), (RequestIdField d, Long V rid)]
      in if hasConn t then conn_send m t
         else (case redial t of
                 None \<Rightarrow> None
               | Some (Some err, t) \<Rightarrow> Some t
               | Some (None, t) \<Rightarrow> conn_send m t))"

definition CancelRequest_client ::
    "'v rpc_env \<Rightarrow> ('v rpcClient \<Rightarrow> (gerror option \<times> 'v rpcClient) option) \<Rightarrow> int64 \<Rightarrow> 'v rpcClient \<Rightarrow>
     'v rpcClient option" where
  "CancelRequest_client E redial rid t = sendSystemRequest E redial rid CancelRequest t"

definition processResponse ::
    "'v rpc_env \<Rightarrow> ('v rpcClient \<Rightarrow> (gerror option \<times> 'v rpcClient) option) \<Rightarrow> bool \<Rightarrow> MessageType \<Rightarrow> 'v \<Rightarrow>
     'v rpcRequestCtx \<Rightarrow> 'v rpcClient \<Rightarrow> 'v rpcClient option" where
  "processResponse E redial pick mt m rc t =
     (let V = env_V E; d = env_d E; rid = requestId rc
      in if mt = FunctionResponse then
           (let result = (case Get V m (ResultField d) of
                            Some v \<Rightarrow> if Kind V v = NULL then None else Some v
                          | None \<Rightarrow> None)
            in case notifyResult (env_grow E) pick result rc of
                 None \<Rightarrow> None
               | Some (_, rc) \<Rightarrow> Some (unregister rid (update_ctx rid (Close_request V d rc) t)))
         else if mt = ErrorResponse then
           (let code = (case GetNumberField V m (CodeField d) of
                          Some c \<Rightarrow> Code_of_int64 (number_Long V c) | None \<Rightarrow> CodeUnknown)
            in case map_GetString V m (ErrorField d) of
                 None \<Rightarrow> Some (t\<lparr>cl_crashed := True\<rparr>)
               | Some s \<Rightarrow>
                   (let err = RpcError code (string_String V s);
                        rc = SetError err rc;
                        t = log_event (StreamError rid err) (update_ctx rid rc t)
                    in Some (unregister rid (update_ctx rid (Close_request V d rc) t))))
         else if mt = StreamReady then
           map_option (\<lambda>(_, rc). update_ctx rid rc t) (notifyResult (env_grow E) pick None rc)
         else if mt = StreamValue then
           (case payload E m of
              None \<Rightarrow> Some t
            | Some v \<Rightarrow>
                (case notifyResult (env_grow E) pick (Some v) rc of
                   None \<Rightarrow> None
                 | Some (True, rc) \<Rightarrow>
                     Some (log_event (ClientMetric (StreamValueMetric (Name V d rc))) (update_ctx rid rc t))
                 | Some (False, rc) \<Rightarrow>
                     if cancelOnce rc then Some (update_ctx rid rc t)
                     else
                       (let err = NewError CodeResourceExhausted
                              (''stream '' @ show_int (sint rid) @ '' truncated: server exceeded flow-control credit'');
                            rc = SetError err (rc\<lparr>cancelOnce := True\<rparr>);
                            t = log_event (StreamError rid err) (update_ctx rid rc t)
                        in CancelRequest_client E redial rid t)))
         else if mt = StreamEnd then
           (case (case payload E m of
                    None \<Rightarrow> Some rc
                  | Some v \<Rightarrow> map_option snd (notifyResult (env_grow E) pick (Some v) rc)) of
              None \<Rightarrow> None
            | Some rc \<Rightarrow>
                (let (whole, rc) = TryGetClose V d rc; t = update_ctx rid rc t
                 in Some (if whole then unregister rid t else t)))
         else if mt = CancelRequest then
           Some (unregister rid (update_ctx rid (Close_request V d rc) t))
         else if mt = StreamCredit then
           Some (case GetNumberField V m (CreditField d) of
                   Some cr \<Rightarrow>
                     update_ctx rid (rc\<lparr>sendCredit := map_option (Grant (number_Long V cr)) (sendCredit rc)\<rparr>) t
                 | None \<Rightarrow> t)
         else Some (log_event (ProtocolError m ErrUnsupportedMessageType) t))"

definition getResponseHandler ::
    "'v rpc_env \<Rightarrow> ('v rpcClient \<Rightarrow> (gerror option \<times> 'v rpcClient) option) \<Rightarrow> bool \<Rightarrow> 'v \<Rightarrow> 'v rpcClient \<Rightarrow>
     'v rpcClient option" where
  "getResponseHandler E redial pick m t =
     (let V = env_V E; d = env_d E
      in case GetNumberField V m (MessageTypeField d) of
           None \<Rightarrow> Some (log_event (ProtocolError m ErrNoMessageType) t)
         | Some mt \<Rightarrow>
             (let msgType = number_Long V mt
              in if msgType = HandshakeResponse then Some (log_event (Connected m) (t\<lparr>cl_established := True\<rparr>))
                 else if msgType = FunctionRequest then Some (serveInboundCall E m t)
                 else if msgType = GetStreamRequest \<or> msgType = PutStreamRequest \<or> msgType = ChatRequest
                 then Some (serveInboundStream E msgType m t)
                 else
                   (case GetNumberField V m (RequestIdField d) of
                      None \<Rightarrow> Some (log_event (ProtocolError m ErrIdFieldNotFound) t)
                    | Some i \<Rightarrow>
                        (let k = number_Long V i
                         in case cl_servingMap t k of
                              Some sr \<Rightarrow>
                                (let (sr, acts) = serveRunning E msgType m sr
                                 in Some (perform_client E acts
                                      (t\<lparr>cl_servingMap := (cl_servingMap t)(k \<mapsto> sr)\<rparr>)))
                            | None \<Rightarrow>
                                if k \<in> cl_registered t
                                then (case cl_ctxs t k of
                                        Some rc \<Rightarrow> processResponse E redial pick msgType m rc t
                                      | None \<Rightarrow> Some t)
                                else Some (log_event (ProtocolError m ErrRequestNotFound) t)))))"

section \<open>Connecting\<close>

record 'v dial =
  dl_seed :: "gerror + byte list"
  dl_err :: "gerror option"
  dl_read :: "gerror + 'v"

text \<open>
  A new connection: dialled, the handshake queued, and the first message read and handled before the
  connection is published. Meanwhile the lock of \<^verbatim>\<open>syncConn\<close> is held, so a handler that would connect
  waits for itself: \<open>redial\<close> never returns.
\<close>

definition newConn ::
    "'v rpc_env \<Rightarrow> 'v dial \<Rightarrow> bool \<Rightarrow> string \<Rightarrow> 'v rpcClient \<Rightarrow> ((gerror + 'v rpcConn) \<times> 'v rpcClient) option" where
  "newConn E D pick tok t =
     (case dl_err D of
        Some err \<Rightarrow> Some (Inl err, t)
      | None \<Rightarrow>
          (let hs = NewHandshakeRequest (env_V E) (env_d E) (cl_clientId t) tok;
               hs = (case cl_credential t of
                       None \<Rightarrow> hs
                     | Some c \<Rightarrow> Put (env_V E) hs (AuthField (env_d E)) (Some c))
           in case dl_read D of
                Inl err \<Rightarrow> Some (Inl (WrapError ''handshake'' err), t)
              | Inr resp \<Rightarrow>
                  map_option (\<lambda>t. (Inr \<lparr>reqCh = [hs], conn_done = False\<rparr>, t))
                    (getResponseHandler E (\<lambda>_. None) pick resp t)))"

definition syncConn_connect ::
    "'v rpc_env \<Rightarrow> 'v dial \<Rightarrow> bool \<Rightarrow> string \<Rightarrow> 'v rpcClient \<Rightarrow> (gerror option \<times> 'v rpcClient) option" where
  "syncConn_connect E D pick tok t =
     (if cl_connecting t then None
      else if hasConn t then Some (None, t)
      else
        (case newConn E D pick tok (t\<lparr>cl_connecting := True\<rparr>) of
           None \<Rightarrow> None
         | Some (Inl err, t) \<Rightarrow> Some (Some err, t\<lparr>cl_connecting := False\<rparr>)
         | Some (Inr c, t) \<Rightarrow> Some (None, t\<lparr>cl_conn := Some c, cl_connecting := False\<rparr>)))"

definition ConnectContext ::
    "'v rpc_env \<Rightarrow> 'v dial \<Rightarrow> bool \<Rightarrow> 'v rpcClient \<Rightarrow> (gerror option \<times> 'v rpcClient) option" where
  "ConnectContext E D pick t =
     (if hasConn t then Some (None, t)
      else
        (case handshakeToken (dl_seed D) t of
           (Inl err, t) \<Rightarrow> Some (Some err, t)
         | (Inr tok, t) \<Rightarrow> syncConn_connect E D pick tok t))"

definition Connect :: "'v rpc_env \<Rightarrow> 'v dial \<Rightarrow> bool \<Rightarrow> 'v rpcClient \<Rightarrow> (gerror option \<times> 'v rpcClient) option" where
  "Connect = ConnectContext"

definition ensureConnection ::
    "'v rpc_env \<Rightarrow> 'v dial \<Rightarrow> bool \<Rightarrow> 'v rpcClient \<Rightarrow> (gerror option \<times> 'v rpcClient) option" where
  "ensureConnection E D pick t = (if hasConn t then Some (None, t) else ConnectContext E D pick t)"

section \<open>Reconnecting\<close>

definition ErrConnectionLost :: gerror where
  "ErrConnectionLost = NewError CodeUnavailable ''connection lost during reconnect''"

definition failRequest :: "'v rpc_env \<Rightarrow> gerror \<Rightarrow> int64 \<Rightarrow> 'v rpcClient \<Rightarrow> 'v rpcClient" where
  "failRequest E err rid t =
     (case cl_ctxs t rid of
        None \<Rightarrow> t
      | Some rc \<Rightarrow>
          (let rc = SetError err rc;
               t = (if skind rc \<noteq> unaryKind then log_event (StreamError rid err) t else t)
           in unregister rid (update_ctx rid (Close_request (env_V E) (env_d E) rc) t)))"

definition replayable :: "'v rpc_env \<Rightarrow> ReconnectPolicy \<Rightarrow> 'v rpcRequestCtx \<Rightarrow> bool" where
  "replayable E p rc =
     (skind rc = unaryKind \<and>
      (case ReplayUnary p of None \<Rightarrow> False | Some f \<Rightarrow> f (Name (env_V E) (env_d E) rc)))"

fun resend :: "int64 list \<Rightarrow> 'v rpcClient \<Rightarrow> 'v rpcClient option" where
  "resend [] t = Some t"
| "resend (rid # rids) t =
     (case cl_ctxs t rid of
        None \<Rightarrow> resend rids t
      | Some rc \<Rightarrow> (case conn_send (req rc) t of None \<Rightarrow> None | Some t \<Rightarrow> resend rids t))"

text \<open>The ids that the walk over the request map keeps for replay, and those it fails.\<close>

definition replay_ids :: "'v rpc_env \<Rightarrow> 'v rpcClient \<Rightarrow> int64 list" where
  "replay_ids E t =
     filter (\<lambda>rid. case cl_ctxs t rid of
                     Some rc \<Rightarrow> sint rid \<le> sint (cl_lastRequest t) \<and> replayable E (cc_reconnect (cl_cfg t)) rc
                   | None \<Rightarrow> False)
       (sorted_list_of_set (cl_registered t))"

definition fail_ids :: "'v rpc_env \<Rightarrow> 'v rpcClient \<Rightarrow> int64 list" where
  "fail_ids E t =
     filter (\<lambda>rid. case cl_ctxs t rid of
                     Some rc \<Rightarrow> sint rid \<le> sint (cl_lastRequest t) \<and> \<not> replayable E (cc_reconnect (cl_cfg t)) rc
                   | None \<Rightarrow> False)
       (sorted_list_of_set (cl_registered t))"

definition Reconnect ::
    "'v rpc_env \<Rightarrow> 'v dial \<Rightarrow> bool \<Rightarrow> 'v rpcClient \<Rightarrow> (gerror option \<times> 'v rpcClient) option" where
  "Reconnect E D pick t =
     (if cl_reconnecting t then Some (None, t)
      else
        (let t = t\<lparr>cl_reconnecting := True, cl_reconnects := cl_reconnects t + 1\<rparr>;
             t = reset_conn (log_event (ClientMetric ReconnectMetric) t);
             replay = replay_ids E t;
             t = fold (failRequest E ErrConnectionLost) (fail_ids E t) t
         in case Connect E D pick t of
              None \<Rightarrow> None
            | Some (Some err, t) \<Rightarrow>
                (let t = fold (failRequest E ErrConnectionLost) replay t
                 in Some (Some err, t\<lparr>cl_reconnecting := False\<rparr>))
            | Some (None, t) \<Rightarrow>
                map_option (\<lambda>t. (None, t\<lparr>cl_reconnecting := False\<rparr>)) (resend replay t)))"

text \<open>
  The retry loop over what happens to it: each attempt sleeps (for a delay that is recorded, with the
  jitter drawn from \<open>rnd\<close>), unless the client is closed, and then connects with a dial outcome.
\<close>

datatype 'v retry_event = RetryClosed | RetryDial int64 "'v dial"

definition jittered :: "bool \<Rightarrow> int64 \<Rightarrow> int64 \<Rightarrow> int64" where
  "jittered jit rnd delay =
     (if jit then div64 delay 2 + word_of_int (sint rnd mod (sint (div64 delay 2) + 1)) else delay)"

fun retry_loop ::
    "'v rpc_env \<Rightarrow> ReconnectPolicy \<Rightarrow> bool \<Rightarrow> int \<Rightarrow> int64 \<Rightarrow> int64 \<Rightarrow> 'v retry_event list \<Rightarrow> 'v rpcClient \<Rightarrow>
     (int64 list \<times> 'v rpcClient) option" where
  "retry_loop E p pick attempt delay maxDelay evs t =
     (if \<not> (MaxAttempts p < 0 \<or> attempt \<le> MaxAttempts p) then Some ([], t)
      else
        (case evs of
           [] \<Rightarrow> None
         | RetryClosed # evs \<Rightarrow> Some ([], t)
         | RetryDial rnd D # evs \<Rightarrow>
             (let d = jittered (Jitter p) rnd delay
              in if cl_shuttingDown t then Some ([d], t)
                 else
                   (let t = log_event (ClientMetric ReconnectMetric) (t\<lparr>cl_reconnects := cl_reconnects t + 1\<rparr>)
                    in case Connect E D pick t of
                         None \<Rightarrow> None
                       | Some (None, t) \<Rightarrow> Some ([d], t)
                       | Some (Some err, t) \<Rightarrow>
                           (let delay = delay * 2;
                                delay = (if sint delay > sint maxDelay then maxDelay else delay)
                            in map_option (map_prod (\<lambda>ds. d # ds) id)
                                 (retry_loop E p pick (attempt + 1) delay maxDelay evs t))))))"

definition retryReconnect ::
    "'v rpc_env \<Rightarrow> bool \<Rightarrow> 'v retry_event list \<Rightarrow> 'v rpcClient \<Rightarrow> (int64 list \<times> 'v rpcClient) option" where
  "retryReconnect E pick evs t =
     (let p = cc_reconnect (cl_cfg t)
      in if MaxAttempts p = 0 then Some ([], t)
         else
           (let delay = (if sint (InitialBackoff p) \<le> 0 then DefaultInitialBackoff else InitialBackoff p);
                maxDelay = (if sint (MaxBackoff p) \<le> 0 then DefaultMaxBackoff else MaxBackoff p)
            in retry_loop E p pick 1 delay maxDelay evs t))"

text \<open>The client is its own error handler unless the application installs another one.\<close>

definition BadConnection ::
    "'v rpc_env \<Rightarrow> bool \<Rightarrow> 'v dial \<Rightarrow> 'v retry_event list \<Rightarrow> 'v rpcClient \<Rightarrow> 'v rpcClient option" where
  "BadConnection E pick D evs t =
     (if cl_shuttingDown t then Some t
      else
        (case Reconnect E D pick t of
           None \<Rightarrow> None
         | Some (None, t) \<Rightarrow> Some t
         | Some (Some err, t) \<Rightarrow> map_option snd (retryReconnect E pick evs t)))"

section \<open>Calls\<close>

definition effectiveTimeout :: "call_ctx \<Rightarrow> 'v rpcClient \<Rightarrow> int64" where
  "effectiveTimeout ctx t =
     (let base = cl_timeoutMls t
      in case ctx_deadline ctx of
           None \<Rightarrow> base
         | Some left \<Rightarrow>
             (let remaining = word_of_int (go_div left 1000000) :: int64;
                  remaining = (if sint remaining < 0 then 0 else remaining)
              in if sint base \<le> 0 \<or> sint remaining < sint base then remaining else base))"

definition constructRequest ::
    "'v rpc_env \<Rightarrow> call_ctx \<Rightarrow> MessageType \<Rightarrow> string \<Rightarrow> 'v option \<Rightarrow> int64 \<Rightarrow> 'v rpcClient \<Rightarrow> 'v" where
  "constructRequest E ctx mt name args tmo t =
     (let V = env_V E; d = env_d E;
          m = Put V (Puts V (EmptyMap V)
                [(MessageTypeField d, MessageType_Long V mt), (FunctionNameField d, Utf8 V name)])
                (ArgumentsField d) args;
          m = (if sint tmo > 0 then Put V m (TimeoutField d) (Some (Long V tmo)) else m)
      in case cc_metadata (cl_cfg t) of
           None \<Rightarrow> m
         | Some inject \<Rightarrow>
             (case EncodeMetadata V (inject ctx) of
                None \<Rightarrow> m
              | Some md \<Rightarrow> Put V m (MetadataField d) (Some md)))"

definition newRequestCtx ::
    "'v rpc_env \<Rightarrow> int64 \<Rightarrow> streamKind \<Rightarrow> 'v \<Rightarrow> nat \<Rightarrow> 'v rpcClient \<Rightarrow> 'v rpcClient" where
  "newRequestCtx E rid k m receiveCap t =
     (let rc = (NewRequestCtx rid k m receiveCap (cc_maxPending (cl_cfg t)) True)\<lparr>metrics := True\<rparr>;
          t = log_event (ClientMetric (RequestBegin (Name (env_V E) (env_d E) rc))) t
      in (update_ctx rid rc t)\<lparr>cl_registered := insert rid (cl_registered t)\<rparr>)"

text \<open>
  The request is registered before it is sent; \<open>between\<close> is what other goroutines do to the client
  in the meantime, a lost connection for one.
\<close>

definition sendRequest ::
    "'v rpc_env \<Rightarrow> 'v dial \<Rightarrow> bool \<Rightarrow> ('v rpcClient \<Rightarrow> 'v rpcClient) \<Rightarrow> streamKind \<Rightarrow> 'v \<Rightarrow> nat \<Rightarrow> 'v rpcClient \<Rightarrow>
     ((gerror + int64) \<times> 'v rpcClient) option" where
  "sendRequest E D pick between k m receiveCap t =
     (case ensureConnection E D pick t of
        None \<Rightarrow> None
      | Some (Some err, t) \<Rightarrow> Some (Inl err, t)
      | Some (None, t) \<Rightarrow>
          (let rid = cl_lastRequest t + 1;
               t = t\<lparr>cl_lastRequest := rid\<rparr>;
               m = Put (env_V E) m (RequestIdField (env_d E)) (Some (Long (env_V E) rid));
               t = between (newRequestCtx E rid k m receiveCap t)
           in map_option (\<lambda>t. (Inr rid, t)) (conn_send m t)))"

definition start_call ::
    "'v rpc_env \<Rightarrow> 'v dial \<Rightarrow> bool \<Rightarrow> ('v rpcClient \<Rightarrow> 'v rpcClient) \<Rightarrow> MessageType \<Rightarrow> streamKind \<Rightarrow> nat \<Rightarrow>
     call_ctx \<Rightarrow> string \<Rightarrow> 'v option \<Rightarrow> 'v rpcClient \<Rightarrow> ((gerror + int64) \<times> 'v rpcClient) option" where
  "start_call E D pick between mt k receiveCap ctx name args t =
     sendRequest E D pick between k (constructRequest E ctx mt name args (effectiveTimeout ctx t) t) receiveCap t"

definition invokeUnary_begin where
  "invokeUnary_begin E D pick between ctx name args t =
     start_call E D pick between FunctionRequest unaryKind 1 ctx name args t"

definition GetStream_begin where
  "GetStream_begin E D pick between ctx name args receiveCap t =
     start_call E D pick between GetStreamRequest getStreamKind receiveCap ctx name args t"

definition PutStream_begin where
  "PutStream_begin E D pick between ctx name args t =
     start_call E D pick between PutStreamRequest putStreamKind 1 ctx name args t"

definition Chat_begin where
  "Chat_begin E D pick between ctx name args receiveCap t =
     start_call E D pick between ChatRequest chatKind (receiveCap + 1) ctx name args t"

text \<open>
  The wait for the first response ends with one of the events of \<^const>\<open>SingleResp\<close>; a result that is
  received leaves the channel. An error closes the request, which stays in the request map.
\<close>

definition await_response ::
    "'v rpc_env \<Rightarrow> ('v rpcClient \<Rightarrow> (gerror option \<times> 'v rpcClient) option) \<Rightarrow> int64 \<Rightarrow> 'v resp_event \<Rightarrow>
     'v rpcClient \<Rightarrow> ((gerror + 'v option) \<times> 'v rpcClient) option" where
  "await_response E redial rid ev t =
     (case cl_ctxs t rid of
        None \<Rightarrow> None
      | Some rc \<Rightarrow>
          (let (res, cancel) = SingleResp ev rc
           in case (if cancel then CancelRequest_client E redial rid t else Some t) of
                None \<Rightarrow> None
              | Some t \<Rightarrow>
                  (case res of
                     Inr v \<Rightarrow> Some (Inr v, update_ctx rid (rc\<lparr>resultCh := tl (resultCh rc)\<rparr>) t)
                   | Inl err \<Rightarrow>
                       Some (Inl err, update_ctx rid (Close_request (env_V E) (env_d E) (SetError err rc)) t))))"

definition invokeUnary_end where
  "invokeUnary_end E redial rid ev t = await_response E redial rid ev t"

text \<open>Once a get stream or chat is acknowledged, the client grants its initial window.\<close>

definition stream_opened ::
    "'v rpc_env \<Rightarrow> ('v rpcClient \<Rightarrow> (gerror option \<times> 'v rpcClient) option) \<Rightarrow> int64 \<Rightarrow> 'v resp_event \<Rightarrow>
     'v rpcClient \<Rightarrow> ((gerror + unit) \<times> 'v rpcClient) option" where
  "stream_opened E redial rid ev t =
     (case await_response E redial rid ev t of
        None \<Rightarrow> None
      | Some (Inl err, t) \<Rightarrow> Some (Inl err, t)
      | Some (Inr _, t) \<Rightarrow>
          (case map_option sendInitialCredit (cl_ctxs t rid) of
             Some (Some n) \<Rightarrow> Some (Inr (), sendStreamCredit E rid n t)
           | _ \<Rightarrow> Some (Inr (), t)))"

text \<open>A put stream waits for its acknowledgement and grants nothing; a chat opens like a get stream.\<close>

definition PutStream_end ::
    "'v rpc_env \<Rightarrow> ('v rpcClient \<Rightarrow> (gerror option \<times> 'v rpcClient) option) \<Rightarrow> int64 \<Rightarrow> 'v resp_event \<Rightarrow>
     'v rpcClient \<Rightarrow> ((gerror + unit) \<times> 'v rpcClient) option" where
  "PutStream_end E redial rid ev t =
     (case await_response E redial rid ev t of
        None \<Rightarrow> None
      | Some (Inl err, t) \<Rightarrow> Some (Inl err, t)
      | Some (Inr _, t) \<Rightarrow> Some (Inr (), t))"

definition Chat_end ::
    "'v rpc_env \<Rightarrow> ('v rpcClient \<Rightarrow> (gerror option \<times> 'v rpcClient) option) \<Rightarrow> int64 \<Rightarrow> 'v resp_event \<Rightarrow>
     'v rpcClient \<Rightarrow> ((gerror + unit) \<times> 'v rpcClient) option" where
  "Chat_end E redial rid ev t = stream_opened E redial rid ev t"

text \<open>The goroutine of \<^verbatim>\<open>watchContext\<close> when the context is done before the request.\<close>

definition watchContext ::
    "'v rpc_env \<Rightarrow> ('v rpcClient \<Rightarrow> (gerror option \<times> 'v rpcClient) option) \<Rightarrow> int64 \<Rightarrow> 'v rpcClient \<Rightarrow>
     'v rpcClient option" where
  "watchContext E redial rid t =
     (case CancelRequest_client E redial rid t of
        None \<Rightarrow> None
      | Some t \<Rightarrow>
          Some (case cl_ctxs t rid of
                  Some rc \<Rightarrow> update_ctx rid (Close_request (env_V E) (env_d E) rc) t
                | None \<Rightarrow> t))"

text \<open>
  One turn of \<^verbatim>\<open>streamOut\<close> on what the caller's channel yields (\<^term>\<open>None\<close> when it was closed), with
  whether the loop goes on; it blocks for credit and for a connection.
\<close>

definition streamOut_client ::
    "'v rpc_env \<Rightarrow> int64 \<Rightarrow> 'v option option \<Rightarrow> 'v rpcRequestCtx \<Rightarrow> 'v rpcClient \<Rightarrow> (bool \<times> 'v rpcClient) option" where
  "streamOut_client E rid item rc t =
     (let V = env_V E; d = env_d E;
          leave = (\<lambda>rc t. let (whole, rc) = TryPutClose V d rc; t = update_ctx rid rc t
                          in (False, if whole then unregister rid t else t))
      in if \<not> IsPutOpen rc then Some (leave rc t)
         else
           (case item of
              None \<Rightarrow>
                map_option (leave rc)
                  (conn_send (Puts V (EmptyMap V)
                     [(MessageTypeField d, MessageType_Long V StreamEnd), (RequestIdField d, Long V rid)]) t)
            | Some val \<Rightarrow>
                (let m = Put V (Puts V (EmptyMap V)
                       [(MessageTypeField d, MessageType_Long V StreamValue), (RequestIdField d, Long V rid)])
                       (ValueField d) val;
                     sent = (\<lambda>rc. map_option
                       (\<lambda>t. (True, log_event (ClientMetric (StreamValueMetric (Name V d rc))) (update_ctx rid rc t)))
                       (conn_send m t))
                 in case sendCredit rc of
                      None \<Rightarrow> sent rc
                    | Some g \<Rightarrow>
                        (case Acquire g of
                           None \<Rightarrow> None
                         | Some (False, _) \<Rightarrow> Some (leave rc t)
                         | Some (True, g) \<Rightarrow> sent (rc\<lparr>sendCredit := Some g\<rparr>)))))"

text \<open>The loop over what the caller's channel yields; \<^term>\<open>None\<close> when a turn blocks.\<close>

fun streamOut_loop ::
    "'v rpc_env \<Rightarrow> int64 \<Rightarrow> 'v option option list \<Rightarrow> 'v rpcClient \<Rightarrow> 'v rpcClient option" where
  "streamOut_loop E rid [] t = Some t"
| "streamOut_loop E rid (item # items) t =
     (case cl_ctxs t rid of
        None \<Rightarrow> None
      | Some rc \<Rightarrow>
          (case streamOut_client E rid item rc t of
             None \<Rightarrow> None
           | Some (True, t) \<Rightarrow> streamOut_loop E rid items t
           | Some (False, t) \<Rightarrow> Some t))"

section \<open>What a reconnect does to the requests in flight\<close>

text \<open>The request table, which connecting leaves alone when the server answers the handshake.\<close>

definition request_table ::
    "'v rpcClient \<Rightarrow> (int64 \<rightharpoonup> 'v rpcRequestCtx) \<times> int64 set \<times> int64 \<times> clientConfig" where
  "request_table t = (cl_ctxs t, cl_registered t, cl_lastRequest t, cl_cfg t)"

definition handshake_answered :: "'v rpc_env \<Rightarrow> 'v dial \<Rightarrow> bool" where
  "handshake_answered E D =
     (case dl_read D of
        Inl _ \<Rightarrow> True
      | Inr m \<Rightarrow>
          map_option (number_Long (env_V E)) (GetNumberField (env_V E) m (MessageTypeField (env_d E)))
            = Some HandshakeResponse)"

lemma log_event_simps [simp]:
  "request_table (log_event e t) = request_table t" "cl_conn (log_event e t) = cl_conn t"
  "cl_ctxs (log_event e t) = cl_ctxs t" "cl_registered (log_event e t) = cl_registered t"
  "cl_connecting (log_event e t) = cl_connecting t" "cl_lastRequest (log_event e t) = cl_lastRequest t"
  "cl_cfg (log_event e t) = cl_cfg t"
  by (simp_all add: log_event_def request_table_def)

lemma newConn_answered:
  assumes "handshake_answered E D"
  shows "(\<exists>err. newConn E D pick tok t = Some (Inl err, t)) \<or>
    (\<exists>c t'. newConn E D pick tok t = Some (Inr c, t') \<and> \<not> conn_done c \<and> request_table t' = request_table t \<and>
       cl_connecting t' = cl_connecting t \<and> cl_conn t' = cl_conn t)"
proof (cases "dl_read D")
  case (Inl err)
  then show ?thesis by (cases "dl_err D") (simp_all add: newConn_def)
next
  case (Inr m)
  then have "getResponseHandler E redial pick m t = Some (log_event (Connected m) (t\<lparr>cl_established := True\<rparr>))"
    for redial
    using assms by (auto simp: handshake_answered_def getResponseHandler_def)
  then show ?thesis
    using Inr by (cases "dl_err D") (simp_all add: newConn_def log_event_def request_table_def Let_def)
qed

lemma handshakeToken_table:
  assumes "handshakeToken rnd t = (r, t')"
  shows "request_table t' = request_table t \<and> cl_connecting t' = cl_connecting t \<and> cl_conn t' = cl_conn t"
  using assms
  by (auto simp: handshakeToken_def request_table_def Let_def split: option.splits sum.splits if_splits prod.splits)

lemma Connect_answered:
  assumes "handshake_answered E D" and "\<not> hasConn t" and "\<not> cl_connecting t"
  obtains (failed) err t' where "Connect E D pick t = Some (Some err, t')" "request_table t' = request_table t"
      "\<not> hasConn t'" "\<not> cl_connecting t'"
  | (connected) t' c where "Connect E D pick t = Some (None, t')" "request_table t' = request_table t"
      "cl_conn t' = Some c" "\<not> conn_done c"
proof -
  obtain r t1 where tok: "handshakeToken (dl_seed D) t = (r, t1)" by force
  note t1 = handshakeToken_table [OF tok]
  show ?thesis
  proof (cases r)
    case (Inl err)
    then show ?thesis
      using failed tok t1 assms(2,3) by (simp add: Connect_def ConnectContext_def hasConn_def)
  next
    case (Inr s)
    have conn: "Connect E D pick t = syncConn_connect E D pick s t1"
      using tok Inr assms(2) by (simp add: Connect_def ConnectContext_def)
    have t1': "\<not> hasConn t1" "\<not> cl_connecting t1" using t1 assms(2,3) by (simp_all add: hasConn_def)
    let ?u = "t1\<lparr>cl_connecting := True\<rparr>"
    consider err where "newConn E D pick s ?u = Some (Inl err, ?u)"
      | c t' where "newConn E D pick s ?u = Some (Inr c, t')" "\<not> conn_done c" "request_table t' = request_table ?u"
      using newConn_answered [OF assms(1), of pick s ?u] by blast
    then show ?thesis
    proof cases
      case 1
      then show ?thesis
        using conn failed t1 t1' by (simp add: syncConn_connect_def request_table_def hasConn_def)
    next
      case (2 c t')
      then show ?thesis
        using conn connected [of "t'\<lparr>cl_conn := Some c, cl_connecting := False\<rparr>" c] t1 t1'
        by (simp add: syncConn_connect_def request_table_def)
    qed
  qed
qed

lemma failRequest_table:
  assumes "cl_ctxs t rid = Some rc"
  shows "request_table (failRequest E err rid t) =
    ((cl_ctxs t)(rid \<mapsto> Close_request (env_V E) (env_d E) (SetError err rc)), cl_registered t - {rid},
     cl_lastRequest t, cl_cfg t)"
  using assms
  by (simp add: failRequest_def Let_def request_table_def unregister_def update_ctx_def)

definition lost :: "'v rpc_env \<Rightarrow> 'v rpcRequestCtx \<Rightarrow> 'v rpcRequestCtx" where
  "lost E rc = Close_request (env_V E) (env_d E) (SetError ErrConnectionLost rc)"

lemma fold_failRequest_table:
  assumes "distinct ids" and "\<And>i. i \<in> set ids \<Longrightarrow> cl_ctxs t i \<noteq> None"
  shows "request_table (fold (failRequest E ErrConnectionLost) ids t) =
    ((\<lambda>i. if i \<in> set ids then map_option (lost E) (cl_ctxs t i) else cl_ctxs t i),
     cl_registered t - set ids, cl_lastRequest t, cl_cfg t)"
  using assms
proof (induction ids arbitrary: t)
  case Nil
  then show ?case by (simp add: request_table_def)
next
  case (Cons i ids)
  obtain rc where rc: "cl_ctxs t i = Some rc" using Cons.prems(2) by force
  let ?t = "failRequest E ErrConnectionLost i t"
  have t: "cl_ctxs ?t = (cl_ctxs t)(i \<mapsto> lost E rc)" "cl_registered ?t = cl_registered t - {i}"
    "cl_lastRequest ?t = cl_lastRequest t" "cl_cfg ?t = cl_cfg t"
    using failRequest_table [OF rc, of E ErrConnectionLost] by (simp_all add: request_table_def lost_def)
  have "cl_ctxs ?t j \<noteq> None" if "j \<in> set ids" for j using Cons.prems(2) [of j] that t(1) by simp
  with Cons.IH [of ?t] Cons.prems(1)
  have "request_table (fold (failRequest E ErrConnectionLost) ids ?t) =
      ((\<lambda>j. if j \<in> set ids then map_option (lost E) (cl_ctxs ?t j) else cl_ctxs ?t j),
       cl_registered ?t - set ids, cl_lastRequest ?t, cl_cfg ?t)" by simp
  also have "\<dots> = ((\<lambda>j. if j \<in> set (i # ids) then map_option (lost E) (cl_ctxs t j) else cl_ctxs t j),
       cl_registered t - set (i # ids), cl_lastRequest t, cl_cfg t)"
    using t rc Cons.prems(1) by (auto simp: fun_eq_iff)
  finally show ?case by simp
qed

lemma fold_failRequest_conn:
  "cl_conn (fold (failRequest E err) ids t) = cl_conn t \<and> cl_connecting (fold (failRequest E err) ids t) = cl_connecting t"
proof (induction ids arbitrary: t)
  case (Cons i ids)
  have "cl_conn (failRequest E err i t) = cl_conn t \<and> cl_connecting (failRequest E err i t) = cl_connecting t"
    by (simp add: failRequest_def Let_def unregister_def update_ctx_def split: option.splits)
  then show ?case using Cons.IH by simp
qed simp

lemma resend_connected:
  assumes "cl_conn t = Some c" and "\<not> conn_done c" and "\<And>i. i \<in> set ids \<Longrightarrow> cl_ctxs t i \<noteq> None"
  shows "resend ids t =
    Some (t\<lparr>cl_conn := Some (c\<lparr>reqCh := reqCh c @ map (\<lambda>i. req (the (cl_ctxs t i))) ids\<rparr>)\<rparr>)"
  using assms
proof (induction ids arbitrary: t c)
  case Nil
  then show ?case by simp
next
  case (Cons i ids)
  obtain rc where rc: "cl_ctxs t i = Some rc" using Cons.prems(3) by force
  let ?c = "c\<lparr>reqCh := reqCh c @ [req rc]\<rparr>"
  have "conn_send (req rc) t = Some (t\<lparr>cl_conn := Some ?c\<rparr>)"
    using Cons.prems(1,2) by (simp add: conn_send_def SendRequest_def)
  with Cons.IH [of "t\<lparr>cl_conn := Some ?c\<rparr>" ?c] Cons.prems rc show ?case by simp
qed

lemma Reconnect_outcome:
  assumes "handshake_answered E D" and "\<not> cl_reconnecting t" and "\<not> cl_connecting t"
    and "finite (cl_registered t)" and "\<And>i. i \<in> cl_registered t \<Longrightarrow> cl_ctxs t i \<noteq> None"
  defines "fails \<equiv> fail_ids E t" and "replays \<equiv> replay_ids E t"
  obtains (down) err t' where "Reconnect E D pick t = Some (Some err, t')"
      "cl_ctxs t' = (\<lambda>i. if i \<in> set fails \<union> set replays then map_option (lost E) (cl_ctxs t i) else cl_ctxs t i)"
      "cl_registered t' = cl_registered t - set fails - set replays"
  | (up) t' c where "Reconnect E D pick t = Some (None, t')"
      "cl_ctxs t' = (\<lambda>i. if i \<in> set fails then map_option (lost E) (cl_ctxs t i) else cl_ctxs t i)"
      "cl_registered t' = cl_registered t - set fails" "cl_conn t' = Some c"
      "\<And>i. i \<in> set replays \<Longrightarrow> req (the (cl_ctxs t i)) \<in> set (reqCh c)"
proof -
  define u where "u = reset_conn (log_event (ClientMetric ReconnectMetric)
    (t\<lparr>cl_reconnecting := True, cl_reconnects := cl_reconnects t + 1\<rparr>))"
  define v where "v = fold (failRequest E ErrConnectionLost) fails u"
  have u: "cl_ctxs u = cl_ctxs t" "cl_registered u = cl_registered t" "fail_ids E u = fails" "replay_ids E u = replays"
    "cl_conn u = None" "cl_connecting u = cl_connecting t"
    by (simp_all add: u_def fails_def replays_def fail_ids_def replay_ids_def reset_conn_def log_event_def
        cong: option.case_cong)
  have ids: "distinct fails" "distinct replays" "set fails \<subseteq> cl_registered t" "set replays \<subseteq> cl_registered t"
    "set fails \<inter> set replays = {}"
    using assms(4) by (auto simp: fails_def replays_def fail_ids_def replay_ids_def split: option.splits)
  have v: "cl_ctxs v = (\<lambda>i. if i \<in> set fails then map_option (lost E) (cl_ctxs t i) else cl_ctxs t i)"
    "cl_registered v = cl_registered t - set fails"
  proof -
    have "cl_ctxs u i \<noteq> None" if "i \<in> set fails" for i using that ids(3) assms(5) u(1) by auto
    from fold_failRequest_table [OF ids(1) this, of E]
    show "cl_ctxs v = (\<lambda>i. if i \<in> set fails then map_option (lost E) (cl_ctxs t i) else cl_ctxs t i)"
      "cl_registered v = cl_registered t - set fails"
      unfolding v_def [symmetric] request_table_def u(1,2) by simp_all
  qed
  have conn: "\<not> hasConn v" "\<not> cl_connecting v"
    using fold_failRequest_conn [of E ErrConnectionLost fails u] u assms(3) by (simp_all add: v_def hasConn_def)
  have rec: "Reconnect E D pick t =
      (case Connect E D pick v of
         None \<Rightarrow> None
       | Some (Some err, t) \<Rightarrow>
           Some (Some err, (fold (failRequest E ErrConnectionLost) replays t)\<lparr>cl_reconnecting := False\<rparr>)
       | Some (None, t) \<Rightarrow> map_option (\<lambda>t. (None, t\<lparr>cl_reconnecting := False\<rparr>)) (resend replays t))"
    unfolding Reconnect_def Let_def u_def [symmetric] u(3,4) v_def [symmetric] using assms(2) by simp
  have some: "cl_ctxs v i \<noteq> None" "cl_ctxs v i = cl_ctxs t i" if "i \<in> set replays" for i
    using that ids assms(5) v(1) by auto
  show ?thesis
  proof (rule Connect_answered [OF assms(1) conn, of pick])
    fix err t1
    assume c: "Connect E D pick v = Some (Some err, t1)" "request_table t1 = request_table v"
    then have "cl_ctxs t1 = cl_ctxs v" "cl_registered t1 = cl_registered v" by (simp_all add: request_table_def)
    with fold_failRequest_table [OF ids(2), of t1 E] some(1)
    have "cl_ctxs (fold (failRequest E ErrConnectionLost) replays t1) =
        (\<lambda>i. if i \<in> set replays then map_option (lost E) (cl_ctxs v i) else cl_ctxs v i)"
      "cl_registered (fold (failRequest E ErrConnectionLost) replays t1) = cl_registered v - set replays"
      by (simp_all add: request_table_def cong: if_cong)
    then show ?thesis
      using rec c(1) v ids(5)
      by (intro down [of err "(fold (failRequest E ErrConnectionLost) replays t1)\<lparr>cl_reconnecting := False\<rparr>"])
         (auto simp: fun_eq_iff)
  next
    fix t1 c
    assume c: "Connect E D pick v = Some (None, t1)" "request_table t1 = request_table v" "cl_conn t1 = Some c" "\<not> conn_done c"
    then have t1: "cl_ctxs t1 = cl_ctxs v" "cl_registered t1 = cl_registered v" by (simp_all add: request_table_def)
    note r = resend_connected [OF c(3,4), of replays]
    let ?c = "c\<lparr>reqCh := reqCh c @ map (\<lambda>i. req (the (cl_ctxs t1 i))) replays\<rparr>"
    show ?thesis
      using rec c(1) r v t1 some
      by (intro up [of "t1\<lparr>cl_conn := Some ?c, cl_reconnecting := False\<rparr>" ?c]) auto
  qed
qed

section \<open>The retry loop\<close>

lemma jittered_bounds:
  assumes "0 < sint d"
  shows "0 \<le> sint (jittered jit rnd d)" and "sint (jittered jit rnd d) \<le> sint d"
    and "jit \<Longrightarrow> sint d div 2 \<le> sint (jittered jit rnd d)"
proof -
  let ?h = "sint d div 2" and ?r = "sint rnd mod (sint d div 2 + 1)"
  have d: "sint d < 2 ^ 63" using sint_lt [of d] by simp
  have r: "0 \<le> ?r" "?r \<le> ?h" using assms pos_mod_bound [of "?h + 1" "sint rnd"] by auto
  have hr: "0 \<le> ?h + ?r" "?h + ?r \<le> sint d" using r assms by auto
  have "sint (word_of_int ?r :: int64) = ?r" using r d hr assms by (intro sint_of_int64) linarith+
  moreover have "sint (div64 d 2) = ?h" using assms by (simp add: sint_div64_2)
  ultimately have "sint (div64 d 2 + word_of_int ?r) = ?h + ?r"
    using hr d sint_add_no_overflow [of "div64 d 2" "word_of_int ?r"] by linarith
  then show "0 \<le> sint (jittered jit rnd d)" and "sint (jittered jit rnd d) \<le> sint d"
    and "jit \<Longrightarrow> sint d div 2 \<le> sint (jittered jit rnd d)"
    using assms hr r by (simp_all add: jittered_def sint_div64_2)
qed

declare retry_loop.simps [simp del]

lemma retry_loop_exhausted:
  "0 \<le> MaxAttempts p \<Longrightarrow> MaxAttempts p < attempt \<Longrightarrow> retry_loop E p pick attempt delay M evs t = Some ([], t)"
  by (simp add: retry_loop.simps)

lemma retry_loop_closed: "retry_loop E p pick attempt delay M (RetryClosed # evs) t = Some ([], t)"
  by (simp add: retry_loop.simps)

lemma retry_loop_dial:
  assumes "attempt \<le> MaxAttempts p"
  shows "retry_loop E p pick attempt delay M (RetryDial rnd D # evs) t =
    (if cl_shuttingDown t then Some ([jittered (Jitter p) rnd delay], t)
     else
       (case Connect E D pick (log_event (ClientMetric ReconnectMetric) (t\<lparr>cl_reconnects := cl_reconnects t + 1\<rparr>)) of
          None \<Rightarrow> None
        | Some (None, t) \<Rightarrow> Some ([jittered (Jitter p) rnd delay], t)
        | Some (Some err, t) \<Rightarrow>
            map_option (map_prod ((#) (jittered (Jitter p) rnd delay)) id)
              (retry_loop E p pick (attempt + 1) (if sint (delay * 2) > sint M then M else delay * 2) M evs t)))"
  unfolding retry_loop.simps [of _ _ _ attempt] Let_def using assms by simp

definition dials_answered :: "'v rpc_env \<Rightarrow> 'v retry_event list \<Rightarrow> bool" where
  "dials_answered E evs =
     list_all (\<lambda>ev. case ev of RetryClosed \<Rightarrow> True | RetryDial _ D \<Rightarrow> handshake_answered E D) evs"

text \<open>
  The pause before attempt \<open>i\<close> (counting from zero): the first is the initial back-off as it is, every further
  one doubles it, up to the maximum. Equal jitter takes at least half of it.
\<close>

definition nominal_pause :: "int \<Rightarrow> int \<Rightarrow> nat \<Rightarrow> int" where
  "nominal_pause d M i = (if i = 0 then d else min M (d * 2 ^ i))"

definition pause_ok :: "bool \<Rightarrow> int \<Rightarrow> int64 \<Rightarrow> bool" where
  "pause_ok jit d x \<longleftrightarrow> (if jit then d div 2 \<le> sint x \<and> sint x \<le> d else sint x = d)"

definition pauses_ok :: "bool \<Rightarrow> int \<Rightarrow> int \<Rightarrow> int64 list \<Rightarrow> bool" where
  "pauses_ok jit d M ds \<longleftrightarrow> (\<forall>i<length ds. pause_ok jit (nominal_pause d M i) (ds ! i))"

lemma pause_ok_jittered:
  assumes "0 < sint d"
  shows "pause_ok jit (sint d) (jittered jit rnd d)"
  using jittered_bounds [OF assms, of jit rnd] by (cases jit) (simp_all add: pause_ok_def jittered_def)

lemma nominal_pause_Suc:
  assumes "0 < d" and "0 < M"
  shows "nominal_pause (min M (d * 2)) M i = nominal_pause d M (Suc i)"
proof (cases "M \<le> d * 2")
  case True
  have "M * 1 \<le> M * 2 ^ i" "d * 2 * 1 \<le> d * 2 * 2 ^ i" using assms by (intro mult_left_mono; simp)+
  with True show ?thesis by (simp add: nominal_pause_def mult.assoc)
qed (simp add: nominal_pause_def mult.assoc)

lemma pauses_ok_Cons:
  assumes "pause_ok jit d x" and "pauses_ok jit (min M (d * 2)) M ds" and "0 < d" and "0 < M"
  shows "pauses_ok jit d M (x # ds)"
proof -
  have "pause_ok jit (nominal_pause d M i) ((x # ds) ! i)" if "i < length (x # ds)" for i
    using that assms nominal_pause_Suc [OF assms(3,4)] by (cases i) (auto simp: pauses_ok_def nominal_pause_def)
  then show ?thesis by (simp add: pauses_ok_def)
qed

lemma retry_loop_bounded:
  assumes "dials_answered E evs"
    and "\<not> hasConn t" and "\<not> cl_connecting t" and "0 < sint delay" and "sint delay < 2 ^ 62" and "0 < sint M" and "sint M < 2 ^ 62"
    and "0 \<le> MaxAttempts p" and "1 \<le> attempt" and "attempt \<le> MaxAttempts p + 1"
    and "MaxAttempts p + 1 - attempt \<le> int (length evs)"
  shows "\<exists>ds t'. retry_loop E p pick attempt delay M evs t = Some (ds, t') \<and>
    int (length ds) \<le> MaxAttempts p + 1 - attempt \<and> pauses_ok (Jitter p) (sint delay) (sint M) ds"
  using assms
proof (induction evs arbitrary: attempt delay t)
  case Nil
  then show ?case by (auto simp: retry_loop_exhausted pauses_ok_def)
next
  case (Cons ev evs)
  show ?case
  proof (cases "attempt \<le> MaxAttempts p")
    case False
    then show ?thesis using Cons.prems by (auto simp: retry_loop_exhausted pauses_ok_def)
  next
    case True
    show ?thesis
    proof (cases ev)
      case RetryClosed
      then show ?thesis using True by (simp add: retry_loop_closed pauses_ok_def)
    next
      case (RetryDial rnd D)
      let ?u = "log_event (ClientMetric ReconnectMetric) (t\<lparr>cl_reconnects := cl_reconnects t + 1\<rparr>)"
      let ?delay = "if sint (delay * 2) > sint M then M else delay * 2"
      let ?d = "jittered (Jitter p) rnd delay"
      have d: "pause_ok (Jitter p) (sint delay) ?d" by (rule pause_ok_jittered [OF Cons.prems(4)])
      then have one: "pauses_ok (Jitter p) (sint delay) (sint M) [?d]" by (simp add: pauses_ok_def nominal_pause_def)
      have delay: "sint ?delay = min (sint M) (sint delay * 2)"
        using sint_double [of delay] Cons.prems(4,5) by auto
      have u: "\<not> hasConn ?u" "\<not> cl_connecting ?u" using Cons.prems(2,3) by (simp_all add: hasConn_def)
      have answered: "handshake_answered E D" using Cons.prems(1) RetryDial by (simp add: dials_answered_def)
      show ?thesis
      proof (rule Connect_answered [OF answered u, of pick])
        fix err t1
        assume c: "Connect E D pick ?u = Some (Some err, t1)" "\<not> hasConn t1" "\<not> cl_connecting t1"
        have rest: "dials_answered E evs" using Cons.prems(1) by (simp add: dials_answered_def)
        have bounds: "0 < sint ?delay" "sint ?delay < 2 ^ 62" using Cons.prems(4,6,7) unfolding delay by auto
        have att: "1 \<le> attempt + 1" "attempt + 1 \<le> MaxAttempts p + 1" "MaxAttempts p + 1 - (attempt + 1) \<le> int (length evs)"
          using Cons.prems(9,11) True by auto
        obtain ds t' where ds: "retry_loop E p pick (attempt + 1) ?delay M evs t1 = Some (ds, t')"
          "int (length ds) \<le> MaxAttempts p + 1 - (attempt + 1)" "pauses_ok (Jitter p) (sint ?delay) (sint M) ds"
          using Cons.IH [OF rest c(2,3) bounds Cons.prems(6-8) att] by blast
        from ds(3) have "pauses_ok (Jitter p) (sint delay) (sint M) (?d # ds)"
          unfolding delay by (rule pauses_ok_Cons [OF d _ Cons.prems(4,6)])
        then show ?thesis using True RetryDial c(1) ds(1,2) one by (simp add: retry_loop_dial)
      next
        fix t1 cn
        assume "Connect E D pick ?u = Some (None, t1)"
        then show ?thesis using True RetryDial one by (simp add: retry_loop_dial)
      qed
    qed
  qed
qed

section \<open>Properties\<close>

text \<open>
  C36. Retrying a lost connection ends, whatever the policy's back-offs are (the defaults where they are not
  positive; both below \<open>2 ^ 62\<close> nanoseconds, 146 years, so that doubling does not wrap). With a bound on the
  attempts, and when every dial fails or is answered with a handshake response, the loop returns after at most
  that many attempts. The first pause is the initial back-off, which the maximum does not cap; pause \<open>i\<close> is the
  initial back-off doubled \<open>i\<close> times but at most the maximum; jitter only shortens a pause, to no less than
  half. And the loop stops at once when the client is closed.
\<close>

theorem retry_ends_within_bounds:
  fixes t :: "'v rpcClient"
  defines "p \<equiv> cc_reconnect (cl_cfg t)"
  defines "d \<equiv> sint (if sint (InitialBackoff p) \<le> 0 then DefaultInitialBackoff else InitialBackoff p)"
    and "M \<equiv> sint (if sint (MaxBackoff p) \<le> 0 then DefaultMaxBackoff else MaxBackoff p)"
  assumes "dials_answered E evs"
    and "\<not> hasConn t" and "\<not> cl_connecting t" and "0 < MaxAttempts p" and "MaxAttempts p \<le> int (length evs)"
    and "sint (InitialBackoff p) < 2 ^ 62" and "sint (MaxBackoff p) < 2 ^ 62"
  shows "\<exists>ds t'. retryReconnect E pick evs t = Some (ds, t') \<and> int (length ds) \<le> MaxAttempts p \<and>
    (\<forall>i<length ds.
       let pause = (if i = 0 then d else min M (d * 2 ^ i))
       in if Jitter p then pause div 2 \<le> sint (ds ! i) \<and> sint (ds ! i) \<le> pause else sint (ds ! i) = pause) \<and>
    retryReconnect E pick (RetryClosed # evs) t = Some ([], t)"
proof -
  let ?d = "if sint (InitialBackoff p) \<le> 0 then DefaultInitialBackoff else InitialBackoff p"
  let ?M = "if sint (MaxBackoff p) \<le> 0 then DefaultMaxBackoff else MaxBackoff p"
  have r: "retryReconnect E pick es t = retry_loop E p pick 1 ?d ?M es t" for es
    using assms(7) by (simp add: retryReconnect_def Let_def p_def [symmetric])
  have b: "0 < sint ?d" "sint ?d < 2 ^ 62" "0 < sint ?M" "sint ?M < 2 ^ 62"
    using assms(9,10) by (simp_all add: DefaultInitialBackoff_def DefaultMaxBackoff_def)
  obtain ds t' where "retry_loop E p pick 1 ?d ?M evs t = Some (ds, t')"
    "int (length ds) \<le> MaxAttempts p + 1 - 1" "pauses_ok (Jitter p) (sint ?d) (sint ?M) ds"
    using retry_loop_bounded [where p = p and attempt = 1 and pick = pick and evs = evs, OF assms(4-6) b]
      assms(7,8) by force
  then show ?thesis
    unfolding r d_def M_def by (auto simp: retry_loop_closed pauses_ok_def pause_ok_def nominal_pause_def Let_def)
qed

definition sample_policy :: ReconnectPolicy where
  "sample_policy = \<lparr>ReplayUnary = None, InitialBackoff = 100, MaxBackoff = 400, MaxAttempts = 2, Jitter = True\<rparr>"

definition refused :: "gval dial" where
  "refused = \<lparr>dl_seed = Inr (replicate 32 0), dl_err = Some io_EOF, dl_read = Inl io_EOF\<rparr>"

lemma refused_answered [simp]: "handshake_answered E refused"
  by (simp add: handshake_answered_def refused_def)

theorem retry_ends_within_bounds_witness:
  "\<exists>ds t'. retryReconnect sample_env True [RetryDial 3 refused, RetryDial 8 refused]
     (NewClientWithDialer 7 [WithReconnectPolicy sample_policy]) = Some (ds, t') \<and> length ds \<le> 2"
proof -
  let ?t = "NewClientWithDialer 7 [WithReconnectPolicy sample_policy] :: gval rpcClient"
  have t: "\<not> hasConn ?t" "\<not> cl_connecting ?t" "cc_reconnect (cl_cfg ?t) = sample_policy"
    by (simp_all add: NewClientWithDialer_def newClientConfig_def WithReconnectPolicy_def hasConn_def Let_def)
  have "dials_answered sample_env [RetryDial 3 refused, RetryDial 8 refused]" by (simp add: dials_answered_def)
  from retry_ends_within_bounds [where pick = True, OF this t(1,2)] show ?thesis
    unfolding t(3) by (auto simp: sample_policy_def)
qed

text \<open>
  C14. Reconnecting disposes of every request that was in flight: one that may not be replayed is
  failed with \<^verbatim>\<open>ErrConnectionLost\<close>, closed and retired; one that may is sent again on the new
  connection and stays in flight, or is failed like the others when there is no new connection.
\<close>

theorem reconnect_disposes_of_requests:
  assumes "handshake_answered E D" and "\<not> cl_reconnecting t" and "\<not> cl_connecting t"
    and "finite (cl_registered t)" and "\<And>i. i \<in> cl_registered t \<Longrightarrow> cl_ctxs t i \<noteq> None"
    and "k \<in> cl_registered t" and "cl_ctxs t k = Some rc" and "sint k \<le> sint (cl_lastRequest t)"
  shows "\<exists>err t'. Reconnect E D pick t = Some (err, t') \<and>
    (if err = None \<and> replayable E (cc_reconnect (cl_cfg t)) rc
     then k \<in> cl_registered t' \<and> cl_ctxs t' k = Some rc \<and>
          (\<exists>c. cl_conn t' = Some c \<and> req rc \<in> set (reqCh c))
     else k \<notin> cl_registered t' \<and>
          cl_ctxs t' k = Some (Close_request (env_V E) (env_d E) (SetError ErrConnectionLost rc)))"
proof -
  have k: "k \<in> set (fail_ids E t) \<longleftrightarrow> \<not> replayable E (cc_reconnect (cl_cfg t)) rc"
    "k \<in> set (replay_ids E t) \<longleftrightarrow> replayable E (cc_reconnect (cl_cfg t)) rc"
    using assms(4,6-8) by (auto simp: fail_ids_def replay_ids_def)
  show ?thesis
  proof (rule Reconnect_outcome [OF assms(1-5), of pick])
    fix err t'
    assume "Reconnect E D pick t = Some (Some err, t')"
      "cl_ctxs t' = (\<lambda>i. if i \<in> set (fail_ids E t) \<union> set (replay_ids E t) then map_option (lost E) (cl_ctxs t i) else cl_ctxs t i)"
      "cl_registered t' = cl_registered t - set (fail_ids E t) - set (replay_ids E t)"
    then show ?thesis using k assms(7) by (auto simp: lost_def)
  next
    fix t' c
    assume a: "Reconnect E D pick t = Some (None, t')"
      "cl_ctxs t' = (\<lambda>i. if i \<in> set (fail_ids E t) then map_option (lost E) (cl_ctxs t i) else cl_ctxs t i)"
      "cl_registered t' = cl_registered t - set (fail_ids E t)" "cl_conn t' = Some c"
      "\<And>i. i \<in> set (replay_ids E t) \<Longrightarrow> req (the (cl_ctxs t i)) \<in> set (reqCh c)"
    then show ?thesis using k a(5) [of k] assms(6,7) by (auto simp: lost_def)
  qed
qed


definition sample_flight :: "gval rpcClient" where
  "sample_flight = newRequestCtx sample_env 1 unaryKind (GMap [(''fn'', GUtf8 ''f'')]) 1
     ((NewClientWithDialer 7 [])\<lparr>cl_lastRequest := 1\<rparr>)"

theorem reconnect_disposes_of_requests_witness:
  "\<exists>err t'. Reconnect sample_env refused True sample_flight = Some (err, t') \<and> 1 \<notin> cl_registered t'"
proof -
  have f: "cl_registered sample_flight = {1}" "\<exists>rc. cl_ctxs sample_flight 1 = Some rc"
    "cl_lastRequest sample_flight = 1" "\<not> cl_reconnecting sample_flight" "\<not> cl_connecting sample_flight"
    "ReplayUnary (cc_reconnect (cl_cfg sample_flight)) = None"
    by (simp_all add: sample_flight_def newRequestCtx_def update_ctx_def log_event_def NewClientWithDialer_def
        newClientConfig_def Let_def)
  obtain rc where rc: "cl_ctxs sample_flight 1 = Some rc" using f(2) by blast
  have "\<not> replayable sample_env (cc_reconnect (cl_cfg sample_flight)) rc" using f(6) by (simp add: replayable_def)
  then show ?thesis
    using reconnect_disposes_of_requests [of sample_env refused sample_flight 1 rc True] f rc by auto
qed

section \<open>Requests that stay behind\<close>

text \<open>Closing the client leaves the requests in flight as they are: no result channel is closed.\<close>

lemma Close_keeps_requests:
  "cl_ctxs (Close_rpcClient t) = cl_ctxs t \<and> cl_registered (Close_rpcClient t) = cl_registered t \<and>
   \<not> hasConn (Close_rpcClient t)"
  by (simp add: Close_rpcClient_def reset_conn_def hasConn_def)

text \<open>A call whose connection is lost after the check waits for the next connection, whatever its deadline.\<close>

lemma lost_connection_blocks_call:
  assumes "hasConn t"
  shows "invokeUnary_begin E D pick reset_conn ctx name args t = None"
  using assms
  by (simp add: invokeUnary_begin_def start_call_def sendRequest_def ensureConnection_def conn_send_def
      reset_conn_def Let_def)

text \<open>A call that timed out stays registered until a late reply arrives.\<close>

lemma timed_out_stays_registered:
  assumes "rid \<in> cl_registered t" and "hasConn t" and "cl_ctxs t rid = Some rc"
  shows "\<exists>t'. invokeUnary_end E redial rid (TimerFired None) t =
      Some (Inl (the (Error_of rc (Some ErrTimeoutError))), t') \<and>
    rid \<in> cl_registered t'"
  using assms
  by (auto simp: invokeUnary_end_def await_response_def SingleResp_def CancelRequest_client_def
      sendSystemRequest_def conn_send_def hasConn_def update_ctx_def Let_def)

end
