(* ===== verification/Round_Trip.thy ===== *)
theory Round_Trip
  imports Server Client
begin

text \<open>
  Client and server together: what a call on one side does on the other. The message the client
  queues is the message the session processes, and the reply the session queues is the message the
  client's response handler gets; transport and framing in between are \<^verbatim>\<open>Framing\<close>.
\<close>

section \<open>The request\<close>

text \<open>The message a call queues: the request of \<^const>\<open>constructRequest\<close> with the next id.\<close>

definition call_message ::
    "'v rpc_env \<Rightarrow> call_ctx \<Rightarrow> MessageType \<Rightarrow> string \<Rightarrow> 'v option \<Rightarrow> 'v rpcClient \<Rightarrow> 'v" where
  "call_message E ctx mt name args c =
     Put (env_V E) (constructRequest E ctx mt name args (effectiveTimeout ctx c) c)
       (RequestIdField (env_d E)) (Some (Long (env_V E) (cl_lastRequest c + 1)))"

lemma call_fields:
  assumes laws: "value_laws (env_V E)" and wf: "wf_dialect (env_d E)"
  shows "GetNumberField (env_V E) (call_message E ctx mt name (Some a) c) (MessageTypeField (env_d E)) =
      Some (Long (env_V E) mt)"
    and "GetNumberField (env_V E) (call_message E ctx mt name (Some a) c) (RequestIdField (env_d E)) =
      Some (Long (env_V E) (cl_lastRequest c + 1))"
    and "GetStringField (env_V E) (call_message E ctx mt name (Some a) c) (FunctionNameField (env_d E)) =
      Some (Utf8 (env_V E) name)"
    and "Get (env_V E) (call_message E ctx mt name (Some a) c) (ArgumentsField (env_d E)) = Some a"
  using wf
  by (auto simp: call_message_def constructRequest_def MessageType_Long_def Let_def wf_fields
      value_laws.msg_simps [OF laws] split: option.splits)

lemma start_call_connected:
  assumes "cl_conn c = Some k" and "\<not> conn_done k"
  shows "start_call E D pick (\<lambda>t. t) mt sk cap ctx name args c =
    Some (Inr (cl_lastRequest c + 1),
      (newRequestCtx E (cl_lastRequest c + 1) sk (call_message E ctx mt name args c) cap
         (c\<lparr>cl_lastRequest := cl_lastRequest c + 1\<rparr>))
      \<lparr>cl_conn := Some (k\<lparr>reqCh := reqCh k @ [call_message E ctx mt name args c]\<rparr>)\<rparr>)"
  using assms
  by (simp add: start_call_def sendRequest_def ensureConnection_def hasConn_def newRequestCtx_def update_ctx_def
      conn_send_def SendRequest_def log_event_def call_message_def Let_def)

section \<open>Serving it\<close>

text \<open>What the handler's outcome becomes on the wire, and what the caller gets for it.\<close>

definition unary_reply :: "'v rpc_env \<Rightarrow> 'v \<Rightarrow> string \<Rightarrow> 'v option outcome \<Rightarrow> 'v" where
  "unary_reply E rid name out =
     (case out of
        Returned res \<Rightarrow> FunctionResult (env_V E) (env_d E) rid res
      | Failed err \<Rightarrow> handlerError (env_V E) (env_d E) rid (''function '' @ name) err
      | Panicked \<Rightarrow> rid)"

definition call_result :: "'v value_api \<Rightarrow> string \<Rightarrow> 'v option outcome \<Rightarrow> gerror + 'v option" where
  "call_result V name out =
     (case out of
        Returned res \<Rightarrow>
          Inr (case res of None \<Rightarrow> None | Some v \<Rightarrow> if Kind V v = NULL then None else Some v)
      | Failed err \<Rightarrow>
          Inl (RpcError (handlerErrCode err)
            (''function '' @ name @ '': '' @ (case err of RpcError _ msg \<Rightarrow> msg | _ \<Rightarrow> Error_text err)))
      | Panicked \<Rightarrow> Inl ErrNoResponse)"

lemma processRequest_new:
  assumes "value_laws (env_V E)"
    and "GetNumberField (env_V E) m (MessageTypeField (env_d E)) = Some (Long (env_V E) mt)"
    and "GetNumberField (env_V E) m (RequestIdField (env_d E)) = Some (Long (env_V E) rid)"
    and "sc_pendingStreams t rid = None" and "sc_requestMap t rid = None"
    and "sint (maxConcurrentRequests (sc_cfg t)) \<le> 0 \<or>
         sint (sc_inFlight t + 1) \<le> sint (maxConcurrentRequests (sc_cfg t))"
    and "(mt, ft) \<in> {(FunctionRequest, singleFunction), (GetStreamRequest, outgoingStream),
       (PutStreamRequest, incomingStream), (ChatRequest, chat)}"
  shows "processRequest E pick m t =
    Some (None, t\<lparr>sc_inFlight := sc_inFlight t + 1, sc_workers := sc_workers t @ [Started ft m]\<rparr>)"
proof -
  have slot: "\<not> (0 < sint (maxConcurrentRequests (sc_cfg t)) \<and>
      sint (maxConcurrentRequests (sc_cfg t)) < sint (sc_inFlight t + 1))"
    using assms(6) by linarith
  have "serveNewRequest E mt m t =
      (None, t\<lparr>sc_inFlight := sc_inFlight t + 1, sc_workers := sc_workers t @ [Started ft m]\<rparr>)"
    using assms(7) slot by (elim insertE emptyE) (auto simp: serveNewRequest_def mt_defs Let_def)
  moreover have "mt \<notin> {FunctionResponse, ErrorResponse, CancelRequest}"
    using assms(7) by (elim insertE emptyE) (simp_all add: mt_defs)
  ultimately show ?thesis
    using assms(1-5) by (simp add: processRequest_def findPendingStream_def findServingRequest_def value_laws.Long_Long Let_def)
qed

lemma serve_call:
  assumes "value_laws (env_V E)"
    and "GetNumberField (env_V E) m (RequestIdField (env_d E)) = Some rid"
    and "GetStringField (env_V E) m (FunctionNameField (env_d E)) = Some (Utf8 (env_V E) name)"
    and "Get (env_V E) m (ArgumentsField (env_d E)) = args"
    and "F name = Some fn" and "fn_ft fn = singleFunction" and "Verify (env_V E) args (fn_args fn)"
    and "\<And>ctx. fn_single fn ctx args = out" and "out \<noteq> Panicked"
    and "\<And>res. out = Returned res \<Longrightarrow> Verify (env_V E) res (fn_res fn)" and "\<not> sc_done t"
  shows "sc_outgoingQueue (serveFunctionRequest E F singleFunction m t) =
    sc_outgoingQueue t @ [unary_reply E rid name out]"
proof -
  have name: "string_String (env_V E) (Utf8 (env_V E) name) = name" by (rule value_laws.String_Utf8 [OF assms(1)])
  have "admit E F singleFunction m u = Inr (rid, name, fn, args)" for u
    using assms(2-7) name by (simp add: admit_def findFunction_def Let_def)
  then show ?thesis
    using assms(6,8-11)
    by (cases out)
       (simp_all add: serveFunctionRequest_def start_worker_def run_worker_def run_handler_def finish_worker_def
         unary_reply_def record_metric_def send_def Let_def)
qed

section \<open>The reply\<close>

text \<open>What a receive on the result channel of a unary request yields; \<^term>\<open>None\<close> while it waits.\<close>

definition channel_event :: "'v rpcRequestCtx \<Rightarrow> 'v resp_event option" where
  "channel_event rc =
     (case resultCh rc of
        v # _ \<Rightarrow> Some (ResultReceived v)
      | [] \<Rightarrow> if resultCloses rc > 0 then Some ResultClosed else None)"

lemma result_fields:
  assumes laws: "value_laws (env_V E)" and wf: "wf_dialect (env_d E)"
  shows "GetNumberField (env_V E) (FunctionResult (env_V E) (env_d E) (Long (env_V E) rid) res) (MessageTypeField (env_d E)) =
      Some (Long (env_V E) FunctionResponse)"
    and "GetNumberField (env_V E) (FunctionResult (env_V E) (env_d E) (Long (env_V E) rid) res) (RequestIdField (env_d E)) =
      Some (Long (env_V E) rid)"
    and "Get (env_V E) (FunctionResult (env_V E) (env_d E) (Long (env_V E) rid) res) (ResultField (env_d E)) =
      Some (case res of None \<Rightarrow> Null (env_V E) | Some v \<Rightarrow> v)"
  using wf
  by (auto simp: FunctionResult_def MessageType_Long_def Let_def wf_fields value_laws.msg_simps [OF laws]
      split: option.splits)

text \<open>A unary request that has had no response yet.\<close>

definition waiting :: "int64 \<Rightarrow> 'v rpcRequestCtx \<Rightarrow> bool" where
  "waiting rid rc \<longleftrightarrow> requestId rc = rid \<and> resultPump rc = None \<and> resultCloses rc = 0 \<and> resultCh rc = [] \<and>
     resultCap rc = 1 \<and> \<not> done_closed rc \<and> \<not> closeOnce rc"

lemma waiting_new: "waiting rid ((NewRequestCtx rid unaryKind m 1 mp g)\<lparr>metrics := b\<rparr>)"
  by (simp add: waiting_def NewRequestCtx_def Let_def)

lemma Close_request_unary:
  assumes "resultPump rc = None" and "\<not> closeOnce rc"
  shows "resultCh (Close_request V d rc) = resultCh rc" "resultCloses (Close_request V d rc) = resultCloses rc + 1"
    "resultErr (Close_request V d rc) = resultErr rc"
  using assms by (simp_all add: Close_request_def closeResult_def Let_def)

lemma handle_result:
  assumes laws: "value_laws (env_V E)" and wf: "wf_dialect (env_d E)"
    and "cl_ctxs c rid = Some rc" and "waiting rid rc" and "rid \<in> cl_registered c" and "cl_servingMap c rid = None"
  shows "getResponseHandler E redial pick (FunctionResult (env_V E) (env_d E) (Long (env_V E) rid) res) c =
    Some (unregister rid (update_ctx rid (Close_request (env_V E) (env_d E)
      (rc\<lparr>resultCh := [case res of None \<Rightarrow> None | Some v \<Rightarrow> if Kind (env_V E) v = NULL then None else Some v]\<rparr>)) c))"
  using assms(3-6)
  by (auto simp: getResponseHandler_def result_fields [OF laws wf] value_laws.value_simps [OF laws] mt_defs Let_def
      processResponse_def waiting_def notifyResult_def split: option.splits)

lemma handle_error:
  assumes laws: "value_laws (env_V E)" and wf: "wf_dialect (env_d E)"
    and "cl_ctxs c rid = Some rc" and "waiting rid rc" and "rid \<in> cl_registered c" and "cl_servingMap c rid = None"
  shows "\<exists>c2. getResponseHandler E redial pick (FunctionError (env_V E) (env_d E) (Long (env_V E) rid) code msg) c = Some c2 \<and>
    cl_ctxs c2 rid = Some (Close_request (env_V E) (env_d E) (SetError (RpcError code msg) rc)) \<and>
    rid \<notin> cl_registered c2 \<and> cl_conn c2 = cl_conn c \<and> cl_lastRequest c2 = cl_lastRequest c \<and>
    cl_servingMap c2 = cl_servingMap c \<and>
    (\<forall>i. i \<noteq> rid \<longrightarrow> cl_ctxs c2 i = cl_ctxs c i \<and> (i \<in> cl_registered c2 \<longleftrightarrow> i \<in> cl_registered c))"
proof -
  let ?m = "FunctionError (env_V E) (env_d E) (Long (env_V E) rid) code msg"
  note fields = value_laws.error_response_fields [OF laws wf value_laws.Kind_Long [OF laws],
      folded FunctionError_NewFunctionError]
  have "Get (env_V E) ?m (ErrorField (env_d E)) = Some (Utf8 (env_V E) msg)"
    using fields(4) [of rid code msg] by (simp add: GetStringField_def split: option.splits if_splits)
  from value_laws.GetString_Get [OF laws this]
  have "map_GetString (env_V E) ?m (ErrorField (env_d E)) = Some (Utf8 (env_V E) msg)"
    by (simp add: value_laws.Kind_Utf8 [OF laws])
  then show ?thesis
    using assms(3-6)
    by (auto simp: getResponseHandler_def fields value_laws.value_simps [OF laws] mt_defs Let_def
        processResponse_def waiting_def log_event_def update_ctx_def unregister_def)
qed

section \<open>The caller\<close>

lemma caller_gets:
  assumes laws: "value_laws (env_V E)" and wf: "wf_dialect (env_d E)"
    and "cl_ctxs c rid = Some rc" and "waiting rid rc" and "rid \<in> cl_registered c" and "cl_servingMap c rid = None"
    and "out \<noteq> Panicked"
  shows "\<exists>c2 rc2 ev c3.
    getResponseHandler E redial pick (unary_reply E (Long (env_V E) rid) name out) c = Some c2 \<and>
    cl_ctxs c2 rid = Some rc2 \<and> channel_event rc2 = Some ev \<and>
    invokeUnary_end E redial rid ev c2 = Some (call_result (env_V E) name out, c3) \<and> rid \<notin> cl_registered c3"
proof (cases out)
  case (Returned res)
  let ?r = "case res of None \<Rightarrow> None | Some v \<Rightarrow> if Kind (env_V E) v = NULL then None else Some v"
  let ?rc = "Close_request (env_V E) (env_d E) (rc\<lparr>resultCh := [?r]\<rparr>)"
  have "channel_event ?rc = Some (ResultReceived ?r)"
    using assms(4) by (simp add: channel_event_def Close_request_unary waiting_def)
  then show ?thesis
    using Returned handle_result [OF assms(1-6), of redial pick res]
    by (simp add: unary_reply_def call_result_def invokeUnary_end_def await_response_def SingleResp_def
        unregister_def update_ctx_def)
next
  case (Failed err)
  let ?e = "RpcError (handlerErrCode err)
    (''function '' @ name @ '': '' @ (case err of RpcError _ msg \<Rightarrow> msg | _ \<Rightarrow> Error_text err))"
  let ?rc = "Close_request (env_V E) (env_d E) (SetError ?e rc)"
  have u: "resultPump (SetError ?e rc) = None" "\<not> closeOnce (SetError ?e rc)"
    using assms(4) by (simp_all add: waiting_def SetError_def)
  have "channel_event ?rc = Some ResultClosed" "resultErr ?rc = Some ?e"
    using assms(4) by (simp_all only: channel_event_def Close_request_unary [OF u]) (simp_all add: waiting_def SetError_def)
  then show ?thesis
    using Failed handle_error [OF assms(1-6), of redial pick "handlerErrCode err"
        "''function '' @ name @ '': '' @ (case err of RpcError _ msg \<Rightarrow> msg | _ \<Rightarrow> Error_text err)"]
    by (auto simp: unary_reply_def handlerError_def call_result_def invokeUnary_end_def await_response_def
        SingleResp_def Error_of_def update_ctx_def)
qed (use assms(7) in simp)

section \<open>A call, end to end\<close>

lemma newRequestCtx_fields:
  assumes "c1 = (newRequestCtx E rid unaryKind m 1 c)\<lparr>cl_conn := k\<rparr>"
  shows "\<exists>rc. cl_ctxs c1 rid = Some rc \<and> waiting rid rc" "rid \<in> cl_registered c1"
    "cl_servingMap c1 = cl_servingMap c"
  using assms waiting_new by (auto simp: newRequestCtx_def update_ctx_def log_event_def Let_def)

text \<open>
  C5. A unary call on a live connection, served by a session with a free slot: the client queues one
  request, the session starts one worker for it, the worker queues one reply, and the client's caller
  gets exactly what the handler returned (a null result is Go's nil) or the handler's error with its
  code, after which the request is no longer registered. The reply is handled whatever else the
  session and the client have in flight.
\<close>

theorem unary_call_round_trip:
  assumes laws: "value_laws (env_V E)" and wf: "wf_dialect (env_d E)"
    and conn: "cl_conn c = Some k" "\<not> conn_done k" and "cl_servingMap c (cl_lastRequest c + 1) = None"
    and free: "sc_pendingStreams t (cl_lastRequest c + 1) = None" "sc_requestMap t (cl_lastRequest c + 1) = None"
      "sint (maxConcurrentRequests (sc_cfg t)) \<le> 0 \<or>
       sint (sc_inFlight t + 1) \<le> sint (maxConcurrentRequests (sc_cfg t))" "\<not> sc_done t"
    and fn: "F name = Some fn" "fn_ft fn = singleFunction" "Verify (env_V E) (Some a) (fn_args fn)"
      "\<forall>ctx. fn_single fn ctx (Some a) = out" "out \<noteq> Panicked"
      "case out of Returned res \<Rightarrow> Verify (env_V E) res (fn_res fn) | _ \<Rightarrow> True"
  shows "\<exists>c1 m t1 t2 resp c2 rc ev c3.
    invokeUnary_begin E D pick (\<lambda>t. t) ctx name (Some a) c = Some (Inr (cl_lastRequest c + 1), c1) \<and>
    cl_conn c1 = Some (k\<lparr>reqCh := reqCh k @ [m]\<rparr>) \<and>
    processRequest E pick m t = Some (None, t1) \<and> sc_workers t1 = sc_workers t @ [Started singleFunction m] \<and>
    serveFunctionRequest E F singleFunction m t1 = t2 \<and> sc_outgoingQueue t2 = sc_outgoingQueue t @ [resp] \<and>
    getResponseHandler E redial pick resp c1 = Some c2 \<and>
    cl_ctxs c2 (cl_lastRequest c + 1) = Some rc \<and> channel_event rc = Some ev \<and>
    invokeUnary_end E redial (cl_lastRequest c + 1) ev c2 = Some (call_result (env_V E) name out, c3) \<and>
    cl_lastRequest c + 1 \<notin> cl_registered c3"
proof -
  let ?rid = "cl_lastRequest c + 1"
  let ?m = "call_message E ctx FunctionRequest name (Some a) c"
  let ?t1 = "t\<lparr>sc_inFlight := sc_inFlight t + 1, sc_workers := sc_workers t @ [Started singleFunction ?m]\<rparr>"
  let ?resp = "unary_reply E (Long (env_V E) ?rid) name out"
  define c1 where "c1 = (newRequestCtx E ?rid unaryKind ?m 1 (c\<lparr>cl_lastRequest := ?rid\<rparr>))
    \<lparr>cl_conn := Some (k\<lparr>reqCh := reqCh k @ [?m]\<rparr>)\<rparr>"
  note fields = call_fields [OF laws wf, of ctx FunctionRequest name a c]
  have start: "invokeUnary_begin E D pick (\<lambda>t. t) ctx name (Some a) c = Some (Inr ?rid, c1)"
    "cl_conn c1 = Some (k\<lparr>reqCh := reqCh k @ [?m]\<rparr>)"
    by (simp_all add: invokeUnary_begin_def start_call_connected [OF conn] c1_def)
  have served: "processRequest E pick ?m t = Some (None, ?t1)"
    by (rule processRequest_new [OF laws fields(1,2) free(1-3)]) simp
  have "fn_single fn ctx (Some a) = out" for ctx by (simp add: fn(4))
  note handler = serve_call [where F = F and name = name, OF laws fields(2-4) fn(1-3) this fn(5)]
  have "sc_outgoingQueue (serveFunctionRequest E F singleFunction ?m ?t1) = sc_outgoingQueue ?t1 @ [?resp]"
    by (rule handler) (use fn(6) free(4) in auto)
  moreover obtain rc where "cl_ctxs c1 ?rid = Some rc" "waiting ?rid rc" "?rid \<in> cl_registered c1"
    "cl_servingMap c1 ?rid = None"
    using newRequestCtx_fields [OF c1_def] assms(5) by auto
  note caller_gets [OF laws wf this fn(5), of redial pick name]
  ultimately show ?thesis using start served by auto
qed

definition sample_connected :: "gval rpcClient" where
  "sample_connected = (NewClientWithDialer 7 [])\<lparr>cl_conn := Some \<lparr>reqCh = [], conn_done = False\<rparr>\<rparr>"

lemma sample_connected_fields:
  "cl_conn sample_connected = Some \<lparr>reqCh = [], conn_done = False\<rparr>" "cl_lastRequest sample_connected = 0"
  "cl_servingMap sample_connected = Map.empty"
  by (simp_all add: sample_connected_def NewClientWithDialer_def Let_def)

theorem unary_call_round_trip_witness:
  "\<exists>c1 m t1 resp c2 ev c3.
    invokeUnary_begin sample_env refused True (\<lambda>t. t) Background ''f'' (Some (GLong 5)) sample_connected =
      Some (Inr 1, c1) \<and>
    cl_conn c1 = Some \<lparr>reqCh = [m], conn_done = False\<rparr> \<and>
    processRequest sample_env True m (NewServingClient 7 [] [] 0 sample_cfg False) = Some (None, t1) \<and>
    sc_outgoingQueue (serveFunctionRequest sample_env sample_functions singleFunction m t1) = [resp] \<and>
    getResponseHandler sample_env (\<lambda>_. None) True resp c1 = Some c2 \<and>
    invokeUnary_end sample_env (\<lambda>_. None) 1 ev c2 = Some (Inr (Some (GLong 5)), c3) \<and> 1 \<notin> cl_registered c3"
proof -
  define t :: "gval servingClient" where "t = NewServingClient 7 [] [] 0 sample_cfg False"
  have t: "sc_pendingStreams t 1 = None" "sc_requestMap t 1 = None" "\<not> sc_done t"
    "sint (sc_inFlight t + 1) \<le> sint (maxConcurrentRequests (sc_cfg t))" "sc_outgoingQueue t = []"
    by (simp_all add: t_def NewServingClient_def sample_cfg_def)
  define fn where "fn = the (sample_functions ''f'')"
  have fn: "sample_functions ''f'' = Some fn" "fn_ft fn = singleFunction" "fn_args fn = AnyDef" "fn_res fn = AnyDef"
    "\<forall>ctx. fn_single fn ctx (Some (GLong 5)) = Returned (Some (GLong 5))"
    by (simp_all add: fn_def sample_functions_def)
  have "call_result (env_V sample_env) ''f'' (Returned (Some (GLong 5))) = Inr (Some (GLong 5))"
    by (simp add: call_result_def ref_api_def)
  moreover have "Verify (env_V sample_env) (Some (GLong 5)) AnyDef" by (simp add: Verify_def)
  ultimately show ?thesis
    using unary_call_round_trip [where E = sample_env and c = sample_connected and t = t and
        F = sample_functions and name = "''f''" and fn = fn and a = "GLong 5" and out = "Returned (Some (GLong 5))" and
        D = refused and pick = True and ctx = Background and redial = "\<lambda>_. None" and
        k = "\<lparr>reqCh = [], conn_done = False\<rparr>"] t fn
    unfolding t_def [symmetric]
    by (simp add: sample_connected_fields ref_value_laws wf_NewDialect) blast
qed

section \<open>Reconnecting\<close>

text \<open>
  A client and its session, \<open>g\<close> reconnect handshakes apart: the session holds the link revealed
  \<open>g + 1\<close> steps before the one the client reveals next.
\<close>

definition session_gap :: "byte list \<Rightarrow> nat \<Rightarrow> nat \<Rightarrow> 'v rpcClient \<Rightarrow> 'v servingClient \<Rightarrow> bool" where
  "session_gap seed n g c old \<longleftrightarrow>
     (case cl_resumeChain c of
        None \<Rightarrow> False
      | Some ch \<Rightarrow> chain_of seed n ch \<and>
          sc_resumeToken old = EncodeToString (link seed (nat (hc_next ch + 1 + int g)))) \<and>
     cl_established c"

definition links_left :: "'v rpcClient \<Rightarrow> int" where
  "links_left c = (case cl_resumeChain c of None \<Rightarrow> 0 | Some ch \<Rightarrow> Remaining ch)"

lemma handshakeToken_gap:
  assumes "session_gap seed n g c old" and "0 < links_left c"
  obtains ch where "cl_resumeChain c = Some ch" and "chain_of seed n ch" and "0 \<le> hc_next ch"
    and "handshakeToken rnd c = (Inr (EncodeToString (link seed (nat (hc_next ch)))),
           c\<lparr>cl_resumeChain := Some (snd (Next ch))\<rparr>)"
proof -
  from assms obtain ch where ch: "cl_resumeChain c = Some ch" "chain_of seed n ch" "0 \<le> hc_next ch" "cl_established c"
    by (auto simp: session_gap_def links_left_def Remaining_def split: option.splits if_splits)
  have tok: "fst (Next ch) = EncodeToString (link seed (nat (hc_next ch)))" by (rule Next_link [OF ch(2,3)])
  have "length (link seed (nat (hc_next ch))) = 32" using ch(2) by (simp add: chain_of_def length_link)
  then have "EncodeToString (link seed (nat (hc_next ch))) \<noteq> []"
    by (metis length_EncodeToString list.size(3) mult_is_0 zero_neq_numeral)
  then show ?thesis
    using ch tok by (intro that [of ch]) (cases "Next ch"; simp add: handshakeToken_def Let_def)+
qed

lemma resume_gap:
  assumes "chain_of seed n ch" and "0 \<le> hc_next ch" and "int g < DefaultResyncWindow"
    and "sc_resumeToken old = EncodeToString (link seed (nat (hc_next ch + 1 + int g)))" and "sc_principal old = princ"
  shows "resume cid (EncodeToString (link seed (nat (hc_next ch)))) princ k old =
    Inr (replaceConn k (old\<lparr>sc_resumeToken := EncodeToString (link seed (nat (hc_next ch)))\<rparr>))"
proof -
  have "\<exists>s. VerifyHashStep (EncodeToString (link seed (nat (hc_next ch))))
      (EncodeToString (link seed (nat (hc_next ch + 1 + int g)))) DefaultResyncWindow = Some s"
    using VerifyHashStep_link [of seed "nat (hc_next ch)" "nat (hc_next ch + 1 + int g)" DefaultResyncWindow]
      assms(1-3) by (auto simp: chain_of_def)
  then show ?thesis using assms(4,5) by (auto simp: resume_def authorizeResume_def)
qed

lemma connect_established:
  assumes laws: "value_laws (env_V E)" and wf: "wf_dialect (env_d E)"
    and "\<not> hasConn c" and "\<not> cl_connecting c" and "cl_credential c = None" and "cl_established c"
    and "dl_err D = None" and "dl_read D = Inr (NewHandshakeResponse (env_V E) (env_d E) stok)"
    and "handshakeToken (dl_seed D) c = (Inr tok, c\<lparr>cl_resumeChain := ch\<rparr>)"
  shows "\<exists>c'. ConnectContext E D pick c = Some (None, c') \<and> cl_resumeChain c' = ch \<and> cl_established c' \<and>
    cl_conn c' = Some \<lparr>reqCh = [NewHandshakeRequest (env_V E) (env_d E) (cl_clientId c) tok], conn_done = False\<rparr>"
proof -
  have "GetNumberField (env_V E) (NewHandshakeResponse (env_V E) (env_d E) stok) (MessageTypeField (env_d E)) =
      Some (Long (env_V E) HandshakeResponse)"
    using wf by (auto simp: NewHandshakeResponse_def MessageType_Long_def Let_def wf_fields
        value_laws.msg_simps [OF laws])
  then show ?thesis
    using assms(3-9)
    by (simp add: ConnectContext_def syncConn_connect_def newConn_def getResponseHandler_def hasConn_def
        value_laws.value_simps [OF laws] log_event_def Let_def)
qed

text \<open>
  C11. Resumption works end to end, for a server without an authenticator and a client without a
  credential: when fewer reconnect handshakes than the resynchronization window were lost since the
  session last accepted one and the client's chain is not exhausted, the client
  connects with the next link, the server attaches the new connection to the existing session, keeping
  its requests and streams, and both are again in step. A handshake that does not reach the server
  widens the gap by one.
\<close>

theorem reconnect_resumes_session:
  assumes laws: "value_laws (env_V E)" and wf: "wf_dialect (env_d E)"
    and gap: "session_gap seed n g c old" "0 < links_left c" "int g < DefaultResyncWindow"
    and client: "\<not> hasConn c" "\<not> cl_connecting c" "cl_credential c = None"
    and server: "getAuthenticator t = None" "srv_clientMap t (cl_clientId c) = Some old" "sc_principal old = []"
    and net: "dl_err D = None" "dl_read D = Inr (NewHandshakeResponse (env_V E) (env_d E) stok)"
  shows "\<exists>c' hs cli t'. ConnectContext E D pick c = Some (None, c') \<and>
    cl_conn c' = Some \<lparr>reqCh = [hs], conn_done = False\<rparr> \<and>
    handshake E between k (Inr hs) None t = (Inr cli, t') \<and> srv_clientMap t' (cl_clientId c) = Some cli \<and>
    sc_activeConn cli = Some k \<and> sc_requestMap cli = sc_requestMap old \<and> sc_workers cli = sc_workers old \<and>
    session_gap seed n 0 c' cli \<and> session_gap seed n (Suc g) c' old \<and> links_left c' = links_left c - 1"
proof -
  obtain ch where ch: "cl_resumeChain c = Some ch" "chain_of seed n ch" "0 \<le> hc_next ch"
    and tok: "handshakeToken (dl_seed D) c = (Inr (EncodeToString (link seed (nat (hc_next ch)))),
      c\<lparr>cl_resumeChain := Some (snd (Next ch))\<rparr>)"
    using handshakeToken_gap [OF gap(1,2)] by metis
  let ?hs = "NewHandshakeRequest (env_V E) (env_d E) (cl_clientId c) (EncodeToString (link seed (nat (hc_next ch))))"
  let ?cli = "replaceConn k (old\<lparr>sc_resumeToken := EncodeToString (link seed (nat (hc_next ch)))\<rparr>)"
  have old: "sc_resumeToken old = EncodeToString (link seed (nat (hc_next ch + 1 + int g)))" "cl_established c"
    using gap(1) ch by (simp_all add: session_gap_def)
  have "handshake E between k (Inr ?hs) None t = (Inr ?cli, t\<lparr>srv_clientMap := (srv_clientMap t)(cl_clientId c \<mapsto> ?cli)\<rparr>)"
    using resume_gap [OF ch(2,3) gap(3) old(1) server(3)] server(2)
    by (simp add: own_handshake [OF laws wf server(1)] createOrUpdateServingClient_def)
  moreover have "hc_next (snd (Next ch)) = hc_next ch - 1" using ch(3) by (simp add: Next_def)
  moreover note chain_of_Next [OF ch(2)]
  moreover have "sc_activeConn ?cli = Some k" "sc_requestMap ?cli = sc_requestMap old"
    "sc_workers ?cli = sc_workers old" "sc_resumeToken ?cli = EncodeToString (link seed (nat (hc_next ch)))"
    by (simp_all add: replaceConn_def Let_def split: option.splits)
  moreover note connect_established [OF laws wf client old(2) net tok, of pick]
  ultimately show ?thesis
    using ch old(1) by (fastforce simp: session_gap_def links_left_def Remaining_def algebra_simps)
qed

definition sample_chain :: HashChain where
  "sample_chain = (case NewHashChain (Inr (replicate 32 0)) 4 of Inr ch \<Rightarrow> ch)"

definition sample_session :: "gval servingClient" where
  "sample_session = NewServingClient 7 (Anchor sample_chain) [] 0 sample_cfg False"

definition sample_lost :: "gval rpcClient" where
  "sample_lost = (NewClientWithDialer 7 [])\<lparr>cl_resumeChain := Some sample_chain, cl_established := True\<rparr>"

lemma sample_chain: "chain_of (replicate 32 0) 4 sample_chain" "hc_next sample_chain = 3"
proof -
  have "\<exists>ch. NewHashChain (Inr (replicate 32 0)) 4 = Inr ch" by (simp add: NewHashChain_def Let_def)
  then obtain ch where "NewHashChain (Inr (replicate 32 0)) 4 = Inr ch" ..
  from new_chain [OF _ this] this show "chain_of (replicate 32 0) 4 sample_chain" "hc_next sample_chain = 3"
    by (simp_all add: sample_chain_def)
qed

theorem reconnect_resumes_session_witness:
  "\<exists>c' hs cli t'.
    ConnectContext sample_env \<lparr>dl_seed = Inl io_EOF, dl_err = None, dl_read = Inr (NewHandshakeResponse ref_api NewDialect [])\<rparr>
      True sample_lost = Some (None, c') \<and>
    cl_conn c' = Some \<lparr>reqCh = [hs], conn_done = False\<rparr> \<and>
    handshake sample_env (\<lambda>t. t) 5 (Inr hs) None ((NewServerWithListener [])\<lparr>srv_clientMap := [7 \<mapsto> sample_session]\<rparr>) =
      (Inr cli, t') \<and> sc_activeConn cli = Some 5"
proof -
  have "session_gap (replicate 32 0) 4 0 sample_lost sample_session"
    using sample_chain Anchor_link [OF sample_chain(1)]
    by (simp add: session_gap_def sample_lost_def sample_session_def NewServingClient_def)
  moreover have "0 < links_left sample_lost" "int 0 < DefaultResyncWindow"
    using sample_chain by (simp_all add: links_left_def sample_lost_def Remaining_def DefaultResyncWindow_def)
  moreover have "\<not> hasConn sample_lost" "\<not> cl_connecting sample_lost" "cl_credential sample_lost = None"
    "cl_clientId sample_lost = 7" "sc_principal sample_session = []"
    by (simp_all add: sample_lost_def NewClientWithDialer_def hasConn_def sample_session_def NewServingClient_def Let_def)
  moreover have "getAuthenticator ((NewServerWithListener [])\<lparr>srv_clientMap := [7 \<mapsto> sample_session]\<rparr>) = None"
    by (simp add: getAuthenticator_def NewServerWithListener_def Let_def)
  ultimately show ?thesis
    using reconnect_resumes_session [where E = sample_env and c = sample_lost and old = sample_session and pick = True and
        seed = "replicate 32 0" and n = 4 and g = 0 and k = 5 and between = "\<lambda>t. t" and stok = "[]" and
        t = "(NewServerWithListener [])\<lparr>srv_clientMap := [7 \<mapsto> sample_session]\<rparr>" and
        D = "\<lparr>dl_seed = Inl io_EOF, dl_err = None, dl_read = Inr (NewHandshakeResponse ref_api NewDialect [])\<rparr>"]
    by (simp add: ref_value_laws wf_NewDialect) blast
qed

end
