(* ===== verification/Stream_Round_Trip.thy ===== *)
theory Stream_Round_Trip
  imports Round_Trip
begin

text \<open>
  A get stream from the caller to the handler and back: the request, the acknowledgement, the initial
  credit, the values, and the end, each message handled by the definitions of the side that receives
  it. The pump between the response loop and the caller is run by the receiver (\<open>receive\<close>), callback
  included.
\<close>

section \<open>The messages of a stream\<close>

lemma stream_fields:
  assumes laws: "value_laws (env_V E)" and wf: "wf_dialect (env_d E)"
  defines "V \<equiv> env_V E" and "d \<equiv> env_d E"
  shows "GetNumberField V (StreamReady_msg V d (Long V rid)) (MessageTypeField d) = Some (Long V StreamReady)"
    and "GetNumberField V (StreamReady_msg V d (Long V rid)) (RequestIdField d) = Some (Long V rid)"
    and "GetNumberField V (StreamValue_msg V d (Long V rid) v) (MessageTypeField d) = Some (Long V StreamValue)"
    and "GetNumberField V (StreamValue_msg V d (Long V rid) v) (RequestIdField d) = Some (Long V rid)"
    and "Get V (StreamValue_msg V d (Long V rid) (Some x)) (ValueField d) = Some x"
    and "GetNumberField V (StreamEnd_msg V d (Long V rid) None) (MessageTypeField d) = Some (Long V StreamEnd)"
    and "GetNumberField V (StreamEnd_msg V d (Long V rid) None) (RequestIdField d) = Some (Long V rid)"
    and "Get V (StreamEnd_msg V d (Long V rid) None) (ValueField d) = Some (Null V)"
    and "GetNumberField V (NewStreamCredit V d (Long V rid) n) (MessageTypeField d) = Some (Long V StreamCredit)"
    and "GetNumberField V (NewStreamCredit V d (Long V rid) n) (RequestIdField d) = Some (Long V rid)"
    and "GetNumberField V (NewStreamCredit V d (Long V rid) n) (CreditField d) = Some (Long V n)"
  using wf unfolding V_def d_def
  by (simp_all add: StreamReady_msg_def StreamValue_msg_def StreamEnd_msg_def NewStreamCredit_def MessageType_Long_def
      Let_def wf_fields value_laws.msg_simps [OF laws])

section \<open>The client's side\<close>

text \<open>A get stream that is open, with what its pump holds and the window it grants.\<close>

definition open_stream :: "int \<Rightarrow> int64 \<Rightarrow> 'v option list \<Rightarrow> 'v rpcRequestCtx \<Rightarrow> bool" where
  "open_stream w rid xs rc \<longleftrightarrow> requestId rc = rid \<and> skind rc = getStreamKind \<and> \<not> closeOnce rc \<and> grantCredit rc \<and>
     creditWindow rc = word_of_int w \<and> resultCh rc = [] \<and>
     (\<exists>p. resultPump rc = Some p \<and> slots_ok p \<and> contents p = xs \<and> maxPending p = w \<and> \<not> inputEnd p \<and> \<not> stopCh p)"

definition has_stream :: "int64 \<Rightarrow> 'v rpcRequestCtx \<Rightarrow> 'v rpcClient \<Rightarrow> bool" where
  "has_stream rid rc c \<longleftrightarrow> cl_ctxs c rid = Some rc \<and> rid \<in> cl_registered c \<and> cl_servingMap c rid = None"

definition stream_window :: "int \<Rightarrow> int" where
  "stream_window mp = (if mp \<le> 0 then DefaultMaxPending else mp)"

lemma open_stream_new:
  "open_stream (stream_window mp) rid [] ((NewRequestCtx rid getStreamKind m cap mp True)\<lparr>metrics := b\<rparr>)"
  by (simp add: open_stream_def NewRequestCtx_def NewStreamPump_def slots_ok_def contents_def stream_window_def
      DefaultMaxPending_def Let_def)

lemma notify_open:
  assumes "open_stream w rid xs rc" and "int (length xs) < w" and "grows grow"
  shows "\<exists>rc'. notifyResult grow pick v rc = Some (True, rc') \<and> open_stream w rid (xs @ [v]) rc' \<and>
    recvDelivered rc' = recvDelivered rc"
proof -
  obtain p where p: "resultPump rc = Some p" "slots_ok p" "contents p = xs" "maxPending p = w"
    "\<not> inputEnd p" "\<not> stopCh p"
    using assms(1) by (auto simp: open_stream_def)
  have "Push grow v p = (True, append_slot grow v (compact p))"
    using p assms(2) pending_contents [OF p(2)] by (simp add: Push_def isStopped_def)
  then show ?thesis
    using p assms(1) append_slot_ok [OF assms(3)] compact_ok [OF p(2)]
    by (auto simp: notifyResult_def open_stream_def)
qed

lemma dispatch_response:
  assumes "value_laws (env_V E)" and "has_stream rid rc c"
    and "GetNumberField (env_V E) m (MessageTypeField (env_d E)) = Some (Long (env_V E) mt)"
    and "GetNumberField (env_V E) m (RequestIdField (env_d E)) = Some (Long (env_V E) rid)"
    and "mt \<in> {StreamReady, StreamValue, StreamEnd}"
  shows "getResponseHandler E redial pick m c = processResponse E redial pick mt m rc c"
  using assms by (auto simp: getResponseHandler_def has_stream_def value_laws.Long_Long mt_defs Let_def)

lemma handle_ready:
  assumes laws: "value_laws (env_V E)" and wf: "wf_dialect (env_d E)" and "grows (env_grow E)"
    and "has_stream rid rc c" and "open_stream w rid xs rc" and "int (length xs) < w"
  shows "\<exists>rc'. getResponseHandler E redial pick (StreamReady_msg (env_V E) (env_d E) (Long (env_V E) rid)) c =
      Some (update_ctx rid rc' c) \<and> open_stream w rid (xs @ [None]) rc' \<and> recvDelivered rc' = recvDelivered rc"
proof -
  obtain rc' where rc': "notifyResult (env_grow E) pick None rc = Some (True, rc')" "open_stream w rid (xs @ [None]) rc'"
    "recvDelivered rc' = recvDelivered rc"
    using notify_open [OF assms(5,6,3)] by blast
  note fields = stream_fields(1,2) [OF laws wf, of rid]
  have "getResponseHandler E redial pick (StreamReady_msg (env_V E) (env_d E) (Long (env_V E) rid)) c =
      processResponse E redial pick StreamReady (StreamReady_msg (env_V E) (env_d E) (Long (env_V E) rid)) rc c"
    by (rule dispatch_response [OF laws assms(4) fields]) simp
  also have "\<dots> = Some (update_ctx rid rc' c)"
    using rc'(1) assms(5) by (simp add: processResponse_def mt_defs Let_def open_stream_def)
  finally show ?thesis using rc' by blast
qed

lemma handle_value:
  assumes laws: "value_laws (env_V E)" and wf: "wf_dialect (env_d E)" and "grows (env_grow E)"
    and "has_stream rid rc c" and "open_stream w rid xs rc" and "int (length xs) < w" and "Kind (env_V E) x \<noteq> NULL"
  shows "\<exists>rc' c'. getResponseHandler E redial pick (StreamValue_msg (env_V E) (env_d E) (Long (env_V E) rid) (Some x)) c =
      Some c' \<and> has_stream rid rc' c' \<and> open_stream w rid (xs @ [Some x]) rc' \<and> recvDelivered rc' = recvDelivered rc \<and>
      cl_conn c' = cl_conn c"
proof -
  let ?m = "StreamValue_msg (env_V E) (env_d E) (Long (env_V E) rid) (Some x)"
  obtain rc' where rc': "notifyResult (env_grow E) pick (Some x) rc = Some (True, rc')"
    "open_stream w rid (xs @ [Some x]) rc'" "recvDelivered rc' = recvDelivered rc"
    using notify_open [OF assms(5,6,3)] by blast
  have "payload E ?m = Some x"
    using assms(7) by (simp add: payload_def stream_fields(5) [OF laws wf])
  then have "processResponse E redial pick StreamValue ?m rc c =
      Some (log_event (ClientMetric (StreamValueMetric (Name (env_V E) (env_d E) rc'))) (update_ctx rid rc' c))"
    using rc'(1) assms(5) by (simp add: processResponse_def mt_defs Let_def open_stream_def)
  moreover have "getResponseHandler E redial pick ?m c = processResponse E redial pick StreamValue ?m rc c"
    by (rule dispatch_response [OF laws assms(4) stream_fields(3,4) [OF laws wf, of rid]]) simp
  ultimately show ?thesis
    using rc'(2,3) assms(4) by (auto simp: has_stream_def log_event_def update_ctx_def)
qed

text \<open>After the end the request is retired; its pump ends when it is empty.\<close>

definition ended_stream :: "int64 \<Rightarrow> 'v option list \<Rightarrow> 'v rpcRequestCtx \<Rightarrow> bool" where
  "ended_stream rid xs rc \<longleftrightarrow>
     (\<exists>p. resultPump rc = Some p \<and> slots_ok p \<and> contents p = xs \<and> inputEnd p \<and> \<not> stopCh p)"

lemma handle_end:
  assumes laws: "value_laws (env_V E)" and wf: "wf_dialect (env_d E)"
    and "has_stream rid rc c" and "open_stream w rid xs rc"
  shows "\<exists>rc' c'. getResponseHandler E redial pick (StreamEnd_msg (env_V E) (env_d E) (Long (env_V E) rid) None) c =
      Some c' \<and> cl_ctxs c' rid = Some rc' \<and> ended_stream rid xs rc' \<and> rid \<notin> cl_registered c'"
proof -
  let ?m = "StreamEnd_msg (env_V E) (env_d E) (Long (env_V E) rid) None"
  have "payload E ?m = None"
    by (simp add: payload_def stream_fields(8) [OF laws wf] value_laws.Kind_Null [OF laws])
  moreover have "getResponseHandler E redial pick ?m c = processResponse E redial pick StreamEnd ?m rc c"
    by (rule dispatch_response [OF laws assms(3) stream_fields(6,7) [OF laws wf, of rid]]) simp
  ultimately show ?thesis
    using assms(3,4)
    by (auto simp: processResponse_def mt_defs Let_def open_stream_def ended_stream_def TryGetClose_def closeResult_def
        update_ctx_def unregister_def Close_def slots_ok_def contents_def)
qed

text \<open>Messages handled one after the other; \<^term>\<open>None\<close> when the response loop blocks on one.\<close>

fun handle_all ::
    "'v rpc_env \<Rightarrow> ('v rpcClient \<Rightarrow> (gerror option \<times> 'v rpcClient) option) \<Rightarrow> bool \<Rightarrow> 'v list \<Rightarrow> 'v rpcClient \<Rightarrow>
     'v rpcClient option" where
  "handle_all E redial pick [] c = Some c"
| "handle_all E redial pick (m # ms) c =
     (case getResponseHandler E redial pick m c of None \<Rightarrow> None | Some c \<Rightarrow> handle_all E redial pick ms c)"

lemma handle_values:
  assumes laws: "value_laws (env_V E)" and wf: "wf_dialect (env_d E)" and "grows (env_grow E)"
    and "has_stream rid rc c" and "open_stream w rid xs rc" and "int (length xs + length vs) \<le> w"
    and "\<forall>v\<in>set vs. Kind (env_V E) v \<noteq> NULL"
  shows "\<exists>rc' c'. handle_all E redial pick
      (map (\<lambda>v. StreamValue_msg (env_V E) (env_d E) (Long (env_V E) rid) (Some v)) vs @
       [StreamEnd_msg (env_V E) (env_d E) (Long (env_V E) rid) None]) c = Some c' \<and>
    cl_ctxs c' rid = Some rc' \<and> ended_stream rid (xs @ map Some vs) rc' \<and> rid \<notin> cl_registered c'"
  using assms(4-7)
proof (induction vs arbitrary: xs rc c)
  case Nil
  then show ?case using handle_end [OF laws wf Nil(1,2), of redial pick] by auto
next
  case (Cons v vs)
  have "int (length xs) < w" "Kind (env_V E) v \<noteq> NULL" using Cons.prems by auto
  from handle_value [OF laws wf assms(3) Cons.prems(1,2) this, of redial pick]
  obtain rc' c' where c': "has_stream rid rc' c'" "open_stream w rid (xs @ [Some v]) rc'"
    "getResponseHandler E redial pick (StreamValue_msg (env_V E) (env_d E) (Long (env_V E) rid) (Some v)) c = Some c'"
    by blast
  from Cons.IH [OF c'(1,2)] Cons.prems(3,4) c'(3) show ?case by simp
qed

text \<open>
  What the caller receives from the stream's channel: the pump goroutine takes the next value and hands
  it over, then its callback may grant credit. \<^term>\<open>Some None\<close> stands for the closed channel,
  \<^term>\<open>None\<close> while there is nothing.
\<close>

definition receive :: "'v rpc_env \<Rightarrow> int64 \<Rightarrow> 'v rpcClient \<Rightarrow> ('v option option \<times> 'v rpcClient) option" where
  "receive E rid c =
     (case cl_ctxs c rid of
        None \<Rightarrow> None
      | Some rc \<Rightarrow>
          (case resultPump rc of
             None \<Rightarrow> None
           | Some p \<Rightarrow>
               (case run_locked p of
                  Some (Select v, p) \<Rightarrow>
                    (let (rc, n) = grantRecv (rc\<lparr>resultPump := Some p\<rparr>);
                         c = update_ctx rid rc c
                     in Some (Some v, case n of None \<Rightarrow> c | Some n \<Rightarrow> sendStreamCredit E rid n c))
                | Some (_, p) \<Rightarrow> Some (None, update_ctx rid (rc\<lparr>resultPump := Some p\<rparr>) c)
                | None \<Rightarrow> None)))"

fun receive_list ::
    "'v rpc_env \<Rightarrow> int64 \<Rightarrow> nat \<Rightarrow> 'v rpcClient \<Rightarrow> ('v option option list \<times> 'v rpcClient) option" where
  "receive_list E rid 0 c = Some ([], c)"
| "receive_list E rid (Suc n) c =
     (case receive E rid c of
        None \<Rightarrow> None
      | Some (x, c) \<Rightarrow> map_option (\<lambda>(xs, c). (x # xs, c)) (receive_list E rid n c))"

lemma run_locked_front:
  assumes "slots_ok p" and "contents p = x # xs" and "\<not> stopCh p"
  obtains p' where "run_locked p = Some (Select x, p')" "slots_ok p'" "contents p' = xs"
    "inputEnd p' = inputEnd p" "stopCh p' = stopCh p" "maxPending p' = maxPending p" "overflow p' = overflow p"
proof
  have "contents p \<noteq> []" using assms(2) by simp
  from pop_slot_ok [OF assms(1) this] assms(2)
  have pop: "fst (pop_slot p) = x" "contents (snd (pop_slot p)) = xs" "slots_ok (snd (pop_slot p))" by auto
  show "run_locked p = Some (Select x, snd (pop_slot p))"
    using assms(2,3) pending_contents [OF assms(1)] pop(1) by (simp add: run_locked_def isStopped_def case_prod_beta)
  show "slots_ok (snd (pop_slot p))" "contents (snd (pop_slot p)) = xs" using pop by simp_all
qed simp_all

lemma grantRecv_fields:
  assumes "grantRecv rc = (rc', n)"
  shows "resultPump rc' = resultPump rc" "requestId rc' = requestId rc" "skind rc' = skind rc" "closeOnce rc' = closeOnce rc"
    "grantCredit rc' = grantCredit rc" "creditWindow rc' = creditWindow rc" "resultCh rc' = resultCh rc"
  using assms by (auto simp: grantRecv_def Let_def split: if_splits)

lemma sendStreamCredit_ctxs [simp]: "cl_ctxs (sendStreamCredit E rid n c) = cl_ctxs c"
  by (simp add: sendStreamCredit_def reply_to_server_def conn_send_def split: option.splits)

text \<open>The acknowledgement is the first delivery of a stream; it is not counted and grants nothing.\<close>

lemma receive_ready:
  assumes "cl_ctxs c rid = Some rc" and "open_stream w rid (x # xs) rc" and "recvDelivered rc = - 1"
  shows "\<exists>rc'. receive E rid c = Some (Some x, update_ctx rid rc' c) \<and> open_stream w rid xs rc' \<and> recvDelivered rc' = 0"
proof -
  obtain p where p: "resultPump rc = Some p" "slots_ok p" "contents p = x # xs" "\<not> stopCh p" "maxPending p = w" "\<not> inputEnd p"
    using assms(2) by (auto simp: open_stream_def)
  obtain p' where p': "run_locked p = Some (Select x, p')" "slots_ok p'" "contents p' = xs" "inputEnd p' = inputEnd p"
    "stopCh p' = stopCh p" "maxPending p' = maxPending p"
    by (rule run_locked_front [OF p(2-4)])
  have "grantRecv (rc\<lparr>resultPump := Some p'\<rparr>) = (rc\<lparr>resultPump := Some p', recvDelivered := 0\<rparr>, None)"
    using assms(3) by (auto simp: grantRecv_def Let_def)
  then show ?thesis
    using assms(1,2) p p' by (auto simp: receive_def open_stream_def)
qed

lemma receive_ended:
  assumes "cl_ctxs c rid = Some rc" and "ended_stream rid (x # xs) rc"
  shows "\<exists>c' rc'. receive E rid c = Some (Some x, c') \<and> cl_ctxs c' rid = Some rc' \<and> ended_stream rid xs rc'"
proof -
  obtain p where p: "resultPump rc = Some p" "slots_ok p" "contents p = x # xs" "\<not> stopCh p" "inputEnd p"
    using assms(2) by (auto simp: ended_stream_def)
  obtain p' where p': "run_locked p = Some (Select x, p')" "slots_ok p'" "contents p' = xs" "inputEnd p' = inputEnd p"
    "stopCh p' = stopCh p"
    by (rule run_locked_front [OF p(2-4)]) blast
  obtain rc' n where g: "grantRecv (rc\<lparr>resultPump := Some p'\<rparr>) = (rc', n)" by force
  from grantRecv_fields(1) [OF g] have "resultPump rc' = Some p'" by simp
  then have "ended_stream rid xs rc'" using p p' by (simp add: ended_stream_def)
  then show ?thesis using assms(1) p(1) p'(1) g by (cases n) (simp_all add: receive_def update_ctx_def Let_def)
qed

lemma receive_all_ended:
  assumes "cl_ctxs c rid = Some rc" and "ended_stream rid xs rc"
  shows "\<exists>c'. receive_list E rid (Suc (length xs)) c = Some (map Some xs @ [None], c')"
  using assms
proof (induction xs arbitrary: c rc)
  case Nil
  then obtain p where p: "resultPump rc = Some p" "slots_ok p" "contents p = []" "\<not> stopCh p" "inputEnd p"
    by (auto simp: ended_stream_def)
  then have "run_locked p = Some (Done, p)"
    using pending_contents [OF p(2)] by (simp add: run_locked_def isStopped_def)
  then show ?case using Nil(1) p(1) by (simp add: receive_def)
next
  case (Cons x xs)
  from receive_ended [OF Cons.prems] obtain c' rc' where "receive E rid c = Some (Some x, c')"
    "cl_ctxs c' rid = Some rc'" "ended_stream rid xs rc'" by blast
  with Cons.IH [OF this(2,3)] show ?case by auto
qed

section \<open>The server's side\<close>

text \<open>A stream handler that returned its channel: the request is registered, and nothing is sent yet.\<close>

lemma serve_get_stream:
  assumes "value_laws (env_V E)"
    and "GetNumberField (env_V E) m (RequestIdField (env_d E)) = Some (Long (env_V E) rid)"
    and "GetStringField (env_V E) m (FunctionNameField (env_d E)) = Some (Utf8 (env_V E) name)"
    and "Get (env_V E) m (ArgumentsField (env_d E)) = args"
    and "F name = Some fn" and "fn_ft fn = outgoingStream" and "Verify (env_V E) args (fn_args fn)"
    and "\<And>ctx. fn_stream fn ctx args = Returned r"
    and "sint (maxConcurrentStreams (sc_cfg t)) \<le> 0 \<or> sint (sc_liveStreams t) < sint (maxConcurrentStreams (sc_cfg t))"
  defines "t' \<equiv> serveFunctionRequest E F outgoingStream m t"
  shows "sc_requestMap t' = (sc_requestMap t)(rid \<mapsto>
      (NewServingRequest outgoingStream (Long (env_V E) rid))\<lparr>sr_cancel := True, sr_method := name\<rparr>)"
    and "sc_pendingStreams t' = sc_pendingStreams t" and "sc_outgoingQueue t' = sc_outgoingQueue t"
    and "sc_done t' = sc_done t" and "sc_activeConn t' = sc_activeConn t"
proof -
  have name: "string_String (env_V E) (Utf8 (env_V E) name) = name" by (rule value_laws.String_Utf8 [OF assms(1)])
  have admit: "admit E F outgoingStream m t = Inr (Long (env_V E) rid, name, fn, args)"
    using assms(2-7,9) name by (auto simp: admit_def findFunction_def Let_def)
  let ?u = "snd (newServingRequest E outgoingStream (Long (env_V E) rid) name t)"
  from admit have t': "t' = finish_worker E outgoingStream m NoReply
      (?u\<lparr>sc_streamers := sc_streamers ?u @ [number_Long (env_V E) (Long (env_V E) rid)]\<rparr>)"
    using assms(6,8)
    by (simp add: t'_def serveFunctionRequest_def start_worker_def run_worker_def run_handler_def case_prod_beta Let_def)
  show "sc_requestMap t' = (sc_requestMap t)(rid \<mapsto>
      (NewServingRequest outgoingStream (Long (env_V E) rid))\<lparr>sr_cancel := True, sr_method := name\<rparr>)"
    "sc_pendingStreams t' = sc_pendingStreams t" "sc_outgoingQueue t' = sc_outgoingQueue t" "sc_done t' = sc_done t"
    "sc_activeConn t' = sc_activeConn t"
    by (simp_all add: t' finish_worker_def newServingRequest_def record_metric_def value_laws.Long_Long [OF assms(1)] Let_def)
qed

lemma serve_credit:
  assumes laws: "value_laws (env_V E)" and wf: "wf_dialect (env_d E)"
    and "sc_pendingStreams t rid = None" and "sc_requestMap t rid = Some sr"
  shows "processRequest E pick (NewStreamCredit (env_V E) (env_d E) (Long (env_V E) rid) n) t =
    Some (None, t\<lparr>sc_requestMap := (sc_requestMap t)(rid \<mapsto>
      sr\<lparr>sr_sendCredit := map_option (Grant n) (sr_sendCredit sr)\<rparr>)\<rparr>)"
  using assms(3,4)
  by (simp add: processRequest_def stream_fields(9-11) [OF laws wf] findPendingStream_def findServingRequest_def
      serveRunningRequest_def value_laws.Long_Long [OF laws] mt_defs Let_def)

text \<open>With enough credit the streamer sends every value of the handler's channel and then the end.\<close>

lemma streamer_sends_all:
  assumes "\<not> sr_closed sr" and "sr_sendCredit sr = Some g" and "\<not> gate_closed g"
    and "int (length vs) \<le> sint (credit g)"
  shows "sends (streamer_loop E (map (\<lambda>v. ([], OutValue (Some v))) vs @ [([], OutClosed)]) sr) =
    map (\<lambda>v. StreamValue_msg (env_V E) (env_d E) (sr_requestId sr) (Some v)) vs @
    [StreamEnd_msg (env_V E) (env_d E) (sr_requestId sr) None]"
  using assms
proof (induction vs arbitrary: sr g)
  case Nil
  then show ?case by (simp add: streamer_step_def closeRequest_def)
next
  case (Cons v vs)
  let ?g = "g\<lparr>credit := credit g - 1\<rparr>"
  have acq: "Acquire g = Some (True, ?g)" using Cons.prems by (simp add: Acquire_def)
  have "sint (credit g - 1) = sint (credit g) - 1"
    using Cons.prems(4) Acquire_True [OF acq] by simp
  then have "int (length vs) \<le> sint (credit ?g)" using Cons.prems(4) by simp
  then have "sends (streamer_loop E (map (\<lambda>v. ([], OutValue (Some v))) vs @ [([], OutClosed)])
      (sr\<lparr>sr_sendCredit := Some ?g\<rparr>)) =
      map (\<lambda>v. StreamValue_msg (env_V E) (env_d E) (sr_requestId sr) (Some v)) vs @
      [StreamEnd_msg (env_V E) (env_d E) (sr_requestId sr) None]"
    using Cons.IH [of "sr\<lparr>sr_sendCredit := Some ?g\<rparr>" ?g] Cons.prems by simp
  moreover have "sr\<lparr>sr_sendCredit := Some g\<rparr> = sr" using Cons.prems(2) by simp
  ultimately show ?case using Cons.prems acq by (simp add: streamer_step_def)
qed

section \<open>A get stream, end to end\<close>

lemma recvDelivered_new: "recvDelivered ((NewRequestCtx rid getStreamKind m cap mp True)\<lparr>metrics := b\<rparr>) = - 1"
  by (simp add: NewRequestCtx_def Let_def)

lemma newRequestCtx_stream:
  assumes "c1 = (newRequestCtx E rid getStreamKind m cap c)\<lparr>cl_conn := k\<rparr>" and "cl_servingMap c rid = None"
  shows "\<exists>rc. has_stream rid rc c1 \<and> open_stream (stream_window (cc_maxPending (cl_cfg c))) rid [] rc \<and> recvDelivered rc = - 1"
  using assms open_stream_new recvDelivered_new
  by (auto simp: newRequestCtx_def update_ctx_def log_event_def has_stream_def Let_def)

lemma opened_grants:
  assumes "cl_ctxs c rid = Some rc" and "open_stream w rid [] rc" and "cl_conn c = Some k" and "\<not> conn_done k"
  shows "\<exists>c'. stream_opened E redial rid (ResultReceived None) c = Some (Inr (), c') \<and>
    cl_conn c' = Some (k\<lparr>reqCh := reqCh k @ [NewStreamCredit (env_V E) (env_d E) (Long (env_V E) rid) (word_of_int w)]\<rparr>) \<and>
    (has_stream rid rc c \<longrightarrow> has_stream rid rc c')"
proof -
  have "rc\<lparr>resultCh := tl (resultCh rc)\<rparr> = rc" "sendInitialCredit rc = Some (word_of_int w)"
    using assms(2) by (auto simp: open_stream_def sendInitialCredit_def)
  then show ?thesis
    using assms(1,3,4)
    by (simp add: stream_opened_def await_response_def SingleResp_def update_ctx_def sendStreamCredit_def reply_to_server_def
        conn_send_def SendRequest_def has_stream_def)
qed

definition stream_messages :: "'v rpc_env \<Rightarrow> int64 \<Rightarrow> 'v list \<Rightarrow> 'v list" where
  "stream_messages E rid vs =
     map (\<lambda>v. StreamValue_msg (env_V E) (env_d E) (Long (env_V E) rid) (Some v)) vs @
     [StreamEnd_msg (env_V E) (env_d E) (Long (env_V E) rid) None]"

abbreviation credit_message :: "'v rpc_env \<Rightarrow> int64 \<Rightarrow> int \<Rightarrow> 'v" where
  "credit_message E rid w \<equiv> NewStreamCredit (env_V E) (env_d E) (Long (env_V E) rid) (word_of_int w)"

lemma session_serves_stream:
  assumes laws: "value_laws (env_V E)" and wf: "wf_dialect (env_d E)"
    and m: "GetNumberField (env_V E) m (MessageTypeField (env_d E)) = Some (Long (env_V E) GetStreamRequest)"
      "GetNumberField (env_V E) m (RequestIdField (env_d E)) = Some (Long (env_V E) rid)"
      "GetStringField (env_V E) m (FunctionNameField (env_d E)) = Some (Utf8 (env_V E) name)"
      "Get (env_V E) m (ArgumentsField (env_d E)) = Some a"
    and free: "sc_pendingStreams t rid = None" "sc_requestMap t rid = None"
      "sint (maxConcurrentRequests (sc_cfg t)) \<le> 0 \<or>
       sint (sc_inFlight t + 1) \<le> sint (maxConcurrentRequests (sc_cfg t))"
      "sint (maxConcurrentStreams (sc_cfg t)) \<le> 0 \<or> sint (sc_liveStreams t) < sint (maxConcurrentStreams (sc_cfg t))"
    and fn: "F name = Some fn" "fn_ft fn = outgoingStream" "Verify (env_V E) (Some a) (fn_args fn)"
      "\<And>ctx. fn_stream fn ctx (Some a) = Returned r"
    and w: "int (length vs) \<le> w" "0 < w" "w < 2 ^ 63"
  shows "\<exists>t1 sr t2 sr'. processRequest E pick m t = Some (None, t1) \<and>
    sc_workers t1 = sc_workers t @ [Started outgoingStream m] \<and>
    sc_requestMap (serveFunctionRequest E F outgoingStream m t1) rid = Some sr \<and> sr_requestId sr = Long (env_V E) rid \<and>
    processRequest E pick (credit_message E rid w) (serveFunctionRequest E F outgoingStream m t1) = Some (None, t2) \<and>
    sc_requestMap t2 rid = Some sr' \<and>
    sends (streamer_loop E (map (\<lambda>v. ([], OutValue (Some v))) vs @ [([], OutClosed)]) sr') = stream_messages E rid vs"
proof -
  let ?t1 = "t\<lparr>sc_inFlight := sc_inFlight t + 1, sc_workers := sc_workers t @ [Started outgoingStream m]\<rparr>"
  let ?t' = "serveFunctionRequest E F outgoingStream m ?t1"
  define sr where "sr = (NewServingRequest outgoingStream (Long (env_V E) rid))\<lparr>sr_cancel := True, sr_method := name\<rparr>"
  have sr: "sr_requestId sr = Long (env_V E) rid" "sr_sendCredit sr = Some NewCreditGate" "\<not> sr_closed sr"
    by (simp_all add: sr_def NewServingRequest_def Let_def)
  have served: "processRequest E pick m t = Some (None, ?t1)"
    by (rule processRequest_new [OF laws m(1,2) free(1-3)]) simp
  note stream = serve_get_stream [where F = F and name = name and t = ?t1, OF laws m(2-4) fn, folded sr_def]
  have t': "sc_requestMap ?t' rid = Some sr" "sc_pendingStreams ?t' rid = None"
    using stream(1,2) free by simp_all
  let ?g = "Grant (word_of_int w) NewCreditGate" let ?sr = "sr\<lparr>sr_sendCredit := Some ?g\<rparr>"
  have credited: "processRequest E pick (credit_message E rid w) ?t' =
      Some (None, ?t'\<lparr>sc_requestMap := (sc_requestMap ?t')(rid \<mapsto> ?sr)\<rparr>)"
    using serve_credit [OF laws wf t'(2,1), of pick "word_of_int w"] sr(2) by simp
  have "sint (word_of_int w :: int64) = w" using w by (intro sint_of_int64) auto
  then have g: "\<not> gate_closed ?g" "int (length vs) \<le> sint (credit ?g)"
    using w by (simp_all add: Grant_def NewCreditGate_def)
  have "sends (streamer_loop E (map (\<lambda>v. ([], OutValue (Some v))) vs @ [([], OutClosed)]) ?sr) = stream_messages E rid vs"
    using streamer_sends_all [OF _ _ g, of ?sr E] sr by (simp add: stream_messages_def)
  with served t'(1) sr(1) credited show ?thesis by fastforce
qed

lemma client_opens_stream:
  assumes laws: "value_laws (env_V E)" and wf: "wf_dialect (env_d E)" and grow: "grows (env_grow E)"
    and rc: "has_stream rid rc c1" "open_stream w rid [] rc" "recvDelivered rc = - 1"
    and k: "cl_conn c1 = Some k" "\<not> conn_done k" and "0 < w"
  shows "\<exists>c2 c3 c4 rc'.
    getResponseHandler E redial pick (StreamReady_msg (env_V E) (env_d E) (Long (env_V E) rid)) c1 = Some c2 \<and>
    receive E rid c2 = Some (Some None, c3) \<and> stream_opened E redial rid (ResultReceived None) c3 = Some (Inr (), c4) \<and>
    cl_conn c4 = Some (k\<lparr>reqCh := reqCh k @ [credit_message E rid w]\<rparr>) \<and> has_stream rid rc' c4 \<and> open_stream w rid [] rc' \<and>
    recvDelivered rc' = 0"
proof -
  obtain rc2 where c2: "getResponseHandler E redial pick (StreamReady_msg (env_V E) (env_d E) (Long (env_V E) rid)) c1 =
      Some (update_ctx rid rc2 c1)" "open_stream w rid [None] rc2" "recvDelivered rc2 = - 1"
    using handle_ready [OF laws wf grow rc(1,2)] assms(9) rc(3) by auto
  obtain rc3 where c3: "receive E rid (update_ctx rid rc2 c1) = Some (Some None, update_ctx rid rc3 (update_ctx rid rc2 c1))"
    "open_stream w rid [] rc3" "recvDelivered rc3 = 0"
    using receive_ready [OF _ c2(2,3), of "update_ctx rid rc2 c1" E] by (auto simp: update_ctx_def)
  have k3: "cl_ctxs (update_ctx rid rc3 (update_ctx rid rc2 c1)) rid = Some rc3"
    "cl_conn (update_ctx rid rc3 (update_ctx rid rc2 c1)) = Some k" "has_stream rid rc3 (update_ctx rid rc3 (update_ctx rid rc2 c1))"
    using rc(1) k by (simp_all add: update_ctx_def has_stream_def)
  from opened_grants [OF k3(1) c3(2) k3(2) k(2), of E redial] k3(3) c2(1) c3 show ?thesis by blast
qed

lemma sample_env_laws: "value_laws (env_V sample_env)" "wf_dialect (env_d sample_env)" "grows (env_grow sample_env)"
  by (simp_all add: ref_value_laws wf_NewDialect) (simp add: sample_env_def grows_go_grow)

lemma sample_session_free:
  defines "t \<equiv> NewServingClient 7 [] [] 0 sample_cfg False :: gval servingClient"
  shows "sc_pendingStreams t rid = None" "sc_requestMap t rid = None"
    "sint (maxConcurrentRequests (sc_cfg t)) \<le> 0 \<or> sint (sc_inFlight t + 1) \<le> sint (maxConcurrentRequests (sc_cfg t))"
    "sint (maxConcurrentStreams (sc_cfg t)) \<le> 0 \<or> sint (sc_liveStreams t) < sint (maxConcurrentStreams (sc_cfg t))"
    "\<not> sc_done t"
  by (simp_all add: t_def NewServingClient_def sample_cfg_def)

text \<open>
  A get stream, from the call to the closed channel. On a live connection to a session with a free
  slot, a function whose handler yields the values \<open>vs\<close> (not null, and at most a window of them): the
  client queues one request, the session registers it, the acknowledgement opens the stream, the client
  queues the credit for its whole window, and with it the streamer sends every value and the end. The
  caller then receives exactly \<open>vs\<close>, in order, and finds the channel closed; the request is retired.
\<close>

theorem get_stream_round_trip:
  fixes E :: "'v rpc_env" and c :: "'v rpcClient" and t :: "'v servingClient" and vs :: "'v list"
  defines "rid \<equiv> cl_lastRequest c + 1"
  assumes laws: "value_laws (env_V E)" and wf: "wf_dialect (env_d E)" and grow: "grows (env_grow E)"
    and conn: "cl_conn c = Some k" "\<not> conn_done k" and serving: "cl_servingMap c rid = None"
    and free: "sc_pendingStreams t rid = None" "sc_requestMap t rid = None"
      "sint (maxConcurrentRequests (sc_cfg t)) \<le> 0 \<or>
       sint (sc_inFlight t + 1) \<le> sint (maxConcurrentRequests (sc_cfg t))"
      "sint (maxConcurrentStreams (sc_cfg t)) \<le> 0 \<or> sint (sc_liveStreams t) < sint (maxConcurrentStreams (sc_cfg t))"
    and fn: "F name = Some fn" "fn_ft fn = outgoingStream" "Verify (env_V E) (Some a) (fn_args fn)"
      "\<forall>ctx. fn_stream fn ctx (Some a) = Returned r"
    and win: "int (length vs) \<le> stream_window (cc_maxPending (cl_cfg c))" "stream_window (cc_maxPending (cl_cfg c)) < 2 ^ 63"
    and vs: "\<forall>v\<in>set vs. Kind (env_V E) v \<noteq> NULL"
  shows "\<exists>c1 m t1 sr c2 c3 c4 credit t2 sr' c5 c6.
    GetStream_begin E D pick (\<lambda>t. t) ctx name (Some a) cap c = Some (Inr rid, c1) \<and>
    cl_conn c1 = Some (k\<lparr>reqCh := reqCh k @ [m]\<rparr>) \<and>
    processRequest E pick m t = Some (None, t1) \<and> sc_workers t1 = sc_workers t @ [Started outgoingStream m] \<and>
    sc_requestMap (serveFunctionRequest E F outgoingStream m t1) rid = Some sr \<and>
    getResponseHandler E redial pick (StreamReady_msg (env_V E) (env_d E) (sr_requestId sr)) c1 = Some c2 \<and>
    receive E rid c2 = Some (Some None, c3) \<and>
    stream_opened E redial rid (ResultReceived None) c3 = Some (Inr (), c4) \<and>
    cl_conn c4 = Some (k\<lparr>reqCh := reqCh k @ [m, credit]\<rparr>) \<and>
    processRequest E pick credit (serveFunctionRequest E F outgoingStream m t1) = Some (None, t2) \<and>
    sc_requestMap t2 rid = Some sr' \<and>
    handle_all E redial pick
      (sends (streamer_loop E (map (\<lambda>v. ([], OutValue (Some v))) vs @ [([], OutClosed)]) sr')) c4 = Some c5 \<and>
    rid \<notin> cl_registered c5 \<and>
    receive_list E rid (Suc (length vs)) c5 = Some (map (\<lambda>v. Some (Some v)) vs @ [None], c6)"
proof -
  let ?w = "stream_window (cc_maxPending (cl_cfg c))"
  let ?m = "call_message E ctx GetStreamRequest name (Some a) c"
  define c1 where "c1 = (newRequestCtx E rid getStreamKind ?m cap (c\<lparr>cl_lastRequest := rid\<rparr>))
    \<lparr>cl_conn := Some (k\<lparr>reqCh := reqCh k @ [?m]\<rparr>)\<rparr>"
  have w: "0 < ?w" by (simp add: stream_window_def DefaultMaxPending_def)
  have start: "GetStream_begin E D pick (\<lambda>t. t) ctx name (Some a) cap c = Some (Inr rid, c1)"
    "cl_conn c1 = Some (k\<lparr>reqCh := reqCh k @ [?m]\<rparr>)"
    by (simp_all add: GetStream_begin_def start_call_connected [OF conn] c1_def rid_def)
  have stream: "fn_stream fn ctx (Some a) = Returned r" for ctx by (simp add: fn(4))
  obtain t1 sr t2 sr' where server: "processRequest E pick ?m t = Some (None, t1)"
    "sc_workers t1 = sc_workers t @ [Started outgoingStream ?m]"
    "sc_requestMap (serveFunctionRequest E F outgoingStream ?m t1) rid = Some sr" "sr_requestId sr = Long (env_V E) rid"
    "processRequest E pick (credit_message E rid ?w) (serveFunctionRequest E F outgoingStream ?m t1) = Some (None, t2)"
    "sc_requestMap t2 rid = Some sr'"
    "sends (streamer_loop E (map (\<lambda>v. ([], OutValue (Some v))) vs @ [([], OutClosed)]) sr') = stream_messages E rid vs"
    using session_serves_stream [where F = F and name = name, OF laws wf
        call_fields [OF laws wf, of ctx GetStreamRequest name a c, folded rid_def] free fn(1-3) stream win(1) w win(2), of pick]
    by blast
  obtain rc where rc: "has_stream rid rc c1" "open_stream ?w rid [] rc" "recvDelivered rc = - 1"
    using newRequestCtx_stream [OF c1_def] serving by auto
  obtain c2 c3 c4 rc' where opened:
    "getResponseHandler E redial pick (StreamReady_msg (env_V E) (env_d E) (sr_requestId sr)) c1 = Some c2"
    "receive E rid c2 = Some (Some None, c3)" "stream_opened E redial rid (ResultReceived None) c3 = Some (Inr (), c4)"
    "cl_conn c4 = Some (k\<lparr>reqCh := reqCh k @ [?m, credit_message E rid ?w]\<rparr>)" "has_stream rid rc' c4" "open_stream ?w rid [] rc'"
    using client_opens_stream [OF laws wf grow rc start(2) _ w, of redial pick] conn(2) server(4) by auto
  obtain rc5 c5 where handled: "handle_all E redial pick (stream_messages E rid vs) c4 = Some c5"
    "cl_ctxs c5 rid = Some rc5" "ended_stream rid (map Some vs) rc5" "rid \<notin> cl_registered c5"
    using handle_values [OF laws wf grow opened(5,6) _ vs, of redial pick] win(1) unfolding stream_messages_def by auto
  obtain c6 where "receive_list E rid (Suc (length vs)) c5 = Some (map (\<lambda>v. Some (Some v)) vs @ [None], c6)"
    using receive_all_ended [OF handled(2,3), of E] by (auto simp del: receive_list.simps simp: comp_def)
  with start server opened(1-4) handled(1,4) show ?thesis
    by (intro exI conjI) (assumption | simp only: server(7))+
qed

theorem get_stream_round_trip_witness:
  "\<exists>m t1 sr' c4 c5 c6.
    processRequest sample_env True m (NewServingClient 7 [] [] 0 sample_cfg False) = Some (None, t1) \<and>
    handle_all sample_env (\<lambda>_. None) True
      (sends (streamer_loop sample_env (map (\<lambda>v. ([], OutValue (Some v))) [GLong 1, GLong 2] @ [([], OutClosed)]) sr')) c4
      = Some c5 \<and>
    receive_list sample_env 1 3 c5 = Some ([Some (Some (GLong 1)), Some (Some (GLong 2)), None], c6)"
proof -
  let ?t = "NewServingClient 7 [] [] 0 sample_cfg False :: gval servingClient"
  let ?rid = "cl_lastRequest sample_connected + 1"
  define fn where "fn = the (sample_functions ''s'')"
  have fn: "sample_functions ''s'' = Some fn" "fn_ft fn = outgoingStream" "Verify (env_V sample_env) (Some (GLong 5)) (fn_args fn)"
    "\<forall>ctx. fn_stream fn ctx (Some (GLong 5)) = Returned ()"
    by (simp_all add: fn_def sample_functions_def Verify_def)
  have rid: "?rid = 1" by (simp add: sample_connected_fields)
  have c: "cl_conn sample_connected = Some \<lparr>reqCh = [], conn_done = False\<rparr>" "cl_servingMap sample_connected ?rid = None"
    "stream_window (cc_maxPending (cl_cfg sample_connected)) = 4096"
    by (simp_all add: sample_connected_fields)
      (simp add: sample_connected_def NewClientWithDialer_def newClientConfig_def stream_window_def DefaultMaxPending_def Let_def)
  have vs: "\<forall>v\<in>set [GLong 1, GLong 2]. Kind (env_V sample_env) v \<noteq> NULL" by (simp add: ref_api_def)
  have k: "\<not> conn_done \<lparr>reqCh = [] :: gval list, conn_done = False\<rparr>" by simp
  have win: "int (length [GLong 1, GLong 2]) \<le> stream_window (cc_maxPending (cl_cfg sample_connected))"
    "stream_window (cc_maxPending (cl_cfg sample_connected)) < 2 ^ 63"
    by (simp_all add: c(3))
  have n: "Suc (length [GLong 1, GLong 2]) = 3" "map (\<lambda>v. Some (Some v)) [GLong 1, GLong 2] @ [None] =
      [Some (Some (GLong 1)), Some (Some (GLong 2)), None]" by simp_all
  show ?thesis
    using get_stream_round_trip [where F = sample_functions and name = "''s''" and pick = True and redial = "\<lambda>_. None"
        and D = refused and ctx = Background and cap = 1, OF sample_env_laws c(1) k c(2) sample_session_free(1-4) fn win vs]
    unfolding rid n by (elim exE conjE) (intro exI conjI; assumption)
qed

end
