(* ===== verification/Get_Link.thy ===== *)
theory Get_Link
  imports Stream_Link Stream_Round_Trip
begin

text \<open>
  A get stream as a link: the session's streamer with its queue is the sender, the client's request with
  its pump and its queue the receiver, and both handle every message with their own dispatch. The contract
  of \<open>stream_link\<close> is proved for them, so every interleaving of the goroutines of both sides delivers the
  stream, whatever its length.
\<close>

section \<open>The ends\<close>

text \<open>What the environment of both ends provides.\<close>

definition rpc_laws :: "'v rpc_env \<Rightarrow> int \<Rightarrow> bool" where
  "rpc_laws E w \<longleftrightarrow> value_laws (env_V E) \<and> wf_dialect (env_d E) \<and> grows (env_grow E) \<and> 0 < w \<and> w < 2 ^ 63"

definition streamer_turn :: "'v rpc_env \<Rightarrow> int64 \<Rightarrow> 'v out_event \<Rightarrow> 'v servingClient \<Rightarrow> 'v servingClient option" where
  "streamer_turn E rid ev t =
     (case sc_requestMap t rid of
        None \<Rightarrow> None
      | Some sr \<Rightarrow>
          map_option (\<lambda>(_, sr, acts). perform E acts (t\<lparr>sc_requestMap := (sc_requestMap t)(rid \<mapsto> sr)\<rparr>))
            (streamer_step E ev sr))"

definition session_out :: "'v servingClient \<Rightarrow> ('v \<times> 'v servingClient) option" where
  "session_out t = (case sender t of Some (Some (_, m), t) \<Rightarrow> Some (m, t) | _ \<Rightarrow> None)"

definition client_out :: "'v rpcClient \<Rightarrow> ('v \<times> 'v rpcClient) option" where
  "client_out c =
     (case cl_conn c of
        None \<Rightarrow> None
      | Some k \<Rightarrow>
          (case reqCh k of [] \<Rightarrow> None | m # ms \<Rightarrow> Some (m, c\<lparr>cl_conn := Some (k\<lparr>reqCh := ms\<rparr>)\<rparr>)))"

definition get_ops ::
    "'v rpc_env \<Rightarrow> ('v rpcClient \<Rightarrow> (gerror option \<times> 'v rpcClient) option) \<Rightarrow> int64 \<Rightarrow>
     ('v servingClient, 'v rpcClient, 'v, 'v option) link_ops" where
  "get_ops E redial rid =
     \<lparr>l_send = (\<lambda>v. streamer_turn E rid (OutValue v)),
      l_close = streamer_turn E rid OutClosed,
      l_transmit = session_out,
      l_credit = (\<lambda>pick m t. map_option snd (processRequest E pick m t)),
      l_handle = getResponseHandler E redial,
      l_take = receive E rid,
      l_return = client_out\<rparr>"

abbreviation value_message :: "'v rpc_env \<Rightarrow> int64 \<Rightarrow> 'v option \<Rightarrow> 'v" where
  "value_message E rid v \<equiv> StreamValue_msg (env_V E) (env_d E) (Long (env_V E) rid) v"

abbreviation end_message :: "'v rpc_env \<Rightarrow> int64 \<Rightarrow> 'v" where
  "end_message E rid \<equiv> StreamEnd_msg (env_V E) (env_d E) (Long (env_V E) rid) None"

definition sendable :: "'v rpc_env \<Rightarrow> 'v option \<Rightarrow> bool" where
  "sendable E x \<longleftrightarrow> (\<exists>v. x = Some v \<and> Kind (env_V E) v \<noteq> NULL)"

section \<open>The session sends\<close>

definition session_live :: "int64 \<Rightarrow> 'v list \<Rightarrow> 'v servingClient \<Rightarrow> bool" where
  "session_live rid q t \<longleftrightarrow> sc_outgoingQueue t = q \<and> sc_activeConn t \<noteq> None \<and> \<not> sc_done t \<and> sc_pendingStreams t rid = None"

definition get_sending :: "'v rpc_env \<Rightarrow> int \<Rightarrow> int64 \<Rightarrow> int \<Rightarrow> 'v list \<Rightarrow> 'v servingClient \<Rightarrow> bool" where
  "get_sending E w rid c q t \<longleftrightarrow> rpc_laws E w \<and> session_live rid q t \<and>
     (\<exists>sr g. sc_requestMap t rid = Some sr \<and> sr_requestId sr = Long (env_V E) rid \<and> \<not> sr_closed sr \<and>
        sr_sendCredit sr = Some g \<and> \<not> gate_closed g \<and> sint (credit g) = c)"

definition get_finished :: "'v rpc_env \<Rightarrow> int \<Rightarrow> int64 \<Rightarrow> 'v list \<Rightarrow> 'v servingClient \<Rightarrow> bool" where
  "get_finished E w rid q t \<longleftrightarrow> rpc_laws E w \<and> session_live rid q t \<and> sc_requestMap t rid = None"

lemma session_out_live:
  "session_live rid (m # q) t \<Longrightarrow> session_out t = Some (m, t\<lparr>sc_outgoingQueue := q\<rparr>)"
  "session_live rid [] t \<Longrightarrow> session_out t = None"
  by (auto simp: session_out_def sender_def session_live_def)

lemma get_send:
  assumes "get_sending E w rid c q t" and "0 < c"
  shows "\<exists>t'. streamer_turn E rid (OutValue v) t = Some t' \<and> get_sending E w rid (c - 1) (q @ [value_message E rid v]) t'"
proof -
  obtain sr g where s: "sc_requestMap t rid = Some sr" "sr_requestId sr = Long (env_V E) rid" "\<not> sr_closed sr"
    "sr_sendCredit sr = Some g" "\<not> gate_closed g" "sint (credit g) = c"
    using assms(1) by (auto simp: get_sending_def)
  let ?g = "g\<lparr>credit := credit g - 1\<rparr>"
  have acq: "Acquire g = Some (True, ?g)" using s(5,6) assms(2) by (simp add: Acquire_def)
  have "sint (credit ?g) = c - 1" "\<not> gate_closed ?g" using Acquire_True [OF acq] s(6) by auto
  then show ?thesis
    using assms(1) s acq
    by (auto simp: streamer_turn_def streamer_step_def get_sending_def session_live_def send_def record_metric_def)
qed

lemma get_send_blocks: "get_sending E w rid c q t \<Longrightarrow> c = 0 \<Longrightarrow> streamer_turn E rid (OutValue v) t = None"
  by (auto simp: streamer_turn_def streamer_step_def get_sending_def Acquire_def)

lemma get_close:
  assumes "get_sending E w rid c q t"
  shows "\<exists>t'. streamer_turn E rid OutClosed t = Some t' \<and> get_finished E w rid (q @ [end_message E rid]) t'"
proof -
  have "value_laws (env_V E)" using assms by (simp add: get_sending_def rpc_laws_def)
  with assms show ?thesis
    by (auto simp: streamer_turn_def streamer_step_def get_sending_def get_finished_def session_live_def send_def closeRequest_def
        deleteRequest_def record_metric_def value_laws.Long_Long)
qed

lemma get_credit:
  assumes "get_sending E w rid c q t" and "0 \<le> c" and "0 < k" and "c + k \<le> w"
  shows "\<exists>t'. map_option snd (processRequest E pick (credit_message E rid k) t) = Some t' \<and> get_sending E w rid (c + k) q t'"
proof -
  have laws: "value_laws (env_V E)" "wf_dialect (env_d E)" "w < 2 ^ 63" using assms(1) by (simp_all add: get_sending_def rpc_laws_def)
  obtain sr g where s: "sc_requestMap t rid = Some sr" "sr_requestId sr = Long (env_V E) rid" "\<not> sr_closed sr"
    "sr_sendCredit sr = Some g" "\<not> gate_closed g" "sint (credit g) = c"
    using assms(1) by (auto simp: get_sending_def)
  have k: "sint (word_of_int k :: int64) = k" using assms(2-4) laws(3) by (intro sint_of_int64) auto
  have "sint (credit (Grant (word_of_int k) g)) = c + k" "\<not> gate_closed (Grant (word_of_int k) g)"
    using assms(2-4) laws(3) s(5,6) sint_add_no_overflow [of "credit g" "word_of_int k"] by (auto simp: Grant_def k)
  moreover have "sc_pendingStreams t rid = None" using assms(1) by (simp add: get_sending_def session_live_def)
  ultimately show ?thesis
    using serve_credit [OF laws(1,2) _ s(1), of pick "word_of_int k"] assms(1) s
    by (auto simp: get_sending_def session_live_def)
qed

text \<open>Credit for a stream that has ended is answered with an error of the dispatch and changes nothing.\<close>

lemma late_credit:
  assumes "value_laws (env_V E)" and "wf_dialect (env_d E)" and "sc_pendingStreams t rid = None" and "sc_requestMap t rid = None"
  shows "\<exists>err. processRequest E pick (NewStreamCredit (env_V E) (env_d E) (Long (env_V E) rid) n) t = Some (Some err, t)"
  using assms(3,4)
  by (simp add: processRequest_def stream_fields(9-11) [OF assms(1,2)] findPendingStream_def findServingRequest_def
      value_laws.Long_Long [OF assms(1)] serveNewRequest_def mt_defs Let_def)

lemma get_late_credit:
  assumes "get_finished E w rid q t"
  shows "\<exists>t'. map_option snd (processRequest E pick (credit_message E rid k) t) = Some t' \<and> get_finished E w rid q t'"
  using late_credit [of E t rid pick "word_of_int k"] assms by (auto simp: get_finished_def session_live_def rpc_laws_def)

section \<open>The client receives\<close>

definition client_live :: "'v list \<Rightarrow> 'v rpcClient \<Rightarrow> bool" where
  "client_live b c \<longleftrightarrow> (\<exists>k. cl_conn c = Some k \<and> \<not> conn_done k \<and> reqCh k = b)"

definition get_receiving :: "'v rpc_env \<Rightarrow> int \<Rightarrow> int64 \<Rightarrow> 'v option list \<Rightarrow> int \<Rightarrow> 'v list \<Rightarrow> 'v rpcClient \<Rightarrow> bool" where
  "get_receiving E w rid xs d b c \<longleftrightarrow> rpc_laws E w \<and> client_live b c \<and>
     (\<exists>rc. has_stream rid rc c \<and> open_stream w rid xs rc \<and> sint (recvDelivered rc) = d)"

definition get_draining :: "'v rpc_env \<Rightarrow> int \<Rightarrow> int64 \<Rightarrow> 'v option list \<Rightarrow> int \<Rightarrow> 'v list \<Rightarrow> 'v rpcClient \<Rightarrow> bool" where
  "get_draining E w rid xs d b c \<longleftrightarrow> rpc_laws E w \<and> client_live b c \<and>
     (\<exists>rc. cl_ctxs c rid = Some rc \<and> ended_stream rid xs rc \<and> grantCredit rc \<and> creditWindow rc = word_of_int w \<and>
        sint (recvDelivered rc) = d)"

lemma client_out_live:
  "client_live (m # b) c \<Longrightarrow> \<exists>k. client_out c = Some (m, c\<lparr>cl_conn := Some k\<rparr>) \<and> client_live b (c\<lparr>cl_conn := Some k\<rparr>)"
  "client_live [] c \<Longrightarrow> client_out c = None"
  by (auto simp: client_live_def client_out_def)

lemma client_live_credit: "client_live b c \<Longrightarrow> client_live (b @ [NewStreamCredit (env_V E) (env_d E) (Long (env_V E) rid) n]) (sendStreamCredit E rid n c)"
  by (auto simp: client_live_def sendStreamCredit_def reply_to_server_def conn_send_def SendRequest_def)

lemma get_handle_value:
  assumes "get_receiving E w rid xs d b c" and "sendable E x" and "int (length xs) < w"
  shows "\<exists>c'. getResponseHandler E redial pick (value_message E rid x) c = Some c' \<and> get_receiving E w rid (xs @ [x]) d b c'"
proof -
  obtain v where v: "x = Some v" "Kind (env_V E) v \<noteq> NULL" using assms(2) by (auto simp: sendable_def)
  obtain rc where rc: "has_stream rid rc c" "open_stream w rid xs rc" "sint (recvDelivered rc) = d"
    using assms(1) by (auto simp: get_receiving_def)
  have laws: "value_laws (env_V E)" "wf_dialect (env_d E)" "grows (env_grow E)" using assms(1) by (simp_all add: get_receiving_def rpc_laws_def)
  from handle_value [OF laws rc(1,2) assms(3) v(2), of redial pick] obtain rc' c'
    where "getResponseHandler E redial pick (value_message E rid (Some v)) c = Some c'" "has_stream rid rc' c'"
      "open_stream w rid (xs @ [Some v]) rc'" "recvDelivered rc' = recvDelivered rc" "cl_conn c' = cl_conn c" by blast
  moreover have "client_live b c' = client_live b c" using calculation(5) by (simp add: client_live_def)
  ultimately show ?thesis using v(1) assms(1) rc(3) by (auto simp: get_receiving_def)
qed

lemma get_handle_end:
  assumes "get_receiving E w rid xs d b c"
  shows "\<exists>c'. getResponseHandler E redial pick (end_message E rid) c = Some c' \<and> get_draining E w rid xs d b c'"
proof -
  let ?m = "end_message E rid"
  obtain rc where rc: "has_stream rid rc c" "open_stream w rid xs rc" "sint (recvDelivered rc) = d"
    using assms(1) by (auto simp: get_receiving_def)
  have laws: "value_laws (env_V E)" "wf_dialect (env_d E)" using assms(1) by (simp_all add: get_receiving_def rpc_laws_def)
  have "payload E ?m = None"
    by (simp add: payload_def stream_fields(8) [OF laws] value_laws.Kind_Null [OF laws(1)])
  moreover have "getResponseHandler E redial pick ?m c = processResponse E redial pick StreamEnd ?m rc c"
    by (rule dispatch_response [OF laws(1) rc(1) stream_fields(6,7) [OF laws, of rid]]) simp
  ultimately show ?thesis
    using rc assms
    by (auto simp: processResponse_def mt_defs Let_def open_stream_def ended_stream_def TryGetClose_def closeResult_def
        update_ctx_def unregister_def Close_def slots_ok_def contents_def get_receiving_def get_draining_def client_live_def)
qed

text \<open>The callback of a delivery: it grants what was delivered since the last grant once that is half the window.\<close>

lemma grantRecv_batch:
  assumes "0 < w" and "w < 2 ^ 63" and "grantCredit rc" and "creditWindow rc = word_of_int w"
    and "sint (recvDelivered rc) = d" and "0 \<le> d" and "d < batch_of w"
  shows "\<exists>rc'. grantRecv rc = (rc', if batch_of w \<le> d + 1 then Some (word_of_int (d + 1)) else None) \<and>
    sint (recvDelivered rc') = (if batch_of w \<le> d + 1 then 0 else d + 1)"
proof -
  note rep = replenish_batch [OF assms(1,2,5-7)]
  obtain rc' n where g: "grantRecv rc = (rc', n)" by force
  have "recvDelivered rc' = fst (replenish (word_of_int w) (recvDelivered rc))" "n = snd (replenish (word_of_int w) (recvDelivered rc))"
    using client_credit.deliver_counter [of rc] client_credit.deliver_grant [of rc] assms(3,4) by (simp_all add: g)
  then show ?thesis using rep(2) unfolding rep(1) by (auto simp: g)
qed

lemma client_live_update [simp]: "client_live b (update_ctx rid rc c) = client_live b c"
  by (simp add: client_live_def update_ctx_def)

text \<open>One value taken from the pump, with the callback, in either phase of the stream.\<close>

lemma receive_batch:
  assumes "client_live b c" and "cl_ctxs c rid = Some rc" and "resultPump rc = Some p"
    and "slots_ok p" and "contents p = x # xs" and "\<not> stopCh p"
    and "0 < w" and "w < 2 ^ 63" and "grantCredit rc" and "creditWindow rc = word_of_int w"
    and "sint (recvDelivered rc) = d" and "0 \<le> d" and "d < batch_of w"
  obtains rc' p' c' where "receive E rid c = Some (Some x, c')" "cl_ctxs c' rid = Some rc'"
    "cl_registered c' = cl_registered c" "cl_servingMap c' = cl_servingMap c"
    "resultPump rc' = Some p'" "slots_ok p'" "contents p' = xs" "inputEnd p' = inputEnd p" "\<not> stopCh p'"
    "maxPending p' = maxPending p" "requestId rc' = requestId rc" "skind rc' = skind rc" "closeOnce rc' = closeOnce rc"
    "grantCredit rc'" "creditWindow rc' = word_of_int w" "resultCh rc' = resultCh rc"
    "sint (recvDelivered rc') = (if batch_of w \<le> d + 1 then 0 else d + 1)"
    "client_live (if batch_of w \<le> d + 1 then b @ [credit_message E rid (d + 1)] else b) c'"
proof -
  obtain p' where p': "run_locked p = Some (Select x, p')" "slots_ok p'" "contents p' = xs" "inputEnd p' = inputEnd p"
    "stopCh p' = stopCh p" "maxPending p' = maxPending p"
    by (rule run_locked_front [OF assms(4-6)])
  let ?rc = "rc\<lparr>resultPump := Some p'\<rparr>"
  let ?n = "if batch_of w \<le> d + 1 then Some (word_of_int (d + 1)) else None"
  obtain rc' where g: "grantRecv ?rc = (rc', ?n)" "sint (recvDelivered rc') = (if batch_of w \<le> d + 1 then 0 else d + 1)"
    using grantRecv_batch [of w ?rc d] assms(7-13) by auto
  let ?c = "update_ctx rid rc' c"
  let ?c' = "case ?n of None \<Rightarrow> ?c | Some n \<Rightarrow> sendStreamCredit E rid n ?c"
  have "receive E rid c = Some (Some x, ?c')" using assms(2,3) p'(1) g(1) by (simp add: receive_def)
  moreover have "cl_ctxs ?c' rid = Some rc'" "cl_registered ?c' = cl_registered c" "cl_servingMap ?c' = cl_servingMap c"
    by (simp_all add: update_ctx_def sendStreamCredit_def reply_to_server_def conn_send_def split: option.splits)
  moreover have "client_live (if batch_of w \<le> d + 1 then b @ [credit_message E rid (d + 1)] else b) ?c'"
    using client_live_credit [of b ?c E rid] assms(1) by simp
  ultimately show ?thesis
    using that grantRecv_fields [OF g(1)] p' g(2) assms(6,9,10) by simp
qed

lemma get_take:
  assumes "get_receiving E w rid (x # xs) d b c" and "0 \<le> d" and "d < batch_of w"
  shows "\<exists>c'. receive E rid c = Some (Some x, c') \<and>
    (if batch_of w \<le> d + 1 then get_receiving E w rid xs 0 (b @ [credit_message E rid (d + 1)]) c'
     else get_receiving E w rid xs (d + 1) b c')"
proof -
  obtain rc p where rc: "rpc_laws E w" "client_live b c" "has_stream rid rc c" "open_stream w rid (x # xs) rc"
    "sint (recvDelivered rc) = d" "resultPump rc = Some p" "slots_ok p" "contents p = x # xs" "\<not> stopCh p"
    using assms(1) by (auto simp: get_receiving_def open_stream_def)
  have h: "cl_ctxs c rid = Some rc" "0 < w" "w < 2 ^ 63" "grantCredit rc" "creditWindow rc = word_of_int w"
    using rc(1,3,4) by (simp_all add: has_stream_def rpc_laws_def open_stream_def)
  show ?thesis
    by (rule receive_batch [OF rc(2) h(1) rc(6-9) h(2-5) rc(5) assms(2,3), of E])
      (use rc(1,3,4,6) in \<open>auto simp: get_receiving_def open_stream_def has_stream_def\<close>)
qed

lemma get_drain:
  assumes "get_draining E w rid (x # xs) d b c" and "0 \<le> d" and "d < batch_of w"
  shows "\<exists>c'. receive E rid c = Some (Some x, c') \<and>
    (if batch_of w \<le> d + 1 then get_draining E w rid xs 0 (b @ [credit_message E rid (d + 1)]) c'
     else get_draining E w rid xs (d + 1) b c')"
proof -
  obtain rc p where rc: "rpc_laws E w" "client_live b c" "cl_ctxs c rid = Some rc" "inputEnd p"
    "sint (recvDelivered rc) = d" "resultPump rc = Some p" "slots_ok p" "contents p = x # xs" "\<not> stopCh p"
    "grantCredit rc" "creditWindow rc = word_of_int w"
    using assms(1) by (auto simp: get_draining_def ended_stream_def)
  have h: "0 < w" "w < 2 ^ 63" using rc(1) by (simp_all add: rpc_laws_def)
  show ?thesis
    by (rule receive_batch [OF rc(2,3) rc(6-9) h rc(10,11) rc(5) assms(2,3), of E])
      (use rc(1,4) in \<open>auto simp: get_draining_def ended_stream_def\<close>)
qed

lemma get_take_empty: "get_receiving E w rid [] d b c \<Longrightarrow> receive E rid c = None"
  by (auto simp: get_receiving_def has_stream_def open_stream_def receive_def run_locked_def isStopped_def pending_contents)

lemma get_take_end:
  assumes "get_draining E w rid [] d b c"
  shows "\<exists>c'. receive E rid c = Some (None, c') \<and> get_draining E w rid [] d b c'"
proof -
  obtain rc p where rc: "cl_ctxs c rid = Some rc" "resultPump rc = Some p" "slots_ok p" "contents p = []" "\<not> stopCh p" "inputEnd p"
    using assms by (auto simp: get_draining_def ended_stream_def)
  then have "run_locked p = Some (Done, p)"
    using pending_contents [OF rc(3)] by (simp add: run_locked_def isStopped_def)
  moreover have "update_ctx rid (rc\<lparr>resultPump := Some p\<rparr>) c = c"
    using rc(1,2) by (simp add: update_ctx_def fun_upd_idem)
  ultimately show ?thesis using rc(1,2) assms by (simp add: receive_def)
qed

lemma get_return:
  "get_receiving E w rid xs d (m # b) c \<Longrightarrow> \<exists>c'. client_out c = Some (m, c') \<and> get_receiving E w rid xs d b c'"
  "get_draining E w rid xs d (m # b) c \<Longrightarrow> \<exists>c'. client_out c = Some (m, c') \<and> get_draining E w rid xs d b c'"
  using client_out_live(1) [of m b c] by (auto simp: get_receiving_def get_draining_def has_stream_def)

section \<open>The link\<close>

lemma get_transmit:
  "get_sending E w rid c (m # q) t \<Longrightarrow> \<exists>t'. session_out t = Some (m, t') \<and> get_sending E w rid c q t'"
  "get_finished E w rid (m # q) t \<Longrightarrow> \<exists>t'. session_out t = Some (m, t') \<and> get_finished E w rid q t'"
  "get_sending E w rid c [] t \<Longrightarrow> session_out t = None"
  "get_finished E w rid [] t \<Longrightarrow> session_out t = None"
  using session_out_live(1) [of rid m q t] session_out_live(2) [of rid t]
  by (auto simp: get_sending_def get_finished_def session_live_def)

lemma get_return_empty:
  "get_receiving E w rid xs d [] c \<Longrightarrow> client_out c = None" "get_draining E w rid xs d [] c \<Longrightarrow> client_out c = None"
  by (simp_all add: get_receiving_def get_draining_def client_out_live(2))

lemma get_window: "get_sending E w rid c q t \<Longrightarrow> 0 < w"
  by (simp add: get_sending_def rpc_laws_def)

lemmas get_laws = get_send get_send_blocks get_close get_transmit get_credit get_late_credit get_handle_value get_handle_end
  get_take get_drain get_take_empty get_take_end get_return get_return_empty get_window

interpretation get_link: stream_link "get_ops E redial rid" w "value_message E rid" "end_message E rid" "credit_message E rid"
    "sendable E" "get_sending E w rid" "get_finished E w rid" "get_receiving E w rid" "get_draining E w rid"
  for E :: "'v rpc_env" and redial and rid w
  by unfold_locales (unfold get_ops_def link_ops.simps, (rule get_laws; assumption)+)

section \<open>A get stream on every schedule\<close>

text \<open>The session's part of opening a stream: the handler returned its channel and the streamer acknowledges.\<close>

lemma session_opens_get:
  assumes "value_laws (env_V E)" and "wf_dialect (env_d E)" and "grows (env_grow E)" and "0 < w" and "w < 2 ^ 63"
    and m: "GetNumberField (env_V E) m (MessageTypeField (env_d E)) = Some (Long (env_V E) GetStreamRequest)"
      "GetNumberField (env_V E) m (RequestIdField (env_d E)) = Some (Long (env_V E) rid)"
      "GetStringField (env_V E) m (FunctionNameField (env_d E)) = Some (Utf8 (env_V E) name)"
      "Get (env_V E) m (ArgumentsField (env_d E)) = Some a"
    and live: "session_live rid [] t" and free: "sc_requestMap t rid = None"
      "sint (maxConcurrentRequests (sc_cfg t)) \<le> 0 \<or>
       sint (sc_inFlight t + 1) \<le> sint (maxConcurrentRequests (sc_cfg t))"
      "sint (maxConcurrentStreams (sc_cfg t)) \<le> 0 \<or> sint (sc_liveStreams t) < sint (maxConcurrentStreams (sc_cfg t))"
    and fn: "F name = Some fn" "fn_ft fn = outgoingStream" "Verify (env_V E) (Some a) (fn_args fn)"
      "\<And>ctx. fn_stream fn ctx (Some a) = Returned r"
  shows "\<exists>t1 sr t2. processRequest E pick m t = Some (None, t1) \<and> sc_workers t1 = sc_workers t @ [Started outgoingStream m] \<and>
    sc_requestMap (serveFunctionRequest E F outgoingStream m t1) rid = Some sr \<and>
    session_out (perform E (outgoingStreamer E [] sr) (serveFunctionRequest E F outgoingStream m t1)) =
      Some (StreamReady_msg (env_V E) (env_d E) (Long (env_V E) rid), t2) \<and> get_sending E w rid 0 [] t2"
proof -
  let ?t1 = "t\<lparr>sc_inFlight := sc_inFlight t + 1, sc_workers := sc_workers t @ [Started outgoingStream m]\<rparr>"
  let ?t' = "serveFunctionRequest E F outgoingStream m ?t1"
  define sr where "sr = (NewServingRequest outgoingStream (Long (env_V E) rid))\<lparr>sr_cancel := True, sr_method := name\<rparr>"
  have sr: "sr_requestId sr = Long (env_V E) rid" "sr_sendCredit sr = Some NewCreditGate" "\<not> sr_closed sr"
    by (simp_all add: sr_def NewServingRequest_def Let_def)
  have pending: "sc_pendingStreams t rid = None" using live by (simp add: session_live_def)
  have served: "processRequest E pick m t = Some (None, ?t1)"
    by (rule processRequest_new [OF assms(1) m(1,2) pending free(1,2)]) simp
  note stream = serve_get_stream [where F = F and name = name and t = ?t1, OF assms(1) m(2-4) fn, folded sr_def]
  let ?ready = "StreamReady_msg (env_V E) (env_d E) (Long (env_V E) rid)"
  let ?t2 = "?t'\<lparr>sc_outgoingQueue := []\<rparr>"
  have t': "sc_requestMap ?t' rid = Some sr" "session_live rid [] ?t'" using stream live free by (simp_all add: session_live_def)
  then have "session_live rid [?ready] (perform E (outgoingStreamer E [] sr) ?t')"
      "(perform E (outgoingStreamer E [] sr) ?t')\<lparr>sc_outgoingQueue := []\<rparr> = ?t2"
    by (simp_all add: outgoingStreamer_def sr(1) session_live_def send_def)
  then have "session_out (perform E (outgoingStreamer E [] sr) ?t') = Some (?ready, ?t2)"
    using session_out_live(1) by metis
  moreover have "get_sending E w rid 0 [] ?t2"
    using assms(1-5) t' sr by (simp add: get_sending_def rpc_laws_def session_live_def NewCreditGate_def)
  ultimately show ?thesis using served t'(1) by fastforce
qed

text \<open>
  How a get stream comes to be: the call on an idle live connection to a session with a free slot, the request,
  the acknowledgement, and the initial credit that the client has queued.
\<close>

lemma get_stream_opens:
  fixes E :: "'v rpc_env" and c :: "'v rpcClient" and t :: "'v servingClient"
  defines "rid \<equiv> cl_lastRequest c + 1"
  assumes laws: "value_laws (env_V E)" and wf: "wf_dialect (env_d E)" and grow: "grows (env_grow E)"
    and conn: "cl_conn c = Some k" "\<not> conn_done k" "reqCh k = []" and serving: "cl_servingMap c rid = None"
    and live: "session_live rid [] t"
    and free: "sc_requestMap t rid = None"
      "sint (maxConcurrentRequests (sc_cfg t)) \<le> 0 \<or>
       sint (sc_inFlight t + 1) \<le> sint (maxConcurrentRequests (sc_cfg t))"
      "sint (maxConcurrentStreams (sc_cfg t)) \<le> 0 \<or> sint (sc_liveStreams t) < sint (maxConcurrentStreams (sc_cfg t))"
    and fn: "F name = Some fn" "fn_ft fn = outgoingStream" "Verify (env_V E) (Some a) (fn_args fn)"
      "\<forall>ctx. fn_stream fn ctx (Some a) = Returned r"
    and win: "stream_window (cc_maxPending (cl_cfg c)) < 2 ^ 63"
  defines "w \<equiv> stream_window (cc_maxPending (cl_cfg c))"
  shows "\<exists>c1 m c2 t1 sr ready t2 c3 c4 c5.
    GetStream_begin E D pick (\<lambda>t. t) ctx name (Some a) cap c = Some (Inr rid, c1) \<and> client_out c1 = Some (m, c2) \<and>
    processRequest E pick m t = Some (None, t1) \<and> sc_workers t1 = sc_workers t @ [Started outgoingStream m] \<and>
    sc_requestMap (serveFunctionRequest E F outgoingStream m t1) rid = Some sr \<and>
    session_out (perform E (outgoingStreamer E [] sr) (serveFunctionRequest E F outgoingStream m t1)) = Some (ready, t2) \<and>
    getResponseHandler E redial pick ready c2 = Some c3 \<and> receive E rid c3 = Some (Some None, c4) \<and>
    stream_opened E redial rid (ResultReceived None) c4 = Some (Inr (), c5) \<and>
    get_sending E w rid 0 [] t2 \<and> get_receiving E w rid [] 0 [credit_message E rid w] c5"
proof -
  let ?w = "stream_window (cc_maxPending (cl_cfg c))"
  let ?m = "call_message E ctx GetStreamRequest name (Some a) c"
  let ?new = "newRequestCtx E rid getStreamKind ?m cap (c\<lparr>cl_lastRequest := rid\<rparr>)"
  let ?c1 = "?new\<lparr>cl_conn := Some (k\<lparr>reqCh := [?m]\<rparr>)\<rparr>" let ?c2 = "?new\<lparr>cl_conn := Some k\<rparr>"
  have w: "0 < ?w" by (simp add: stream_window_def DefaultMaxPending_def)
  have start: "GetStream_begin E D pick (\<lambda>t. t) ctx name (Some a) cap c = Some (Inr rid, ?c1)"
    by (simp add: GetStream_begin_def start_call_connected [OF conn(1,2)] conn(3) rid_def)
  have "k\<lparr>reqCh := []\<rparr> = k" using conn(3) by simp
  then have out: "client_out ?c1 = Some (?m, ?c2)" by (simp add: client_out_def)
  have stream: "fn_stream fn ctx (Some a) = Returned r" for ctx by (simp add: fn(4))
  obtain t1 sr t2 where server: "processRequest E pick ?m t = Some (None, t1)"
    "sc_workers t1 = sc_workers t @ [Started outgoingStream ?m]"
    "sc_requestMap (serveFunctionRequest E F outgoingStream ?m t1) rid = Some sr"
    "session_out (perform E (outgoingStreamer E [] sr) (serveFunctionRequest E F outgoingStream ?m t1)) =
       Some (StreamReady_msg (env_V E) (env_d E) (Long (env_V E) rid), t2)" "get_sending E ?w rid 0 [] t2"
    using session_opens_get [where F = F and name = name, OF laws wf grow w win
        call_fields [OF laws wf, of ctx GetStreamRequest name a c, folded rid_def] live free fn(1-3) stream, of pick] by blast
  obtain rc where rc: "has_stream rid rc ?c2" "open_stream ?w rid [] rc" "recvDelivered rc = - 1"
    using newRequestCtx_stream [OF refl, where c = "c\<lparr>cl_lastRequest := rid\<rparr>" and rid = rid and E = E and m = ?m
        and cap = cap and k = "Some k"] serving by auto
  obtain c3 c4 c5 rc' where opened:
    "getResponseHandler E redial pick (StreamReady_msg (env_V E) (env_d E) (Long (env_V E) rid)) ?c2 = Some c3"
    "receive E rid c3 = Some (Some None, c4)" "stream_opened E redial rid (ResultReceived None) c4 = Some (Inr (), c5)"
    "cl_conn c5 = Some (k\<lparr>reqCh := reqCh k @ [credit_message E rid ?w]\<rparr>)" "has_stream rid rc' c5" "open_stream ?w rid [] rc'"
    "recvDelivered rc' = 0"
    using client_opens_stream [OF laws wf grow rc _ conn(2) w, of redial pick] by auto
  have "get_receiving E ?w rid [] 0 [credit_message E rid ?w] c5"
    using laws wf grow w win conn(2,3) opened(4-7) by (auto simp: get_receiving_def rpc_laws_def client_live_def)
  with start out server opened(1-3) show ?thesis unfolding w_def by (intro exI conjI) assumption+
qed

lemma sample_get_stream:
  defines "fn \<equiv> the (sample_functions ''s'')"
  shows "cl_lastRequest sample_connected + 1 = 1" "cl_conn sample_connected = Some \<lparr>reqCh = [], conn_done = False\<rparr>"
    and "\<not> conn_done \<lparr>reqCh = [] :: gval list, conn_done = False\<rparr>" "reqCh \<lparr>reqCh = [] :: gval list, conn_done = False\<rparr> = []"
    and "cl_servingMap sample_connected (cl_lastRequest sample_connected + 1) = None"
    and "session_live (cl_lastRequest sample_connected + 1) [] (NewServingClient 7 [] [] 0 sample_cfg False :: gval servingClient)"
    and "sample_functions ''s'' = Some fn" "fn_ft fn = outgoingStream"
    and "Verify (env_V sample_env) (Some (GLong 5)) (fn_args fn)" "\<forall>ctx. fn_stream fn ctx (Some (GLong 5)) = Returned ()"
    and "stream_window (cc_maxPending (cl_cfg sample_connected)) = DefaultMaxPending"
  by (simp_all add: sample_connected_fields fn_def sample_functions_def Verify_def NewServingClient_def session_live_def)
    (simp add: sample_connected_def NewClientWithDialer_def newClientConfig_def stream_window_def DefaultMaxPending_def Let_def)

text \<open>
  C2. A get stream of any length, on every schedule. On an idle live connection to a session with a free
  slot, for a function whose handler yields the values \<open>vs\<close> (none of them null): the call, the request, the
  acknowledgement and the initial credit open the stream. From there every run of the goroutines of both
  sides, in whatever order they are scheduled, takes at most \<open>7 * length vs + 9\<close> steps, what the caller has
  received is always a prefix of \<open>vs\<close> followed by the closed channel, and a run in which no goroutine can
  move any more has delivered all of it: the window never overflows, and no run deadlocks.
\<close>

theorem get_stream_every_schedule:
  fixes E :: "'v rpc_env" and c :: "'v rpcClient" and t :: "'v servingClient" and vs :: "'v list"
  defines "rid \<equiv> cl_lastRequest c + 1"
  assumes laws: "value_laws (env_V E)" and wf: "wf_dialect (env_d E)" and grow: "grows (env_grow E)"
    and conn: "cl_conn c = Some k" "\<not> conn_done k" "reqCh k = []" and serving: "cl_servingMap c rid = None"
    and live: "session_live rid [] t"
    and free: "sc_requestMap t rid = None"
      "sint (maxConcurrentRequests (sc_cfg t)) \<le> 0 \<or>
       sint (sc_inFlight t + 1) \<le> sint (maxConcurrentRequests (sc_cfg t))"
      "sint (maxConcurrentStreams (sc_cfg t)) \<le> 0 \<or> sint (sc_liveStreams t) < sint (maxConcurrentStreams (sc_cfg t))"
    and fn: "F name = Some fn" "fn_ft fn = outgoingStream" "Verify (env_V E) (Some a) (fn_args fn)"
      "\<forall>ctx. fn_stream fn ctx (Some a) = Returned r"
    and win: "stream_window (cc_maxPending (cl_cfg c)) < 2 ^ 63"
    and vs: "\<forall>v\<in>set vs. Kind (env_V E) v \<noteq> NULL"
  shows "\<exists>c1 m c2 t1 sr ready t2 c3 c4 c5.
    GetStream_begin E D pick (\<lambda>t. t) ctx name (Some a) cap c = Some (Inr rid, c1) \<and> client_out c1 = Some (m, c2) \<and>
    processRequest E pick m t = Some (None, t1) \<and> sc_workers t1 = sc_workers t @ [Started outgoingStream m] \<and>
    sc_requestMap (serveFunctionRequest E F outgoingStream m t1) rid = Some sr \<and>
    session_out (perform E (outgoingStreamer E [] sr) (serveFunctionRequest E F outgoingStream m t1)) = Some (ready, t2) \<and>
    getResponseHandler E redial pick ready c2 = Some c3 \<and> receive E rid c3 = Some (Some None, c4) \<and>
    stream_opened E redial rid (ResultReceived None) c4 = Some (Inr (), c5) \<and>
    (\<forall>j n. (link_step (get_ops E redial rid) ^^ j) (link_start (map Some vs) t2 c5) n \<longrightarrow>
       j \<le> 7 * length vs + 9 \<and> prefix (lk_got n) (map (\<lambda>v. Some (Some v)) vs @ [None]) \<and>
       ((\<nexists>n'. link_step (get_ops E redial rid) n n') \<longrightarrow> lk_got n = map (\<lambda>v. Some (Some v)) vs @ [None]))"
proof -
  let ?w = "stream_window (cc_maxPending (cl_cfg c))"
  obtain c1 m c2 t1 sr ready t2 c3 c4 c5 where opened:
    "GetStream_begin E D pick (\<lambda>t. t) ctx name (Some a) cap c = Some (Inr rid, c1)"
    "client_out c1 = Some (m, c2)"
    "processRequest E pick m t = Some (None, t1)"
    "sc_workers t1 = sc_workers t @ [Started outgoingStream m]"
    "sc_requestMap (serveFunctionRequest E F outgoingStream m t1) rid = Some sr"
    "session_out (perform E (outgoingStreamer E [] sr) (serveFunctionRequest E F outgoingStream m t1)) = Some (ready, t2)"
    "getResponseHandler E redial pick ready c2 = Some c3"
    "receive E rid c3 = Some (Some None, c4)"
    "stream_opened E redial rid (ResultReceived None) c4 = Some (Inr (), c5)"
    and ends: "get_sending E ?w rid 0 [] t2" "get_receiving E ?w rid [] 0 (map (credit_message E rid) [?w]) c5"
    using get_stream_opens [where E = E and D = D and pick = pick and ctx = ctx and cap = cap and redial = redial and F = F and name = name,
        OF laws wf grow conn serving [unfolded rid_def] live [unfolded rid_def] free(1) [unfolded rid_def] free(2,3) fn win]
    unfolding rid_def [symmetric] by auto
  have w: "0 < ?w" by (simp add: stream_window_def DefaultMaxPending_def)
  have "\<forall>x \<in> set (map Some vs). sendable E x" using vs by (simp add: sendable_def)
  then have "(link_step (get_ops E redial rid) ^^ j) (link_start (map Some vs) t2 c5) n \<longrightarrow>
       j \<le> 7 * length vs + 9 \<and> prefix (lk_got n) (map (\<lambda>v. Some (Some v)) vs @ [None]) \<and>
       ((\<nexists>n'. link_step (get_ops E redial rid) n n') \<longrightarrow> lk_got n = map (\<lambda>v. Some (Some v)) vs @ [None])" for j n
    using get_link.delivers [OF ends(1), where ks = "[?w]" and r = c5 and vs = "map Some vs" and redial = redial
        and k = j and n = n] ends(2) w
    by (auto simp: comp_def)
  with opened show ?thesis by (intro exI conjI allI) assumption+
qed

theorem get_stream_every_schedule_witness:
  "\<exists>t2 c5 j n. (link_step (get_ops sample_env (\<lambda>_. None) 1) ^^ j) (link_start (map Some (replicate 10000 (GLong 1))) t2 c5) n \<and>
    (\<nexists>n'. link_step (get_ops sample_env (\<lambda>_. None) 1) n n') \<and>
    lk_got n = map (\<lambda>v. Some (Some v)) (replicate 10000 (GLong 1)) @ [None]"
proof -
  note c = sample_get_stream
  have win: "stream_window (cc_maxPending (cl_cfg sample_connected)) < 2 ^ 63" by (simp add: c(11) DefaultMaxPending_def)
  have vs: "\<forall>v\<in>set (replicate 10000 (GLong 1)). Kind (env_V sample_env) v \<noteq> NULL" by (simp add: ref_api_def)
  obtain t2 c5 where all: "\<And>j n. (link_step (get_ops sample_env (\<lambda>_. None) 1) ^^ j) (link_start (map Some (replicate 10000 (GLong 1))) t2 c5) n \<Longrightarrow>
      j \<le> 7 * length (replicate 10000 (GLong 1)) + 9 \<and>
      ((\<nexists>n'. link_step (get_ops sample_env (\<lambda>_. None) 1) n n') \<longrightarrow>
        lk_got n = map (\<lambda>v. Some (Some v)) (replicate 10000 (GLong 1)) @ [None])"
    using get_stream_every_schedule [where F = sample_functions and name = "''s''" and pick = True and redial = "\<lambda>_. None"
        and D = refused and ctx = Background and cap = 1, OF sample_env_laws c(2-6) sample_session_free(2-4) c(7-10) win vs]
    unfolding c(1) by blast
  have "\<exists>j n. (link_step (get_ops sample_env (\<lambda>_. None) 1) ^^ j) (link_start (map Some (replicate 10000 (GLong 1))) t2 c5) n \<and>
    (\<nexists>n'. link_step (get_ops sample_env (\<lambda>_. None) 1) n n') \<and>
    lk_got n = map (\<lambda>v. Some (Some v)) (replicate 10000 (GLong 1)) @ [None]"
    by (rule bounded_run_ends) (erule all)
  then show ?thesis by blast
qed

section \<open>A stream of null values\<close>

text \<open>The client drops a null value before its pump: its state does not change, and no credit comes of it.\<close>

lemma get_handle_null:
  assumes "get_receiving E w rid xs d b c" and "Kind (env_V E) v = NULL"
  shows "getResponseHandler E redial pick (value_message E rid (Some v)) c = Some c"
proof -
  obtain rc where rc: "has_stream rid rc c" "open_stream w rid xs rc" using assms(1) by (auto simp: get_receiving_def)
  have laws: "value_laws (env_V E)" "wf_dialect (env_d E)" using assms(1) by (simp_all add: get_receiving_def rpc_laws_def)
  have "getResponseHandler E redial pick (value_message E rid (Some v)) c =
      processResponse E redial pick StreamValue (value_message E rid (Some v)) rc c"
    by (rule dispatch_response [OF laws(1) rc(1) stream_fields(3,4) [OF laws, of rid]]) simp
  moreover have "payload E (value_message E rid (Some v)) = None"
    using assms(2) by (simp add: payload_def stream_fields(5) [OF laws])
  ultimately show ?thesis by (simp add: processResponse_def mt_defs Let_def)
qed

text \<open>
  A run of such a stream has two phases: the initial credit travels to the session, and then the session
  spends it. The number of steps taken, \<open>j\<close>, and what is left add up.
\<close>

definition nothing_received :: "'v rpc_env \<Rightarrow> int \<Rightarrow> int64 \<Rightarrow> 'v list \<Rightarrow> ('v servingClient, 'v rpcClient, 'v, 'v option) link \<Rightarrow> bool" where
  "nothing_received E w rid b n \<longleftrightarrow> get_receiving E w rid [] 0 b (lk_receiver n) \<and> lk_got n = [] \<and> lk_open n"

definition awaiting_credit ::
    "'v rpc_env \<Rightarrow> int \<Rightarrow> int64 \<Rightarrow> 'v list \<Rightarrow> nat \<Rightarrow> ('v servingClient, 'v rpcClient, 'v, 'v option) link \<Rightarrow> bool" where
  "awaiting_credit E w rid vs j n \<longleftrightarrow> get_sending E w rid 0 [] (lk_sender n) \<and> lk_wire n = [] \<and> lk_src n = map Some vs \<and>
     (j = 0 \<and> nothing_received E w rid [credit_message E rid w] n \<and> lk_back n = [] \<or>
      j = 1 \<and> nothing_received E w rid [] n \<and> lk_back n = [credit_message E rid w])"

definition spending_credit ::
    "'v rpc_env \<Rightarrow> int \<Rightarrow> int64 \<Rightarrow> 'v list \<Rightarrow> nat \<Rightarrow> ('v servingClient, 'v rpcClient, 'v, 'v option) link \<Rightarrow> bool" where
  "spending_credit E w rid vs j n \<longleftrightarrow> nothing_received E w rid [] n \<and> lk_back n = [] \<and>
     (\<exists>c us ms. get_sending E w rid (int c) (map (\<lambda>v. value_message E rid (Some v)) us) (lk_sender n) \<and>
        lk_wire n = map (\<lambda>v. value_message E rid (Some v)) ms \<and> (\<forall>v\<in>set us \<union> set ms. Kind (env_V E) v = NULL) \<and>
        int c \<le> w \<and> lk_src n = map Some (drop (nat w - c) vs) \<and>
        j + 3 * c + 2 * length us + length ms = 3 * nat w + 2)"

lemmas null_phase_defs = awaiting_credit_def spending_credit_def nothing_received_def

lemma spending_creditI:
  assumes "nothing_received E w rid [] n" and "lk_back n = []"
    and "get_sending E w rid (int c) (map (\<lambda>v. value_message E rid (Some v)) us) (lk_sender n)"
    and "lk_wire n = map (\<lambda>v. value_message E rid (Some v)) ms" and "\<forall>v\<in>set us \<union> set ms. Kind (env_V E) v = NULL"
    and "int c \<le> w" and "lk_src n = map Some (drop (nat w - c) vs)"
    and "j + 3 * c + 2 * length us + length ms = 3 * nat w + 2"
  shows "spending_credit E w rid vs j n"
  using assms unfolding spending_credit_def by blast

text \<open>In either phase the caller has nothing to take.\<close>

lemma null_no_consume:
  assumes "nothing_received E w rid b n"
  shows "l_take (get_ops E redial rid) (lk_receiver n) = None"
  using assms get_take_empty by (auto simp: nothing_received_def get_ops_def)

lemma awaiting_step:
  assumes "awaiting_credit E w rid vs j n" and "link_step (get_ops E redial rid) n n'" and "vs \<noteq> []"
  shows "awaiting_credit E w rid vs (Suc j) n' \<or> spending_credit E w rid vs (Suc j) n'"
  using assms(2)
proof cases
  case (produce v us s)
  then show ?thesis using assms(1) get_send_blocks [of E w rid 0 "[]" "lk_sender n"] by (auto simp: awaiting_credit_def get_ops_def)
next
  case (transmit m s)
  then show ?thesis using assms(1) get_transmit(3) [of E w rid 0 "lk_sender n"] by (auto simp: awaiting_credit_def get_ops_def)
next
  case (consume x r)
  then show ?thesis using assms(1) null_no_consume [of E w rid _ n redial] by (auto simp: awaiting_credit_def)
next
  case (give_back m r)
  then have "j = 0" "nothing_received E w rid [credit_message E rid w] n" "lk_back n = []"
    using assms(1) get_return_empty(1) [of E w rid "[]" 0 "lk_receiver n"]
    by (auto simp: null_phase_defs get_ops_def)
  then show ?thesis
    using get_return(1) [of E w rid "[]" 0 "credit_message E rid w" "[]" "lk_receiver n"] assms(1) give_back
    by (auto simp: null_phase_defs get_ops_def)
next
  case (granted m ms pick s)
  then have *: "j = 1" "nothing_received E w rid [] n" "m = credit_message E rid w" "ms = []"
    using assms(1) by (auto simp: awaiting_credit_def)
  have s0: "get_sending E w rid 0 [] (lk_sender n)" using assms(1) by (simp add: awaiting_credit_def)
  have w: "0 < w" by (rule get_window [OF s0])
  have "get_sending E w rid w [] s"
    using get_credit [OF s0, of w pick] granted(3) * w by (auto simp: get_ops_def)
  then have "spending_credit E w rid vs 2 n'"
    using * granted(1) assms(1) w
    by (intro spending_creditI [of _ _ _ _ "nat w" "[]" "[]"]) (auto simp: awaiting_credit_def nothing_received_def)
  then show ?thesis using *(1) by (simp add: numeral_2_eq_2)
qed (use assms(1,3) in \<open>auto simp: awaiting_credit_def\<close>)

lemma spending_step:
  assumes "spending_credit E w rid vs j n" and "link_step (get_ops E redial rid) n n'"
    and "w < int (length vs)" and "\<forall>v\<in>set vs. Kind (env_V E) v = NULL"
  shows "spending_credit E w rid vs (Suc j) n'"
proof -
  let ?vm = "\<lambda>v. value_message E rid (Some v)"
  obtain c us ms where n: "nothing_received E w rid [] n" "lk_back n = []" "get_sending E w rid (int c) (map ?vm us) (lk_sender n)"
    "lk_wire n = map ?vm ms" "\<forall>v\<in>set us \<union> set ms. Kind (env_V E) v = NULL" "int c \<le> w" "lk_src n = map Some (drop (nat w - c) vs)"
    "j + 3 * c + 2 * length us + length ms = 3 * nat w + 2"
    using assms(1) by (auto simp: spending_credit_def)
  from assms(2) show ?thesis
  proof cases
    case (produce v qs s)
    have c: "0 < c" using get_send_blocks [OF n(3), of v] produce(3) by (cases c) (auto simp: get_ops_def)
    obtain y ys where d: "drop (nat w - c) vs = y # ys" "v = Some y" "qs = map Some ys"
      using produce(2) n(7) by (cases "drop (nat w - c) vs") auto
    then have y: "v = Some y" "y \<in> set vs" "qs = map Some (drop (Suc (nat w - c)) vs)"
      using in_set_dropD [of y "nat w - c" vs] by (simp_all add: drop_Suc_tl)
    have "get_sending E w rid (int (c - 1)) (map ?vm (us @ [y])) s"
      using get_send [OF n(3), of v] produce(3) c y(1) by (auto simp: get_ops_def of_nat_diff)
    moreover have "Suc (nat w - c) = nat w - (c - 1)" using c n(6) by auto
    ultimately show ?thesis
      using n c y assms(4) produce(1)
      by (intro spending_creditI [of _ _ _ _ "c - 1" "us @ [y]" ms]) (auto simp: nothing_received_def)
  next
    case (finish s)
    then show ?thesis using n(6,7) assms(3) by auto
  next
    case (transmit m s)
    obtain u us' where us: "us = u # us'" using get_transmit(3) [of E w rid "int c" "lk_sender n"] n(3) transmit(2)
      by (cases us) (auto simp: get_ops_def)
    have "m = ?vm u" "get_sending E w rid (int c) (map ?vm us') s"
      using get_transmit(1) [of E w rid "int c" "?vm u" "map ?vm us'" "lk_sender n"] n(3) transmit(2) us by (auto simp: get_ops_def)
    then show ?thesis
      using n us transmit(1) by (intro spending_creditI [of _ _ _ _ c us' "ms @ [u]"]) (auto simp: nothing_received_def)
  next
    case (handle m rest pick r)
    obtain u ms' where ms: "ms = u # ms'" "m = ?vm u" "rest = map ?vm ms'" using handle(2) n(4) by (cases ms) auto
    have "r = lk_receiver n"
      using get_handle_null [of E w rid "[]" 0 "[]" "lk_receiver n" u redial pick] n(1,5) handle(3) ms
      by (auto simp: nothing_received_def get_ops_def)
    then show ?thesis
      using n ms handle(1) by (intro spending_creditI [of _ _ _ _ c us ms']) (auto simp: nothing_received_def)
  next
    case (consume x r)
    then show ?thesis using null_no_consume [OF n(1), of redial] by simp
  next
    case (give_back m r)
    then show ?thesis
      using get_return_empty(1) [of E w rid "[]" 0 "lk_receiver n"] n(1) by (auto simp: nothing_received_def get_ops_def)
  next
    case (granted m rest pick s)
    then show ?thesis using n(2) by simp
  qed
qed

lemma null_stuck:
  assumes "awaiting_credit E w rid vs j n \<or> spending_credit E w rid vs j n" and "\<nexists>n'. link_step (get_ops E redial rid) n n'"
    and "w < int (length vs)"
  shows "lk_src n = map Some (drop (nat w) vs)"
  using assms(1)
proof
  let ?L = "get_ops E redial rid"
  assume a: "awaiting_credit E w rid vs j n"
  have "\<exists>n'. link_step ?L n n'"
  proof (cases "lk_back n")
    case Nil
    then obtain r where "l_return ?L (lk_receiver n) = Some (credit_message E rid w, r)"
      using a get_return(1) [of E w rid "[]" 0 "credit_message E rid w" "[]" "lk_receiver n"] by (auto simp: null_phase_defs get_ops_def)
    then show ?thesis by (blast intro: give_back)
  next
    case (Cons m ms)
    then have m: "m = credit_message E rid w" using a by (auto simp: awaiting_credit_def)
    have s: "get_sending E w rid 0 [] (lk_sender n)" using a by (simp add: awaiting_credit_def)
    obtain s' where "l_credit ?L True m (lk_sender n) = Some s'"
      using get_credit [OF s, of w True] get_window [OF s] m by (auto simp: get_ops_def)
    then show ?thesis using granted [OF Cons] by blast
  qed
  with assms(2) show ?thesis by blast
next
  let ?L = "get_ops E redial rid" and ?vm = "\<lambda>v. value_message E rid (Some v)"
  assume "spending_credit E w rid vs j n"
  then obtain c us ms where n: "nothing_received E w rid [] n" "get_sending E w rid (int c) (map ?vm us) (lk_sender n)"
    "int c \<le> w" "lk_src n = map Some (drop (nat w - c) vs)"
    by (auto simp: spending_credit_def)
  have "c = 0"
  proof (rule ccontr)
    assume c: "c \<noteq> 0"
    obtain v qs where src: "lk_src n = v # qs" using n(3,4) assms(3) by (cases "lk_src n") auto
    obtain s where "l_send ?L v (lk_sender n) = Some s" using get_send [OF n(2), of v] c by (auto simp: get_ops_def)
    then show False using produce [OF src] assms(2) by blast
  qed
  then show ?thesis using n(4) by simp
qed

text \<open>
  C31. A stream of null values stalls for good. A get stream is opened as above, and its handler yields more
  \<^verbatim>\<open>Null\<close> values than the window. Then on every schedule the caller never receives anything, not even the end;
  every run stops within \<open>3 * window + 2\<close> steps; and it stops with the window spent and the rest of the
  values still in the handler's channel: each null value uses up a credit at the session and is dropped by the
  client before its pump, so that no credit is ever given back.
\<close>

theorem null_values_stall_stream:
  fixes E :: "'v rpc_env" and c :: "'v rpcClient" and t :: "'v servingClient" and vs :: "'v list"
  defines "rid \<equiv> cl_lastRequest c + 1"
  assumes laws: "value_laws (env_V E)" and wf: "wf_dialect (env_d E)" and grow: "grows (env_grow E)"
    and conn: "cl_conn c = Some k" "\<not> conn_done k" "reqCh k = []" and serving: "cl_servingMap c rid = None"
    and live: "session_live rid [] t"
    and free: "sc_requestMap t rid = None"
      "sint (maxConcurrentRequests (sc_cfg t)) \<le> 0 \<or>
       sint (sc_inFlight t + 1) \<le> sint (maxConcurrentRequests (sc_cfg t))"
      "sint (maxConcurrentStreams (sc_cfg t)) \<le> 0 \<or> sint (sc_liveStreams t) < sint (maxConcurrentStreams (sc_cfg t))"
    and fn: "F name = Some fn" "fn_ft fn = outgoingStream" "Verify (env_V E) (Some a) (fn_args fn)"
      "\<forall>ctx. fn_stream fn ctx (Some a) = Returned r"
    and win: "stream_window (cc_maxPending (cl_cfg c)) < 2 ^ 63"
    and vs: "\<forall>v\<in>set vs. Kind (env_V E) v = NULL" "stream_window (cc_maxPending (cl_cfg c)) < int (length vs)"
  shows "\<exists>c1 m c2 t1 sr ready t2 c3 c4 c5.
    GetStream_begin E D pick (\<lambda>t. t) ctx name (Some a) cap c = Some (Inr rid, c1) \<and> client_out c1 = Some (m, c2) \<and>
    processRequest E pick m t = Some (None, t1) \<and> sc_workers t1 = sc_workers t @ [Started outgoingStream m] \<and>
    sc_requestMap (serveFunctionRequest E F outgoingStream m t1) rid = Some sr \<and>
    session_out (perform E (outgoingStreamer E [] sr) (serveFunctionRequest E F outgoingStream m t1)) = Some (ready, t2) \<and>
    getResponseHandler E redial pick ready c2 = Some c3 \<and> receive E rid c3 = Some (Some None, c4) \<and>
    stream_opened E redial rid (ResultReceived None) c4 = Some (Inr (), c5) \<and>
    (\<forall>j n. (link_step (get_ops E redial rid) ^^ j) (link_start (map Some vs) t2 c5) n \<longrightarrow>
       j \<le> 3 * nat (stream_window (cc_maxPending (cl_cfg c))) + 2 \<and> lk_got n = [] \<and> lk_open n \<and>
       ((\<nexists>n'. link_step (get_ops E redial rid) n n') \<longrightarrow>
          lk_src n = map Some (drop (nat (stream_window (cc_maxPending (cl_cfg c)))) vs)))"
proof -
  let ?w = "stream_window (cc_maxPending (cl_cfg c))"
  obtain c1 m c2 t1 sr ready t2 c3 c4 c5 where opened:
    "GetStream_begin E D pick (\<lambda>t. t) ctx name (Some a) cap c = Some (Inr rid, c1)"
    "client_out c1 = Some (m, c2)"
    "processRequest E pick m t = Some (None, t1)"
    "sc_workers t1 = sc_workers t @ [Started outgoingStream m]"
    "sc_requestMap (serveFunctionRequest E F outgoingStream m t1) rid = Some sr"
    "session_out (perform E (outgoingStreamer E [] sr) (serveFunctionRequest E F outgoingStream m t1)) = Some (ready, t2)"
    "getResponseHandler E redial pick ready c2 = Some c3"
    "receive E rid c3 = Some (Some None, c4)"
    "stream_opened E redial rid (ResultReceived None) c4 = Some (Inr (), c5)"
    and ends: "get_sending E ?w rid 0 [] t2" "get_receiving E ?w rid [] 0 [credit_message E rid ?w] c5"
    using get_stream_opens [where E = E and D = D and pick = pick and ctx = ctx and cap = cap and redial = redial and F = F and name = name,
        OF laws wf grow conn serving [unfolded rid_def] live [unfolded rid_def] free(1) [unfolded rid_def] free(2,3) fn win]
    unfolding rid_def [symmetric] by auto
  have start: "awaiting_credit E ?w rid vs 0 (link_start (map Some vs) t2 c5)"
    using ends by (simp add: null_phase_defs link_start_def)
  have phase: "awaiting_credit E ?w rid vs j n \<or> spending_credit E ?w rid vs j n"
    if "(link_step (get_ops E redial rid) ^^ j) (link_start (map Some vs) t2 c5) n" for j n
    using that
  proof (induction j arbitrary: n)
    case (Suc j)
    have "vs \<noteq> []" using vs(2) by (auto simp: stream_window_def DefaultMaxPending_def split: if_splits)
    with Suc show ?case using awaiting_step spending_step [OF _ _ vs(2,1)] by (fastforce elim!: relpowp_Suc_E)
  qed (use start in simp)
  have "(link_step (get_ops E redial rid) ^^ j) (link_start (map Some vs) t2 c5) n \<longrightarrow>
       j \<le> 3 * nat ?w + 2 \<and> lk_got n = [] \<and> lk_open n \<and>
       ((\<nexists>n'. link_step (get_ops E redial rid) n n') \<longrightarrow> lk_src n = map Some (drop (nat ?w) vs))" for j n
    using phase [of j n] null_stuck [OF phase [of j n] _ vs(2)] by (auto simp: null_phase_defs)
  with opened show ?thesis by (intro exI conjI allI) assumption+
qed

theorem null_values_stall_stream_witness:
  "\<exists>t2 c5 j n. (link_step (get_ops sample_env (\<lambda>_. None) 1) ^^ j) (link_start (map Some (replicate 100000 GNull)) t2 c5) n \<and>
    (\<nexists>n'. link_step (get_ops sample_env (\<lambda>_. None) 1) n n') \<and> lk_got n = [] \<and> lk_open n \<and> lk_src n \<noteq> []"
proof -
  note c = sample_get_stream
  have win: "stream_window (cc_maxPending (cl_cfg sample_connected)) < 2 ^ 63"
    "stream_window (cc_maxPending (cl_cfg sample_connected)) < int (length (replicate 100000 GNull))"
    by (simp_all add: c(11) DefaultMaxPending_def)
  have vs: "\<forall>v\<in>set (replicate 100000 GNull). Kind (env_V sample_env) v = NULL" by (simp add: ref_api_def)
  obtain t2 c5 where all: "\<And>j n. (link_step (get_ops sample_env (\<lambda>_. None) 1) ^^ j) (link_start (map Some (replicate 100000 GNull)) t2 c5) n \<Longrightarrow>
      j \<le> 3 * nat DefaultMaxPending + 2 \<and>
      ((\<nexists>n'. link_step (get_ops sample_env (\<lambda>_. None) 1) n n') \<longrightarrow>
        lk_got n = [] \<and> lk_open n \<and> lk_src n = map Some (drop (nat DefaultMaxPending) (replicate 100000 GNull)))"
    using null_values_stall_stream [where F = sample_functions and name = "''s''" and pick = True and redial = "\<lambda>_. None"
        and D = refused and ctx = Background and cap = 1,
        OF sample_env_laws c(2-6) sample_session_free(2-4) c(7-10) win(1) vs win(2)]
    unfolding c(1,11) by blast
  have "\<exists>j n. (link_step (get_ops sample_env (\<lambda>_. None) 1) ^^ j) (link_start (map Some (replicate 100000 GNull)) t2 c5) n \<and>
    (\<nexists>n'. link_step (get_ops sample_env (\<lambda>_. None) 1) n n') \<and> lk_got n = [] \<and> lk_open n \<and>
    lk_src n = map Some (drop (nat DefaultMaxPending) (replicate 100000 GNull))"
    by (rule bounded_run_ends) (erule all)
  moreover have "drop (nat DefaultMaxPending) (replicate 100000 GNull) \<noteq> []" by (simp add: DefaultMaxPending_def)
  ultimately show ?thesis by (metis map_is_Nil_conv)
qed

end
