(* ===== verification/Put_Round_Trip.thy ===== *)
theory Put_Round_Trip
  imports Stream_Round_Trip
begin

text \<open>
  A put stream from the caller's channel to the handler's: the request, the session's credit and
  acknowledgement, the client's loop that spends the credit, and the pump from which the handler
  receives.
\<close>

section \<open>The client's side\<close>

text \<open>A put stream in flight: what waits in its result channel, and the gate its values pass.\<close>

definition put_stream :: "int64 \<Rightarrow> 'v option list \<Rightarrow> CreditGate \<Rightarrow> 'v rpcRequestCtx \<Rightarrow> bool" where
  "put_stream rid xs g rc \<longleftrightarrow> requestId rc = rid \<and> skind rc = putStreamKind \<and> resultPump rc = None \<and> resultCh rc = xs \<and>
     resultCap rc = 1 \<and> resultCloses rc = 0 \<and> \<not> done_closed rc \<and> \<not> closeOnce rc \<and> \<not> putClosed rc \<and>
     sendCredit rc = Some g"

lemma newRequestCtx_put:
  assumes "c1 = (newRequestCtx E rid putStreamKind m 1 c)\<lparr>cl_conn := k\<rparr>" and "cl_servingMap c rid = None"
  shows "\<exists>rc. has_stream rid rc c1 \<and> put_stream rid [] NewCreditGate rc"
  using assms
  by (simp add: newRequestCtx_def update_ctx_def log_event_def has_stream_def put_stream_def NewRequestCtx_def Let_def)

lemma handle_credit:
  assumes laws: "value_laws (env_V E)" and wf: "wf_dialect (env_d E)"
    and "has_stream rid rc c" and "put_stream rid xs g rc"
  shows "\<exists>rc'. getResponseHandler E redial pick (NewStreamCredit (env_V E) (env_d E) (Long (env_V E) rid) n) c =
      Some (update_ctx rid rc' c) \<and> put_stream rid xs (Grant n g) rc'"
  using assms(3,4)
  by (auto simp: getResponseHandler_def has_stream_def stream_fields(9-11) [OF laws wf] value_laws.Long_Long [OF laws] mt_defs
      Let_def processResponse_def put_stream_def)

lemma handle_put_ready:
  assumes laws: "value_laws (env_V E)" and wf: "wf_dialect (env_d E)"
    and "has_stream rid rc c" and "put_stream rid [] g rc"
  shows "\<exists>rc'. getResponseHandler E redial pick (StreamReady_msg (env_V E) (env_d E) (Long (env_V E) rid)) c =
      Some (update_ctx rid rc' c) \<and> put_stream rid [None] g rc'"
proof -
  have "getResponseHandler E redial pick (StreamReady_msg (env_V E) (env_d E) (Long (env_V E) rid)) c =
      processResponse E redial pick StreamReady (StreamReady_msg (env_V E) (env_d E) (Long (env_V E) rid)) rc c"
    by (rule dispatch_response [OF laws assms(3) stream_fields(1,2) [OF laws wf, of rid]]) simp
  then show ?thesis
    using assms(4) by (auto simp: processResponse_def mt_defs Let_def put_stream_def notifyResult_def)
qed

lemma has_stream_update [simp]: "has_stream rid rc c \<Longrightarrow> has_stream rid rc' (update_ctx rid rc' c)"
  by (simp add: has_stream_def update_ctx_def)

text \<open>The messages the loop queues are those a session would send.\<close>

lemma streamOut_value:
  assumes "has_stream rid rc c" and "put_stream rid [] g rc" and "\<not> gate_closed g" and "0 < sint (credit g)"
    and "cl_conn c = Some k" and "\<not> conn_done k"
  shows "\<exists>c' rc'. streamOut_client E rid (Some v) rc c = Some (True, c') \<and> has_stream rid rc' c' \<and>
    put_stream rid [] (g\<lparr>credit := credit g - 1\<rparr>) rc' \<and>
    cl_conn c' = Some (k\<lparr>reqCh := reqCh k @ [StreamValue_msg (env_V E) (env_d E) (Long (env_V E) rid) v]\<rparr>)"
  using assms
  by (auto simp: streamOut_client_def IsPutOpen_def put_stream_def has_stream_def Acquire_def conn_send_def SendRequest_def
      StreamValue_msg_def update_ctx_def log_event_def Let_def)

lemma streamOut_end:
  assumes "has_stream rid rc c" and "put_stream rid [] g rc" and "cl_conn c = Some k" and "\<not> conn_done k"
  shows "\<exists>c'. streamOut_client E rid None rc c = Some (False, c') \<and> rid \<notin> cl_registered c' \<and>
    cl_servingMap c' = cl_servingMap c \<and> cl_conn c' = Some (k\<lparr>reqCh := reqCh k @ [StreamEnd_msg (env_V E) (env_d E) (Long (env_V E) rid) None]\<rparr>)"
  using assms
  by (auto simp: streamOut_client_def IsPutOpen_def put_stream_def has_stream_def conn_send_def SendRequest_def TryPutClose_def
      StreamEnd_msg_def update_ctx_def unregister_def Let_def)

lemma streamOut_all:
  assumes "has_stream rid rc c" and "put_stream rid [] g rc" and "\<not> gate_closed g" and "int (length vs) \<le> sint (credit g)"
    and "cl_conn c = Some k" and "\<not> conn_done k"
  shows "\<exists>c'. streamOut_loop E rid (map (\<lambda>v. Some (Some v)) vs @ [None]) c = Some c' \<and> rid \<notin> cl_registered c' \<and>
    cl_conn c' = Some (k\<lparr>reqCh := reqCh k @ stream_messages E rid vs\<rparr>)"
  using assms
proof (induction vs arbitrary: c rc g k)
  case Nil
  then show ?case
    using streamOut_end [OF Nil(1,2,5,6), of E] by (auto simp: has_stream_def stream_messages_def)
next
  case (Cons v vs)
  let ?g = "g\<lparr>credit := credit g - 1\<rparr>"
  have "Acquire g = Some (True, ?g)" using Cons.prems by (simp add: Acquire_def)
  from Acquire_True [OF this] have g: "sint (credit ?g) = sint (credit g) - 1" "\<not> gate_closed ?g" by simp_all
  from streamOut_value [OF Cons.prems(1-3) _ Cons.prems(5,6), of E "Some v"] Cons.prems(4)
  obtain c' rc' where c': "streamOut_client E rid (Some (Some v)) rc c = Some (True, c')" "has_stream rid rc' c'"
    "put_stream rid [] ?g rc'"
    "cl_conn c' = Some (k\<lparr>reqCh := reqCh k @ [StreamValue_msg (env_V E) (env_d E) (Long (env_V E) rid) (Some v)]\<rparr>)"
    by auto
  from Cons.IH [OF c'(2,3) g(2) _ c'(4)] g(1) Cons.prems(4,6) c'(1) Cons.prems(1) show ?case
    by (auto simp: has_stream_def stream_messages_def)
qed

section \<open>The server's side\<close>

text \<open>A session's request whose handler receives from a pump.\<close>

definition inbound :: "int \<Rightarrow> 'v \<Rightarrow> 'v option list \<Rightarrow> 'v servingRequest \<Rightarrow> bool" where
  "inbound w rid xs sr \<longleftrightarrow> sr_requestId sr = rid \<and> sr_ft sr = incomingStream \<and> \<not> sr_inClosed sr \<and>
     (\<exists>p. sr_inPump sr = Some p \<and> slots_ok p \<and> contents p = xs \<and> maxPending p = w \<and> \<not> inputEnd p \<and> \<not> stopCh p \<and> \<not> overflow p)"

definition inbound_credit :: "'v servingRequest \<Rightarrow> int64 \<times> int64" where
  "inbound_credit sr = (sr_creditWindow sr, sr_inboundDelivered sr)"

definition same_link :: "'v servingClient \<Rightarrow> 'v servingClient \<Rightarrow> bool" where
  "same_link t t' \<longleftrightarrow> sc_outgoingQueue t' = sc_outgoingQueue t \<and> sc_activeConn t' = sc_activeConn t \<and> sc_done t' = sc_done t \<and>
     sc_pendingStreams t' = sc_pendingStreams t"

lemma offer_inbound:
  assumes "inbound w rid xs sr" and "int (length xs) < w" and "grows (env_grow E)"
  shows "\<exists>sr'. offer E v sr = (True, sr') \<and> inbound w rid (xs @ [v]) sr' \<and> inbound_credit sr' = inbound_credit sr"
proof -
  obtain p where p: "sr_inPump sr = Some p" "slots_ok p" "contents p = xs" "maxPending p = w" "\<not> inputEnd p" "\<not> stopCh p"
    "\<not> overflow p"
    using assms(1) by (auto simp: inbound_def)
  have "Push (env_grow E) v p = (True, append_slot (env_grow E) v (compact p))"
    using p assms(2) pending_contents [OF p(2)] by (simp add: Push_def isStopped_def)
  then show ?thesis
    using p assms(1) append_slot_ok [OF assms(3)] compact_ok [OF p(2)] by (auto simp: offer_def inbound_def inbound_credit_def)
qed

lemma serve_value:
  assumes laws: "value_laws (env_V E)" and wf: "wf_dialect (env_d E)" and "grows (env_grow E)"
    and t: "sc_pendingStreams t rid = None" "sc_requestMap t rid = Some sr"
    and "inbound w (Long (env_V E) rid) xs sr" and "int (length xs) < w" and "Kind (env_V E) v \<noteq> NULL"
  shows "\<exists>t' sr'. processRequest E pick (StreamValue_msg (env_V E) (env_d E) (Long (env_V E) rid) (Some v)) t = Some (None, t') \<and>
    sc_pendingStreams t' rid = None \<and> sc_requestMap t' rid = Some sr' \<and> inbound w (Long (env_V E) rid) (xs @ [Some v]) sr' \<and>
    inbound_credit sr' = inbound_credit sr \<and> same_link t t'"
proof -
  have "v \<noteq> Null (env_V E)" using assms(8) value_laws.Kind_Null [OF laws] by metis
  moreover obtain sr' where sr': "offer E (Some v) sr = (True, sr')" "inbound w (Long (env_V E) rid) (xs @ [Some v]) sr'"
    "inbound_credit sr' = inbound_credit sr"
    using offer_inbound [OF assms(6,7,3)] by blast
  moreover have "sr_inPump sr \<noteq> None" using assms(6) by (auto simp: inbound_def)
  moreover have "\<not> (case sr_inPump sr' of Some p \<Rightarrow> Overflowed p | None \<Rightarrow> False)"
    using sr'(2) by (auto simp: inbound_def Overflowed_def)
  ultimately show ?thesis
    using t
    by (simp add: processRequest_def stream_fields [OF laws wf] findPendingStream_def findServingRequest_def
        serveRunningRequest_def incomingStreamValue_def record_metric_def value_laws.Long_Long [OF laws] mt_defs same_link_def Let_def)
qed

fun process_all :: "'v rpc_env \<Rightarrow> bool \<Rightarrow> 'v list \<Rightarrow> 'v servingClient \<Rightarrow> 'v servingClient option" where
  "process_all E pick [] t = Some t"
| "process_all E pick (m # ms) t =
     (case processRequest E pick m t of None \<Rightarrow> None | Some (_, t) \<Rightarrow> process_all E pick ms t)"

lemma serve_values:
  assumes laws: "value_laws (env_V E)" and wf: "wf_dialect (env_d E)" and "grows (env_grow E)"
    and "sc_pendingStreams t rid = None" and "sc_requestMap t rid = Some sr" and "inbound w (Long (env_V E) rid) xs sr"
    and "int (length xs + length vs) \<le> w" and "\<forall>v\<in>set vs. Kind (env_V E) v \<noteq> NULL"
  shows "\<exists>t' sr'. process_all E pick
      (map (\<lambda>v. StreamValue_msg (env_V E) (env_d E) (Long (env_V E) rid) (Some v)) vs) t = Some t' \<and>
    sc_pendingStreams t' rid = None \<and> sc_requestMap t' rid = Some sr' \<and> inbound w (Long (env_V E) rid) (xs @ map Some vs) sr'"
  using assms(4-8)
proof (induction vs arbitrary: xs t sr)
  case Nil
  then show ?case by simp
next
  case (Cons v vs)
  have "int (length xs) < w" "Kind (env_V E) v \<noteq> NULL" using Cons.prems by auto
  from serve_value [OF laws wf assms(3) Cons.prems(1-3) this, of pick]
  obtain t' sr' where "processRequest E pick (StreamValue_msg (env_V E) (env_d E) (Long (env_V E) rid) (Some v)) t = Some (None, t')"
    "sc_pendingStreams t' rid = None" "sc_requestMap t' rid = Some sr'" "inbound w (Long (env_V E) rid) (xs @ [Some v]) sr'"
    by blast
  with Cons.IH [OF this(2-4)] Cons.prems(4,5) show ?case by simp
qed

text \<open>What the handler receives: the pump goroutine hands over its values and ends with the input.\<close>

fun pump_list :: "nat \<Rightarrow> 'v StreamPump \<Rightarrow> 'v option option list" where
  "pump_list 0 p = []"
| "pump_list (Suc n) p =
     (case run_locked p of
        Some (Select v, p) \<Rightarrow> Some v # pump_list n p
      | Some _ \<Rightarrow> [None]
      | None \<Rightarrow> [])"

lemma pump_list_ended:
  assumes "slots_ok p" and "contents p = xs" and "inputEnd p" and "\<not> stopCh p"
  shows "pump_list (Suc (length xs)) p = map Some xs @ [None]"
  using assms
proof (induction xs arbitrary: p)
  case Nil
  then show ?case using pending_contents [OF Nil(1)] by (simp add: run_locked_def isStopped_def)
next
  case (Cons x xs)
  obtain p' where "run_locked p = Some (Select x, p')" "slots_ok p'" "contents p' = xs" "inputEnd p' = inputEnd p" "stopCh p' = stopCh p"
    by (rule run_locked_front [OF Cons.prems(1,2,4)]) blast
  with Cons.IH [of p'] Cons.prems(3,4) show ?case by simp
qed

lemma serve_end:
  assumes laws: "value_laws (env_V E)" and wf: "wf_dialect (env_d E)"
    and t: "sc_pendingStreams t rid = None" "sc_requestMap t rid = Some sr" and sr: "inbound w (Long (env_V E) rid) xs sr"
  shows "\<exists>t' sr' acts p. serveRunningRequest E StreamEnd (StreamEnd_msg (env_V E) (env_d E) (Long (env_V E) rid) None) sr = (None, sr', acts) \<and>
    processRequest E pick (StreamEnd_msg (env_V E) (env_d E) (Long (env_V E) rid) None) t = Some (None, t') \<and>
    sc_requestMap t' rid = None \<and> sr_inPump sr' = Some p \<and> pump_list (Suc (length xs)) p = map Some xs @ [None] \<and>
    slots_ok p \<and> contents p = xs \<and> inputEnd p \<and> \<not> stopCh p \<and> sr_requestId sr' = sr_requestId sr \<and>
    inbound_credit sr' = inbound_credit sr \<and> same_link t t'"
proof -
  let ?m = "StreamEnd_msg (env_V E) (env_d E) (Long (env_V E) rid) None"
  obtain p where p: "sr_inPump sr = Some p" "slots_ok p" "contents p = xs" "\<not> stopCh p"
    using sr by (auto simp: inbound_def)
  let ?sr = "cancelCtx (closeInboundChan sr)"
  have fin: "serveRunningRequest E StreamEnd ?m sr = (None, ?sr, [DeleteRequest (Long (env_V E) rid)])"
    using sr p(1)
    by (simp add: serveRunningRequest_def incomingStreamEnd_def stream_fields(8) [OF laws wf] mt_defs inbound_def Let_def
        closeInboundChan_def)
  have pump: "sr_inPump ?sr = Some (Close p)"
    using sr p(1) by (simp add: closeInboundChan_def cancelCtx_def inbound_def)
  have ended: "slots_ok (Close p)" "contents (Close p) = xs" "inputEnd (Close p)" "\<not> stopCh (Close p)"
    using p by (simp_all add: Close_def slots_ok_def contents_def)
  moreover have "inbound_credit ?sr = inbound_credit sr" "sr_requestId ?sr = sr_requestId sr"
    by (simp_all add: inbound_credit_def closeInboundChan_def cancelCtx_def)
  moreover have "processRequest E pick ?m t = Some (None, deleteRequest E (Long (env_V E) rid)
      (t\<lparr>sc_requestMap := (sc_requestMap t)(rid \<mapsto> ?sr)\<rparr>))"
    using t fin by (simp add: processRequest_def stream_fields(6,7) [OF laws wf] findPendingStream_def findServingRequest_def
        value_laws.Long_Long [OF laws] mt_defs Let_def)
  ultimately show ?thesis
    using fin pump pump_list_ended [OF ended]
    by (auto simp: deleteRequest_def record_metric_def same_link_def value_laws.Long_Long [OF laws] simp del: pump_list.simps)
qed

text \<open>A put stream is registered with its pump; the session grants its window and acknowledges.\<close>

lemma serve_put_stream:
  assumes laws: "value_laws (env_V E)"
    and "GetNumberField (env_V E) m (RequestIdField (env_d E)) = Some (Long (env_V E) rid)"
    and "GetStringField (env_V E) m (FunctionNameField (env_d E)) = Some (Utf8 (env_V E) name)"
    and "Get (env_V E) m (ArgumentsField (env_d E)) = args"
    and "F name = Some fn" and "fn_ft fn = incomingStream" and "Verify (env_V E) args (fn_args fn)"
    and "\<And>ctx. fn_stream fn ctx args = Returned r"
    and "sint (maxConcurrentStreams (sc_cfg t)) \<le> 0 \<or> sint (sc_liveStreams t) < sint (maxConcurrentStreams (sc_cfg t))"
    and "\<not> sc_done t" and "0 < cfg_maxPending (sc_cfg t)"
  defines "t' \<equiv> serveFunctionRequest E F incomingStream m t"
  shows "\<exists>sr. sc_requestMap t' rid = Some sr \<and> inbound (cfg_maxPending (sc_cfg t)) (Long (env_V E) rid) [] sr \<and>
      inbound_credit sr = (word_of_int (cfg_maxPending (sc_cfg t)), 0)"
    and "sc_pendingStreams t' = sc_pendingStreams t"
    and "sc_outgoingQueue t' = sc_outgoingQueue t @ [credit_message E rid (cfg_maxPending (sc_cfg t)),
      StreamReady_msg (env_V E) (env_d E) (Long (env_V E) rid)]"
    and "sc_activeConn t' = sc_activeConn t" and "sc_done t' = sc_done t"
proof -
  have name: "string_String (env_V E) (Utf8 (env_V E) name) = name" by (rule value_laws.String_Utf8 [OF laws])
  have "admit E F incomingStream m t = Inr (Long (env_V E) rid, name, fn, args)"
    using assms(2-7,9) name by (auto simp: admit_def findFunction_def Let_def)
  then have t': "t' = finish_worker E incomingStream m (Reply (StreamReady_msg (env_V E) (env_d E) (Long (env_V E) rid)))
      (snd (newServingRequest E incomingStream (Long (env_V E) rid) name t))"
    using assms(6,8)
    by (simp add: t'_def serveFunctionRequest_def start_worker_def run_worker_def run_handler_def case_prod_beta Let_def)
  note defs = finish_worker_def newServingRequest_def record_metric_def send_def grantInitialInbound_def setupInbound_def
    NewServingRequest_def value_laws.Long_Long [OF laws]
  show "\<exists>sr. sc_requestMap t' rid = Some sr \<and> inbound (cfg_maxPending (sc_cfg t)) (Long (env_V E) rid) [] sr \<and>
      inbound_credit sr = (word_of_int (cfg_maxPending (sc_cfg t)), 0)"
    using assms(10,11) by (simp add: t' defs inbound_def inbound_credit_def NewStreamPump_def slots_ok_def contents_def Let_def)
  show "sc_pendingStreams t' = sc_pendingStreams t" "sc_activeConn t' = sc_activeConn t" "sc_done t' = sc_done t"
    using assms(10) by (simp_all add: t' defs Let_def)
  show "sc_outgoingQueue t' = sc_outgoingQueue t @ [credit_message E rid (cfg_maxPending (sc_cfg t)),
      StreamReady_msg (env_V E) (env_d E) (Long (env_V E) rid)]"
    using assms(10) by (simp add: t' defs Let_def)
qed

section \<open>A put stream, end to end\<close>

lemma client_opens_put:
  assumes laws: "value_laws (env_V E)" and wf: "wf_dialect (env_d E)"
    and rc: "has_stream rid rc c1" "put_stream rid [] NewCreditGate rc"
  shows "\<exists>c2 rc2 c3 rc3. handle_all E redial pick
      [credit_message E rid w, StreamReady_msg (env_V E) (env_d E) (Long (env_V E) rid)] c1 = Some c2 \<and>
    cl_ctxs c2 rid = Some rc2 \<and> channel_event rc2 = Some (ResultReceived None) \<and>
    PutStream_end E redial rid (ResultReceived None) c2 = Some (Inr (), c3) \<and>
    has_stream rid rc3 c3 \<and> put_stream rid [] (Grant (word_of_int w) NewCreditGate) rc3 \<and> cl_conn c3 = cl_conn c1"
proof -
  let ?g = "Grant (word_of_int w) NewCreditGate"
  obtain rc' where rc': "getResponseHandler E redial pick (credit_message E rid w) c1 = Some (update_ctx rid rc' c1)"
    "put_stream rid [] ?g rc'"
    using handle_credit [OF laws wf rc] by blast
  obtain rc2 where rc2: "getResponseHandler E redial pick (StreamReady_msg (env_V E) (env_d E) (Long (env_V E) rid)) (update_ctx rid rc' c1) =
      Some (update_ctx rid rc2 (update_ctx rid rc' c1))" "put_stream rid [None] ?g rc2"
    using handle_put_ready [OF laws wf has_stream_update [OF rc(1)] rc'(2)] by blast
  let ?c2 = "update_ctx rid rc2 (update_ctx rid rc' c1)" let ?rc3 = "rc2\<lparr>resultCh := []\<rparr>"
  have c2: "cl_ctxs ?c2 rid = Some rc2" by (simp add: update_ctx_def)
  have "PutStream_end E redial rid (ResultReceived None) ?c2 = Some (Inr (), update_ctx rid ?rc3 ?c2)"
    using rc2(2) c2 by (simp add: PutStream_end_def await_response_def SingleResp_def put_stream_def)
  moreover have "has_stream rid ?rc3 (update_ctx rid ?rc3 ?c2)" "cl_conn (update_ctx rid ?rc3 ?c2) = cl_conn c1"
    using rc(1) by (simp_all add: has_stream_def update_ctx_def)
  moreover have "put_stream rid [] ?g ?rc3" using rc2(2) by (simp add: put_stream_def)
  moreover have "channel_event rc2 = Some (ResultReceived None)" using rc2(2) by (simp add: put_stream_def channel_event_def)
  ultimately show ?thesis using rc'(1) rc2(1) c2
    by - (rule exI [of _ ?c2], rule exI [of _ rc2], rule exI [of _ "update_ctx rid ?rc3 ?c2"], rule exI [of _ ?rc3], simp)
qed

text \<open>
  A put stream, from the caller's channel to the handler's. On a live connection to a session with a
  free slot, a caller that puts the values \<open>vs\<close> (not null, and at most the session's window) and closes
  its channel: the session registers the request, grants its window and acknowledges; the client's loop
  never waits for credit, queues every value and the end, and retires the request; the handler receives
  exactly \<open>vs\<close>, in order, and then finds its channel closed, while the session forgets the request.
\<close>

theorem put_stream_round_trip:
  fixes E :: "'v rpc_env" and c :: "'v rpcClient" and t :: "'v servingClient" and vs :: "'v list"
  defines "rid \<equiv> cl_lastRequest c + 1"
  assumes laws: "value_laws (env_V E)" and wf: "wf_dialect (env_d E)" and grow: "grows (env_grow E)"
    and conn: "cl_conn c = Some k" "\<not> conn_done k" and serving: "cl_servingMap c rid = None"
    and free: "sc_pendingStreams t rid = None" "sc_requestMap t rid = None"
      "sint (maxConcurrentRequests (sc_cfg t)) \<le> 0 \<or>
       sint (sc_inFlight t + 1) \<le> sint (maxConcurrentRequests (sc_cfg t))"
      "sint (maxConcurrentStreams (sc_cfg t)) \<le> 0 \<or> sint (sc_liveStreams t) < sint (maxConcurrentStreams (sc_cfg t))"
      "\<not> sc_done t"
    and fn: "F name = Some fn" "fn_ft fn = incomingStream" "Verify (env_V E) (Some a) (fn_args fn)"
      "\<forall>ctx. fn_stream fn ctx (Some a) = Returned r"
    and win: "int (length vs) \<le> cfg_maxPending (sc_cfg t)" "0 < cfg_maxPending (sc_cfg t)" "cfg_maxPending (sc_cfg t) < 2 ^ 63"
    and vs: "\<forall>v\<in>set vs. Kind (env_V E) v \<noteq> NULL"
  shows "\<exists>c1 m t1 t2 replies c2 rc c3 c4 msgs fin t3 sr sr' acts t4 p.
    PutStream_begin E D pick (\<lambda>t. t) ctx name (Some a) c = Some (Inr rid, c1) \<and>
    cl_conn c1 = Some (k\<lparr>reqCh := reqCh k @ [m]\<rparr>) \<and>
    processRequest E pick m t = Some (None, t1) \<and> sc_workers t1 = sc_workers t @ [Started incomingStream m] \<and>
    serveFunctionRequest E F incomingStream m t1 = t2 \<and> sc_outgoingQueue t2 = sc_outgoingQueue t @ replies \<and>
    handle_all E redial pick replies c1 = Some c2 \<and> cl_ctxs c2 rid = Some rc \<and>
    channel_event rc = Some (ResultReceived None) \<and>
    PutStream_end E redial rid (ResultReceived None) c2 = Some (Inr (), c3) \<and>
    streamOut_loop E rid (map (\<lambda>v. Some (Some v)) vs @ [None]) c3 = Some c4 \<and> rid \<notin> cl_registered c4 \<and>
    cl_conn c4 = Some (k\<lparr>reqCh := reqCh k @ m # msgs @ [fin]\<rparr>) \<and>
    process_all E pick msgs t2 = Some t3 \<and> sc_requestMap t3 rid = Some sr \<and>
    serveRunningRequest E StreamEnd fin sr = (None, sr', acts) \<and> processRequest E pick fin t3 = Some (None, t4) \<and>
    sc_requestMap t4 rid = None \<and> sr_inPump sr' = Some p \<and>
    pump_list (Suc (length vs)) p = map (\<lambda>v. Some (Some v)) vs @ [None]"
proof -
  let ?w = "cfg_maxPending (sc_cfg t)"
  let ?m = "call_message E ctx PutStreamRequest name (Some a) c"
  let ?k1 = "k\<lparr>reqCh := reqCh k @ [?m]\<rparr>"
  let ?t1 = "t\<lparr>sc_inFlight := sc_inFlight t + 1, sc_workers := sc_workers t @ [Started incomingStream ?m]\<rparr>"
  let ?t2 = "serveFunctionRequest E F incomingStream ?m ?t1"
  let ?fin = "StreamEnd_msg (env_V E) (env_d E) (Long (env_V E) rid) None"
  let ?msgs = "map (\<lambda>v. StreamValue_msg (env_V E) (env_d E) (Long (env_V E) rid) (Some v)) vs"
  define c1 where "c1 = (newRequestCtx E rid putStreamKind ?m 1 (c\<lparr>cl_lastRequest := rid\<rparr>))\<lparr>cl_conn := Some ?k1\<rparr>"
  note fields = call_fields [OF laws wf, of ctx PutStreamRequest name a c, folded rid_def]
  have start: "PutStream_begin E D pick (\<lambda>t. t) ctx name (Some a) c = Some (Inr rid, c1)" "cl_conn c1 = Some ?k1"
    by (simp_all add: PutStream_begin_def start_call_connected [OF conn] c1_def rid_def)
  have served: "processRequest E pick ?m t = Some (None, ?t1)"
    by (rule processRequest_new [OF laws fields(1,2) free(1-3)]) simp
  have "fn_stream fn ctx (Some a) = Returned r" for ctx by (simp add: fn(4))
  note stream = serve_put_stream [where F = F and name = name and t = ?t1, OF laws fields(2-4) fn(1-3) this]
  obtain sr0 where t2: "sc_requestMap ?t2 rid = Some sr0" "inbound ?w (Long (env_V E) rid) [] sr0" "sc_pendingStreams ?t2 rid = None"
    "sc_outgoingQueue ?t2 = sc_outgoingQueue t @ [credit_message E rid ?w, StreamReady_msg (env_V E) (env_d E) (Long (env_V E) rid)]"
    using stream free(1,4,5) win(2) by auto
  obtain rc where "has_stream rid rc c1" "put_stream rid [] NewCreditGate rc"
    using newRequestCtx_put [OF c1_def] serving by auto
  from client_opens_put [OF laws wf this, of redial pick ?w] obtain c2 rc2 c3 rc3 where c3:
    "handle_all E redial pick [credit_message E rid ?w, StreamReady_msg (env_V E) (env_d E) (Long (env_V E) rid)] c1 = Some c2"
    "cl_ctxs c2 rid = Some rc2" "channel_event rc2 = Some (ResultReceived None)"
    "PutStream_end E redial rid (ResultReceived None) c2 = Some (Inr (), c3)"
    "has_stream rid rc3 c3" "put_stream rid [] (Grant (word_of_int ?w) NewCreditGate) rc3" "cl_conn c3 = Some ?k1"
    using start(2) by auto
  have "sint (word_of_int ?w :: int64) = ?w" using win by (intro sint_of_int64) auto
  then have g: "\<not> gate_closed (Grant (word_of_int ?w) NewCreditGate)" "int (length vs) \<le> sint (credit (Grant (word_of_int ?w) NewCreditGate))"
    using win by (simp_all add: Grant_def NewCreditGate_def)
  obtain c4 where c4: "streamOut_loop E rid (map (\<lambda>v. Some (Some v)) vs @ [None]) c3 = Some c4" "rid \<notin> cl_registered c4"
    "cl_conn c4 = Some (k\<lparr>reqCh := reqCh k @ ?m # ?msgs @ [?fin]\<rparr>)"
    using streamOut_all [OF c3(5,6) g c3(7)] conn(2) by (auto simp: stream_messages_def)
  obtain t3 sr where t3: "process_all E pick ?msgs ?t2 = Some t3" "sc_pendingStreams t3 rid = None" "sc_requestMap t3 rid = Some sr"
    "inbound ?w (Long (env_V E) rid) (map Some vs) sr"
    using serve_values [OF laws wf grow t2(3,1,2) _ vs, where pick = pick] win(1) by auto
  obtain t4 sr' acts p where t4: "serveRunningRequest E StreamEnd ?fin sr = (None, sr', acts)"
    "processRequest E pick ?fin t3 = Some (None, t4)" "sc_requestMap t4 rid = None" "sr_inPump sr' = Some p"
    "pump_list (Suc (length vs)) p = map (\<lambda>v. Some (Some v)) vs @ [None]"
    using serve_end [OF laws wf t3(2-4), of pick] by (auto simp del: pump_list.simps simp: comp_def)
  have "sc_workers ?t1 = sc_workers t @ [Started incomingStream ?m]" by simp
  from start served this refl [of ?t2] t2(4) c3(1-4) c4 t3(1,3) t4 show ?thesis by (intro exI conjI)
qed

theorem put_stream_round_trip_witness:
  "\<exists>c3 c4 msgs t2 t3 fin sr sr' acts p.
    streamOut_loop sample_env 1 [Some (Some (GLong 1)), Some (Some (GLong 2)), None] c3 = Some c4 \<and>
    process_all sample_env True msgs t2 = Some t3 \<and> sc_requestMap t3 1 = Some sr \<and>
    serveRunningRequest sample_env StreamEnd fin sr = (None, sr', acts) \<and>
    sr_inPump sr' = Some p \<and> pump_list 3 p = [Some (Some (GLong 1)), Some (Some (GLong 2)), None]"
proof -
  let ?t = "NewServingClient 7 [] [] 0 sample_cfg False :: gval servingClient"
  let ?rid = "cl_lastRequest sample_connected + 1"
  define fn where "fn = (the (sample_functions ''s''))\<lparr>fn_ft := incomingStream\<rparr>"
  have fn: "[''p'' \<mapsto> fn] ''p'' = Some fn" "fn_ft fn = incomingStream" "Verify (env_V sample_env) (Some (GLong 5)) (fn_args fn)"
    "\<forall>ctx. fn_stream fn ctx (Some (GLong 5)) = Returned ()"
    by (simp_all add: fn_def sample_functions_def Verify_def)
  have rid: "?rid = 1" by (simp add: sample_connected_fields)
  have c: "cl_conn sample_connected = Some \<lparr>reqCh = [], conn_done = False\<rparr>" "cl_servingMap sample_connected ?rid = None"
    by (simp_all add: sample_connected_fields)
  have vs: "\<forall>v\<in>set [GLong 1, GLong 2]. Kind (env_V sample_env) v \<noteq> NULL" by (simp add: ref_api_def)
  have k: "\<not> conn_done \<lparr>reqCh = [] :: gval list, conn_done = False\<rparr>" by simp
  have win: "int (length [GLong 1, GLong 2]) \<le> cfg_maxPending (sc_cfg ?t)" "0 < cfg_maxPending (sc_cfg ?t)"
    "cfg_maxPending (sc_cfg ?t) < 2 ^ 63"
    by (simp_all add: NewServingClient_def sample_cfg_def)
  have n: "Suc (length [GLong 1, GLong 2]) = 3" "map (\<lambda>v. Some (Some v)) [GLong 1, GLong 2] @ [None] =
      [Some (Some (GLong 1)), Some (Some (GLong 2)), None]" by simp_all
  show ?thesis
    using put_stream_round_trip [where F = "[''p'' \<mapsto> fn]" and name = "''p''" and pick = True and redial = "\<lambda>_. None"
        and D = refused and ctx = Background, OF sample_env_laws c(1) k c(2) sample_session_free fn win vs]
    unfolding rid n by (elim exE conjE) (intro exI conjI; assumption)
qed

end
