(* ===== verification/Put_Link.thy ===== *)
theory Put_Link
  imports Get_Link Put_Round_Trip
begin

text \<open>
  A put stream as a link: the client's loop over the caller's channel is the sender, the session's request
  with its pump the receiver. The end of the stream removes the request from the session while its pump
  still hands values to the handler, so the receiver is the session together with the request the pump
  goroutine holds.
\<close>

section \<open>The ends\<close>

type_synonym 'v inbound_end = "'v servingClient \<times> 'v servingRequest option"

definition streamOut_turn :: "'v rpc_env \<Rightarrow> int64 \<Rightarrow> 'v option option \<Rightarrow> 'v rpcClient \<Rightarrow> 'v rpcClient option" where
  "streamOut_turn E rid item c =
     (case cl_ctxs c rid of None \<Rightarrow> None | Some rc \<Rightarrow> map_option snd (streamOut_client E rid item rc c))"

definition running :: "int64 \<Rightarrow> 'v inbound_end \<Rightarrow> 'v servingRequest option" where
  "running rid r = (case r of (t, Some sr) \<Rightarrow> Some sr | (t, None) \<Rightarrow> sc_requestMap t rid)"

definition update_running :: "int64 \<Rightarrow> 'v servingRequest \<Rightarrow> 'v inbound_end \<Rightarrow> 'v inbound_end" where
  "update_running rid sr r =
     (case r of
        (t, Some _) \<Rightarrow> (t, Some sr)
      | (t, None) \<Rightarrow> (t\<lparr>sc_requestMap := (sc_requestMap t)(rid \<mapsto> sr)\<rparr>, None))"

text \<open>A message is dispatched by the session; a request it removes stays with its pump goroutine.\<close>

definition session_handles :: "'v rpc_env \<Rightarrow> int64 \<Rightarrow> bool \<Rightarrow> 'v \<Rightarrow> 'v inbound_end \<Rightarrow> 'v inbound_end option" where
  "session_handles E rid pick m r =
     (case processRequest E pick m (fst r) of
        None \<Rightarrow> None
      | Some (_, t) \<Rightarrow>
          Some (t,
            case (sc_requestMap (fst r) rid, sc_requestMap t rid, GetNumberField (env_V E) m (MessageTypeField (env_d E))) of
              (Some sr, None, Some mt) \<Rightarrow> Some (fst (snd (serveRunningRequest E (number_Long (env_V E) mt) m sr)))
            | _ \<Rightarrow> snd r))"

text \<open>What the handler receives: the pump hands the value over, then its callback may grant credit.\<close>

definition handler_takes :: "'v rpc_env \<Rightarrow> int64 \<Rightarrow> 'v inbound_end \<Rightarrow> ('v option option \<times> 'v inbound_end) option" where
  "handler_takes E rid r =
     (case running rid r of
        None \<Rightarrow> None
      | Some sr \<Rightarrow>
          (case sr_inPump sr of
             None \<Rightarrow> None
           | Some p \<Rightarrow>
               (case run_locked p of
                  Some (Select v, p) \<Rightarrow>
                    (let (sr, n) = grantInbound (sr\<lparr>sr_inPump := Some p\<rparr>);
                         r = update_running rid sr r
                     in Some (Some v,
                          case n of
                            None \<Rightarrow> r
                          | Some n \<Rightarrow>
                              map_prod (\<lambda>t. snd (send (NewStreamCredit (env_V E) (env_d E) (sr_requestId sr) n) t)) id r))
                | Some (_, p) \<Rightarrow> Some (None, update_running rid (sr\<lparr>sr_inPump := Some p\<rparr>) r)
                | None \<Rightarrow> None)))"

definition put_ops ::
    "'v rpc_env \<Rightarrow> ('v rpcClient \<Rightarrow> (gerror option \<times> 'v rpcClient) option) \<Rightarrow> int64 \<Rightarrow>
     ('v rpcClient, 'v inbound_end, 'v, 'v option) link_ops" where
  "put_ops E redial rid =
     \<lparr>l_send = (\<lambda>v. streamOut_turn E rid (Some v)),
      l_close = streamOut_turn E rid None,
      l_transmit = client_out,
      l_credit = getResponseHandler E redial,
      l_handle = session_handles E rid,
      l_take = handler_takes E rid,
      l_return = (\<lambda>(t, held). map_option (\<lambda>(m, t). (m, t, held)) (session_out t))\<rparr>"

section \<open>The client sends\<close>

definition put_sending :: "'v rpc_env \<Rightarrow> int \<Rightarrow> int64 \<Rightarrow> int \<Rightarrow> 'v list \<Rightarrow> 'v rpcClient \<Rightarrow> bool" where
  "put_sending E w rid n q c \<longleftrightarrow> rpc_laws E w \<and> client_live q c \<and>
     (\<exists>rc g. has_stream rid rc c \<and> put_stream rid [] g rc \<and> \<not> gate_closed g \<and> sint (credit g) = n)"

definition put_finished :: "'v rpc_env \<Rightarrow> int \<Rightarrow> int64 \<Rightarrow> 'v list \<Rightarrow> 'v rpcClient \<Rightarrow> bool" where
  "put_finished E w rid q c \<longleftrightarrow> rpc_laws E w \<and> client_live q c \<and> rid \<notin> cl_registered c \<and> cl_servingMap c rid = None"

lemma put_send:
  assumes "put_sending E w rid n q c" and "0 < n"
  shows "\<exists>c'. streamOut_turn E rid (Some v) c = Some c' \<and> put_sending E w rid (n - 1) (q @ [value_message E rid v]) c'"
proof -
  obtain rc g where s: "has_stream rid rc c" "put_stream rid [] g rc" "\<not> gate_closed g" "sint (credit g) = n"
    using assms(1) by (auto simp: put_sending_def)
  obtain k where k: "cl_conn c = Some k" "\<not> conn_done k" "reqCh k = q" using assms(1) by (auto simp: put_sending_def client_live_def)
  let ?g = "g\<lparr>credit := credit g - 1\<rparr>"
  have "Acquire g = Some (True, ?g)" using s(3,4) assms(2) by (simp add: Acquire_def)
  from Acquire_True [OF this] have "sint (credit ?g) = n - 1" "\<not> gate_closed ?g" using s(4) by auto
  moreover from streamOut_value [OF s(1-3) _ k(1,2), of E v] obtain c' rc'
    where "streamOut_client E rid (Some v) rc c = Some (True, c')" "has_stream rid rc' c'" "put_stream rid [] ?g rc'"
      "cl_conn c' = Some (k\<lparr>reqCh := reqCh k @ [value_message E rid v]\<rparr>)"
    using s(4) assms(2) by auto
  ultimately show ?thesis
    using s(1) k assms(1) by (fastforce simp: streamOut_turn_def has_stream_def put_sending_def client_live_def)
qed

lemma put_send_blocks: "put_sending E w rid n q c \<Longrightarrow> n = 0 \<Longrightarrow> streamOut_turn E rid (Some v) c = None"
  by (auto simp: put_sending_def streamOut_turn_def streamOut_client_def has_stream_def put_stream_def IsPutOpen_def Acquire_def Let_def)

lemma put_close:
  assumes "put_sending E w rid n q c"
  shows "\<exists>c'. streamOut_turn E rid None c = Some c' \<and> put_finished E w rid (q @ [end_message E rid]) c'"
proof -
  obtain rc g k where s: "has_stream rid rc c" "put_stream rid [] g rc" "cl_conn c = Some k" "\<not> conn_done k" "reqCh k = q"
    using assms(1) by (auto simp: put_sending_def client_live_def)
  from streamOut_end [OF s(1-4), of E] obtain c' where "streamOut_client E rid None rc c = Some (False, c')" "rid \<notin> cl_registered c'"
      "cl_servingMap c' = cl_servingMap c" "cl_conn c' = Some (k\<lparr>reqCh := reqCh k @ [end_message E rid]\<rparr>)"
    by auto
  then show ?thesis
    using s assms by (auto simp: streamOut_turn_def has_stream_def put_sending_def put_finished_def client_live_def)
qed

lemma put_credit:
  assumes "put_sending E w rid n q c" and "0 \<le> n" and "0 < k" and "n + k \<le> w"
  shows "\<exists>c'. getResponseHandler E redial pick (credit_message E rid k) c = Some c' \<and> put_sending E w rid (n + k) q c'"
proof -
  have laws: "value_laws (env_V E)" "wf_dialect (env_d E)" "w < 2 ^ 63" using assms(1) by (simp_all add: put_sending_def rpc_laws_def)
  obtain rc g where s: "has_stream rid rc c" "put_stream rid [] g rc" "\<not> gate_closed g" "sint (credit g) = n"
    using assms(1) by (auto simp: put_sending_def)
  have k: "sint (word_of_int k :: int64) = k" using assms(2-4) laws(3) by (intro sint_of_int64) auto
  have "sint (credit (Grant (word_of_int k) g)) = n + k" "\<not> gate_closed (Grant (word_of_int k) g)"
    using assms(2-4) laws(3) s(3,4) sint_add_no_overflow [of "credit g" "word_of_int k"] by (auto simp: Grant_def k)
  moreover from handle_credit [OF laws(1,2) s(1,2), of redial pick "word_of_int k"] obtain rc'
    where "getResponseHandler E redial pick (credit_message E rid k) c = Some (update_ctx rid rc' c)"
      "put_stream rid [] (Grant (word_of_int k) g) rc'" by blast
  ultimately show ?thesis using has_stream_update [OF s(1)] assms(1) by (fastforce simp: put_sending_def)
qed

text \<open>Credit for a stream that has ended is logged and changes nothing else.\<close>

lemma put_late_credit:
  assumes "put_finished E w rid q c"
  shows "\<exists>c'. getResponseHandler E redial pick (credit_message E rid k) c = Some c' \<and> put_finished E w rid q c'"
proof -
  have laws: "value_laws (env_V E)" "wf_dialect (env_d E)" using assms by (simp_all add: put_finished_def rpc_laws_def)
  show ?thesis
    using assms
    by (auto simp: put_finished_def getResponseHandler_def stream_fields(9-11) [OF laws] value_laws.Long_Long [OF laws(1)] mt_defs
        log_event_def client_live_def Let_def)
qed

section \<open>The session receives\<close>

definition put_receiving :: "'v rpc_env \<Rightarrow> int \<Rightarrow> int64 \<Rightarrow> 'v option list \<Rightarrow> int \<Rightarrow> 'v list \<Rightarrow> 'v inbound_end \<Rightarrow> bool" where
  "put_receiving E w rid xs d b r \<longleftrightarrow> rpc_laws E w \<and> session_live rid b (fst r) \<and> snd r = None \<and>
     (\<exists>sr n. sc_requestMap (fst r) rid = Some sr \<and> inbound w (Long (env_V E) rid) xs sr \<and>
        inbound_credit sr = (word_of_int w, n) \<and> sint n = d)"

definition put_draining :: "'v rpc_env \<Rightarrow> int \<Rightarrow> int64 \<Rightarrow> 'v option list \<Rightarrow> int \<Rightarrow> 'v list \<Rightarrow> 'v inbound_end \<Rightarrow> bool" where
  "put_draining E w rid xs d b r \<longleftrightarrow> rpc_laws E w \<and> session_live rid b (fst r) \<and>
     (\<exists>sr p n. snd r = Some sr \<and> sr_requestId sr = Long (env_V E) rid \<and> sr_inPump sr = Some p \<and> slots_ok p \<and> contents p = xs \<and>
        inputEnd p \<and> \<not> stopCh p \<and> inbound_credit sr = (word_of_int w, n) \<and> sint n = d)"

lemma session_live_same: "same_link t t' \<Longrightarrow> session_live rid b t' = session_live rid b t"
  by (simp add: same_link_def session_live_def)

lemma put_handle_value:
  assumes "put_receiving E w rid xs d b r" and "sendable E x" and "int (length xs) < w"
  shows "\<exists>r'. session_handles E rid pick (value_message E rid x) r = Some r' \<and> put_receiving E w rid (xs @ [x]) d b r'"
proof -
  obtain v where v: "x = Some v" "Kind (env_V E) v \<noteq> NULL" using assms(2) by (auto simp: sendable_def)
  obtain sr n where sr: "sc_requestMap (fst r) rid = Some sr" "inbound w (Long (env_V E) rid) xs sr"
    "inbound_credit sr = (word_of_int w, n)" "sint n = d"
    using assms(1) by (auto simp: put_receiving_def)
  have laws: "value_laws (env_V E)" "wf_dialect (env_d E)" "grows (env_grow E)" and live: "session_live rid b (fst r)"
    using assms(1) by (simp_all add: put_receiving_def rpc_laws_def)
  have "sc_pendingStreams (fst r) rid = None" using live by (simp add: session_live_def)
  from serve_value [OF laws this sr(1,2) assms(3) v(2), of pick] obtain t' sr'
    where t': "processRequest E pick (value_message E rid (Some v)) (fst r) = Some (None, t')" "sc_requestMap t' rid = Some sr'"
      "inbound w (Long (env_V E) rid) (xs @ [Some v]) sr'" "inbound_credit sr' = inbound_credit sr" "same_link (fst r) t'" by blast
  then have "session_handles E rid pick (value_message E rid x) r = Some (t', None)"
    using v(1) assms(1) by (simp add: session_handles_def put_receiving_def split: option.splits)
  then show ?thesis
    using t' sr(3,4) v(1) assms(1) live by (auto simp: put_receiving_def session_live_same)
qed

lemma put_handle_end:
  assumes "put_receiving E w rid xs d b r"
  shows "\<exists>r'. session_handles E rid pick (end_message E rid) r = Some r' \<and> put_draining E w rid xs d b r'"
proof -
  obtain sr n where sr: "sc_requestMap (fst r) rid = Some sr" "inbound w (Long (env_V E) rid) xs sr"
    "inbound_credit sr = (word_of_int w, n)" "sint n = d"
    using assms(1) by (auto simp: put_receiving_def)
  have laws: "value_laws (env_V E)" "wf_dialect (env_d E)" and live: "session_live rid b (fst r)" "rpc_laws E w"
    using assms(1) by (simp_all add: put_receiving_def rpc_laws_def)
  have "sc_pendingStreams (fst r) rid = None" using live by (simp add: session_live_def)
  from serve_end [OF laws this sr(1,2), of pick] obtain t' sr' acts p
    where t': "serveRunningRequest E StreamEnd (end_message E rid) sr = (None, sr', acts)"
      "processRequest E pick (end_message E rid) (fst r) = Some (None, t')" "sc_requestMap t' rid = None"
      "sr_inPump sr' = Some p" "slots_ok p" "contents p = xs" "inputEnd p" "\<not> stopCh p" "sr_requestId sr' = sr_requestId sr"
      "inbound_credit sr' = inbound_credit sr" "same_link (fst r) t'" by blast
  have "session_handles E rid pick (end_message E rid) r = Some (t', Some sr')"
    using t'(1-3) sr(1) by (simp add: session_handles_def stream_fields(6) [OF laws] value_laws.Long_Long [OF laws(1)])
  then show ?thesis
    using t'(4-11) sr(2-4) live by (auto simp: put_draining_def session_live_same inbound_def)
qed

text \<open>
  The end also cancels the handler's context, with the values its pump still holds: a handler that returns
  when its context is cancelled does not see them.
\<close>

lemma end_cancels_handler:
  assumes laws: "value_laws (env_V E)" "wf_dialect (env_d E)" and "inbound w (Long (env_V E) rid) xs sr" and "sr_cancel sr"
  shows "\<exists>sr' acts p. serveRunningRequest E StreamEnd (end_message E rid) sr = (None, sr', acts) \<and> sr_cancelled sr' \<and>
    sr_inPump sr' = Some p \<and> contents p = xs"
  using assms(3,4)
  by (auto simp: serveRunningRequest_def incomingStreamEnd_def stream_fields(8) [OF laws] mt_defs inbound_def closeInboundChan_def
      cancelCtx_def Close_def contents_def Let_def)

lemma grantInbound_batch:
  assumes "0 < w" and "w < 2 ^ 63" and "inbound_credit sr = (word_of_int w, n)" and "sint n = d" and "0 \<le> d" and "d < batch_of w"
  shows "\<exists>n'. grantInbound sr =
      (sr\<lparr>sr_inboundDelivered := n'\<rparr>, if batch_of w \<le> d + 1 then Some (word_of_int (d + 1)) else None) \<and>
    sint n' = (if batch_of w \<le> d + 1 then 0 else d + 1)"
proof -
  note rep = replenish_batch [OF assms(1,2,4-6)]
  have "grantInbound sr = (sr\<lparr>sr_inboundDelivered := fst (replenish (sr_creditWindow sr) (sr_inboundDelivered sr))\<rparr>,
      snd (replenish (sr_creditWindow sr) (sr_inboundDelivered sr)))"
    by (simp add: grantInbound_def replenish_def Let_def)
  then show ?thesis using rep(2) assms(3) by (auto simp: inbound_credit_def rep(1))
qed

lemma takes_batch:
  assumes "rpc_laws E w" and "session_live rid b (fst r)" and "running rid r = Some sr" and "sr_inPump sr = Some p"
    and "slots_ok p" and "contents p = x # xs" and "\<not> stopCh p" and "sr_requestId sr = Long (env_V E) rid"
    and "inbound_credit sr = (word_of_int w, n)" and "sint n = d" and "0 \<le> d" and "d < batch_of w"
  obtains p' n' r' sr' where "handler_takes E rid r = Some (Some x, r')"
    "session_live rid (if batch_of w \<le> d + 1 then b @ [credit_message E rid (d + 1)] else b) (fst r')"
    "if snd r = None then snd r' = None \<and> sc_requestMap (fst r') rid = Some sr' else snd r' = Some sr'"
    "sr' = sr\<lparr>sr_inPump := Some p', sr_inboundDelivered := n'\<rparr>"
    "slots_ok p'" "contents p' = xs" "inputEnd p' = inputEnd p" "\<not> stopCh p'" "maxPending p' = maxPending p" "overflow p' = overflow p"
    "inbound_credit sr' = (word_of_int w, n')" "sint n' = (if batch_of w \<le> d + 1 then 0 else d + 1)"
proof -
  obtain p' where p': "run_locked p = Some (Select x, p')" "slots_ok p'" "contents p' = xs" "inputEnd p' = inputEnd p"
    "stopCh p' = stopCh p" "maxPending p' = maxPending p" "overflow p' = overflow p"
    by (rule run_locked_front [OF assms(5-7)])
  let ?sr = "sr\<lparr>sr_inPump := Some p'\<rparr>"
  let ?n = "if batch_of w \<le> d + 1 then Some (word_of_int (d + 1)) else None"
  have "0 < w" "w < 2 ^ 63" "inbound_credit ?sr = (word_of_int w, n)"
    using assms(1,9) by (simp_all add: rpc_laws_def inbound_credit_def)
  from grantInbound_batch [OF this assms(10-12)] obtain n' where g: "grantInbound ?sr = (?sr\<lparr>sr_inboundDelivered := n'\<rparr>, ?n)"
    "sint n' = (if batch_of w \<le> d + 1 then 0 else d + 1)" by blast
  define sr' where "sr' = ?sr\<lparr>sr_inboundDelivered := n'\<rparr>"
  let ?r' = "case ?n of None \<Rightarrow> update_running rid sr' r
    | Some n \<Rightarrow> map_prod (\<lambda>t. snd (send (NewStreamCredit (env_V E) (env_d E) (Long (env_V E) rid) n) t)) id (update_running rid sr' r)"
  have "handler_takes E rid r = Some (Some x, ?r')"
    using assms(3,4,8) p'(1) g(1) by (simp add: handler_takes_def sr'_def)
  moreover have "session_live rid (if batch_of w \<le> d + 1 then b @ [credit_message E rid (d + 1)] else b) (fst ?r')"
    "if snd r = None then snd ?r' = None \<and> sc_requestMap (fst ?r') rid = Some sr' else snd ?r' = Some sr'"
    using assms(2) by (cases r; cases "snd r"; simp add: update_running_def session_live_def send_def)+
  moreover have "inbound_credit sr' = (word_of_int w, n')" using assms(9) by (simp add: sr'_def inbound_credit_def)
  ultimately show ?thesis
    using that [of ?r' sr' n' p'] p'(2-7) g(2) assms(7) by (simp add: sr'_def)
qed

lemma put_take:
  assumes "put_receiving E w rid (x # xs) d b r" and "0 \<le> d" and "d < batch_of w"
  shows "\<exists>r'. handler_takes E rid r = Some (Some x, r') \<and>
    (if batch_of w \<le> d + 1 then put_receiving E w rid xs 0 (b @ [credit_message E rid (d + 1)]) r'
     else put_receiving E w rid xs (d + 1) b r')"
proof -
  obtain sr n p where r: "rpc_laws E w" "session_live rid b (fst r)" "snd r = None" "sc_requestMap (fst r) rid = Some sr"
    "inbound w (Long (env_V E) rid) (x # xs) sr" "inbound_credit sr = (word_of_int w, n)" "sint n = d"
    "sr_inPump sr = Some p" "slots_ok p" "contents p = x # xs" "\<not> stopCh p"
    using assms(1) by (auto simp: put_receiving_def inbound_def)
  have h: "running rid r = Some sr" "sr_requestId sr = Long (env_V E) rid"
    using r(3-5) by (auto simp: running_def inbound_def split: prod.split)
  show ?thesis
    by (rule takes_batch [OF r(1,2) h(1) r(8-11) h(2) r(6,7) assms(2,3)])
      (use r(1,3,5,8) in \<open>auto simp: put_receiving_def inbound_def\<close>)
qed

lemma put_drain:
  assumes "put_draining E w rid (x # xs) d b r" and "0 \<le> d" and "d < batch_of w"
  shows "\<exists>r'. handler_takes E rid r = Some (Some x, r') \<and>
    (if batch_of w \<le> d + 1 then put_draining E w rid xs 0 (b @ [credit_message E rid (d + 1)]) r'
     else put_draining E w rid xs (d + 1) b r')"
proof -
  obtain sr n p where r: "rpc_laws E w" "session_live rid b (fst r)" "snd r = Some sr" "sr_requestId sr = Long (env_V E) rid"
    "sr_inPump sr = Some p" "slots_ok p" "contents p = x # xs" "\<not> stopCh p" "inbound_credit sr = (word_of_int w, n)" "sint n = d"
    "inputEnd p"
    using assms(1) by (auto simp: put_draining_def)
  have h: "running rid r = Some sr" using r(3) by (auto simp: running_def split: prod.split)
  show ?thesis
    by (rule takes_batch [OF r(1,2) h r(5-8) r(4,9,10) assms(2,3)]) (use r(1,3,4,11) in \<open>auto simp: put_draining_def\<close>)
qed

lemma put_take_empty: "put_receiving E w rid [] d b r \<Longrightarrow> handler_takes E rid r = None"
  by (auto simp: put_receiving_def inbound_def handler_takes_def running_def run_locked_def isStopped_def pending_contents
      split: prod.split)

lemma put_take_end:
  assumes "put_draining E w rid [] d b r"
  shows "\<exists>r'. handler_takes E rid r = Some (None, r') \<and> put_draining E w rid [] d b r'"
proof -
  obtain sr p where r: "snd r = Some sr" "sr_inPump sr = Some p" "slots_ok p" "contents p = []" "inputEnd p" "\<not> stopCh p"
    using assms by (auto simp: put_draining_def)
  then have "run_locked p = Some (Done, p)" using pending_contents [OF r(3)] by (simp add: run_locked_def isStopped_def)
  moreover have "running rid r = Some sr" "update_running rid (sr\<lparr>sr_inPump := Some p\<rparr>) r = r"
    using r(1,2) by (auto simp: running_def update_running_def split: prod.split)
  ultimately show ?thesis using assms r(2) by (simp add: handler_takes_def)
qed

section \<open>The link\<close>

lemma put_transmit:
  "put_sending E w rid n (m # q) c \<Longrightarrow> \<exists>c'. client_out c = Some (m, c') \<and> put_sending E w rid n q c'"
  "put_finished E w rid (m # q) c \<Longrightarrow> \<exists>c'. client_out c = Some (m, c') \<and> put_finished E w rid q c'"
  "put_sending E w rid n [] c \<Longrightarrow> client_out c = None"
  "put_finished E w rid [] c \<Longrightarrow> client_out c = None"
  using client_out_live(1) [of m q c] by (auto simp: put_sending_def put_finished_def has_stream_def client_out_live(2))

lemma put_return:
  "put_receiving E w rid xs d (m # b) r \<Longrightarrow>
     \<exists>r'. (case r of (t, held) \<Rightarrow> map_option (\<lambda>(m, t). (m, t, held)) (session_out t)) = Some (m, r') \<and> put_receiving E w rid xs d b r'"
  "put_draining E w rid xs d (m # b) r \<Longrightarrow>
     \<exists>r'. (case r of (t, held) \<Rightarrow> map_option (\<lambda>(m, t). (m, t, held)) (session_out t)) = Some (m, r') \<and> put_draining E w rid xs d b r'"
  using session_out_live(1) [of rid m b "fst r"] by (auto simp: put_receiving_def put_draining_def session_live_def case_prod_beta)

lemma put_return_empty:
  "put_receiving E w rid xs d [] r \<Longrightarrow> (case r of (t, held) \<Rightarrow> map_option (\<lambda>(m, t). (m, t, held)) (session_out t)) = None"
  "put_draining E w rid xs d [] r \<Longrightarrow> (case r of (t, held) \<Rightarrow> map_option (\<lambda>(m, t). (m, t, held)) (session_out t)) = None"
  using session_out_live(2) [of rid "fst r"] by (auto simp: put_receiving_def put_draining_def case_prod_beta)

lemma put_window: "put_sending E w rid n q c \<Longrightarrow> 0 < w"
  by (simp add: put_sending_def rpc_laws_def)

lemmas put_laws = put_send put_send_blocks put_close put_transmit put_credit put_late_credit put_handle_value put_handle_end
  put_take put_drain put_take_empty put_take_end put_return put_return_empty put_window

interpretation put_link: stream_link "put_ops E redial rid" w "value_message E rid" "end_message E rid" "credit_message E rid"
    "sendable E" "put_sending E w rid" "put_finished E w rid" "put_receiving E w rid" "put_draining E w rid"
  for E :: "'v rpc_env" and redial and rid w
  by unfold_locales (unfold put_ops_def link_ops.simps, (rule put_laws; assumption)+)

section \<open>A put stream on every schedule\<close>

text \<open>The session's part: it registers the request with its pump, grants its window and acknowledges.\<close>

lemma session_opens_put:
  assumes "value_laws (env_V E)" and "wf_dialect (env_d E)" and "grows (env_grow E)"
    and m: "GetNumberField (env_V E) m (MessageTypeField (env_d E)) = Some (Long (env_V E) PutStreamRequest)"
      "GetNumberField (env_V E) m (RequestIdField (env_d E)) = Some (Long (env_V E) rid)"
      "GetStringField (env_V E) m (FunctionNameField (env_d E)) = Some (Utf8 (env_V E) name)"
      "Get (env_V E) m (ArgumentsField (env_d E)) = Some a"
    and live: "session_live rid [] t" and free: "sc_requestMap t rid = None"
      "sint (maxConcurrentRequests (sc_cfg t)) \<le> 0 \<or>
       sint (sc_inFlight t + 1) \<le> sint (maxConcurrentRequests (sc_cfg t))"
      "sint (maxConcurrentStreams (sc_cfg t)) \<le> 0 \<or> sint (sc_liveStreams t) < sint (maxConcurrentStreams (sc_cfg t))"
    and fn: "F name = Some fn" "fn_ft fn = incomingStream" "Verify (env_V E) (Some a) (fn_args fn)"
      "\<And>ctx. fn_stream fn ctx (Some a) = Returned r"
    and w: "w = cfg_maxPending (sc_cfg t)" "0 < w" "w < 2 ^ 63"
  shows "\<exists>t1 t2 t3. processRequest E pick m t = Some (None, t1) \<and> sc_workers t1 = sc_workers t @ [Started incomingStream m] \<and>
    session_out (serveFunctionRequest E F incomingStream m t1) = Some (credit_message E rid w, t2) \<and>
    session_out t2 = Some (StreamReady_msg (env_V E) (env_d E) (Long (env_V E) rid), t3) \<and> put_receiving E w rid [] 0 [] (t3, None)"
proof -
  let ?t1 = "t\<lparr>sc_inFlight := sc_inFlight t + 1, sc_workers := sc_workers t @ [Started incomingStream m]\<rparr>"
  let ?t' = "serveFunctionRequest E F incomingStream m ?t1"
  let ?ready = "StreamReady_msg (env_V E) (env_d E) (Long (env_V E) rid)"
  have t: "sc_pendingStreams t rid = None" "\<not> sc_done ?t1" "0 < cfg_maxPending (sc_cfg ?t1)"
    "sint (maxConcurrentStreams (sc_cfg ?t1)) \<le> 0 \<or> sint (sc_liveStreams ?t1) < sint (maxConcurrentStreams (sc_cfg ?t1))"
    using live free(3) w by (simp_all add: session_live_def)
  have served: "processRequest E pick m t = Some (None, ?t1)"
    by (rule processRequest_new [OF assms(1) m(1,2) t(1) free(1,2)]) simp
  note stream = serve_put_stream [where F = F and name = name and t = ?t1, OF assms(1) m(2-4) fn t(4,2,3)]
  have l1: "session_live rid [credit_message E rid w, ?ready] ?t'" using stream(2-5) live w(1) by (simp add: session_live_def)
  let ?t2 = "?t'\<lparr>sc_outgoingQueue := [?ready]\<rparr>" let ?t3 = "?t'\<lparr>sc_outgoingQueue := []\<rparr>"
  have "session_out ?t' = Some (credit_message E rid w, ?t2)" by (rule session_out_live(1) [OF l1])
  moreover have "session_out ?t2 = Some (?ready, ?t3)"
    using session_out_live(1) [of rid ?ready "[]" ?t2] l1 by (simp add: session_live_def)
  moreover have "put_receiving E w rid [] 0 [] (?t3, None)"
    using stream(1) l1 assms(1-3) w by (auto simp: put_receiving_def rpc_laws_def session_live_def)
  ultimately show ?thesis using served by fastforce
qed

text \<open>
  C3. A put stream of any length, on every schedule. On an idle live connection to a session with a free
  slot, for a caller that puts the values \<open>vs\<close> (none of them null) and closes its channel: the call, the
  session's credit and its acknowledgement open the stream. From there every run of the goroutines of both
  sides, in whatever order they are scheduled, takes at most \<open>7 * length vs + 7\<close> steps, what the handler
  has received is always a prefix of \<open>vs\<close> followed by the closed channel, and a run in which no goroutine
  can move any more has delivered all of it, although the session forgets the request at its end.
\<close>

theorem put_stream_every_schedule:
  fixes E :: "'v rpc_env" and c :: "'v rpcClient" and t :: "'v servingClient" and vs :: "'v list"
  defines "rid \<equiv> cl_lastRequest c + 1"
  assumes laws: "value_laws (env_V E)" and wf: "wf_dialect (env_d E)" and grow: "grows (env_grow E)"
    and conn: "cl_conn c = Some k" "\<not> conn_done k" "reqCh k = []" and serving: "cl_servingMap c rid = None"
    and live: "session_live rid [] t"
    and free: "sc_requestMap t rid = None"
      "sint (maxConcurrentRequests (sc_cfg t)) \<le> 0 \<or>
       sint (sc_inFlight t + 1) \<le> sint (maxConcurrentRequests (sc_cfg t))"
      "sint (maxConcurrentStreams (sc_cfg t)) \<le> 0 \<or> sint (sc_liveStreams t) < sint (maxConcurrentStreams (sc_cfg t))"
    and fn: "F name = Some fn" "fn_ft fn = incomingStream" "Verify (env_V E) (Some a) (fn_args fn)"
      "\<forall>ctx. fn_stream fn ctx (Some a) = Returned r"
    and win: "0 < cfg_maxPending (sc_cfg t)" "cfg_maxPending (sc_cfg t) < 2 ^ 63"
    and vs: "\<forall>v\<in>set vs. Kind (env_V E) v \<noteq> NULL"
  shows "\<exists>c1 m c2 t1 reply1 t2 reply2 t3 c3 rc c4.
    PutStream_begin E D pick (\<lambda>t. t) ctx name (Some a) c = Some (Inr rid, c1) \<and> client_out c1 = Some (m, c2) \<and>
    processRequest E pick m t = Some (None, t1) \<and> sc_workers t1 = sc_workers t @ [Started incomingStream m] \<and>
    session_out (serveFunctionRequest E F incomingStream m t1) = Some (reply1, t2) \<and> session_out t2 = Some (reply2, t3) \<and>
    handle_all E redial pick [reply1, reply2] c2 = Some c3 \<and> cl_ctxs c3 rid = Some rc \<and>
    channel_event rc = Some (ResultReceived None) \<and>
    PutStream_end E redial rid (ResultReceived None) c3 = Some (Inr (), c4) \<and>
    (\<forall>j n. (link_step (put_ops E redial rid) ^^ j) (link_start (map Some vs) c4 (t3, None)) n \<longrightarrow>
       j \<le> 7 * length vs + 7 \<and> prefix (lk_got n) (map (\<lambda>v. Some (Some v)) vs @ [None]) \<and>
       ((\<nexists>n'. link_step (put_ops E redial rid) n n') \<longrightarrow> lk_got n = map (\<lambda>v. Some (Some v)) vs @ [None]))"
proof -
  let ?w = "cfg_maxPending (sc_cfg t)"
  let ?m = "call_message E ctx PutStreamRequest name (Some a) c"
  let ?new = "newRequestCtx E rid putStreamKind ?m 1 (c\<lparr>cl_lastRequest := rid\<rparr>)"
  let ?c1 = "?new\<lparr>cl_conn := Some (k\<lparr>reqCh := [?m]\<rparr>)\<rparr>" let ?c2 = "?new\<lparr>cl_conn := Some k\<rparr>"
  let ?g = "Grant (word_of_int ?w) NewCreditGate"
  have start: "PutStream_begin E D pick (\<lambda>t. t) ctx name (Some a) c = Some (Inr rid, ?c1)"
    by (simp add: PutStream_begin_def start_call_connected [OF conn(1,2)] conn(3) rid_def)
  have "k\<lparr>reqCh := []\<rparr> = k" using conn(3) by simp
  then have out: "client_out ?c1 = Some (?m, ?c2)" by (simp add: client_out_def)
  have stream: "fn_stream fn ctx (Some a) = Returned r" for ctx by (simp add: fn(4))
  obtain t1 t2 t3 where server: "processRequest E pick ?m t = Some (None, t1)"
    "sc_workers t1 = sc_workers t @ [Started incomingStream ?m]"
    "session_out (serveFunctionRequest E F incomingStream ?m t1) = Some (credit_message E rid ?w, t2)"
    "session_out t2 = Some (StreamReady_msg (env_V E) (env_d E) (Long (env_V E) rid), t3)" "put_receiving E ?w rid [] 0 [] (t3, None)"
    using session_opens_put [where F = F and name = name, OF laws wf grow
        call_fields [OF laws wf, of ctx PutStreamRequest name a c, folded rid_def] live free fn(1-3) stream refl win, of pick] by blast
  obtain rc where "has_stream rid rc ?c2" "put_stream rid [] NewCreditGate rc"
    using newRequestCtx_put [OF refl, where c = "c\<lparr>cl_lastRequest := rid\<rparr>" and rid = rid and E = E and m = ?m
        and k = "Some k"] serving by auto
  from client_opens_put [OF laws wf this, of redial pick ?w] obtain c3 rc3 c4 rc4 where opened:
    "handle_all E redial pick [credit_message E rid ?w, StreamReady_msg (env_V E) (env_d E) (Long (env_V E) rid)] ?c2 = Some c3"
    "cl_ctxs c3 rid = Some rc3" "channel_event rc3 = Some (ResultReceived None)"
    "PutStream_end E redial rid (ResultReceived None) c3 = Some (Inr (), c4)"
    "has_stream rid rc4 c4" "put_stream rid [] ?g rc4" "cl_conn c4 = Some k"
    by auto
  have "sint (word_of_int ?w :: int64) = ?w" using win by (intro sint_of_int64) auto
  then have "sint (credit ?g) = ?w" "\<not> gate_closed ?g" using win(1) by (simp_all add: Grant_def NewCreditGate_def)
  then have "put_sending E ?w rid ?w [] c4"
    using laws wf grow win conn(2,3) opened(5-7) by (auto simp: put_sending_def rpc_laws_def client_live_def)
  note delivers = put_link.delivers [OF this, where ks = "[]" and r = "(t3, None)" and vs = "map Some vs" and redial = redial]
  have "\<forall>x \<in> set (map Some vs). sendable E x" using vs by (simp add: sendable_def)
  then have "(link_step (put_ops E redial rid) ^^ j) (link_start (map Some vs) c4 (t3, None)) n \<longrightarrow>
       j \<le> 7 * length vs + 7 \<and> prefix (lk_got n) (map (\<lambda>v. Some (Some v)) vs @ [None]) \<and>
       ((\<nexists>n'. link_step (put_ops E redial rid) n n') \<longrightarrow> lk_got n = map (\<lambda>v. Some (Some v)) vs @ [None])" for j n
    using delivers [of j n] server(5) win(1) by (auto simp: comp_def)
  with start out server(1-4) opened(1-4) show ?thesis by (intro exI conjI allI) assumption+
qed

theorem put_stream_every_schedule_witness:
  "\<exists>t3 c4 j n. (link_step (put_ops sample_env (\<lambda>_. None) 1) ^^ j) (link_start (map Some (replicate 10000 (GLong 1))) c4 (t3, None)) n \<and>
    (\<nexists>n'. link_step (put_ops sample_env (\<lambda>_. None) 1) n n') \<and>
    lk_got n = map (\<lambda>v. Some (Some v)) (replicate 10000 (GLong 1)) @ [None]"
proof -
  let ?t = "NewServingClient 7 [] [] 0 sample_cfg False :: gval servingClient"
  let ?rid = "cl_lastRequest sample_connected + 1"
  define fn where "fn = (the (sample_functions ''s''))\<lparr>fn_ft := incomingStream\<rparr>"
  have fn: "[''p'' \<mapsto> fn] ''p'' = Some fn" "fn_ft fn = incomingStream" "Verify (env_V sample_env) (Some (GLong 5)) (fn_args fn)"
    "\<forall>ctx. fn_stream fn ctx (Some (GLong 5)) = Returned ()"
    by (simp_all add: fn_def sample_functions_def Verify_def)
  have rid: "?rid = 1" by (simp add: sample_connected_fields)
  have c: "cl_conn sample_connected = Some \<lparr>reqCh = [], conn_done = False\<rparr>" "cl_servingMap sample_connected ?rid = None"
    by (simp_all add: sample_connected_fields)
  have live: "session_live ?rid [] ?t" by (simp add: NewServingClient_def session_live_def)
  have win: "0 < cfg_maxPending (sc_cfg ?t)" "cfg_maxPending (sc_cfg ?t) < 2 ^ 63"
    by (simp_all add: NewServingClient_def sample_cfg_def)
  have vs: "\<forall>v\<in>set (replicate 10000 (GLong 1)). Kind (env_V sample_env) v \<noteq> NULL" by (simp add: ref_api_def)
  have k: "\<not> conn_done \<lparr>reqCh = [] :: gval list, conn_done = False\<rparr>" "reqCh \<lparr>reqCh = [] :: gval list, conn_done = False\<rparr> = []"
    by simp_all
  obtain t3 c4 where all: "\<And>j n. (link_step (put_ops sample_env (\<lambda>_. None) 1) ^^ j) (link_start (map Some (replicate 10000 (GLong 1))) c4 (t3, None)) n \<Longrightarrow>
      j \<le> 7 * length (replicate 10000 (GLong 1)) + 7 \<and>
      ((\<nexists>n'. link_step (put_ops sample_env (\<lambda>_. None) 1) n n') \<longrightarrow>
        lk_got n = map (\<lambda>v. Some (Some v)) (replicate 10000 (GLong 1)) @ [None])"
    using put_stream_every_schedule [where F = "[''p'' \<mapsto> fn]" and name = "''p''" and pick = True and redial = "\<lambda>_. None"
        and D = refused and ctx = Background, OF sample_env_laws c(1) k c(2) live sample_session_free(2-4) fn win vs]
    unfolding rid by blast
  have "\<exists>j n. (link_step (put_ops sample_env (\<lambda>_. None) 1) ^^ j) (link_start (map Some (replicate 10000 (GLong 1))) c4 (t3, None)) n \<and>
    (\<nexists>n'. link_step (put_ops sample_env (\<lambda>_. None) 1) n n') \<and>
    lk_got n = map (\<lambda>v. Some (Some v)) (replicate 10000 (GLong 1)) @ [None]"
    by (rule bounded_run_ends) (erule all)
  then show ?thesis by blast
qed

end
