(* ===== verification/Reverse_Link.thy ===== *)
theory Reverse_Link
  imports Put_Link
begin

text \<open>
  A stream in the other direction: the server opens it toward its client, and a function the client
  registered produces it. The client's serving request is the sender, the session's stream with its pump
  the receiver, which the end removes from the session while the pump still drains it.
\<close>

section \<open>The ends\<close>

lemma stream_builders:
  "NewStreamReady V d i = StreamReady_msg V d i" "NewStreamValue V d i v = StreamValue_msg V d i v"
  "NewStreamEnd V d i v = StreamEnd_msg V d i v"
  by (simp_all add: NewStreamReady_def StreamReady_msg_def NewStreamValue_def StreamValue_msg_def NewStreamEnd_def StreamEnd_msg_def)

type_synonym 'v reverse_end = "'v servingClient \<times> 'v clientStream option"

definition reverse_turn :: "'v rpc_env \<Rightarrow> int64 \<Rightarrow> 'v out_event \<Rightarrow> 'v rpcClient \<Rightarrow> 'v rpcClient option" where
  "reverse_turn E rid ev c =
     (case cl_servingMap c rid of
        None \<Rightarrow> None
      | Some sr \<Rightarrow>
          map_option (\<lambda>(_, sr, acts). perform_client E acts (c\<lparr>cl_servingMap := (cl_servingMap c)(rid \<mapsto> sr)\<rparr>))
            (csr_streamer_step E ev sr))"

definition reverse_stream :: "int64 \<Rightarrow> 'v reverse_end \<Rightarrow> 'v clientStream option" where
  "reverse_stream rid r = (case r of (t, Some cs) \<Rightarrow> Some cs | (t, None) \<Rightarrow> sc_pendingStreams t rid)"

definition update_reverse :: "int64 \<Rightarrow> 'v clientStream \<Rightarrow> 'v reverse_end \<Rightarrow> 'v reverse_end" where
  "update_reverse rid cs r =
     (case r of
        (t, Some _) \<Rightarrow> (t, Some cs)
      | (t, None) \<Rightarrow> (t\<lparr>sc_pendingStreams := (sc_pendingStreams t)(rid \<mapsto> cs)\<rparr>, None))"

definition reverse_handles :: "'v rpc_env \<Rightarrow> int64 \<Rightarrow> bool \<Rightarrow> 'v \<Rightarrow> 'v reverse_end \<Rightarrow> 'v reverse_end option" where
  "reverse_handles E rid pick m r =
     (case processRequest E pick m (fst r) of
        None \<Rightarrow> None
      | Some (_, t) \<Rightarrow>
          Some (t,
            case (sc_pendingStreams (fst r) rid, sc_pendingStreams t rid, GetNumberField (env_V E) m (MessageTypeField (env_d E))) of
              (Some cs, None, Some mt) \<Rightarrow> map_option fst (handleInbound E pick (number_Long (env_V E) mt) m cs)
            | _ \<Rightarrow> snd r))"

definition reverse_takes :: "'v rpc_env \<Rightarrow> int64 \<Rightarrow> 'v reverse_end \<Rightarrow> ('v option option \<times> 'v reverse_end) option" where
  "reverse_takes E rid r =
     (case reverse_stream rid r of
        None \<Rightarrow> None
      | Some cs \<Rightarrow>
          (case cs_resultPump cs of
             None \<Rightarrow> None
           | Some p \<Rightarrow>
               (case run_locked p of
                  Some (Select v, p) \<Rightarrow>
                    (let (cs, n) = cs_grantRecv (cs\<lparr>cs_resultPump := Some p\<rparr>);
                         r = update_reverse rid cs r
                     in Some (Some v,
                          case n of
                            None \<Rightarrow> r
                          | Some n \<Rightarrow>
                              map_prod (\<lambda>t. snd (send (NewStreamCredit (env_V E) (env_d E) (Long (env_V E) (cs_requestId cs)) n) t)) id r))
                | Some (_, p) \<Rightarrow> Some (None, update_reverse rid (cs\<lparr>cs_resultPump := Some p\<rparr>) r)
                | None \<Rightarrow> None)))"

definition reverse_ops ::
    "'v rpc_env \<Rightarrow> ('v rpcClient \<Rightarrow> (gerror option \<times> 'v rpcClient) option) \<Rightarrow> int64 \<Rightarrow>
     ('v rpcClient, 'v reverse_end, 'v, 'v option) link_ops" where
  "reverse_ops E redial rid =
     \<lparr>l_send = (\<lambda>v. reverse_turn E rid (OutValue v)),
      l_close = reverse_turn E rid OutClosed,
      l_transmit = client_out,
      l_credit = getResponseHandler E redial,
      l_handle = reverse_handles E rid,
      l_take = reverse_takes E rid,
      l_return = (\<lambda>(t, held). map_option (\<lambda>(m, t). (m, t, held)) (session_out t))\<rparr>"

section \<open>The client sends\<close>

definition reverse_sending :: "'v rpc_env \<Rightarrow> int \<Rightarrow> int64 \<Rightarrow> int \<Rightarrow> 'v list \<Rightarrow> 'v rpcClient \<Rightarrow> bool" where
  "reverse_sending E w rid n q c \<longleftrightarrow> rpc_laws E w \<and> client_live q c \<and> rid \<notin> cl_registered c \<and>
     (\<exists>sr g. cl_servingMap c rid = Some sr \<and> csr_requestId sr = Long (env_V E) rid \<and> \<not> csr_closed sr \<and>
        csr_sendCredit sr = Some g \<and> \<not> gate_closed g \<and> sint (credit g) = n)"

lemma reply_live:
  assumes "client_live q c"
  shows "client_live (q @ [m]) (reply_to_server m c)" "cl_servingMap (reply_to_server m c) = cl_servingMap c"
    "cl_registered (reply_to_server m c) = cl_registered c"
  using assms by (auto simp: client_live_def reply_to_server_def conn_send_def SendRequest_def)

lemma client_live_serving [simp]: "client_live q (c\<lparr>cl_servingMap := f\<rparr>) = client_live q c"
  by (simp add: client_live_def)

lemma reverse_send:
  assumes "reverse_sending E w rid n q c" and "0 < n"
  shows "\<exists>c'. reverse_turn E rid (OutValue v) c = Some c' \<and> reverse_sending E w rid (n - 1) (q @ [value_message E rid v]) c'"
proof -
  obtain sr g where s: "cl_servingMap c rid = Some sr" "csr_requestId sr = Long (env_V E) rid" "\<not> csr_closed sr"
    "csr_sendCredit sr = Some g" "\<not> gate_closed g" "sint (credit g) = n"
    using assms(1) by (auto simp: reverse_sending_def)
  let ?g = "g\<lparr>credit := credit g - 1\<rparr>"
  let ?c = "c\<lparr>cl_servingMap := (cl_servingMap c)(rid \<mapsto> sr\<lparr>csr_sendCredit := Some ?g\<rparr>)\<rparr>"
  have acq: "Acquire g = Some (True, ?g)" using s(5,6) assms(2) by (simp add: Acquire_def)
  have "sint (credit ?g) = n - 1" "\<not> gate_closed ?g" using Acquire_True [OF acq] s(6) by auto
  moreover have "reverse_turn E rid (OutValue v) c = Some (reply_to_server (value_message E rid v) ?c)"
    using s acq by (simp add: reverse_turn_def csr_streamer_step_def stream_builders)
  moreover have "client_live q ?c" using assms(1) by (simp add: reverse_sending_def)
  ultimately show ?thesis
    using assms(1) s(2,3) reply_live [of q ?c "value_message E rid v"] by (simp add: reverse_sending_def)
qed

lemma reverse_send_blocks: "reverse_sending E w rid n q c \<Longrightarrow> n = 0 \<Longrightarrow> reverse_turn E rid (OutValue v) c = None"
  by (auto simp: reverse_turn_def csr_streamer_step_def reverse_sending_def Acquire_def)

lemma reverse_close:
  assumes "reverse_sending E w rid n q c"
  shows "\<exists>c'. reverse_turn E rid OutClosed c = Some c' \<and> put_finished E w rid (q @ [end_message E rid]) c'"
proof -
  obtain sr where s: "cl_servingMap c rid = Some sr" "csr_requestId sr = Long (env_V E) rid"
    using assms(1) by (auto simp: reverse_sending_def)
  let ?c = "c\<lparr>cl_servingMap := (cl_servingMap c)(rid \<mapsto> csr_Close sr)\<rparr>"
  have l: "value_laws (env_V E)" "client_live q ?c" using assms by (simp_all add: reverse_sending_def rpc_laws_def)
  have "reverse_turn E rid OutClosed c = Some (deleteServing E (Long (env_V E) rid) (reply_to_server (end_message E rid) ?c))"
    using s by (simp add: reverse_turn_def csr_streamer_step_def csr_closeRequest_def stream_builders)
  then show ?thesis
    using assms reply_live [OF l(2), of "end_message E rid"]
    by (simp add: put_finished_def reverse_sending_def deleteServing_def value_laws.Long_Long [OF l(1)])
qed

lemma reverse_credit:
  assumes "reverse_sending E w rid n q c" and "0 \<le> n" and "0 < k" and "n + k \<le> w"
  shows "\<exists>c'. getResponseHandler E redial pick (credit_message E rid k) c = Some c' \<and> reverse_sending E w rid (n + k) q c'"
proof -
  have laws: "value_laws (env_V E)" "wf_dialect (env_d E)" "w < 2 ^ 63" using assms(1) by (simp_all add: reverse_sending_def rpc_laws_def)
  obtain sr g where s: "cl_servingMap c rid = Some sr" "csr_requestId sr = Long (env_V E) rid" "\<not> csr_closed sr"
    "csr_sendCredit sr = Some g" "\<not> gate_closed g" "sint (credit g) = n"
    using assms(1) by (auto simp: reverse_sending_def)
  have k: "sint (word_of_int k :: int64) = k" using assms(2-4) laws(3) by (intro sint_of_int64) auto
  have "sint (credit (Grant (word_of_int k) g)) = n + k" "\<not> gate_closed (Grant (word_of_int k) g)"
    using assms(2-4) laws(3) s(5,6) sint_add_no_overflow [of "credit g" "word_of_int k"] by (auto simp: Grant_def k)
  moreover have "getResponseHandler E redial pick (credit_message E rid k) c =
      Some (c\<lparr>cl_servingMap := (cl_servingMap c)(rid \<mapsto> sr\<lparr>csr_sendCredit := Some (Grant (word_of_int k) g)\<rparr>)\<rparr>)"
    using s by (simp add: getResponseHandler_def serveRunning_def stream_fields(9-11) [OF laws(1,2)] value_laws.Long_Long [OF laws(1)]
        mt_defs Let_def)
  ultimately show ?thesis using assms(1) s by (simp add: reverse_sending_def)
qed

section \<open>The session receives\<close>

definition reverse_wire :: "'v list \<Rightarrow> 'v servingClient \<Rightarrow> bool" where
  "reverse_wire b t \<longleftrightarrow> sc_outgoingQueue t = b \<and> sc_activeConn t \<noteq> None \<and> \<not> sc_done t"

text \<open>A reverse stream by its pump; \<open>ended\<close> when the end has come.\<close>

definition reverse_pump :: "bool \<Rightarrow> int \<Rightarrow> int64 \<Rightarrow> 'v option list \<Rightarrow> int \<Rightarrow> 'v clientStream \<Rightarrow> bool" where
  "reverse_pump ended w rid xs d cs \<longleftrightarrow> cs_requestId cs = rid \<and> cs_kind cs = getStreamKind \<and> cs_closeOnce cs = ended \<and>
     cs_grantCredit cs \<and> cs_creditWindow cs = word_of_int w \<and> sint (cs_recvDelivered cs) = d \<and>
     (\<exists>p. cs_resultPump cs = Some p \<and> slots_ok p \<and> contents p = xs \<and> maxPending p = w \<and> inputEnd p = ended \<and> \<not> stopCh p)"

definition reverse_receiving :: "'v rpc_env \<Rightarrow> int \<Rightarrow> int64 \<Rightarrow> 'v option list \<Rightarrow> int \<Rightarrow> 'v list \<Rightarrow> 'v reverse_end \<Rightarrow> bool" where
  "reverse_receiving E w rid xs d b r \<longleftrightarrow> rpc_laws E w \<and> reverse_wire b (fst r) \<and> snd r = None \<and>
     (\<exists>cs. sc_pendingStreams (fst r) rid = Some cs \<and> reverse_pump False w rid xs d cs)"

definition reverse_draining :: "'v rpc_env \<Rightarrow> int \<Rightarrow> int64 \<Rightarrow> 'v option list \<Rightarrow> int \<Rightarrow> 'v list \<Rightarrow> 'v reverse_end \<Rightarrow> bool" where
  "reverse_draining E w rid xs d b r \<longleftrightarrow> rpc_laws E w \<and> reverse_wire b (fst r) \<and>
     (\<exists>cs. snd r = Some cs \<and> reverse_pump True w rid xs d cs)"

lemma notify_reverse:
  assumes "reverse_pump False w rid xs d cs" and "int (length xs) < w" and "grows grow"
  shows "\<exists>cs'. cs_notifyResult grow pick v cs = Some (True, cs') \<and> reverse_pump False w rid (xs @ [v]) d cs'"
proof -
  obtain p where p: "cs_resultPump cs = Some p" "slots_ok p" "contents p = xs" "maxPending p = w" "\<not> inputEnd p" "\<not> stopCh p"
    using assms(1) by (auto simp: reverse_pump_def)
  have "Push grow v p = (True, append_slot grow v (compact p))"
    using p assms(2) pending_contents [OF p(2)] by (simp add: Push_def isStopped_def)
  then show ?thesis
    using p assms(1) append_slot_ok [OF assms(3)] compact_ok [OF p(2)] by (auto simp: cs_notifyResult_def reverse_pump_def)
qed

text \<open>A frame for a stream the session has open goes to that stream.\<close>

lemma dispatch_reverse:
  assumes "value_laws (env_V E)" and "sc_pendingStreams t rid = Some cs"
    and "GetNumberField (env_V E) m (MessageTypeField (env_d E)) = Some (Long (env_V E) mt)"
    and "GetNumberField (env_V E) m (RequestIdField (env_d E)) = Some (Long (env_V E) rid)"
    and "handleInbound E pick mt m cs = Some (cs', acts)"
  shows "processRequest E pick m t = Some (None, perform E acts (t\<lparr>sc_pendingStreams := (sc_pendingStreams t)(rid \<mapsto> cs')\<rparr>))"
  using assms by (simp add: processRequest_def findPendingStream_def value_laws.Long_Long Let_def)

lemma reverse_handle_value:
  assumes "reverse_receiving E w rid xs d b r" and "sendable E x" and "int (length xs) < w"
  shows "\<exists>r'. reverse_handles E rid pick (value_message E rid x) r = Some r' \<and> reverse_receiving E w rid (xs @ [x]) d b r'"
proof -
  obtain v where v: "x = Some v" "Kind (env_V E) v \<noteq> NULL" using assms(2) by (auto simp: sendable_def)
  have laws: "value_laws (env_V E)" "wf_dialect (env_d E)" "grows (env_grow E)"
    using assms(1) by (simp_all add: reverse_receiving_def rpc_laws_def)
  obtain cs where cs: "sc_pendingStreams (fst r) rid = Some cs" "reverse_pump False w rid xs d cs"
    using assms(1) by (auto simp: reverse_receiving_def)
  obtain cs' where cs': "cs_notifyResult (env_grow E) pick (Some v) cs = Some (True, cs')" "reverse_pump False w rid (xs @ [x]) d cs'"
    using notify_reverse [OF cs(2) assms(3) laws(3), of pick "Some v"] v(1) by auto
  have "payload E (value_message E rid (Some v)) = Some v" using v(2) by (simp add: payload_def stream_fields(5) [OF laws(1,2)])
  then have "handleInbound E pick StreamValue (value_message E rid x) cs = Some (cs', [])"
    using cs'(1) v(1) by (simp add: handleInbound_def mt_defs)
  from dispatch_reverse [OF laws(1) cs(1) stream_fields(3,4) [OF laws(1,2)] this]
  have "reverse_handles E rid pick (value_message E rid x) r =
      Some ((fst r)\<lparr>sc_pendingStreams := (sc_pendingStreams (fst r))(rid \<mapsto> cs')\<rparr>, None)"
    using assms(1) by (simp add: reverse_handles_def reverse_receiving_def split: option.splits)
  then show ?thesis using assms(1) cs'(2) by (simp add: reverse_receiving_def reverse_wire_def)
qed

lemma reverse_handle_end:
  assumes "reverse_receiving E w rid xs d b r"
  shows "\<exists>r'. reverse_handles E rid pick (end_message E rid) r = Some r' \<and> reverse_draining E w rid xs d b r'"
proof -
  have laws: "value_laws (env_V E)" "wf_dialect (env_d E)" using assms by (simp_all add: reverse_receiving_def rpc_laws_def)
  obtain cs where cs: "sc_pendingStreams (fst r) rid = Some cs" "reverse_pump False w rid xs d cs"
    using assms by (auto simp: reverse_receiving_def)
  have "payload E (end_message E rid) = None"
    by (simp add: payload_def stream_fields(8) [OF laws] value_laws.Kind_Null [OF laws(1)])
  then obtain cs' where cs': "handleInbound E pick StreamEnd (end_message E rid) cs = Some (cs', [DeletePending rid])"
    "reverse_pump True w rid xs d cs'"
    using cs(2)
    by (auto simp: handleInbound_def mt_defs tryGetClose_def cs_closeResult_def reverse_pump_def Close_def slots_ok_def contents_def Let_def)
  from dispatch_reverse [OF laws(1) cs(1) stream_fields(6,7) [OF laws] cs'(1)]
  have "reverse_handles E rid pick (end_message E rid) r =
      Some (deletePendingStream rid ((fst r)\<lparr>sc_pendingStreams := (sc_pendingStreams (fst r))(rid \<mapsto> cs')\<rparr>), Some cs')"
    using cs(1) cs'(1)
    by (simp add: reverse_handles_def deletePendingStream_def stream_fields(6) [OF laws] value_laws.Long_Long [OF laws(1)])
  then show ?thesis
    using assms cs'(2) by (simp add: reverse_draining_def reverse_receiving_def reverse_wire_def deletePendingStream_def)
qed

lemma cs_grantRecv_batch:
  assumes "0 < w" and "w < 2 ^ 63" and "cs_grantCredit cs" and "cs_creditWindow cs = word_of_int w"
    and "sint (cs_recvDelivered cs) = d" and "0 \<le> d" and "d < batch_of w"
  shows "\<exists>n. cs_grantRecv cs = (cs\<lparr>cs_recvDelivered := n\<rparr>, if batch_of w \<le> d + 1 then Some (word_of_int (d + 1)) else None) \<and>
    sint n = (if batch_of w \<le> d + 1 then 0 else d + 1)"
proof -
  note rep = replenish_batch [OF assms(1,2,5-7)]
  have "cs_grantRecv cs = (cs\<lparr>cs_recvDelivered := fst (replenish (cs_creditWindow cs) (cs_recvDelivered cs))\<rparr>,
      snd (replenish (cs_creditWindow cs) (cs_recvDelivered cs)))"
    using assms(3) by (simp add: cs_grantRecv_def replenish_def Let_def)
  then show ?thesis using rep(2) assms(4) by (auto simp: rep(1))
qed

lemma reverse_takes_batch:
  assumes "rpc_laws E w" and "reverse_wire b (fst r)" and "reverse_stream rid r = Some cs"
    and "reverse_pump ended w rid (x # xs) d cs" and "0 \<le> d" and "d < batch_of w"
  obtains r' cs' where "reverse_takes E rid r = Some (Some x, r')"
    "reverse_wire (if batch_of w \<le> d + 1 then b @ [credit_message E rid (d + 1)] else b) (fst r')"
    "if snd r = None then snd r' = None \<and> sc_pendingStreams (fst r') rid = Some cs' else snd r' = Some cs'"
    "reverse_pump ended w rid xs (if batch_of w \<le> d + 1 then 0 else d + 1) cs'"
proof -
  obtain p where p: "cs_resultPump cs = Some p" "slots_ok p" "contents p = x # xs" "\<not> stopCh p" "cs_requestId cs = rid"
    using assms(4) by (auto simp: reverse_pump_def)
  obtain p' where p': "run_locked p = Some (Select x, p')" "slots_ok p'" "contents p' = xs" "inputEnd p' = inputEnd p"
    "stopCh p' = stopCh p" "maxPending p' = maxPending p"
    by (rule run_locked_front [OF p(2-4)])
  let ?cs = "cs\<lparr>cs_resultPump := Some p'\<rparr>"
  let ?n = "if batch_of w \<le> d + 1 then Some (word_of_int (d + 1)) else None"
  have "0 < w" "w < 2 ^ 63" "cs_grantCredit ?cs" "cs_creditWindow ?cs = word_of_int w" "sint (cs_recvDelivered ?cs) = d"
    using assms(1,4) by (simp_all add: rpc_laws_def reverse_pump_def)
  from cs_grantRecv_batch [OF this assms(5,6)] obtain n where g: "cs_grantRecv ?cs = (?cs\<lparr>cs_recvDelivered := n\<rparr>, ?n)"
    "sint n = (if batch_of w \<le> d + 1 then 0 else d + 1)" by blast
  define cs' where "cs' = ?cs\<lparr>cs_recvDelivered := n\<rparr>"
  let ?r' = "case ?n of None \<Rightarrow> update_reverse rid cs' r
    | Some n \<Rightarrow> map_prod (\<lambda>t. snd (send (NewStreamCredit (env_V E) (env_d E) (Long (env_V E) rid) n) t)) id (update_reverse rid cs' r)"
  have "reverse_takes E rid r = Some (Some x, ?r')"
    using assms(3) p(1,5) p'(1) g(1) by (simp add: reverse_takes_def cs'_def)
  moreover have "reverse_wire (if batch_of w \<le> d + 1 then b @ [credit_message E rid (d + 1)] else b) (fst ?r')"
    "if snd r = None then snd ?r' = None \<and> sc_pendingStreams (fst ?r') rid = Some cs' else snd ?r' = Some cs'"
    using assms(2) by (cases r; cases "snd r"; simp add: update_reverse_def reverse_wire_def send_def)+
  moreover have "reverse_pump ended w rid xs (if batch_of w \<le> d + 1 then 0 else d + 1) cs'"
    using assms(4) p(1) p' g(2) by (auto simp: reverse_pump_def cs'_def)
  ultimately show ?thesis using that by blast
qed

lemma reverse_take:
  assumes "reverse_receiving E w rid (x # xs) d b r" and "0 \<le> d" and "d < batch_of w"
  shows "\<exists>r'. reverse_takes E rid r = Some (Some x, r') \<and>
    (if batch_of w \<le> d + 1 then reverse_receiving E w rid xs 0 (b @ [credit_message E rid (d + 1)]) r'
     else reverse_receiving E w rid xs (d + 1) b r')"
proof -
  obtain cs where r: "rpc_laws E w" "reverse_wire b (fst r)" "snd r = None" "sc_pendingStreams (fst r) rid = Some cs"
    "reverse_pump False w rid (x # xs) d cs"
    using assms(1) by (auto simp: reverse_receiving_def)
  have "reverse_stream rid r = Some cs" using r(3,4) by (auto simp: reverse_stream_def split: prod.split)
  from reverse_takes_batch [OF r(1,2) this r(5) assms(2,3)] obtain r' cs' where "reverse_takes E rid r = Some (Some x, r')"
    "reverse_wire (if batch_of w \<le> d + 1 then b @ [credit_message E rid (d + 1)] else b) (fst r')"
    "if snd r = None then snd r' = None \<and> sc_pendingStreams (fst r') rid = Some cs' else snd r' = Some cs'"
    "reverse_pump False w rid xs (if batch_of w \<le> d + 1 then 0 else d + 1) cs'" .
  then show ?thesis using r(1,3) by (auto simp: reverse_receiving_def)
qed

lemma reverse_drain:
  assumes "reverse_draining E w rid (x # xs) d b r" and "0 \<le> d" and "d < batch_of w"
  shows "\<exists>r'. reverse_takes E rid r = Some (Some x, r') \<and>
    (if batch_of w \<le> d + 1 then reverse_draining E w rid xs 0 (b @ [credit_message E rid (d + 1)]) r'
     else reverse_draining E w rid xs (d + 1) b r')"
proof -
  obtain cs where r: "rpc_laws E w" "reverse_wire b (fst r)" "snd r = Some cs" "reverse_pump True w rid (x # xs) d cs"
    using assms(1) by (auto simp: reverse_draining_def)
  have "reverse_stream rid r = Some cs" using r(3) by (auto simp: reverse_stream_def split: prod.split)
  from reverse_takes_batch [OF r(1,2) this r(4) assms(2,3)] obtain r' cs' where "reverse_takes E rid r = Some (Some x, r')"
    "reverse_wire (if batch_of w \<le> d + 1 then b @ [credit_message E rid (d + 1)] else b) (fst r')"
    "if snd r = None then snd r' = None \<and> sc_pendingStreams (fst r') rid = Some cs' else snd r' = Some cs'"
    "reverse_pump True w rid xs (if batch_of w \<le> d + 1 then 0 else d + 1) cs'" .
  then show ?thesis using r(1,3) by (auto simp: reverse_draining_def)
qed

lemma reverse_take_empty: "reverse_receiving E w rid [] d b r \<Longrightarrow> reverse_takes E rid r = None"
  by (auto simp: reverse_receiving_def reverse_pump_def reverse_takes_def reverse_stream_def run_locked_def isStopped_def
      pending_contents split: prod.split)

lemma reverse_take_end:
  assumes "reverse_draining E w rid [] d b r"
  shows "\<exists>r'. reverse_takes E rid r = Some (None, r') \<and> reverse_draining E w rid [] d b r'"
proof -
  obtain cs p where r: "snd r = Some cs" "cs_resultPump cs = Some p" "slots_ok p" "contents p = []" "inputEnd p" "\<not> stopCh p"
    using assms by (auto simp: reverse_draining_def reverse_pump_def)
  then have "run_locked p = Some (Done, p)" using pending_contents [OF r(3)] by (simp add: run_locked_def isStopped_def)
  moreover have "reverse_stream rid r = Some cs" "update_reverse rid (cs\<lparr>cs_resultPump := Some p\<rparr>) r = r"
    using r(1,2) by (auto simp: reverse_stream_def update_reverse_def split: prod.split)
  ultimately show ?thesis using assms r(2) by (simp add: reverse_takes_def)
qed

section \<open>The link\<close>

lemma reverse_transmit:
  "reverse_sending E w rid n (m # q) c \<Longrightarrow> \<exists>c'. client_out c = Some (m, c') \<and> reverse_sending E w rid n q c'"
  "reverse_sending E w rid n [] c \<Longrightarrow> client_out c = None"
  using client_out_live(1) [of m q c] by (auto simp: reverse_sending_def client_out_live(2))

lemma wire_out:
  "reverse_wire (m # b) t \<Longrightarrow> session_out t = Some (m, t\<lparr>sc_outgoingQueue := b\<rparr>)"
  "reverse_wire [] t \<Longrightarrow> session_out t = None"
  by (auto simp: session_out_def sender_def reverse_wire_def)

lemma reverse_return:
  "reverse_receiving E w rid xs d (m # b) r \<Longrightarrow>
     \<exists>r'. (case r of (t, held) \<Rightarrow> map_option (\<lambda>(m, t). (m, t, held)) (session_out t)) = Some (m, r') \<and> reverse_receiving E w rid xs d b r'"
  "reverse_draining E w rid xs d (m # b) r \<Longrightarrow>
     \<exists>r'. (case r of (t, held) \<Rightarrow> map_option (\<lambda>(m, t). (m, t, held)) (session_out t)) = Some (m, r') \<and> reverse_draining E w rid xs d b r'"
  "reverse_receiving E w rid xs d [] r \<Longrightarrow> (case r of (t, held) \<Rightarrow> map_option (\<lambda>(m, t). (m, t, held)) (session_out t)) = None"
  "reverse_draining E w rid xs d [] r \<Longrightarrow> (case r of (t, held) \<Rightarrow> map_option (\<lambda>(m, t). (m, t, held)) (session_out t)) = None"
  using wire_out(1) [of m b "fst r"] wire_out(2) [of "fst r"]
  by (auto simp: reverse_receiving_def reverse_draining_def reverse_wire_def case_prod_beta)

lemma reverse_window: "reverse_sending E w rid n q c \<Longrightarrow> 0 < w"
  by (simp add: reverse_sending_def rpc_laws_def)

lemmas reverse_laws = reverse_send reverse_send_blocks reverse_close reverse_transmit put_transmit reverse_credit put_late_credit
  reverse_handle_value reverse_handle_end reverse_take reverse_drain reverse_take_empty reverse_take_end reverse_return reverse_window

interpretation reverse_link: stream_link "reverse_ops E redial rid" w "value_message E rid" "end_message E rid" "credit_message E rid"
    "sendable E" "reverse_sending E w rid" "put_finished E w rid" "reverse_receiving E w rid" "reverse_draining E w rid"
  for E :: "'v rpc_env" and redial and rid w
  by unfold_locales (unfold reverse_ops_def link_ops.simps, (rule reverse_laws; assumption)+)

section \<open>A reverse stream on every schedule\<close>

lemma reverse_request_fields:
  fixes mt rid name a
  assumes laws: "value_laws (env_V E)" and wf: "wf_dialect (env_d E)"
  defines "m \<equiv> NewStreamRequest (env_V E) (env_d E) mt rid name (Some a)"
  shows "GetNumberField (env_V E) m (MessageTypeField (env_d E)) = Some (Long (env_V E) mt)"
    and "GetNumberField (env_V E) m (RequestIdField (env_d E)) = Some (Long (env_V E) rid)"
    and "GetStringField (env_V E) m (FunctionNameField (env_d E)) = Some (Utf8 (env_V E) name)"
    and "Get (env_V E) m (ArgumentsField (env_d E)) = Some a"
  using wf by (auto simp: m_def builder_defs wf_fields value_laws.msg_simps [OF laws])

text \<open>The client's part: the function is found, its handler returned its channel, the streamer acknowledges.\<close>

lemma client_opens_reverse:
  assumes laws: "value_laws (env_V E)" and wf: "wf_dialect (env_d E)" and grow: "grows (env_grow E)" and w: "0 < w" "w < 2 ^ 63"
    and live: "client_live [] c" and id: "rid \<notin> cl_registered c"
    and cf: "cl_functionMap c name = Some cf" "cf_ft cf = cfnOut" "Verify (env_V E) (Some a) (cf_args cf)"
      "\<And>ctx. cf_stream cf ctx (Some a) = Returned r"
  defines "m \<equiv> NewStreamRequest (env_V E) (env_d E) GetStreamRequest rid name (Some a)"
  shows "\<exists>c1 sr c2. getResponseHandler E redial pick m c = Some c1 \<and>
    cl_workers c1 = cl_workers c @ [InboundStream (Long (env_V E) rid) name cf (Some a)] \<and>
    cl_servingMap (run_inbound_stream E (Long (env_V E) rid) name cf (Some a) c1) rid = Some sr \<and>
    client_out (perform_client E (csr_outgoingStreamer E [] sr) (run_inbound_stream E (Long (env_V E) rid) name cf (Some a) c1)) =
      Some (StreamReady_msg (env_V E) (env_d E) (Long (env_V E) rid), c2) \<and> reverse_sending E w rid 0 [] c2"
proof -
  let ?rid = "Long (env_V E) rid" let ?ready = "StreamReady_msg (env_V E) (env_d E) ?rid"
  define sr where "sr = (newClientServingRequest cfnOut ?rid)\<lparr>csr_cancel := True\<rparr>"
  let ?c1 = "c\<lparr>cl_servingMap := (cl_servingMap c)(rid \<mapsto> sr), cl_workers := cl_workers c @ [InboundStream ?rid name cf (Some a)]\<rparr>"
  note fields = reverse_request_fields [OF laws wf, of GetStreamRequest rid name a, folded m_def]
  have "serveInboundStream E GetStreamRequest m c = ?c1"
    using cf(1-3) by (simp add: serveInboundStream_def fields value_laws.String_Utf8 [OF laws] value_laws.Long_Long [OF laws]
        streamKindFor_def sr_def Let_def)
  then have served: "getResponseHandler E redial pick m c = Some ?c1"
    by (simp add: getResponseHandler_def fields value_laws.Long_Long [OF laws] mt_defs Let_def)
  have run: "run_inbound_stream E ?rid name cf (Some a) ?c1 = ?c1" using cf(2,4) by (simp add: run_inbound_stream_def Let_def)
  have l1: "client_live [] ?c1" using live by (simp add: client_live_def)
  then have l: "client_live [?ready] (reply_to_server ?ready ?c1)" using reply_live(1) [of "[]" ?c1 ?ready] by simp
  have "perform_client E (csr_outgoingStreamer E [] sr) ?c1 = reply_to_server ?ready ?c1"
    by (simp add: csr_outgoingStreamer_def stream_builders sr_def newClientServingRequest_def Let_def)
  moreover obtain k where k: "client_out (reply_to_server ?ready ?c1) = Some (?ready, (reply_to_server ?ready ?c1)\<lparr>cl_conn := Some k\<rparr>)"
    "client_live [] ((reply_to_server ?ready ?c1)\<lparr>cl_conn := Some k\<rparr>)"
    using client_out_live(1) [OF l] by blast
  moreover have "reverse_sending E w rid 0 [] ((reply_to_server ?ready ?c1)\<lparr>cl_conn := Some k\<rparr>)"
    using laws wf grow w id k(2) reply_live(2,3) [OF l1, of ?ready]
    by (simp add: reverse_sending_def rpc_laws_def sr_def newClientServingRequest_def NewCreditGate_def Let_def)
  ultimately show ?thesis using served run
    by - (rule exI [of _ ?c1], rule exI [of _ sr], rule exI [of _ "(reply_to_server ?ready ?c1)\<lparr>cl_conn := Some k\<rparr>"], simp)
qed

text \<open>The session's part: the acknowledgement is the first delivery, which is not counted; then it grants its window.\<close>

lemma session_opens_reverse:
  assumes laws: "value_laws (env_V E)" and wf: "wf_dialect (env_d E)" and grow: "grows (env_grow E)" and w: "0 < w" "w < 2 ^ 63"
    and t: "reverse_wire [] t" "sc_pendingStreams t rid = Some (newClientStream rid getStreamKind cap w True)"
  shows "\<exists>t1 t2 cs. processRequest E pick (StreamReady_msg (env_V E) (env_d E) (Long (env_V E) rid)) t = Some (None, t1) \<and>
    reverse_takes E rid (t1, None) = Some (Some None, t2, None) \<and> sc_pendingStreams t2 rid = Some cs \<and>
    awaitReady E cs ReadyAck t2 = (None, cs, t2) \<and>
    reverse_receiving E w rid [] 0 [credit_message E rid w] (openStream_ready E cs t2, None)"
proof -
  let ?cs = "newClientStream rid getStreamKind cap w True :: 'a clientStream"
  have new: "reverse_pump False w rid [] (- 1) ?cs"
    using w by (simp add: reverse_pump_def newClientStream_def NewStreamPump_def slots_ok_def contents_def Let_def)
  from notify_reverse [OF this _ grow, of pick None] w(1) obtain cs1
    where cs1: "cs_notifyResult (env_grow E) pick None ?cs = Some (True, cs1)" "reverse_pump False w rid [None] (- 1) cs1" by auto
  let ?t1 = "t\<lparr>sc_pendingStreams := (sc_pendingStreams t)(rid \<mapsto> cs1)\<rparr>"
  have "handleInbound E pick StreamReady (StreamReady_msg (env_V E) (env_d E) (Long (env_V E) rid)) ?cs = Some (cs1, [])"
    using cs1(1) by (simp add: handleInbound_def)
  from dispatch_reverse [OF laws t(2) stream_fields(1,2) [OF laws wf] this]
  have ack: "processRequest E pick (StreamReady_msg (env_V E) (env_d E) (Long (env_V E) rid)) t = Some (None, ?t1)" by simp
  obtain p where p: "cs_resultPump cs1 = Some p" "slots_ok p" "contents p = [None]" "\<not> stopCh p" "sint (cs_recvDelivered cs1) = - 1"
    using cs1(2) by (auto simp: reverse_pump_def)
  obtain p' where p': "run_locked p = Some (Select None, p')" "slots_ok p'" "contents p' = []" "inputEnd p' = inputEnd p"
    "stopCh p' = stopCh p" "maxPending p' = maxPending p"
    by (rule run_locked_front [OF p(2-4)])
  define cs2 where "cs2 = cs1\<lparr>cs_resultPump := Some p', cs_recvDelivered := 0\<rparr>"
  have "word_of_int (sint (cs_recvDelivered cs1)) = cs_recvDelivered cs1" by simp
  then have "cs_recvDelivered cs1 = - 1" unfolding p(5) by simp
  then have "cs_grantRecv (cs1\<lparr>cs_resultPump := Some p'\<rparr>) = (cs2, None)"
    by (auto simp: cs_grantRecv_def cs2_def Let_def)
  then have take: "reverse_takes E rid (?t1, None) = Some (Some None, ?t1\<lparr>sc_pendingStreams := (sc_pendingStreams ?t1)(rid \<mapsto> cs2)\<rparr>, None)"
    using p(1) p'(1) by (simp add: reverse_takes_def reverse_stream_def update_reverse_def)
  have cs2: "reverse_pump False w rid [] 0 cs2" using cs1(2) p(1) p' by (auto simp: reverse_pump_def cs2_def)
  then have "cs_sendInitialCredit cs2 = Some (word_of_int w)" "cs_requestId cs2 = rid"
    by (auto simp: cs_sendInitialCredit_def reverse_pump_def)
  then have "reverse_receiving E w rid [] 0 [credit_message E rid w]
      (openStream_ready E cs2 (?t1\<lparr>sc_pendingStreams := (sc_pendingStreams ?t1)(rid \<mapsto> cs2)\<rparr>), None)"
    using t(1) cs2 laws wf grow w by (simp add: reverse_receiving_def rpc_laws_def openStream_ready_def reverse_wire_def send_def)
  with ack take show ?thesis
    by - (rule exI [of _ ?t1], rule exI [of _ "?t1\<lparr>sc_pendingStreams := (sc_pendingStreams ?t1)(rid \<mapsto> cs2)\<rparr>"],
        rule exI [of _ cs2], simp add: awaitReady_def)
qed

text \<open>
  C4. A stream the server opens toward its client, of any length, on every schedule. On an idle live
  connection, for a function the client registered whose handler yields the values \<open>vs\<close> (none of them null):
  the request, the acknowledgement and the session's initial credit open the stream. From there every run of
  the goroutines of both sides takes at most \<open>7 * length vs + 9\<close> steps, what the server has received is always
  a prefix of \<open>vs\<close> followed by the closed channel, and a run in which no goroutine can move any more has
  delivered all of it.
\<close>

theorem reverse_stream_every_schedule:
  fixes E :: "'v rpc_env" and c :: "'v rpcClient" and t :: "'v servingClient" and vs :: "'v list"
  defines "rid \<equiv> - (sc_lastServerRequest t + 1)"
  assumes laws: "value_laws (env_V E)" and wf: "wf_dialect (env_d E)" and grow: "grows (env_grow E)"
    and t: "reverse_wire [] t" and c: "client_live [] c" "rid \<notin> cl_registered c"
    and cf: "cl_functionMap c name = Some cf" "cf_ft cf = cfnOut" "Verify (env_V E) (Some a) (cf_args cf)"
      "\<forall>ctx. cf_stream cf ctx (Some a) = Returned r"
    and vs: "\<forall>v\<in>set vs. Kind (env_V E) v \<noteq> NULL"
  shows "\<exists>t1 m t2 c1 c2 sr ready c3 t3 t4 cs.
    GetStream_open E name (Some a) cap t = (Inr rid, t1) \<and> session_out t1 = Some (m, t2) \<and>
    getResponseHandler E redial pick m c = Some c1 \<and>
    cl_workers c1 = cl_workers c @ [InboundStream (Long (env_V E) rid) name cf (Some a)] \<and>
    run_inbound_stream E (Long (env_V E) rid) name cf (Some a) c1 = c2 \<and> cl_servingMap c2 rid = Some sr \<and>
    client_out (perform_client E (csr_outgoingStreamer E [] sr) c2) = Some (ready, c3) \<and>
    processRequest E pick ready t2 = Some (None, t3) \<and> reverse_takes E rid (t3, None) = Some (Some None, t4, None) \<and>
    sc_pendingStreams t4 rid = Some cs \<and> awaitReady E cs ReadyAck t4 = (None, cs, t4) \<and>
    (\<forall>j n. (link_step (reverse_ops E redial rid) ^^ j) (link_start (map Some vs) c3 (openStream_ready E cs t4, None)) n \<longrightarrow>
       j \<le> 7 * length vs + 9 \<and> prefix (lk_got n) (map (\<lambda>v. Some (Some v)) vs @ [None]) \<and>
       ((\<nexists>n'. link_step (reverse_ops E redial rid) n n') \<longrightarrow> lk_got n = map (\<lambda>v. Some (Some v)) vs @ [None]))"
proof -
  let ?w = "DefaultMaxPending" let ?m = "NewStreamRequest (env_V E) (env_d E) GetStreamRequest rid name (Some a)"
  let ?new = "newClientStream rid getStreamKind cap ?w True :: 'v clientStream"
  let ?t2 = "t\<lparr>sc_lastServerRequest := sc_lastServerRequest t + 1, sc_pendingStreams := (sc_pendingStreams t)(rid \<mapsto> ?new)\<rparr>"
  let ?t1 = "?t2\<lparr>sc_outgoingQueue := [?m]\<rparr>"
  have w: "0 < ?w" "?w < 2 ^ 63" by (simp_all add: DefaultMaxPending_def)
  have start: "GetStream_open E name (Some a) cap t = (Inr rid, ?t1)"
    using t by (simp add: GetStream_open_def openStream_begin_def nextServerRequestId_def rid_def send_def reverse_wire_def Let_def)
  have out: "session_out ?t1 = Some (?m, ?t2)"
    using wire_out(1) [of ?m "[]" ?t1] t by (simp add: reverse_wire_def)
  have stream: "cf_stream cf ctx (Some a) = Returned r" for ctx by (simp add: cf(4))
  obtain c1 sr c3 where client: "getResponseHandler E redial pick ?m c = Some c1"
    "cl_workers c1 = cl_workers c @ [InboundStream (Long (env_V E) rid) name cf (Some a)]"
    "cl_servingMap (run_inbound_stream E (Long (env_V E) rid) name cf (Some a) c1) rid = Some sr"
    "client_out (perform_client E (csr_outgoingStreamer E [] sr) (run_inbound_stream E (Long (env_V E) rid) name cf (Some a) c1)) =
      Some (StreamReady_msg (env_V E) (env_d E) (Long (env_V E) rid), c3)" "reverse_sending E ?w rid 0 [] c3"
    using client_opens_reverse [OF laws wf grow w c cf(1-3) stream, of redial pick] by blast
  have "reverse_wire [] ?t2" "sc_pendingStreams ?t2 rid = Some ?new" using t by (simp_all add: reverse_wire_def)
  from session_opens_reverse [OF laws wf grow w this, of pick] obtain t3 t4 cs where session:
    "processRequest E pick (StreamReady_msg (env_V E) (env_d E) (Long (env_V E) rid)) ?t2 = Some (None, t3)"
    "reverse_takes E rid (t3, None) = Some (Some None, t4, None)" "sc_pendingStreams t4 rid = Some cs"
    "awaitReady E cs ReadyAck t4 = (None, cs, t4)"
    "reverse_receiving E ?w rid [] 0 [credit_message E rid ?w] (openStream_ready E cs t4, None)" by blast
  note delivers = reverse_link.delivers [OF client(5), where ks = "[?w]" and r = "(openStream_ready E cs t4, None)"
      and vs = "map Some vs" and redial = redial]
  have "\<forall>x \<in> set (map Some vs). sendable E x" using vs by (simp add: sendable_def)
  then have "(link_step (reverse_ops E redial rid) ^^ j) (link_start (map Some vs) c3 (openStream_ready E cs t4, None)) n \<longrightarrow>
       j \<le> 7 * length vs + 9 \<and> prefix (lk_got n) (map (\<lambda>v. Some (Some v)) vs @ [None]) \<and>
       ((\<nexists>n'. link_step (reverse_ops E redial rid) n n') \<longrightarrow> lk_got n = map (\<lambda>v. Some (Some v)) vs @ [None])" for j n
    using delivers [of j n] session(5) w(1) by (auto simp: comp_def)
  with start out client(1,2) refl client(3,4) session(1-4) show ?thesis by (intro exI conjI allI) assumption+
qed

theorem reverse_stream_every_schedule_witness:
  "\<exists>c3 cs t4 j n. (link_step (reverse_ops sample_env (\<lambda>_. None) (- 1)) ^^ j) (link_start (map Some (replicate 10000 (GLong 1))) c3 (openStream_ready sample_env cs t4, None)) n \<and>
    (\<nexists>n'. link_step (reverse_ops sample_env (\<lambda>_. None) (- 1)) n n') \<and>
    lk_got n = map (\<lambda>v. Some (Some v)) (replicate 10000 (GLong 1)) @ [None]"
proof -
  let ?t = "NewServingClient 7 [] [] 0 sample_cfg False :: gval servingClient"
  let ?rid = "- (sc_lastServerRequest ?t + 1)"
  define c where "c = snd (AddOutgoingStream_client ''s'' AnyDef (Some (\<lambda>_ _. Returned ())) sample_connected)"
  define cf :: "gval clientFunction" where "cf = \<lparr>cf_ft = cfnOut, cf_args = AnyDef, cf_res = VoidDef, cf_fn = (\<lambda>_ _. Panicked),
    cf_stream = (\<lambda>_ _. Returned ())\<rparr>"
  have cf: "cl_functionMap c ''s'' = Some cf" "cf_ft cf = cfnOut" "Verify (env_V sample_env) (Some (GLong 5)) (cf_args cf)"
    "\<forall>ctx. cf_stream cf ctx (Some (GLong 5)) = Returned ()"
    by (simp_all add: c_def cf_def AddOutgoingStream_client_def add_stream_def Verify_def)
  have t: "reverse_wire [] ?t" "?rid = - 1" by (simp_all add: reverse_wire_def NewServingClient_def)
  have c: "client_live [] c" "?rid \<notin> cl_registered c"
    by (simp_all add: c_def AddOutgoingStream_client_def add_stream_def client_live_def sample_connected_fields)
      (simp add: sample_connected_def NewClientWithDialer_def Let_def)
  have vs: "\<forall>v\<in>set (replicate 10000 (GLong 1)). Kind (env_V sample_env) v \<noteq> NULL" by (simp add: ref_api_def)
  obtain c3 cs t4 where all: "\<And>j n. (link_step (reverse_ops sample_env (\<lambda>_. None) (- 1)) ^^ j) (link_start (map Some (replicate 10000 (GLong 1))) c3 (openStream_ready sample_env cs t4, None)) n \<Longrightarrow>
      j \<le> 7 * length (replicate 10000 (GLong 1)) + 9 \<and>
      ((\<nexists>n'. link_step (reverse_ops sample_env (\<lambda>_. None) (- 1)) n n') \<longrightarrow>
        lk_got n = map (\<lambda>v. Some (Some v)) (replicate 10000 (GLong 1)) @ [None])"
    using reverse_stream_every_schedule [where name = "''s''" and pick = True and redial = "\<lambda>_. None" and cap = 1,
        OF sample_env_laws t(1) c cf vs]
    unfolding t(2) by blast
  have "\<exists>j n. (link_step (reverse_ops sample_env (\<lambda>_. None) (- 1)) ^^ j) (link_start (map Some (replicate 10000 (GLong 1))) c3 (openStream_ready sample_env cs t4, None)) n \<and>
    (\<nexists>n'. link_step (reverse_ops sample_env (\<lambda>_. None) (- 1)) n n') \<and>
    lk_got n = map (\<lambda>v. Some (Some v)) (replicate 10000 (GLong 1)) @ [None]"
    by (rule bounded_run_ends) (erule all)
  then show ?thesis by blast
qed

end
