(* ===== verification/Reverse_Call.thy ===== *)
theory Reverse_Call
  imports Reverse_Link
begin

text \<open>
  A unary call in the other direction: the server calls a function its client registered. The request, the
  client's worker, the reply and the completion of the pending call, composed from both sides.
\<close>

definition reverse_message :: "'v rpc_env \<Rightarrow> call_ctx \<Rightarrow> int64 \<Rightarrow> string \<Rightarrow> 'v option \<Rightarrow> 'v" where
  "reverse_message E ctx rid name args =
     (let m = NewFunctionRequest (env_V E) (env_d E) rid name args
      in case EncodeMetadata (env_V E) (MetadataFromContext ctx) of
           None \<Rightarrow> m | Some md \<Rightarrow> Put (env_V E) m (MetadataField (env_d E)) (Some md))"

lemma reverse_message_fields:
  fixes rid name a ctx
  assumes laws: "value_laws (env_V E)" and wf: "wf_dialect (env_d E)"
  defines "m \<equiv> reverse_message E ctx rid name (Some a)"
  shows "GetNumberField (env_V E) m (MessageTypeField (env_d E)) = Some (Long (env_V E) FunctionRequest)"
    and "GetNumberField (env_V E) m (RequestIdField (env_d E)) = Some (Long (env_V E) rid)"
    and "GetStringField (env_V E) m (FunctionNameField (env_d E)) = Some (Utf8 (env_V E) name)"
    and "Get (env_V E) m (ArgumentsField (env_d E)) = Some a"
  using wf
  by (auto simp: m_def reverse_message_def builder_defs wf_fields value_laws.msg_simps [OF laws] split: option.splits)

text \<open>What the server's caller gets for what the client's handler did.\<close>

definition reverse_result :: "'v value_api \<Rightarrow> string \<Rightarrow> 'v option outcome \<Rightarrow> gerror + 'v option" where
  "reverse_result V name out =
     (case out of
        Returned res \<Rightarrow> Inr (case res of None \<Rightarrow> None | Some v \<Rightarrow> if Kind V v = NULL then None else Some v)
      | Failed err \<Rightarrow> Inl (RpcError (HandlerErrorCode err) (''function '' @ name @ '': '' @ handler_error_message err))
      | Panicked \<Rightarrow> Inl ErrClientClosed)"

definition reverse_reply :: "'v rpc_env \<Rightarrow> int64 \<Rightarrow> string \<Rightarrow> 'v option outcome \<Rightarrow> 'v" where
  "reverse_reply E rid name out =
     (case out of
        Returned res \<Rightarrow> NewFunctionResult (env_V E) (env_d E) (Long (env_V E) rid) res
      | Failed err \<Rightarrow> NewHandlerError (env_V E) (env_d E) (Long (env_V E) rid) (''function '' @ name) err
      | Panicked \<Rightarrow> Null (env_V E))"

section \<open>The client serves the call\<close>

lemma client_serves_call:
  fixes ctx rid
  assumes laws: "value_laws (env_V E)" and wf: "wf_dialect (env_d E)" and live: "client_live [] c"
    and cf: "cl_functionMap c name = Some cf" "cf_ft cf = cfnUnary" "Verify (env_V E) (Some a) (cf_args cf)"
      "\<And>ctx. cf_fn cf ctx (Some a) = out" "out \<noteq> Panicked"
      "\<And>res. out = Returned res \<Longrightarrow> Verify (env_V E) res (cf_res cf)"
  defines "m \<equiv> reverse_message E ctx rid name (Some a)"
  shows "\<exists>c1 c2. getResponseHandler E redial pick m c = Some c1 \<and>
    cl_workers c1 = cl_workers c @ [InboundCall m (Long (env_V E) rid) name cf (Some a)] \<and>
    client_out (run_inbound_call E m (Long (env_V E) rid) name cf (Some a) c1) = Some (reverse_reply E rid name out, c2)"
proof -
  note fields = reverse_message_fields [OF laws wf, of ctx rid name a, folded m_def]
  let ?c1 = "c\<lparr>cl_workers := cl_workers c @ [InboundCall m (Long (env_V E) rid) name cf (Some a)]\<rparr>"
  have "serveInboundCall E m c = ?c1"
    using cf(1-3) by (simp add: serveInboundCall_def fields value_laws.String_Utf8 [OF laws] Let_def)
  then have "getResponseHandler E redial pick m c = Some ?c1"
    by (simp add: getResponseHandler_def fields value_laws.Long_Long [OF laws] mt_defs Let_def)
  moreover have "run_inbound_call E m (Long (env_V E) rid) name cf (Some a) ?c1 = reply_to_server (reverse_reply E rid name out) ?c1"
    using cf(4-6) by (cases out) (auto simp: run_inbound_call_def reverse_reply_def Let_def)
  moreover have "client_live [] ?c1" using live by (simp add: client_live_def)
  then have "client_live [reverse_reply E rid name out] (reply_to_server (reverse_reply E rid name out) ?c1)"
    using reply_live(1) [of "[]" ?c1] by simp
  from client_out_live(1) [OF this]
  obtain c2 where "client_out (reply_to_server (reverse_reply E rid name out) ?c1) = Some (reverse_reply E rid name out, c2)" by blast
  ultimately show ?thesis by auto
qed

section \<open>The session completes it\<close>

lemma reply_fields:
  assumes laws: "value_laws (env_V E)" and wf: "wf_dialect (env_d E)" and "out \<noteq> Panicked"
  shows "GetNumberField (env_V E) (reverse_reply E rid name out) (RequestIdField (env_d E)) = Some (Long (env_V E) rid)"
    and "\<exists>mt. GetNumberField (env_V E) (reverse_reply E rid name out) (MessageTypeField (env_d E)) = Some (Long (env_V E) mt) \<and>
      (mt = FunctionResponse \<or> mt = ErrorResponse) \<and>
      (sc_pendingCalls t rid = Some () \<longrightarrow>
        completePendingCall E (Long (env_V E) rid) mt (reverse_reply E rid name out) t =
          t\<lparr>sc_pendingCalls := (sc_pendingCalls t)(rid := None),
            sc_callResults := (sc_callResults t)(rid \<mapsto> reverse_result (env_V E) name out)\<rparr>)"
proof -
  note fields = value_laws.error_response_fields [OF laws wf value_laws.Kind_Long [OF laws, of rid]]
  note res = result_fields [OF laws wf, of rid]
  have same: "NewFunctionResult V d i r = FunctionResult V d i r" for V :: "'a value_api" and d i r
    by (simp add: NewFunctionResult_def FunctionResult_def)
  show "GetNumberField (env_V E) (reverse_reply E rid name out) (RequestIdField (env_d E)) = Some (Long (env_V E) rid)"
    using assms(3) fields(2) res(2) by (cases out) (simp_all add: reverse_reply_def NewHandlerError_def same)
  show "\<exists>mt. GetNumberField (env_V E) (reverse_reply E rid name out) (MessageTypeField (env_d E)) = Some (Long (env_V E) mt) \<and>
      (mt = FunctionResponse \<or> mt = ErrorResponse) \<and>
      (sc_pendingCalls t rid = Some () \<longrightarrow>
        completePendingCall E (Long (env_V E) rid) mt (reverse_reply E rid name out) t =
          t\<lparr>sc_pendingCalls := (sc_pendingCalls t)(rid := None),
            sc_callResults := (sc_callResults t)(rid \<mapsto> reverse_result (env_V E) name out)\<rparr>)"
  proof (cases out)
    case (Returned r)
    then show ?thesis
      by (intro exI [of _ FunctionResponse])
        (simp add: reverse_reply_def reverse_result_def same res completePendingCall_def mt_defs value_laws.Long_Long [OF laws]
          value_laws.Kind_Null [OF laws] Let_def split: option.split)
  next
    case (Failed err)
    then show ?thesis
      by (intro exI [of _ ErrorResponse])
        (simp add: reverse_reply_def reverse_result_def NewHandlerError_def fields completePendingCall_def mt_defs
          value_laws.Long_Long [OF laws] value_laws.String_Utf8 [OF laws] Let_def)
  qed (use assms(3) in simp)
qed

text \<open>
  C6. A call from the server to its client, from the call to its result. On an idle live connection, for a
  function the client registered whose arguments pass its check: the session queues one request, the client
  starts one worker for it, and the call returns what that handler returned, with null read as absent, or
  the error it failed with under its code; the pending call is forgotten.
\<close>

theorem reverse_call_round_trip:
  fixes E :: "'v rpc_env" and c :: "'v rpcClient" and t :: "'v servingClient"
  defines "rid \<equiv> - (sc_lastServerRequest t + 1)"
  assumes laws: "value_laws (env_V E)" and wf: "wf_dialect (env_d E)"
    and t: "reverse_wire [] t" "sc_pendingStreams t rid = None" and c: "client_live [] c"
    and cf: "cl_functionMap c name = Some cf" "cf_ft cf = cfnUnary" "Verify (env_V E) (Some a) (cf_args cf)"
      "\<forall>ctx. cf_fn cf ctx (Some a) = out" "out \<noteq> Panicked" "\<forall>res. out = Returned res \<longrightarrow> Verify (env_V E) res (cf_res cf)"
  shows "\<exists>t1 m t2 c1 resp c2 t3 t4.
    CallFunction_begin E ctx name (Some a) t = (Inr rid, t1) \<and> session_out t1 = Some (m, t2) \<and>
    getResponseHandler E redial pick m c = Some c1 \<and>
    cl_workers c1 = cl_workers c @ [InboundCall m (Long (env_V E) rid) name cf (Some a)] \<and>
    client_out (run_inbound_call E m (Long (env_V E) rid) name cf (Some a) c1) = Some (resp, c2) \<and>
    processRequest E pick resp t2 = Some (None, t3) \<and>
    CallFunction_end rid CallCompleted t3 = Some (reverse_result (env_V E) name out, t4) \<and> sc_pendingCalls t4 rid = None"
proof -
  let ?m = "reverse_message E ctx rid name (Some a)" let ?resp = "reverse_reply E rid name out"
  let ?t2 = "t\<lparr>sc_lastServerRequest := sc_lastServerRequest t + 1, sc_pendingCalls := (sc_pendingCalls t)(rid \<mapsto> ())\<rparr>"
  let ?t1 = "?t2\<lparr>sc_outgoingQueue := [?m]\<rparr>"
  have start: "CallFunction_begin E ctx name (Some a) t = (Inr rid, ?t1)"
    using t(1) by (simp add: CallFunction_begin_def nextServerRequestId_def reverse_message_def rid_def send_def reverse_wire_def Let_def)
  have out: "session_out ?t1 = Some (?m, ?t2)"
    using wire_out(1) [of ?m "[]" ?t1] t(1) by (simp add: reverse_wire_def)
  have fn: "cf_fn cf ctx (Some a) = out" "out = Returned res \<Longrightarrow> Verify (env_V E) res (cf_res cf)" for ctx res
    using cf(4,6) by simp_all
  obtain c1 c2 where client: "getResponseHandler E redial pick ?m c = Some c1"
    "cl_workers c1 = cl_workers c @ [InboundCall ?m (Long (env_V E) rid) name cf (Some a)]"
    "client_out (run_inbound_call E ?m (Long (env_V E) rid) name cf (Some a) c1) = Some (?resp, c2)"
    using client_serves_call [OF laws wf c cf(1-3) fn(1) cf(5) fn(2), where ctx = ctx and rid = rid and redial = redial
        and pick = pick] by blast
  obtain mt where mt: "GetNumberField (env_V E) ?resp (MessageTypeField (env_d E)) = Some (Long (env_V E) mt)"
    "mt = FunctionResponse \<or> mt = ErrorResponse"
    "completePendingCall E (Long (env_V E) rid) mt ?resp ?t2 =
       ?t2\<lparr>sc_pendingCalls := (sc_pendingCalls ?t2)(rid := None),
           sc_callResults := (sc_callResults ?t2)(rid \<mapsto> reverse_result (env_V E) name out)\<rparr>"
    using reply_fields(2) [OF laws wf cf(5), of rid name ?t2] by auto
  have "processRequest E pick ?resp ?t2 = Some (None, completePendingCall E (Long (env_V E) rid) mt ?resp ?t2)"
    using t(2) mt(1,2)
    by (simp add: processRequest_def reply_fields(1) [OF laws wf cf(5)] findPendingStream_def value_laws.Long_Long [OF laws] Let_def)
  then have done': "processRequest E pick ?resp ?t2 =
       Some (None, ?t2\<lparr>sc_pendingCalls := (sc_pendingCalls ?t2)(rid := None),
           sc_callResults := (sc_callResults ?t2)(rid \<mapsto> reverse_result (env_V E) name out)\<rparr>)" (is "_ = Some (None, ?t3)")
    unfolding mt(3) .
  have "CallFunction_end rid CallCompleted ?t3 =
      Some (reverse_result (env_V E) name out, ?t3\<lparr>sc_pendingCalls := (sc_pendingCalls ?t3)(rid := None)\<rparr>)"
    by (simp add: CallFunction_end_def)
  moreover have "sc_pendingCalls (?t3\<lparr>sc_pendingCalls := (sc_pendingCalls ?t3)(rid := None)\<rparr>) rid = None" by simp
  ultimately show ?thesis using start out client done' by (intro exI conjI)
qed

theorem reverse_call_round_trip_witness:
  "\<exists>t1 m t2 c1 resp t3 t4.
    CallFunction_begin sample_env Background ''f'' (Some (GLong 5)) (NewServingClient 7 [] [] 0 sample_cfg False) = (Inr (- 1), t1) \<and>
    session_out t1 = Some (m, t2) \<and>
    getResponseHandler sample_env (\<lambda>_. None) True m
      (snd (AddFunction_client ''f'' AnyDef AnyDef (Some (\<lambda>_ _. Failed (RpcError CodeNotFound ''x''))) sample_connected)) = Some c1 \<and>
    processRequest sample_env True resp t2 = Some (None, t3) \<and>
    CallFunction_end (- 1) CallCompleted t3 = Some (Inl (RpcError CodeNotFound ''function f: x''), t4)"
proof -
  let ?t = "NewServingClient 7 [] [] 0 sample_cfg False :: gval servingClient"
  let ?rid = "- (sc_lastServerRequest ?t + 1)" let ?out = "Failed (RpcError CodeNotFound ''x'') :: gval option outcome"
  define c where "c = snd (AddFunction_client ''f'' AnyDef AnyDef (Some (\<lambda>_ _. ?out)) sample_connected)"
  define cf :: "gval clientFunction" where "cf = \<lparr>cf_ft = cfnUnary, cf_args = AnyDef, cf_res = AnyDef, cf_fn = (\<lambda>_ _. ?out),
    cf_stream = (\<lambda>_ _. Panicked)\<rparr>"
  have cf: "cl_functionMap c ''f'' = Some cf" "cf_ft cf = cfnUnary" "Verify (env_V sample_env) (Some (GLong 5)) (cf_args cf)"
    "\<forall>ctx. cf_fn cf ctx (Some (GLong 5)) = ?out" "?out \<noteq> Panicked"
    "\<forall>res. ?out = Returned res \<longrightarrow> Verify (env_V sample_env) res (cf_res cf)"
    by (simp_all add: c_def cf_def AddFunction_client_def Verify_def)
  have t: "reverse_wire [] ?t" "sc_pendingStreams ?t ?rid = None" "?rid = - 1" by (simp_all add: reverse_wire_def NewServingClient_def)
  have c: "client_live [] c" by (simp add: c_def AddFunction_client_def client_live_def sample_connected_fields)
  have res: "reverse_result (env_V sample_env) ''f'' ?out = Inl (RpcError CodeNotFound ''function f: x'')"
    by (simp add: reverse_result_def HandlerErrorCode_def handler_error_message_def code_defs)
  show ?thesis
    using reverse_call_round_trip [where name = "''f''" and pick = True and redial = "\<lambda>_. None" and ctx = Background,
        OF sample_env_laws(1,2) t(1,2) c cf]
    unfolding t(3) c_def res by (elim exE conjE) (intro exI conjI; assumption)
qed

end
