(* ===== verification/Concurrent_Calls.thy ===== *)
theory Concurrent_Calls
  imports Get_Link "HOL-Library.Multiset"
begin

text \<open>
  Many unary calls at once on one connection: the callers, the client's two loops, the session's read loop,
  its workers and its sender are interleaved in every order, so replies overtake each other. Shown: every
  call gets the answer to that call.
\<close>

section \<open>The system\<close>

text \<open>A call by its id, the function and the argument.\<close>

type_synonym 'v call = "int64 \<times> string \<times> 'v"

record 'v net =
  n_todo :: "(string \<times> 'v) list"
  n_made :: "'v call list"
  n_client :: "'v rpcClient"
  n_up :: "'v list"
  n_session :: "'v servingClient"
  n_down :: "'v list"
  n_got :: "(int64 \<times> (gerror + 'v option)) list"

definition net_start :: "(string \<times> 'v) list \<Rightarrow> 'v rpcClient \<Rightarrow> 'v servingClient \<Rightarrow> 'v net" where
  "net_start calls c t =
     \<lparr>n_todo = calls, n_made = [], n_client = c, n_up = [], n_session = t, n_down = [], n_got = []\<rparr>"

inductive net_step ::
    "'v rpc_env \<Rightarrow> (string \<rightharpoonup> 'v function_def) \<Rightarrow> 'v dial \<Rightarrow> ('v rpcClient \<Rightarrow> (gerror option \<times> 'v rpcClient) option) \<Rightarrow>
     'v net \<Rightarrow> 'v net \<Rightarrow> bool" for E F D redial where
  issue: "n_todo n = xs @ (name, a) # ys \<Longrightarrow>
    invokeUnary_begin E D pick (\<lambda>t. t) ctx name (Some a) (n_client n) = Some (Inr rid, c) \<Longrightarrow>
    net_step E F D redial n (n\<lparr>n_todo := xs @ ys, n_made := n_made n @ [(rid, name, a)], n_client := c\<rparr>)"
| write_request: "client_out (n_client n) = Some (m, c) \<Longrightarrow>
    net_step E F D redial n (n\<lparr>n_client := c, n_up := n_up n @ [m]\<rparr>)"
| dispatch: "n_up n = m # ms \<Longrightarrow> processRequest E pick m (n_session n) = Some (err, t) \<Longrightarrow>
    net_step E F D redial n (n\<lparr>n_up := ms, n_session := t\<rparr>)"
| refuse: "sc_workers (n_session n) = ws1 @ Started ft m # ws2 \<Longrightarrow>
    start_worker E F ft m ((n_session n)\<lparr>sc_workers := ws1 @ ws2\<rparr>) = (None, t) \<Longrightarrow>
    net_step E F D redial n (n\<lparr>n_session := t\<rparr>)"
| admitted: "sc_workers (n_session n) = ws1 @ Started ft m # ws2 \<Longrightarrow>
    start_worker E F ft m ((n_session n)\<lparr>sc_workers := ws1 @ ws2\<rparr>) = (Some w, t) \<Longrightarrow>
    net_step E F D redial n (n\<lparr>n_session := t\<lparr>sc_workers := ws1 @ w # ws2\<rparr>\<rparr>)"
| handler: "sc_workers (n_session n) = ws1 @ Admitted ft m reqId name fn args # ws2 \<Longrightarrow>
    net_step E F D redial n
      (n\<lparr>n_session := run_worker E ft m reqId name fn args ((n_session n)\<lparr>sc_workers := ws1 @ ws2\<rparr>)\<rparr>)"
| write_reply: "session_out (n_session n) = Some (m, t) \<Longrightarrow>
    net_step E F D redial n (n\<lparr>n_session := t, n_down := n_down n @ [m]\<rparr>)"
| response: "n_down n = m # ms \<Longrightarrow> getResponseHandler E redial pick m (n_client n) = Some c \<Longrightarrow>
    net_step E F D redial n (n\<lparr>n_down := ms, n_client := c\<rparr>)"
| return: "rid \<in> fst ` set (n_made n) \<Longrightarrow> rid \<notin> fst ` set (n_got n) \<Longrightarrow> cl_ctxs (n_client n) rid = Some rc \<Longrightarrow>
    channel_event rc = Some ev \<Longrightarrow> invokeUnary_end E redial rid ev (n_client n) = Some (res, c) \<Longrightarrow>
    net_step E F D redial n (n\<lparr>n_client := c, n_got := n_got n @ [(rid, res)]\<rparr>)"

section \<open>The client\<close>

definition is_request :: "'v rpc_env \<Rightarrow> 'v call \<Rightarrow> 'v \<Rightarrow> bool" where
  "is_request E x m \<longleftrightarrow> (case x of (rid, name, a) \<Rightarrow>
     GetNumberField (env_V E) m (MessageTypeField (env_d E)) = Some (Long (env_V E) FunctionRequest) \<and>
     GetNumberField (env_V E) m (RequestIdField (env_d E)) = Some (Long (env_V E) rid) \<and>
     GetStringField (env_V E) m (FunctionNameField (env_d E)) = Some (Utf8 (env_V E) name) \<and>
     Get (env_V E) m (ArgumentsField (env_d E)) = Some a)"

definition waits :: "'v rpcClient \<Rightarrow> int64 \<Rightarrow> bool" where
  "waits c rid \<longleftrightarrow> rid \<in> cl_registered c \<and> (\<exists>rc. cl_ctxs c rid = Some rc \<and> waiting rid rc)"

text \<open>The request has its answer and the caller has not taken it yet.\<close>

definition answered :: "'v value_api \<Rightarrow> string \<Rightarrow> 'v option outcome \<Rightarrow> 'v rpcRequestCtx \<Rightarrow> bool" where
  "answered V name out rc \<longleftrightarrow>
     (case call_result V name out of
        Inr v \<Rightarrow> resultCh rc = [v]
      | Inl e \<Rightarrow> resultCh rc = [] \<and> 0 < resultCloses rc \<and> resultErr rc = Some e)"

definition others_kept :: "int64 \<Rightarrow> 'v rpcClient \<Rightarrow> 'v rpcClient \<Rightarrow> bool" where
  "others_kept rid c c' \<longleftrightarrow> cl_servingMap c' = cl_servingMap c \<and>
     (\<forall>i. i \<noteq> rid \<longrightarrow> cl_ctxs c' i = cl_ctxs c i \<and> (i \<in> cl_registered c' \<longleftrightarrow> i \<in> cl_registered c))"

lemma issue_call:
  assumes "value_laws (env_V E)" and "wf_dialect (env_d E)" and "client_live q c"
  shows "\<exists>m c'. invokeUnary_begin E D pick (\<lambda>t. t) ctx name (Some a) c = Some (Inr (cl_lastRequest c + 1), c') \<and>
    is_request E (cl_lastRequest c + 1, name, a) m \<and> client_live (q @ [m]) c' \<and> waits c' (cl_lastRequest c + 1) \<and>
    cl_lastRequest c' = cl_lastRequest c + 1 \<and> others_kept (cl_lastRequest c + 1) c c'"
proof -
  obtain k where k: "cl_conn c = Some k" "\<not> conn_done k" "reqCh k = q" using assms(3) by (auto simp: client_live_def)
  let ?rid = "cl_lastRequest c + 1" let ?m = "call_message E ctx FunctionRequest name (Some a) c"
  let ?c = "(newRequestCtx E ?rid unaryKind ?m 1 (c\<lparr>cl_lastRequest := ?rid\<rparr>))\<lparr>cl_conn := Some (k\<lparr>reqCh := reqCh k @ [?m]\<rparr>)\<rparr>"
  have "invokeUnary_begin E D pick (\<lambda>t. t) ctx name (Some a) c = Some (Inr ?rid, ?c)"
    by (simp add: invokeUnary_begin_def start_call_connected [OF k(1,2)])
  moreover have "is_request E (?rid, name, a) ?m"
    using call_fields [OF assms(1,2), of ctx FunctionRequest name a c] by (simp add: is_request_def)
  moreover have "waits ?c ?rid" using newRequestCtx_fields [OF refl] by (auto simp: waits_def)
  moreover have "client_live (q @ [?m]) ?c" using k by (simp add: client_live_def)
  moreover have "cl_lastRequest ?c = ?rid" "others_kept ?rid c ?c"
    by (simp_all add: newRequestCtx_def update_ctx_def log_event_def others_kept_def Let_def)
  ultimately show ?thesis by blast
qed

lemma response_answers:
  assumes laws: "value_laws (env_V E)" and wf: "wf_dialect (env_d E)"
    and "waits c rid" and "cl_servingMap c rid = None" and "out \<noteq> Panicked"
  shows "\<exists>c' rc. getResponseHandler E redial pick (unary_reply E (Long (env_V E) rid) name out) c = Some c' \<and>
    cl_ctxs c' rid = Some rc \<and> answered (env_V E) name out rc \<and> cl_conn c' = cl_conn c \<and> cl_lastRequest c' = cl_lastRequest c \<and>
    others_kept rid c c'"
proof -
  obtain rc where rc: "cl_ctxs c rid = Some rc" "waiting rid rc" "rid \<in> cl_registered c" using assms(3) by (auto simp: waits_def)
  show ?thesis
  proof (cases out)
    case (Returned r)
    then show ?thesis
      using handle_result [OF laws wf rc assms(4), of redial pick r] rc(2)
      by (auto simp: unary_reply_def answered_def call_result_def unregister_def update_ctx_def others_kept_def waiting_def
          Close_request_unary split: option.split)
  next
    case (Failed err)
    let ?e = "RpcError (handlerErrCode err)
      (''function '' @ name @ '': '' @ (case err of RpcError _ msg \<Rightarrow> msg | _ \<Rightarrow> Error_text err))"
    have u: "resultPump (SetError ?e rc) = None" "\<not> closeOnce (SetError ?e rc)"
      using rc(2) by (simp_all add: waiting_def SetError_def)
    have "answered (env_V E) name out (Close_request (env_V E) (env_d E) (SetError ?e rc))"
      using Failed rc(2) by (simp only: answered_def call_result_def Close_request_unary [OF u] outcome.case sum.case)
        (simp add: waiting_def SetError_def)
    with Failed show ?thesis
      using handle_error [OF laws wf rc assms(4), of redial pick "handlerErrCode err"
          "''function '' @ name @ '': '' @ (case err of RpcError _ msg \<Rightarrow> msg | _ \<Rightarrow> Error_text err)"]
      by (auto simp: unary_reply_def handlerError_def others_kept_def)
  qed (use assms(5) in simp)
qed

lemma caller_takes:
  assumes "cl_ctxs c rid = Some rc" and "answered (env_V E) name out rc"
  shows "\<exists>ev c'. channel_event rc = Some ev \<and> invokeUnary_end E redial rid ev c = Some (call_result (env_V E) name out, c') \<and>
    cl_conn c' = cl_conn c \<and> cl_lastRequest c' = cl_lastRequest c \<and> others_kept rid c c'"
  using assms
  by (auto simp: answered_def channel_event_def invokeUnary_end_def await_response_def SingleResp_def Error_of_def update_ctx_def
      others_kept_def split: sum.splits)

lemma waiting_no_event: "waiting rid rc \<Longrightarrow> channel_event rc = None"
  by (simp add: waiting_def channel_event_def)

section \<open>The session\<close>

text \<open>A function that can be called with \<open>a\<close>, and what its handler does.\<close>

definition serves :: "'v rpc_env \<Rightarrow> (string \<rightharpoonup> 'v function_def) \<Rightarrow> (string \<Rightarrow> 'v \<Rightarrow> 'v option outcome) \<Rightarrow> string \<Rightarrow> 'v \<Rightarrow> bool" where
  "serves E F ans name a \<longleftrightarrow>
     (\<exists>fn. F name = Some fn \<and> fn_ft fn = singleFunction \<and> Verify (env_V E) (Some a) (fn_args fn) \<and>
        (\<forall>ctx. fn_single fn ctx (Some a) = ans name a) \<and> ans name a \<noteq> Panicked \<and>
        (\<forall>res. ans name a = Returned res \<longrightarrow> Verify (env_V E) res (fn_res fn)))"

definition reply_of :: "'v rpc_env \<Rightarrow> (string \<Rightarrow> 'v \<Rightarrow> 'v option outcome) \<Rightarrow> 'v call \<Rightarrow> 'v" where
  "reply_of E ans x = (case x of (rid, name, a) \<Rightarrow> unary_reply E (Long (env_V E) rid) name (ans name a))"

definition works_on :: "'v rpc_env \<Rightarrow> (string \<rightharpoonup> 'v function_def) \<Rightarrow> 'v call \<Rightarrow> 'v worker \<Rightarrow> bool" where
  "works_on E F x w \<longleftrightarrow>
     (\<exists>m. is_request E x m \<and> (w = Started singleFunction m \<or>
        (\<exists>fn. F (fst (snd x)) = Some fn \<and>
           w = Admitted singleFunction m (Long (env_V E) (fst x)) (fst (snd x)) fn (Some (snd (snd x))))))"

text \<open>A session without streams, whose limit on handlers is none or at least \<open>N\<close>.\<close>

definition session_ok :: "nat \<Rightarrow> nat \<Rightarrow> 'v list \<Rightarrow> 'v servingClient \<Rightarrow> bool" where
  "session_ok N running q t \<longleftrightarrow> sc_outgoingQueue t = q \<and> sc_activeConn t \<noteq> None \<and> \<not> sc_done t \<and>
     sc_pendingStreams t = Map.empty \<and> sc_requestMap t = Map.empty \<and> sc_inFlight t = word_of_int (int running) \<and>
     (sint (maxConcurrentRequests (sc_cfg t)) \<le> 0 \<or> int N \<le> sint (maxConcurrentRequests (sc_cfg t)))"

lemma session_ok_workers [simp]: "session_ok N r q (t\<lparr>sc_workers := ws\<rparr>) = session_ok N r q t"
  by (simp add: session_ok_def)

lemma session_takes_request:
  assumes "value_laws (env_V E)" and "session_ok N r q t" and "r < N" and "is_request E x m"
  shows "\<exists>t'. processRequest E pick m t = Some (None, t') \<and> session_ok N (Suc r) q t' \<and>
    sc_workers t' = sc_workers t @ [Started singleFunction m]"
proof -
  obtain rid name a where x: "x = (rid, name, a)" by (metis prod_cases3)
  let ?t = "t\<lparr>sc_inFlight := sc_inFlight t + 1, sc_workers := sc_workers t @ [Started singleFunction m]\<rparr>"
  let ?cap = "maxConcurrentRequests (sc_cfg t)"
  have succ: "sc_inFlight t + 1 = word_of_int (int (Suc r))" using assms(2) by (simp add: session_ok_def)
  have "sint (word_of_int (int (Suc r)) :: int64) = int (Suc r)" if "int N \<le> sint ?cap"
    using assms(3) that sint_bounds(2) [of ?cap] by (intro sint_of_int64) auto
  then have "sint ?cap \<le> 0 \<or> sint (sc_inFlight t + 1) \<le> sint ?cap"
    using assms(2,3) unfolding succ by (auto simp: session_ok_def)
  then have "processRequest E pick m t = Some (None, ?t)"
    using processRequest_new [OF assms(1), of m FunctionRequest rid t singleFunction pick] assms(2,4)
    by (simp add: is_request_def session_ok_def x)
  moreover have "session_ok N (Suc r) q ?t" using assms(2) by (simp add: session_ok_def)
  ultimately show ?thesis by simp
qed

lemma worker_admitted:
  assumes "value_laws (env_V E)" and "session_ok N r q t" and "is_request E (rid, name, a) m" and "serves E F ans name a"
  shows "\<exists>fn t'. F name = Some fn \<and>
    start_worker E F singleFunction m t = (Some (Admitted singleFunction m (Long (env_V E) rid) name fn (Some a)), t') \<and>
    session_ok N r q t'"
proof -
  obtain fn where fn: "F name = Some fn" "fn_ft fn = singleFunction" "Verify (env_V E) (Some a) (fn_args fn)"
    using assms(4) by (auto simp: serves_def)
  have "admit E F singleFunction m u = Inr (Long (env_V E) rid, name, fn, Some a)" for u
    using assms(3) fn value_laws.String_Utf8 [OF assms(1), of name]
    by (simp add: admit_def findFunction_def is_request_def Let_def)
  with fn(1) assms(2) show ?thesis by (simp add: start_worker_def record_metric_def session_ok_def Let_def)
qed

lemma worker_replies:
  assumes "value_laws (env_V E)" and "session_ok N (Suc r) q t" and "F name = Some fn" and "serves E F ans name a"
  shows "session_ok N r (q @ [reply_of E ans (rid, name, a)]) (run_worker E singleFunction m (Long (env_V E) rid) name fn (Some a) t) \<and>
    sc_workers (run_worker E singleFunction m (Long (env_V E) rid) name fn (Some a) t) = sc_workers t"
proof -
  have fn: "fn_ft fn = singleFunction" "fn_single fn ctx (Some a) = ans name a" "ans name a \<noteq> Panicked"
    "ans name a = Returned res \<Longrightarrow> Verify (env_V E) res (fn_res fn)" for ctx res
    using assms(3,4) by (auto simp: serves_def)
  show ?thesis
    using assms(2) fn
    by (cases "ans name a")
       (simp_all add: run_worker_def run_handler_def finish_worker_def reply_of_def unary_reply_def record_metric_def send_def
         session_ok_def Let_def)
qed

lemma session_writes:
  "session_ok N r (m # q) t \<Longrightarrow> session_out t = Some (m, t\<lparr>sc_outgoingQueue := q\<rparr>)"
  "session_ok N r [] t \<Longrightarrow> session_out t = None"
  by (auto simp: session_out_def sender_def session_ok_def)

section \<open>Where every call is\<close>

definition has_answer :: "'v rpc_env \<Rightarrow> (string \<Rightarrow> 'v \<Rightarrow> 'v option outcome) \<Rightarrow> 'v rpcClient \<Rightarrow> 'v call \<Rightarrow> bool" where
  "has_answer E ans c x \<longleftrightarrow> (case x of (rid, name, a) \<Rightarrow>
     \<exists>rc. cl_ctxs c rid = Some rc \<and> answered (env_V E) name (ans name a) rc)"

definition result_of :: "'v rpc_env \<Rightarrow> (string \<Rightarrow> 'v \<Rightarrow> 'v option outcome) \<Rightarrow> 'v call \<Rightarrow> int64 \<times> (gerror + 'v option)" where
  "result_of E ans x = (case x of (rid, name, a) \<Rightarrow> (rid, call_result (env_V E) name (ans name a)))"

fun weight :: "'v worker \<Rightarrow> nat" where
  "weight (Started ft m) = 5"
| "weight (Admitted ft m reqId name fn args) = 4"

text \<open>The ids are consecutive, and so distinct unless they wrap around.\<close>

definition numbered :: "int64 \<Rightarrow> (string \<times> 'v) list \<Rightarrow> 'v net \<Rightarrow> bool" where
  "numbered n0 calls n \<longleftrightarrow> map fst (n_made n) = map (\<lambda>i. n0 + word_of_nat i) [1..<Suc (length (n_made n))] \<and>
     cl_lastRequest (n_client n) = n0 + word_of_nat (length (n_made n)) \<and>
     mset (map snd (n_made n)) + mset (n_todo n) = mset calls \<and> length calls < 2 ^ 64"

text \<open>
  The calls made, by where they are: the request on its way (\<open>us\<close>), with a worker (\<open>ws\<close>), the reply on its way
  (\<open>ds\<close>), the answer at the caller's channel (\<open>rs\<close>), returned (\<open>gs\<close>).
\<close>

definition net_at ::
    "'v rpc_env \<Rightarrow> (string \<rightharpoonup> 'v function_def) \<Rightarrow> (string \<Rightarrow> 'v \<Rightarrow> 'v option outcome) \<Rightarrow> (string \<times> 'v) list \<Rightarrow> int64 \<Rightarrow> 'v net \<Rightarrow>
     'v call list \<Rightarrow> 'v call list \<Rightarrow> 'v call list \<Rightarrow> 'v call list \<Rightarrow> 'v call list \<Rightarrow> 'v list \<Rightarrow> 'v list \<Rightarrow> bool" where
  "net_at E F ans calls n0 n us ws ds rs gs q sq \<longleftrightarrow>
     mset (n_made n) = mset (us @ ws @ ds @ rs @ gs) \<and> numbered n0 calls n \<and>
     client_live q (n_client n) \<and> cl_servingMap (n_client n) = Map.empty \<and> list_all2 (is_request E) us (n_up n @ q) \<and>
     (\<forall>x \<in> set (us @ ws @ ds). waits (n_client n) (fst x)) \<and> (\<forall>x \<in> set rs. has_answer E ans (n_client n) x) \<and>
     session_ok (length calls) (length ws) sq (n_session n) \<and> list_all2 (works_on E F) ws (sc_workers (n_session n)) \<and>
     n_down n @ sq = map (reply_of E ans) ds \<and> n_got n = map (result_of E ans) gs"

definition net_weight :: "'v net \<Rightarrow> 'v call list \<Rightarrow> 'v list \<Rightarrow> 'v list \<Rightarrow> nat" where
  "net_weight n rs q sq = 8 * length (n_todo n) + 7 * length q + 6 * length (n_up n) +
     sum_list (map weight (sc_workers (n_session n))) + 3 * length sq + 2 * length (n_down n) + length rs"

definition net_inv ::
    "'v rpc_env \<Rightarrow> (string \<rightharpoonup> 'v function_def) \<Rightarrow> (string \<Rightarrow> 'v \<Rightarrow> 'v option outcome) \<Rightarrow> (string \<times> 'v) list \<Rightarrow> int64 \<Rightarrow> nat \<Rightarrow>
     'v net \<Rightarrow> bool" where
  "net_inv E F ans calls n0 e n \<longleftrightarrow>
     (\<exists>us ws ds rs gs q sq. net_at E F ans calls n0 n us ws ds rs gs q sq \<and> e = net_weight n rs q sq)"

lemma consecutive_ids:
  fixes n0 :: int64
  assumes "L < 2 ^ 64"
  shows "distinct (map (\<lambda>i. n0 + word_of_nat i) [1..<Suc L])"
proof -
  have "i = j" if "n0 + word_of_nat i = n0 + word_of_nat j" "i \<le> L" "j \<le> L" for i j
  proof -
    have "word_of_nat i = (word_of_nat j :: int64)" using that(1) by simp
    moreover have "i < 2 ^ 64" "j < 2 ^ 64" using that(2,3) assms by linarith+
    ultimately show ?thesis by (simp add: word_of_nat_eq_iff take_bit_nat_eq_self)
  qed
  then show ?thesis unfolding distinct_map by (auto intro!: inj_onI simp del: upt_Suc)
qed

lemma numbered_length:
  assumes "numbered n0 calls n"
  shows "length (n_made n) + length (n_todo n) = length calls"
proof -
  have "size (mset (map snd (n_made n)) + mset (n_todo n)) = size (mset calls)" using assms by (simp only: numbered_def)
  then show ?thesis by simp
qed

lemma numbered_distinct:
  assumes "numbered n0 calls n"
  shows "distinct (map fst (n_made n))"
    and "n_todo n \<noteq> [] \<Longrightarrow> n0 + word_of_nat (Suc (length (n_made n))) \<notin> fst ` set (n_made n)"
proof -
  have ids: "map fst (n_made n) = map (\<lambda>i. n0 + word_of_nat i) [1..<Suc (length (n_made n))]" and calls: "length calls < 2 ^ 64"
    using assms by (simp_all only: numbered_def)
  have "length (n_made n) < 2 ^ 64" using numbered_length [OF assms] calls by linarith
  then show "distinct (map fst (n_made n))" unfolding ids by (rule consecutive_ids)
  assume "n_todo n \<noteq> []"
  then have "Suc (length (n_made n)) \<le> length calls" using numbered_length [OF assms] by (cases "n_todo n") simp_all
  then have "Suc (length (n_made n)) < 2 ^ 64" using calls by linarith
  from consecutive_ids [OF this, of n0]
  have "n0 + word_of_nat (Suc (length (n_made n))) \<notin> set (map fst (n_made n))"
    unfolding ids by (simp del: of_nat_Suc)
  then show "n0 + word_of_nat (Suc (length (n_made n))) \<notin> fst ` set (n_made n)" by simp
qed

lemma net_at_ids:
  assumes "net_at E F ans calls n0 n us ws ds rs gs q sq"
  shows "distinct (map fst (us @ ws @ ds @ rs @ gs))" and "set (n_made n) = set (us @ ws @ ds @ rs @ gs)"
    and "length (n_made n) = length us + length ws + length ds + length rs + length gs"
proof -
  have m: "mset (n_made n) = mset (us @ ws @ ds @ rs @ gs)" and "numbered n0 calls n" using assms by (simp_all add: net_at_def)
  then have "mset (map fst (us @ ws @ ds @ rs @ gs)) = mset (map fst (n_made n))" by simp
  with numbered_distinct(1) [OF \<open>numbered n0 calls n\<close>] show "distinct (map fst (us @ ws @ ds @ rs @ gs))"
    using mset_eq_imp_distinct_iff by blast
  show "set (n_made n) = set (us @ ws @ ds @ rs @ gs)" using m by (rule mset_eq_setD)
  show "length (n_made n) = length us + length ws + length ds + length rs + length gs" using mset_eq_length [OF m] by simp
qed

lemma kept_call:
  assumes "others_kept rid c c'" and "fst x \<noteq> rid"
  shows "waits c' (fst x) = waits c (fst x)" and "has_answer E ans c' x = has_answer E ans c x"
  using assms by (simp_all add: others_kept_def waits_def has_answer_def case_prod_beta)

lemma kept_calls:
  assumes "others_kept rid c c'" and "rid \<notin> fst ` set xs"
  shows "(\<forall>x \<in> set xs. waits c' (fst x)) = (\<forall>x \<in> set xs. waits c (fst x))"
    and "(\<forall>x \<in> set xs. has_answer E ans c' x) = (\<forall>x \<in> set xs. has_answer E ans c x)"
proof -
  have "fst x \<noteq> rid" if "x \<in> set xs" for x using assms(2) that by auto
  note kept = kept_call [OF assms(1) this]
  show "(\<forall>x \<in> set xs. waits c' (fst x)) = (\<forall>x \<in> set xs. waits c (fst x))" by (intro ball_cong refl kept(1))
  show "(\<forall>x \<in> set xs. has_answer E ans c' x) = (\<forall>x \<in> set xs. has_answer E ans c x)" by (intro ball_cong refl kept(2))
qed

lemma step_issue:
  assumes "value_laws (env_V E)" and "wf_dialect (env_d E)" and at: "net_at E F ans calls n0 n us ws ds rs gs q sq"
    and todo: "n_todo n = xs @ (name, a) # ys"
    and call: "invokeUnary_begin E D pick (\<lambda>t. t) ctx name (Some a) (n_client n) = Some (Inr rid, c)"
  shows "\<exists>m. net_at E F ans calls n0 (n\<lparr>n_todo := xs @ ys, n_made := n_made n @ [(rid, name, a)], n_client := c\<rparr>)
    (us @ [(rid, name, a)]) ws ds rs gs (q @ [m]) sq"
proof -
  have nb: "numbered n0 calls n" and live: "client_live q (n_client n)" using at by (simp_all add: net_at_def)
  obtain m where m: "rid = cl_lastRequest (n_client n) + 1" "is_request E (rid, name, a) m" "client_live (q @ [m]) c" "waits c rid"
    "cl_lastRequest c = rid" "others_kept rid (n_client n) c"
    using issue_call [OF assms(1,2) live, of D pick ctx name a] call by auto
  have rid: "rid = n0 + word_of_nat (Suc (length (n_made n)))" using nb m(1) by (simp add: numbered_def)
  then have fresh: "rid \<notin> fst ` set (us @ ws @ ds @ rs @ gs)"
    using numbered_distinct(2) [OF nb] net_at_ids(2) [OF at] todo by simp
  then have "rid \<notin> fst ` set (us @ ws @ ds)" "rid \<notin> fst ` set rs" by auto
  note kept = kept_calls(1) [OF m(6) this(1)] kept_calls(2) [OF m(6) this(2), of E ans]
  have "numbered n0 calls (n\<lparr>n_todo := xs @ ys, n_made := n_made n @ [(rid, name, a)], n_client := c\<rparr>)"
    using nb todo rid m(5) by (simp add: numbered_def)
  moreover have "list_all2 (is_request E) (us @ [(rid, name, a)]) (n_up n @ q @ [m])"
    using at m(2) list_all2_appendI [of "is_request E" us "n_up n @ q" "[(rid, name, a)]" "[m]"] by (simp add: net_at_def)
  moreover have "cl_servingMap c = Map.empty" using m(6) at by (simp add: others_kept_def net_at_def)
  ultimately show ?thesis
    using at m(3,4) kept by (intro exI [of _ m]) (auto simp: net_at_def)
qed

lemma step_write_request:
  assumes at: "net_at E F ans calls n0 n us ws ds rs gs q sq" and out: "client_out (n_client n) = Some (m, c)"
  shows "\<exists>q'. q = m # q' \<and> net_at E F ans calls n0 (n\<lparr>n_client := c, n_up := n_up n @ [m]\<rparr>) us ws ds rs gs q' sq"
proof -
  have live: "client_live q (n_client n)" using at by (simp add: net_at_def)
  obtain m' q' where q: "q = m' # q'" using client_out_live(2) [of "n_client n"] live out by (cases q) auto
  obtain k where c: "c = (n_client n)\<lparr>cl_conn := Some k\<rparr>" "m' = m" "client_live q' c"
    using client_out_live(1) [of m' q' "n_client n"] live out q by auto
  have same: "waits c = waits (n_client n)" "has_answer E ans c = has_answer E ans (n_client n)" "cl_servingMap c = cl_servingMap (n_client n)"
    "cl_lastRequest c = cl_lastRequest (n_client n)"
    by (simp_all add: c(1) waits_def has_answer_def fun_eq_iff case_prod_beta)
  have "numbered n0 calls n" using at by (simp add: net_at_def)
  then have "numbered n0 calls (n\<lparr>n_client := c, n_up := n_up n @ [m]\<rparr>)" by (simp add: numbered_def same)
  then show ?thesis
    using at c(2,3) q by (intro exI [of _ q']) (simp add: net_at_def same)
qed

lemma step_dispatch:
  assumes "value_laws (env_V E)" and at: "net_at E F ans calls n0 n us ws ds rs gs q sq" and up: "n_up n = m # ms"
    and disp: "processRequest E pick m (n_session n) = Some (err, t)"
  shows "\<exists>x us'. net_at E F ans calls n0 (n\<lparr>n_up := ms, n_session := t\<rparr>) us' (ws @ [x]) ds rs gs q sq \<and>
    sc_workers t = sc_workers (n_session n) @ [Started singleFunction m]"
proof -
  have "list_all2 (is_request E) us (m # ms @ q)" using at up by (simp add: net_at_def)
  then obtain x us' where us: "us = x # us'" "is_request E x m" "list_all2 (is_request E) us' (ms @ q)"
    by (auto simp: list_all2_Cons2)
  have "length (n_made n) \<le> length calls" using at numbered_length [of n0 calls n] by (simp add: net_at_def)
  then have "length ws < length calls" using net_at_ids(3) [OF at] us(1) by simp
  from session_takes_request [OF assms(1) _ this us(2), of sq "n_session n" pick] at disp
  have t: "session_ok (length calls) (Suc (length ws)) sq t" "sc_workers t = sc_workers (n_session n) @ [Started singleFunction m]"
    by (auto simp: net_at_def)
  have "works_on E F x (Started singleFunction m)" using us(2) by (auto simp: works_on_def)
  then have "list_all2 (works_on E F) (ws @ [x]) (sc_workers t)"
    using at t(2) by (simp add: net_at_def list_all2_appendI)
  moreover have "numbered n0 calls n" using at by (simp add: net_at_def)
  then have "numbered n0 calls (n\<lparr>n_up := ms, n_session := t\<rparr>)" by (simp add: numbered_def)
  ultimately show ?thesis
    using at t us by (intro exI [of _ x] exI [of _ us']) (simp add: net_at_def)
qed

lemma worker_split:
  assumes at: "net_at E F ans calls n0 n us ws ds rs gs q sq" and w: "sc_workers (n_session n) = ws1 @ w # ws2"
  obtains xs1 x xs2 where "ws = xs1 @ x # xs2" "list_all2 (works_on E F) xs1 ws1" "works_on E F x w" "list_all2 (works_on E F) xs2 ws2"
  using at w by (auto simp: net_at_def list_all2_append2 list_all2_Cons2)

lemma made_served:
  assumes "net_at E F ans calls n0 n us ws ds rs gs q sq" and "\<forall>(name, a) \<in> set calls. serves E F ans name a"
    and "(rid, name, a) \<in> set (us @ ws @ ds @ rs @ gs)"
  shows "serves E F ans name a"
proof -
  have "(name, a) \<in> snd ` set (n_made n)" using net_at_ids(2) [OF assms(1)] assms(3) by force
  moreover have "mset (map snd (n_made n)) + mset (n_todo n) = mset calls" using assms(1) by (simp only: net_at_def numbered_def)
  then have "set (map snd (n_made n) @ n_todo n) = set calls" by (intro mset_eq_setD) simp
  ultimately have "(name, a) \<in> set calls" by auto
  then show ?thesis using assms(2) by auto
qed

lemma step_start:
  assumes "value_laws (env_V E)" and at: "net_at E F ans calls n0 n us ws ds rs gs q sq"
    and all: "\<forall>(name, a) \<in> set calls. serves E F ans name a"
    and w: "sc_workers (n_session n) = ws1 @ Started ft m # ws2"
    and start: "start_worker E F ft m ((n_session n)\<lparr>sc_workers := ws1 @ ws2\<rparr>) = (w', t)"
  shows "\<exists>reqId name fn args. w' = Some (Admitted ft m reqId name fn args) \<and>
    net_at E F ans calls n0 (n\<lparr>n_session := t\<lparr>sc_workers := ws1 @ Admitted ft m reqId name fn args # ws2\<rparr>\<rparr>) us ws ds rs gs q sq"
proof -
  obtain xs1 x xs2 where ws: "ws = xs1 @ x # xs2" "list_all2 (works_on E F) xs1 ws1" "works_on E F x (Started ft m)"
    "list_all2 (works_on E F) xs2 ws2"
    by (rule worker_split [OF at w])
  obtain rid name a where x: "x = (rid, name, a)" by (metis prod_cases3)
  have req: "ft = singleFunction" "is_request E (rid, name, a) m" using ws(3) by (auto simp: works_on_def x)
  have nb: "numbered n0 calls n" using at by (simp add: net_at_def)
  have "serves E F ans name a" using made_served [OF at all] ws(1) x by auto
  moreover have "session_ok (length calls) (length ws) sq ((n_session n)\<lparr>sc_workers := ws1 @ ws2\<rparr>)" using at by (simp add: net_at_def)
  ultimately obtain fn where fn: "F name = Some fn" "w' = Some (Admitted ft m (Long (env_V E) rid) name fn (Some a))"
    "session_ok (length calls) (length ws) sq t"
    using worker_admitted [OF assms(1) _ req(2)] start req(1) by fastforce
  have "works_on E F x (Admitted ft m (Long (env_V E) rid) name fn (Some a))" using req fn(1) by (auto simp: works_on_def x)
  then have "list_all2 (works_on E F) ws (ws1 @ Admitted ft m (Long (env_V E) rid) name fn (Some a) # ws2)"
    using ws by (simp add: list_all2_appendI)
  moreover have "numbered n0 calls (n\<lparr>n_session := t'\<rparr>)" for t' using nb by (simp add: numbered_def)
  ultimately show ?thesis using at fn(2,3) by (simp add: net_at_def)
qed

lemma step_handler:
  assumes "value_laws (env_V E)" and at: "net_at E F ans calls n0 n us ws ds rs gs q sq"
    and all: "\<forall>(name, a) \<in> set calls. serves E F ans name a"
    and w: "sc_workers (n_session n) = ws1 @ Admitted ft m reqId name fn args # ws2"
  defines "t \<equiv> run_worker E ft m reqId name fn args ((n_session n)\<lparr>sc_workers := ws1 @ ws2\<rparr>)"
  shows "\<exists>ws' x. net_at E F ans calls n0 (n\<lparr>n_session := t\<rparr>) us ws' (ds @ [x]) rs gs q (sq @ [reply_of E ans x]) \<and>
    sc_workers t = ws1 @ ws2"
proof -
  obtain xs1 x xs2 where ws: "ws = xs1 @ x # xs2" "list_all2 (works_on E F) xs1 ws1" "works_on E F x (Admitted ft m reqId name fn args)"
    "list_all2 (works_on E F) xs2 ws2"
    by (rule worker_split [OF at w])
  obtain rid name' a where x: "x = (rid, name', a)" by (metis prod_cases3)
  have req: "ft = singleFunction" "reqId = Long (env_V E) rid" "F name = Some fn" "args = Some a" "name' = name"
    using ws(3) by (auto simp: works_on_def x)
  have nb: "numbered n0 calls n" using at by (simp add: net_at_def)
  have serv: "serves E F ans name a" using made_served [OF at all] ws(1) x req(5) by auto
  have ok: "session_ok (length calls) (Suc (length (xs1 @ xs2))) sq ((n_session n)\<lparr>sc_workers := ws1 @ ws2\<rparr>)"
    using at ws(1) by (simp add: net_at_def)
  have t: "session_ok (length calls) (length (xs1 @ xs2)) (sq @ [reply_of E ans x]) t" "sc_workers t = ws1 @ ws2"
    using worker_replies [where F = F and name = name, OF assms(1) ok req(3) serv, of rid m]
    by (simp_all add: t_def req x)
  have "numbered n0 calls (n\<lparr>n_session := t\<rparr>)" using nb by (simp add: numbered_def)
  moreover have "list_all2 (works_on E F) (xs1 @ xs2) (sc_workers t)" using ws t(2) by (simp add: list_all2_appendI)
  ultimately have "net_at E F ans calls n0 (n\<lparr>n_session := t\<rparr>) us (xs1 @ xs2) (ds @ [x]) rs gs q (sq @ [reply_of E ans x])"
    using at t(1) ws(1) by (simp add: net_at_def)
  with t(2) show ?thesis by blast
qed

lemma step_write_reply:
  assumes at: "net_at E F ans calls n0 n us ws ds rs gs q sq" and out: "session_out (n_session n) = Some (m, t)"
  shows "\<exists>sq'. sq = m # sq' \<and> sc_workers t = sc_workers (n_session n) \<and>
    net_at E F ans calls n0 (n\<lparr>n_session := t, n_down := n_down n @ [m]\<rparr>) us ws ds rs gs q sq'"
proof -
  have ok: "session_ok (length calls) (length ws) sq (n_session n)" and nb: "numbered n0 calls n" using at by (simp_all add: net_at_def)
  obtain m' sq' where sq: "sq = m' # sq'" using session_writes(2) ok out by (cases sq) fastforce+
  have t: "m' = m" "t = (n_session n)\<lparr>sc_outgoingQueue := sq'\<rparr>" using session_writes(1) ok out sq by fastforce+
  then have "session_ok (length calls) (length ws) sq' t" using ok by (simp add: session_ok_def)
  moreover have "numbered n0 calls (n\<lparr>n_session := t, n_down := n_down n @ [m]\<rparr>)" using nb by (simp add: numbered_def)
  ultimately show ?thesis using at sq t by (intro exI [of _ sq']) (simp add: net_at_def)
qed

lemma step_response:
  assumes "value_laws (env_V E)" and "wf_dialect (env_d E)" and at: "net_at E F ans calls n0 n us ws ds rs gs q sq"
    and all: "\<forall>(name, a) \<in> set calls. serves E F ans name a"
    and down: "n_down n = m # ms" and resp: "getResponseHandler E redial pick m (n_client n) = Some c"
  shows "\<exists>ds' x. net_at E F ans calls n0 (n\<lparr>n_down := ms, n_client := c\<rparr>) us ws ds' (x # rs) gs q sq"
proof -
  obtain x ds' where ds: "ds = x # ds'" "m = reply_of E ans x" "ms @ sq = map (reply_of E ans) ds'"
    using at down by (cases ds) (auto simp: net_at_def)
  obtain rid name a where x: "x = (rid, name, a)" by (metis prod_cases3)
  have nb: "numbered n0 calls n" and c0: "waits (n_client n) rid" "cl_servingMap (n_client n) rid = None"
    using at ds(1) x by (simp_all add: net_at_def)
  have "ans name a \<noteq> Panicked" using made_served [OF at all] ds(1) x by (auto simp: serves_def)
  from response_answers [OF assms(1,2) c0 this, of redial pick name] resp ds(2) x obtain rc where c:
    "cl_ctxs c rid = Some rc" "answered (env_V E) name (ans name a) rc" "cl_conn c = cl_conn (n_client n)"
    "cl_lastRequest c = cl_lastRequest (n_client n)" "others_kept rid (n_client n) c"
    by (auto simp: reply_of_def)
  have "rid \<notin> fst ` set (us @ ws @ ds')" "rid \<notin> fst ` set rs" using net_at_ids(1) [OF at] ds(1) x by auto
  note kept = kept_calls(1) [OF c(5) this(1)] kept_calls(2) [OF c(5) this(2), of E ans]
  have "numbered n0 calls (n\<lparr>n_down := ms, n_client := c\<rparr>)" using nb c(4) by (simp add: numbered_def)
  moreover have "client_live q c" using at c(3) by (simp add: net_at_def client_live_def)
  moreover have "has_answer E ans c x" using c(1,2) by (simp add: has_answer_def x)
  moreover have "cl_servingMap c = Map.empty" using c(5) at by (simp add: others_kept_def net_at_def)
  ultimately have "net_at E F ans calls n0 (n\<lparr>n_down := ms, n_client := c\<rparr>) us ws ds' (x # rs) gs q sq"
    using at ds kept by (simp add: net_at_def)
  then show ?thesis by blast
qed

lemma result_ids [simp]: "fst (result_of E ans x) = fst x"
  by (simp add: result_of_def case_prod_beta)

lemma step_return:
  assumes at: "net_at E F ans calls n0 n us ws ds rs gs q sq"
    and rid: "rid \<in> fst ` set (n_made n)" "rid \<notin> fst ` set (n_got n)" "cl_ctxs (n_client n) rid = Some rc"
    and ev: "channel_event rc = Some ev" "invokeUnary_end E redial rid ev (n_client n) = Some (res, c)"
  shows "\<exists>rs' x. net_at E F ans calls n0 (n\<lparr>n_client := c, n_got := n_got n @ [(rid, res)]\<rparr>) us ws ds rs' (gs @ [x]) q sq \<and>
    length rs = Suc (length rs')"
proof -
  obtain name a where x: "(rid, name, a) \<in> set (us @ ws @ ds @ rs @ gs)" using rid(1) net_at_ids(2) [OF at] by force
  have "(rid, name, a) \<notin> set gs" using rid(2) at by (force simp: net_at_def)
  moreover have "(rid, name, a) \<notin> set (us @ ws @ ds)"
  proof
    assume "(rid, name, a) \<in> set (us @ ws @ ds)"
    then have "waits (n_client n) rid" using at by (force simp: net_at_def)
    then show False using rid(3) ev(1) waiting_no_event by (force simp: waits_def)
  qed
  ultimately have "(rid, name, a) \<in> set rs" using x by auto
  then obtain r1 r2 where rs: "rs = r1 @ (rid, name, a) # r2" by (meson split_list)
  then have "answered (env_V E) name (ans name a) rc" using at rid(3) by (auto simp: net_at_def has_answer_def)
  from caller_takes [OF rid(3) this, of redial] ev have c: "res = call_result (env_V E) name (ans name a)"
    "cl_conn c = cl_conn (n_client n)" "cl_lastRequest c = cl_lastRequest (n_client n)" "others_kept rid (n_client n) c"
    by auto
  have "rid \<notin> fst ` set (us @ ws @ ds)" "rid \<notin> fst ` set (r1 @ r2)" using net_at_ids(1) [OF at] rs by auto
  note kept = kept_calls(1) [OF c(4) this(1)] kept_calls(2) [OF c(4) this(2), of E ans]
  have nb: "numbered n0 calls n" using at by (simp add: net_at_def)
  then have "numbered n0 calls (n\<lparr>n_client := c, n_got := n_got n @ [(rid, res)]\<rparr>)" using c(3) by (simp add: numbered_def)
  moreover have "client_live q c" using at c(2) by (simp add: net_at_def client_live_def)
  moreover have "cl_servingMap c = Map.empty" using c(4) at by (simp add: others_kept_def net_at_def)
  ultimately have "net_at E F ans calls n0 (n\<lparr>n_client := c, n_got := n_got n @ [(rid, res)]\<rparr>) us ws ds (r1 @ r2)
      (gs @ [(rid, name, a)]) q sq"
    using at rs kept c(1) by (simp add: net_at_def result_of_def)
  then show ?thesis using rs by - (rule exI [of _ "r1 @ r2"], rule exI [of _ "(rid, name, a)"], simp)
qed

lemma net_inv_step:
  assumes laws: "value_laws (env_V E)" "wf_dialect (env_d E)" and inv: "net_inv E F ans calls n0 e n"
    and all: "\<forall>(name, a) \<in> set calls. serves E F ans name a" and step: "net_step E F D redial n n'"
  shows "\<exists>e'. e = Suc e' \<and> net_inv E F ans calls n0 e' n'"
proof -
  obtain us ws ds rs gs q sq where at: "net_at E F ans calls n0 n us ws ds rs gs q sq" and e: "e = net_weight n rs q sq"
    using inv by (auto simp: net_inv_def)
  have intro: "?thesis" if "net_at E F ans calls n0 n' us' ws' ds' rs' gs' q' sq'" "e = Suc (net_weight n' rs' q' sq')"
    for us' ws' ds' rs' gs' q' sq'
    using that unfolding net_inv_def by blast
  from step show ?thesis
  proof cases
    case (issue xs name a ys pick ctx rid c)
    obtain m where "net_at E F ans calls n0 n' (us @ [(rid, name, a)]) ws ds rs gs (q @ [m]) sq"
      using step_issue [OF laws at issue(2,3)] unfolding issue(1) by blast
    then show ?thesis by (rule intro) (simp add: e net_weight_def issue(1,2))
  next
    case (write_request m c)
    obtain q' where "q = m # q'" "net_at E F ans calls n0 n' us ws ds rs gs q' sq"
      using step_write_request [OF at write_request(2)] unfolding write_request(1) by blast
    from this(2) show ?thesis by (rule intro) (simp add: e net_weight_def write_request(1) \<open>q = m # q'\<close>)
  next
    case (dispatch m ms pick err t)
    obtain x us' where d: "net_at E F ans calls n0 n' us' (ws @ [x]) ds rs gs q sq"
      "sc_workers t = sc_workers (n_session n) @ [Started singleFunction m]"
      using step_dispatch [OF laws(1) at dispatch(2,3)] unfolding dispatch(1) by blast
    from d(1) show ?thesis by (rule intro) (simp add: e net_weight_def dispatch(1,2) d(2))
  next
    case (refuse ws1 ft m ws2 t)
    from step_start [OF laws(1) at all this(2,3)] show ?thesis by simp
  next
    case (admitted ws1 ft m ws2 w t)
    obtain reqId name fn args where w: "w = Admitted ft m reqId name fn args"
      "net_at E F ans calls n0 (n\<lparr>n_session := t\<lparr>sc_workers := ws1 @ Admitted ft m reqId name fn args # ws2\<rparr>\<rparr>) us ws ds rs gs q sq"
      using step_start [OF laws(1) at all admitted(2,3)] by blast
    then have "net_at E F ans calls n0 n' us ws ds rs gs q sq" using admitted(1) by simp
    then show ?thesis by (rule intro) (simp add: e net_weight_def admitted(1,2) w(1))
  next
    case (handler ws1 ft m reqId name fn args ws2)
    let ?t = "run_worker E ft m reqId name fn args ((n_session n)\<lparr>sc_workers := ws1 @ ws2\<rparr>)"
    obtain ws' x where h: "net_at E F ans calls n0 n' us ws' (ds @ [x]) rs gs q (sq @ [reply_of E ans x])" "sc_workers ?t = ws1 @ ws2"
      using step_handler [OF laws(1) at all handler(2)] unfolding handler(1) by blast
    from h(1) show ?thesis by (rule intro) (simp add: e net_weight_def handler(1,2) h(2))
  next
    case (write_reply m t)
    obtain sq' where r: "sq = m # sq'" "sc_workers t = sc_workers (n_session n)" "net_at E F ans calls n0 n' us ws ds rs gs q sq'"
      using step_write_reply [OF at write_reply(2)] unfolding write_reply(1) by blast
    from r(3) show ?thesis by (rule intro) (simp add: e net_weight_def write_reply(1) r(1,2))
  next
    case (response m ms pick c)
    obtain ds' x where "net_at E F ans calls n0 n' us ws ds' (x # rs) gs q sq"
      using step_response [OF laws at all response(2,3)] unfolding response(1) by blast
    then show ?thesis by (rule intro) (simp add: e net_weight_def response(1,2))
  next
    case (return rid rc ev res c)
    obtain rs' x where r: "net_at E F ans calls n0 n' us ws ds rs' (gs @ [x]) q sq" "length rs = Suc (length rs')"
      using step_return [OF at return(2-6)] unfolding return(1) by blast
    from r(1) show ?thesis by (rule intro) (simp add: e net_weight_def return(1) r(2))
  qed
qed

section \<open>Progress\<close>

lemma stuck_up:
  assumes laws: "value_laws (env_V E)" "wf_dialect (env_d E)" and at: "net_at E F ans calls n0 n us ws ds rs gs q sq"
    and stuck: "\<nexists>n'. net_step E F D redial n n'"
  shows "n_todo n = []" "us = []"
proof -
  have live: "client_live q (n_client n)" and ok: "session_ok (length calls) (length ws) sq (n_session n)"
    and us: "list_all2 (is_request E) us (n_up n @ q)" and nb: "numbered n0 calls n"
    using at by (simp_all add: net_at_def)
  show "n_todo n = []"
  proof (rule ccontr)
    assume "n_todo n \<noteq> []"
    then obtain name a ys where "n_todo n = [] @ (name, a) # ys" by (cases "n_todo n") auto
    moreover obtain c where "invokeUnary_begin E D True (\<lambda>t. t) Background name (Some a) (n_client n) =
        Some (Inr (cl_lastRequest (n_client n) + 1), c)"
      using issue_call [OF laws live, of D True Background name a] by blast
    ultimately have "net_step E F D redial n (n\<lparr>n_todo := [] @ ys, n_made := n_made n @ [(cl_lastRequest (n_client n) + 1, name, a)],
        n_client := c\<rparr>)"
      by (rule net_step.issue)
    then show False using stuck by blast
  qed
  have "client_out (n_client n) = None"
  proof (cases "client_out (n_client n)")
    case (Some r)
    then show ?thesis using stuck net_step.write_request [of n "fst r" "snd r" E F D redial] by auto
  qed
  then have "q = []" using client_out_live(1) live by (cases q) fastforce+
  moreover have "n_up n = []"
  proof (rule ccontr)
    assume "n_up n \<noteq> []"
    then obtain m ms where up: "n_up n = m # ms" by (cases "n_up n") auto
    then obtain x us' where x: "us = x # us'" "is_request E x m" using us by (auto simp: list_all2_Cons2)
    have "length ws < length calls" using net_at_ids(3) [OF at] numbered_length [OF nb] x(1) by simp
    from session_takes_request [OF laws(1) ok this x(2), of True] obtain t where "processRequest E True m (n_session n) = Some (None, t)"
      by blast
    from net_step.dispatch [OF up this, of F D redial] show False using stuck by blast
  qed
  ultimately show "us = []" using us by simp
qed

lemma stuck_down:
  assumes laws: "value_laws (env_V E)" "wf_dialect (env_d E)" and at: "net_at E F ans calls n0 n us ws ds rs gs q sq"
    and all: "\<forall>(name, a) \<in> set calls. serves E F ans name a" and stuck: "\<nexists>n'. net_step E F D redial n n'"
  shows "ws = []" "ds = []" "rs = []"
proof -
  have ok: "session_ok (length calls) (length ws) sq (n_session n)" and ws: "list_all2 (works_on E F) ws (sc_workers (n_session n))"
    and ds: "n_down n @ sq = map (reply_of E ans) ds" using at by (simp_all add: net_at_def)
  have "sc_workers (n_session n) = []"
  proof (rule ccontr)
    assume "sc_workers (n_session n) \<noteq> []"
    then obtain w ws2 where w: "sc_workers (n_session n) = [] @ w # ws2" by (cases "sc_workers (n_session n)") auto
    show False
    proof (cases w)
      case (Started ft m)
      obtain w' t where s: "start_worker E F ft m ((n_session n)\<lparr>sc_workers := [] @ ws2\<rparr>) = (w', t)" by force
      show False
      proof (cases w')
        case None
        from net_step.refuse [OF w [unfolded Started] s [unfolded None], of D redial] show False using stuck by blast
      next
        case (Some a)
        from net_step.admitted [OF w [unfolded Started] s [unfolded Some], of D redial] show False using stuck by blast
      qed
    next
      case (Admitted ft m reqId name fn args)
      from net_step.handler [OF w [unfolded Admitted], of E F D redial] show False using stuck by blast
    qed
  qed
  then show "ws = []" using ws by simp
  have "session_out (n_session n) = None"
  proof (cases "session_out (n_session n)")
    case (Some r)
    then show ?thesis using stuck net_step.write_reply [of n "fst r" "snd r" E F D redial] by auto
  qed
  then have "sq = []" using session_writes(1) ok by (cases sq) fastforce+
  moreover have "n_down n = []"
  proof (rule ccontr)
    assume "n_down n \<noteq> []"
    then obtain m ms where down: "n_down n = m # ms" by (cases "n_down n") auto
    then obtain rid name a ds' where x: "ds = (rid, name, a) # ds'" "m = reply_of E ans (rid, name, a)" using ds by (cases ds) auto
    have "waits (n_client n) rid" "cl_servingMap (n_client n) rid = None" using at x(1) by (simp_all add: net_at_def)
    moreover have "ans name a \<noteq> Panicked" using made_served [OF at all] x(1) by (auto simp: serves_def)
    ultimately obtain c where "getResponseHandler E redial True m (n_client n) = Some c"
      using response_answers [OF laws, of "n_client n" rid "ans name a" redial True name] x(2) by (auto simp: reply_of_def)
    from net_step.response [OF down this, of F D] show False using stuck by blast
  qed
  ultimately show "ds = []" using ds by simp
  show "rs = []"
  proof (rule ccontr)
    assume "rs \<noteq> []"
    then obtain rid name a rs' where x: "rs = (rid, name, a) # rs'" by (cases rs) auto
    have got: "fst ` set (n_got n) = fst ` set gs" using at by (simp add: net_at_def image_image)
    have ids: "rid \<in> fst ` set (n_made n)" "rid \<notin> fst ` set (n_got n)"
      unfolding got net_at_ids(2) [OF at] using net_at_ids(1) [OF at] x by auto
    obtain rc where rc: "cl_ctxs (n_client n) rid = Some rc" "answered (env_V E) name (ans name a) rc"
      using at x by (auto simp: net_at_def has_answer_def)
    then obtain ev c where "channel_event rc = Some ev"
        "invokeUnary_end E redial rid ev (n_client n) = Some (call_result (env_V E) name (ans name a), c)"
      using caller_takes by blast
    from net_step.return [OF ids rc(1) this, of F D] show False using stuck by blast
  qed
qed

section \<open>Every call gets its own answer\<close>

lemma net_start_inv:
  assumes "client_live [] c" and "cl_servingMap c = Map.empty" and "session_ok (length calls) 0 [] t" and "sc_workers t = []"
    and "length calls < 2 ^ 64"
  shows "net_inv E F ans calls (cl_lastRequest c) (8 * length calls) (net_start calls c t)"
  unfolding net_inv_def using assms
  by (intro exI [of _ "[]"]) (simp add: net_at_def numbered_def net_start_def net_weight_def)

lemma net_run_inv:
  assumes "value_laws (env_V E)" "wf_dialect (env_d E)" and "\<forall>(name, a) \<in> set calls. serves E F ans name a"
    and "(net_step E F D redial ^^ k) n n'" and "net_inv E F ans calls n0 e n"
  shows "\<exists>e'. k + e' = e \<and> net_inv E F ans calls n0 e' n'"
  using assms(4)
proof (induction k arbitrary: n')
  case 0
  then show ?case using assms(5) by auto
next
  case (Suc k)
  then obtain n1 where n1: "(net_step E F D redial ^^ k) n n1" "net_step E F D redial n1 n'" by auto
  from Suc.IH [OF n1(1)] obtain e1 where e1: "k + e1 = e" "net_inv E F ans calls n0 e1 n1" by blast
  from net_inv_step [OF assms(1,2) e1(2) assms(3) n1(2)] e1(1) show ?case by auto
qed

text \<open>
  C1. Concurrent calls on one connection. From an idle client and session, for calls to functions the
  server serves (no limit on handlers, or one that admits them all), on every interleaving of the callers,
  the client's loops, the session's read loop, its workers and its sender: the run takes at most eight steps
  per call, the ids of the calls are distinct, a call returns at most once and only with what the handler
  of that function answers to its argument, and when nothing can move any more every call has been made and
  has returned.
\<close>

theorem concurrent_calls_correlate:
  assumes "value_laws (env_V E)" and "wf_dialect (env_d E)"
    and "client_live [] c" and "cl_servingMap c = Map.empty" and "session_ok (length calls) 0 [] t" and "sc_workers t = []"
    and "length calls < 2 ^ 64" and "\<forall>(name, a) \<in> set calls. serves E F ans name a"
    and "(net_step E F D redial ^^ k) (net_start calls c t) n"
  shows "k \<le> 8 * length calls \<and> distinct (map fst (n_made n)) \<and> distinct (map fst (n_got n)) \<and>
    (\<forall>(rid, r) \<in> set (n_got n). \<exists>name a. (rid, name, a) \<in> set (n_made n) \<and> r = call_result (env_V E) name (ans name a)) \<and>
    ((\<nexists>n'. net_step E F D redial n n') \<longrightarrow>
       mset (map snd (n_made n)) = mset calls \<and> set (map fst (n_got n)) = set (map fst (n_made n)))"
proof -
  obtain e us ws ds rs gs q sq where k: "k + e = 8 * length calls"
    and n: "net_at E F ans calls (cl_lastRequest c) n us ws ds rs gs q sq"
    using net_run_inv [OF assms(1,2,8,9) net_start_inv [OF assms(3-7)]] unfolding net_inv_def by blast
  have got: "n_got n = map (result_of E ans) gs" and nb: "numbered (cl_lastRequest c) calls n" using n by (simp_all add: net_at_def)
  have ids: "map fst (n_got n) = map fst gs" by (simp add: got)
  then have "distinct (map fst (n_got n))" using net_at_ids(1) [OF n] by simp
  moreover have "\<exists>name a. (rid, name, a) \<in> set (n_made n) \<and> r = call_result (env_V E) name (ans name a)"
    if "(rid, r) \<in> set (n_got n)" for rid r
    using that net_at_ids(2) [OF n] by (auto simp: got result_of_def split: prod.splits)
  moreover have "mset (map snd (n_made n)) = mset calls \<and> set (map fst (n_got n)) = set (map fst (n_made n))"
    if stuck: "\<nexists>n'. net_step E F D redial n n'"
  proof -
    note empty = stuck_up [OF assms(1,2) n stuck] stuck_down [OF assms(1,2) n assms(8) stuck]
    have "mset (map snd (n_made n)) + mset (n_todo n) = mset calls" using nb by (simp only: numbered_def)
    moreover have "set (n_made n) = set gs" using net_at_ids(2) [OF n] empty by simp
    ultimately show ?thesis unfolding ids using empty by simp
  qed
  ultimately show ?thesis using k numbered_distinct(1) [OF nb] by auto
qed

theorem concurrent_calls_correlate_witness:
  "\<exists>k n. (net_step sample_env sample_functions refused (\<lambda>_. None) ^^ k)
      (net_start [(''f'', GLong 5), (''f'', GLong 6)] sample_connected (NewServingClient 7 [] [] 0 sample_cfg False)) n \<and>
    (\<nexists>n'. net_step sample_env sample_functions refused (\<lambda>_. None) n n') \<and> distinct (map fst (n_got n)) \<and>
    mset (map snd (n_made n)) = mset [(''f'', GLong 5), (''f'', GLong 6)] \<and> set (map fst (n_got n)) = set (map fst (n_made n))"
proof -
  let ?calls = "[(''f'', GLong 5), (''f'', GLong 6)]" let ?t = "NewServingClient 7 [] [] 0 sample_cfg False :: gval servingClient"
  have c: "client_live [] sample_connected" "cl_servingMap sample_connected = Map.empty"
    by (simp_all add: client_live_def sample_connected_fields)
  have t: "session_ok (length ?calls) 0 [] ?t" "sc_workers ?t = []"
    by (simp_all add: session_ok_def NewServingClient_def sample_cfg_def)
  have calls: "length ?calls < 2 ^ 64" "\<forall>(name, a) \<in> set ?calls. serves sample_env sample_functions (\<lambda>_ a. Returned (Some a)) name a"
    by (simp_all add: serves_def sample_functions_def Verify_def)
  have all: "k \<le> 8 * length ?calls \<and> ((\<nexists>n'. net_step sample_env sample_functions refused (\<lambda>_. None) n n') \<longrightarrow>
      distinct (map fst (n_got n)) \<and> mset (map snd (n_made n)) = mset ?calls \<and> set (map fst (n_got n)) = set (map fst (n_made n)))"
    if "(net_step sample_env sample_functions refused (\<lambda>_. None) ^^ k) (net_start ?calls sample_connected ?t) n" for k n
    using concurrent_calls_correlate [OF sample_env_laws(1,2) c t calls that] by blast
  show ?thesis by (rule bounded_run_ends) (erule all)
qed

end
