(* ===== verification/Resilience.thy ===== *)
theory Resilience
  imports Client
begin

text \<open>
  The client interceptors of \<^verbatim>\<open>resilience\<close>: retries with back-off (\<^verbatim>\<open>retry.go\<close>), the circuit
  breaker (\<^verbatim>\<open>breaker.go\<close>), and the timeout, fallback, bulkhead and rate limit of \<^verbatim>\<open>policies.go\<close>. They
  are values of \<^typ>\<open>('s, 'v) ClientInterceptor\<close>; what they keep between calls is a part of the state,
  and a time is a number of nanoseconds on the monotonic clock.
\<close>

section \<open>Retry\<close>

record retryConfig =
  rt_maxAttempts :: int
  rt_base :: int64
  rt_max :: int64
  rt_jitter :: bool
  rt_retryable :: "string \<Rightarrow> gerror \<Rightarrow> bool"

type_synonym RetryOption = "retryConfig \<Rightarrow> retryConfig"

definition WithMaxAttempts :: "int \<Rightarrow> RetryOption" where
  "WithMaxAttempts n c = (let n = (if n < 1 then 1 else n) in c\<lparr>rt_maxAttempts := n\<rparr>)"

definition WithBackoff :: "int64 \<Rightarrow> int64 \<Rightarrow> RetryOption" where
  "WithBackoff base mx c = c\<lparr>rt_base := base, rt_max := mx\<rparr>"

definition WithJitter :: "bool \<Rightarrow> RetryOption" where
  "WithJitter on c = c\<lparr>rt_jitter := on\<rparr>"

definition WithRetryable :: "(string \<Rightarrow> gerror \<Rightarrow> bool) \<Rightarrow> RetryOption" where
  "WithRetryable f c = c\<lparr>rt_retryable := f\<rparr>"

definition defaultRetryable :: "string \<Rightarrow> gerror \<Rightarrow> bool" where
  "defaultRetryable m err =
     (CodeOf (Some err) = CodeUnavailable \<or> CodeOf (Some err) = CodeResourceExhausted)"

text \<open>
  The loop of the interceptor. \<open>rand\<close> draws the number behind \<^verbatim>\<open>rand.Int64N\<close>, \<open>wait\<close> sleeps and tells
  whether the timer fired before the context was done.
\<close>

function retry_attempts ::
    "retryConfig \<Rightarrow> ('s \<Rightarrow> int64 \<times> 's) \<Rightarrow> (int64 \<Rightarrow> call_ctx \<Rightarrow> 's \<Rightarrow> bool \<times> 's) \<Rightarrow> ('s, 'v) Invoker \<Rightarrow>
     call_ctx \<Rightarrow> string \<Rightarrow> 'v option \<Rightarrow> int \<Rightarrow> int64 \<Rightarrow> 's \<Rightarrow> (gerror + 'v option) \<times> 's" where
  "retry_attempts cfg rand wait next ctx method r attempt delay s =
     (case next ctx method r s of
        (Inr v, s) \<Rightarrow> (Inr v, s)
      | (Inl err, s) \<Rightarrow>
          if attempt \<ge> rt_maxAttempts cfg \<or> \<not> rt_retryable cfg method err then (Inl err, s)
          else
            (let jit = (rt_jitter cfg \<and> sint delay > 0);
                 (rnd, s) = (if jit then rand s else (0, s))
             in case wait (jittered jit rnd delay) ctx s of
                  (False, s) \<Rightarrow> (Inl err, s)
                | (True, s) \<Rightarrow>
                    (let delay = delay * 2;
                         delay = (if sint delay > sint (rt_max cfg) then rt_max cfg else delay)
                     in retry_attempts cfg rand wait next ctx method r (attempt + 1) delay s)))"
  by auto

termination
  by (relation "measure (\<lambda>(cfg, _, _, _, _, _, _, attempt, _). nat (rt_maxAttempts cfg - attempt))") auto

declare retry_attempts.simps [simp del]

definition retry_config :: "RetryOption list \<Rightarrow> retryConfig" where
  "retry_config opts = fold (\<lambda>opt c. opt c) opts
     \<lparr>rt_maxAttempts = 3, rt_base = 50000000, rt_max = 1000000000, rt_jitter = True,
      rt_retryable = defaultRetryable\<rparr>"

definition Retry ::
    "('s \<Rightarrow> int64 \<times> 's) \<Rightarrow> (int64 \<Rightarrow> call_ctx \<Rightarrow> 's \<Rightarrow> bool \<times> 's) \<Rightarrow> RetryOption list \<Rightarrow> ('s, 'v) ClientInterceptor" where
  "Retry rand wait opts =
     (let cfg = retry_config opts
      in (\<lambda>next ctx method r s. retry_attempts cfg rand wait next ctx method r 1 (rt_base cfg) s))"

section \<open>Circuit breaker\<close>

datatype breakerState = stateClosed | stateOpen | stateHalfOpen

record breakerConfig =
  threshold :: int
  cooldown :: int64
  maxProbes :: int
  isFailure :: "gerror option \<Rightarrow> bool"

type_synonym BreakerOption = "breakerConfig \<Rightarrow> breakerConfig"

definition WithFailureThreshold :: "int \<Rightarrow> BreakerOption" where
  "WithFailureThreshold n c = (let n = (if n < 1 then 1 else n) in c\<lparr>threshold := n\<rparr>)"

definition WithCooldown :: "int64 \<Rightarrow> BreakerOption" where
  "WithCooldown d c = c\<lparr>cooldown := d\<rparr>"

definition WithHalfOpenProbes :: "int \<Rightarrow> BreakerOption" where
  "WithHalfOpenProbes n c = (let n = (if n < 1 then 1 else n) in c\<lparr>maxProbes := n\<rparr>)"

definition WithIsFailure :: "(gerror option \<Rightarrow> bool) \<Rightarrow> BreakerOption" where
  "WithIsFailure f c = c\<lparr>isFailure := f\<rparr>"

definition defaultIsFailure :: "gerror option \<Rightarrow> bool" where
  "defaultIsFailure err =
     (if err = None then False
      else CodeOf err \<notin> {CodeInvalidArgument, CodeNotFound, CodeUnauthenticated, CodeCanceled})"

record breaker =
  br_state :: breakerState
  consec :: int
  openedAt :: int
  probes :: int

definition new_breaker :: breaker where
  "new_breaker = \<lparr>br_state = stateClosed, consec = 0, openedAt = 0, probes = 0\<rparr>"

definition breaker_allow :: "breakerConfig \<Rightarrow> int \<Rightarrow> breaker \<Rightarrow> bool \<times> breaker" where
  "breaker_allow cfg now b =
     (case br_state b of
        stateOpen \<Rightarrow>
          if now - openedAt b \<ge> sint (cooldown cfg) then (True, b\<lparr>br_state := stateHalfOpen, probes := 1\<rparr>)
          else (False, b)
      | stateHalfOpen \<Rightarrow>
          if probes b < maxProbes cfg then (True, b\<lparr>probes := probes b + 1\<rparr>) else (False, b)
      | stateClosed \<Rightarrow> (True, b))"

definition trip :: "int \<Rightarrow> breaker \<Rightarrow> breaker" where
  "trip now b = b\<lparr>br_state := stateOpen, openedAt := now, probes := 0\<rparr>"

definition record_outcome :: "breakerConfig \<Rightarrow> int \<Rightarrow> bool \<Rightarrow> breaker \<Rightarrow> breaker" where
  "record_outcome cfg now failed b =
     (case br_state b of
        stateClosed \<Rightarrow>
          if failed then
            (let b = b\<lparr>consec := consec b + 1\<rparr> in if consec b \<ge> threshold cfg then trip now b else b)
          else b\<lparr>consec := 0\<rparr>
      | stateHalfOpen \<Rightarrow>
          if failed then trip now b
          else
            (let b = b\<lparr>probes := probes b - 1\<rparr>
             in if probes b \<le> 0 then b\<lparr>br_state := stateClosed, consec := 0\<rparr> else b)
      | stateOpen \<Rightarrow> b)"

text \<open>What the interceptors keep: the breakers by method, the bucket of the rate limit; and the clock.\<close>

record tokenBucket =
  tokens :: real
  bk_max :: real
  perSec :: real
  bk_last :: int

record rstate =
  rs_clock :: int
  rs_breakers :: "string \<rightharpoonup> breaker"
  rs_bucket :: tokenBucket

definition error_of :: "gerror + 'v option \<Rightarrow> gerror option" where
  "error_of res = (case res of Inl err \<Rightarrow> Some err | Inr _ \<Rightarrow> None)"

definition defaultBreakerConfig :: breakerConfig where
  "defaultBreakerConfig = \<lparr>threshold = 5, cooldown = 10000000000, maxProbes = 1, isFailure = defaultIsFailure\<rparr>"

text \<open>The breaker is shared by pointer: its outcome is recorded in what it has become during the call.\<close>

definition CircuitBreaker :: "BreakerOption list \<Rightarrow> ('s rstate_scheme, 'v) ClientInterceptor" where
  "CircuitBreaker opts =
     (let cfg = fold (\<lambda>opt c. opt c) opts defaultBreakerConfig
      in (\<lambda>next ctx method r s.
            let b = (case rs_breakers s method of Some b \<Rightarrow> b | None \<Rightarrow> new_breaker);
                (ok, b) = breaker_allow cfg (rs_clock s) b;
                s = s\<lparr>rs_breakers := (rs_breakers s)(method \<mapsto> b)\<rparr>
            in if \<not> ok then (Inl (NewError CodeUnavailable (''circuit breaker open for '' @ Quote method)), s)
               else
                 (let (res, s) = next ctx method r s;
                      b = record_outcome cfg (rs_clock s) (isFailure cfg (error_of res)) (the (rs_breakers s method))
                  in (res, s\<lparr>rs_breakers := (rs_breakers s)(method \<mapsto> b)\<rparr>))))"

section \<open>Timeout, fallback, bulkhead\<close>

text \<open>\<^verbatim>\<open>context.WithTimeout\<close>: an earlier deadline of the parent stays, a deadline that has passed is an error.\<close>

definition ctx_WithTimeout :: "int64 \<Rightarrow> call_ctx \<Rightarrow> call_ctx" where
  "ctx_WithTimeout d ctx =
     (let own = ctx\<lparr>ctx_deadline := Some (sint d),
          ctx_err := (case ctx_err ctx of
                        Some e \<Rightarrow> Some e
                      | None \<Rightarrow> if sint d \<le> 0 then Some context_DeadlineExceeded else None)\<rparr>
      in case ctx_deadline ctx of
           Some cur \<Rightarrow> if cur < sint d then ctx else own
         | None \<Rightarrow> own)"

definition Timeout :: "int64 \<Rightarrow> ('s, 'v) ClientInterceptor" where
  "Timeout d next ctx method r s = next (ctx_WithTimeout d ctx) method r s"

definition Fallback ::
    "(call_ctx \<Rightarrow> string \<Rightarrow> 'v option \<Rightarrow> gerror \<Rightarrow> 's \<Rightarrow> (gerror + 'v option) \<times> 's) \<Rightarrow> ('s, 'v) ClientInterceptor" where
  "Fallback fn next ctx method r s =
     (case next ctx method r s of
        (Inl err, s) \<Rightarrow> fn ctx method r err s
      | (Inr res, s) \<Rightarrow> (Inr res, s))"

text \<open>
  The semaphore of a bulkhead is the number of slots taken. Entering waits (\<^term>\<open>None\<close>) while there is
  neither a free slot nor a context that is done; \<open>pick\<close> is the choice of \<^verbatim>\<open>select\<close> when both are
  there. The slot is given back by a deferred receive, whichever way the call ends.
\<close>

definition bulkhead_cap :: "int \<Rightarrow> nat" where
  "bulkhead_cap maxConcurrent = nat (if maxConcurrent < 1 then 1 else maxConcurrent)"

definition Bulkhead_enter ::
    "int \<Rightarrow> bool \<Rightarrow> call_ctx \<Rightarrow> string \<Rightarrow> nat \<Rightarrow> ((gerror + unit) \<times> nat) option" where
  "Bulkhead_enter maxConcurrent pick ctx method sem =
     (case ctx_err ctx of
        None \<Rightarrow> if sem < bulkhead_cap maxConcurrent then Some (Inr (), sem + 1) else None
      | Some err \<Rightarrow>
          if sem < bulkhead_cap maxConcurrent \<and> pick then Some (Inr (), sem + 1)
          else Some (Inl (NewError CodeResourceExhausted
                 (''bulkhead full for '' @ Quote method @ '': '' @ Error_text err)), sem))"

definition Bulkhead_leave :: "nat \<Rightarrow> nat" where
  "Bulkhead_leave sem = sem - 1"

section \<open>Rate limit\<close>

text \<open>
  The bucket computes in \<^verbatim>\<open>float64\<close>: every operation is the exact one followed by a rounding, the
  argument \<open>rnd\<close>.
\<close>

definition Seconds :: "(real \<Rightarrow> real) \<Rightarrow> int \<Rightarrow> real" where
  "Seconds rnd d =
     rnd (rnd (of_int (go_div d 1000000000)) + rnd (rnd (of_int (d - go_div d 1000000000 * 1000000000)) / 1000000000))"

definition bucket_allow :: "(real \<Rightarrow> real) \<Rightarrow> int \<Rightarrow> tokenBucket \<Rightarrow> bool \<times> tokenBucket" where
  "bucket_allow rnd now t =
     (let t = t\<lparr>tokens := rnd (tokens t + rnd (Seconds rnd (now - bk_last t) * perSec t))\<rparr>;
          t = (if tokens t > bk_max t then t\<lparr>tokens := bk_max t\<rparr> else t);
          t = t\<lparr>bk_last := now\<rparr>
      in if tokens t \<ge> 1 then (True, t\<lparr>tokens := rnd (tokens t - 1)\<rparr>) else (False, t))"

definition new_bucket :: "(real \<Rightarrow> real) \<Rightarrow> real \<Rightarrow> int \<Rightarrow> int \<Rightarrow> tokenBucket" where
  "new_bucket rnd perSecond burst now =
     (let burst = (if burst < 1 then 1 else burst)
      in \<lparr>tokens = rnd (of_int burst), bk_max = rnd (of_int burst), perSec = perSecond, bk_last = now\<rparr>)"

definition RateLimit :: "(real \<Rightarrow> real) \<Rightarrow> ('s rstate_scheme, 'v) ClientInterceptor" where
  "RateLimit rnd next ctx method r s =
     (let (ok, bk) = bucket_allow rnd (rs_clock s) (rs_bucket s); s = s\<lparr>rs_bucket := bk\<rparr>
      in if \<not> ok then (Inl (NewError CodeResourceExhausted (''rate limit exceeded for '' @ Quote method)), s)
         else next ctx method r s)"

section \<open>Retries\<close>

text \<open>
  A trace of the calls: each call appends its result, drawing a number and sleeping append nothing.
  Every delay slept is in a trace of its own.
\<close>

definition traces ::
    "('s \<Rightarrow> (gerror + 'v option) list) \<Rightarrow> ('s \<Rightarrow> int64 list) \<Rightarrow> ('s \<Rightarrow> int64 \<times> 's) \<Rightarrow>
     (int64 \<Rightarrow> call_ctx \<Rightarrow> 's \<Rightarrow> bool \<times> 's) \<Rightarrow> ('s, 'v) Invoker \<Rightarrow> bool" where
  "traces calls slept rand wait next \<longleftrightarrow>
     (\<forall>ctx m r s. calls (snd (next ctx m r s)) = calls s @ [fst (next ctx m r s)] \<and> slept (snd (next ctx m r s)) = slept s) \<and>
     (\<forall>s. calls (snd (rand s)) = calls s \<and> slept (snd (rand s)) = slept s) \<and>
     (\<forall>d ctx s. calls (snd (wait d ctx s)) = calls s \<and> slept (snd (wait d ctx s)) = slept s @ [d])"

lemma tracesD:
  assumes "traces calls slept rand wait next"
  shows "next ctx m r s = (res, s1) \<Longrightarrow> calls s1 = calls s @ [res] \<and> slept s1 = slept s"
    and "rand s = (rnd, s1) \<Longrightarrow> calls s1 = calls s \<and> slept s1 = slept s"
    and "wait d ctx s = (fired, s1) \<Longrightarrow> calls s1 = calls s \<and> slept s1 = slept s @ [d]"
  using assms unfolding traces_def by (metis fst_conv snd_conv)+

lemma retry_attempts_cases:
  assumes tr: "traces calls slept rand wait next"
    and out: "retry_attempts cfg rand wait next ctx method r attempt delay s = (res, s')"
  obtains (last) "calls s' = calls s @ [res]" "slept s' = slept s"
      "\<And>e. res = Inl e \<Longrightarrow> attempt \<ge> rt_maxAttempts cfg \<or> \<not> rt_retryable cfg method e"
  | (gave_up) err rnd where "res = Inl err" "calls s' = calls s @ [res]" "rt_retryable cfg method err"
      "slept s' = slept s @ [jittered (rt_jitter cfg \<and> sint delay > 0) rnd delay]" "attempt < rt_maxAttempts cfg"
  | (again) err rnd s1 where "rt_retryable cfg method err" "attempt < rt_maxAttempts cfg"
      "calls s1 = calls s @ [Inl err]" "slept s1 = slept s @ [jittered (rt_jitter cfg \<and> sint delay > 0) rnd delay]"
      "retry_attempts cfg rand wait next ctx method r (attempt + 1)
         (if sint (delay * 2) > sint (rt_max cfg) then rt_max cfg else delay * 2) s1 = (res, s')"
proof -
  let ?jit = "rt_jitter cfg \<and> sint delay > 0"
  obtain res1 s1 where n: "next ctx method r s = (res1, s1)" by fastforce
  then have s1: "calls s1 = calls s @ [res1]" "slept s1 = slept s" using tracesD(1) [OF tr] by auto
  show ?thesis
  proof (cases "\<exists>err. res1 = Inl err \<and> attempt < rt_maxAttempts cfg \<and> rt_retryable cfg method err")
    case False
    then have "res = res1 \<and> s' = s1"
      using out n by (subst (asm) retry_attempts.simps) (auto split: sum.splits if_splits)
    then show ?thesis using s1 False by (intro last) auto
  next
    case True
    then obtain err where err: "res1 = Inl err" "attempt < rt_maxAttempts cfg" "rt_retryable cfg method err" by blast
    obtain rnd s2 where r: "(if ?jit then rand s1 else (0, s1)) = (rnd, s2)" by fastforce
    then have s2: "calls s2 = calls s1" "slept s2 = slept s1"
      using tracesD(2) [OF tr, of s1] by (auto split: if_splits)
    obtain fired s3 where w: "wait (jittered ?jit rnd delay) ctx s2 = (fired, s3)" by fastforce
    then have s3: "calls s3 = calls s2" "slept s3 = slept s2 @ [jittered ?jit rnd delay]"
      using tracesD(3) [OF tr] by auto
    have "\<not> attempt \<ge> rt_maxAttempts cfg" using err(2) by simp
    then have "retry_attempts cfg rand wait next ctx method r attempt delay s =
        (if fired then retry_attempts cfg rand wait next ctx method r (attempt + 1)
           (if sint (delay * 2) > sint (rt_max cfg) then rt_max cfg else delay * 2) s3
         else (res1, s3))"
      by (subst retry_attempts.simps) (simp only: n r w err Let_def prod.case sum.case, simp add: err split: bool.splits)
    then show ?thesis using gave_up again out s1 s2 s3 err by (cases fired) auto
  qed
qed

lemma jittered_below:
  assumes "0 < sint d" and "sint d \<le> M"
  shows "sint (jittered jit rnd d) \<le> M"
  using jittered_bounds [OF assms(1), of jit rnd] assms(2) by auto

lemma retry_attempts_trace:
  assumes "traces calls slept rand wait next"
    and "retry_attempts cfg rand wait next ctx method r attempt delay s = (res, s')"
  shows "\<exists>errs ds. calls s' = calls s @ map Inl errs @ [res] \<and> slept s' = slept s @ ds \<and>
    length errs \<le> nat (rt_maxAttempts cfg - attempt) \<and> (\<forall>e \<in> set errs. rt_retryable cfg method e) \<and>
    (\<forall>e. res = Inl e \<longrightarrow> \<not> rt_retryable cfg method e \<or> length errs = nat (rt_maxAttempts cfg - attempt) \<or>
       length ds = Suc (length errs)) \<and> length ds \<le> Suc (length errs) \<and>
    (0 < sint delay \<and> sint delay \<le> sint (rt_max cfg) \<and> sint (rt_max cfg) < 2 ^ 62 \<longrightarrow>
       (\<forall>d \<in> set ds. 0 \<le> sint d \<and> sint d \<le> sint (rt_max cfg)))"
  using assms(2)
proof (induction "nat (rt_maxAttempts cfg - attempt)" arbitrary: attempt delay s rule: less_induct)
  case less
  from assms(1) less.prems show ?case
  proof (cases rule: retry_attempts_cases)
    case last
    then show ?thesis by (intro exI [of _ "[]"]) auto
  next
    case (gave_up err rnd)
    then show ?thesis
      by (intro exI [of _ "[] :: gerror list"] exI [of _ "[jittered (rt_jitter cfg \<and> sint delay > 0) rnd delay]"])
         (auto simp: jittered_bounds(1) intro: jittered_below)
  next
    case (again err rnd s1)
    let ?delay = "if sint (delay * 2) > sint (rt_max cfg) then rt_max cfg else delay * 2"
    let ?d = "jittered (rt_jitter cfg \<and> sint delay > 0) rnd delay"
    from less.hyps [OF _ again(5)] again(2) obtain errs ds where IH:
      "calls s' = calls s1 @ map Inl errs @ [res]" "slept s' = slept s1 @ ds"
      "length errs \<le> nat (rt_maxAttempts cfg - (attempt + 1))" "\<forall>e \<in> set errs. rt_retryable cfg method e"
      "\<forall>e. res = Inl e \<longrightarrow> \<not> rt_retryable cfg method e \<or>
         length errs = nat (rt_maxAttempts cfg - (attempt + 1)) \<or> length ds = Suc (length errs)"
      "length ds \<le> Suc (length errs)"
      "0 < sint ?delay \<and> sint ?delay \<le> sint (rt_max cfg) \<and> sint (rt_max cfg) < 2 ^ 62 \<longrightarrow>
         (\<forall>d \<in> set ds. 0 \<le> sint d \<and> sint d \<le> sint (rt_max cfg))"
      by auto
    have "\<forall>d \<in> set (?d # ds). 0 \<le> sint d \<and> sint d \<le> sint (rt_max cfg)"
      if "0 < sint delay" "sint delay \<le> sint (rt_max cfg)" "sint (rt_max cfg) < 2 ^ 62"
      using IH(7) double_capped_bounds [OF that] that by (auto simp: jittered_bounds(1) intro: jittered_below)
    then show ?thesis
      using IH(1-6) again(1-4) by (intro exI [of _ "err # errs"] exI [of _ "?d # ds"]) auto
  qed
qed

lemma retry_config_attempts: "rt_maxAttempts (WithMaxAttempts n c) \<ge> 1"
  by (simp add: WithMaxAttempts_def Let_def)

text \<open>
  C21. What a retried call does: every attempt but the last failed with an error the predicate allows
  to repeat, there are at most \<open>maxAttempts\<close> of them and the caller gets the result of the last one;
  that one is an error worth repeating only when the attempts are used up or the context ended during
  the wait. With a base below the maximum, no wait is longer than the maximum.
\<close>

theorem retry_repeats_only_retryable:
  assumes "traces calls slept rand wait next" and "1 \<le> rt_maxAttempts (retry_config opts)"
    and "Retry rand wait opts next ctx method r s = (res, s')"
  shows "\<exists>errs ds. calls s' = calls s @ map Inl errs @ [res] \<and> slept s' = slept s @ ds \<and>
    int (length errs) < rt_maxAttempts (retry_config opts) \<and>
    (\<forall>e \<in> set errs. rt_retryable (retry_config opts) method e) \<and>
    (\<forall>e. res = Inl e \<longrightarrow> \<not> rt_retryable (retry_config opts) method e \<or>
       int (length errs) + 1 = rt_maxAttempts (retry_config opts) \<or> length ds = Suc (length errs)) \<and>
    length ds \<le> Suc (length errs) \<and>
    (0 < sint (rt_base (retry_config opts)) \<and> sint (rt_base (retry_config opts)) \<le> sint (rt_max (retry_config opts)) \<and>
     sint (rt_max (retry_config opts)) < 2 ^ 62 \<longrightarrow>
       (\<forall>d \<in> set ds. 0 \<le> sint d \<and> sint d \<le> sint (rt_max (retry_config opts))))"
proof -
  have "retry_attempts (retry_config opts) rand wait next ctx method r 1 (rt_base (retry_config opts)) s = (res, s')"
    using assms(3) by (simp add: Retry_def Let_def)
  from retry_attempts_trace [OF assms(1) this] obtain errs ds where
    "calls s' = calls s @ map Inl errs @ [res]" "slept s' = slept s @ ds"
    "length errs \<le> nat (rt_maxAttempts (retry_config opts) - 1)"
    "\<forall>e \<in> set errs. rt_retryable (retry_config opts) method e"
    "\<forall>e. res = Inl e \<longrightarrow> \<not> rt_retryable (retry_config opts) method e \<or>
       length errs = nat (rt_maxAttempts (retry_config opts) - 1) \<or> length ds = Suc (length errs)"
    "length ds \<le> Suc (length errs)"
    "0 < sint (rt_base (retry_config opts)) \<and> sint (rt_base (retry_config opts)) \<le> sint (rt_max (retry_config opts)) \<and>
     sint (rt_max (retry_config opts)) < 2 ^ 62 \<longrightarrow>
       (\<forall>d \<in> set ds. 0 \<le> sint d \<and> sint d \<le> sint (rt_max (retry_config opts)))"
    by blast
  with assms(2) show ?thesis by (intro exI [of _ errs] exI [of _ ds]) auto
qed

text \<open>A network that is unavailable once and then answers, as the trace of its own results.\<close>

definition sample_next :: "((gerror + gval option) list \<times> int64 list, gval) Invoker" where
  "sample_next ctx m r s =
     (let res = (if fst s = [] then Inl (RpcError CodeUnavailable ''down'') else Inr r)
      in (res, (fst s @ [res], snd s)))"

theorem retry_repeats_only_retryable_witness:
  "\<exists>s'. Retry (\<lambda>s. (0, s)) (\<lambda>d ctx s. (True, (fst s, snd s @ [d]))) [] sample_next Background ''f'' (Some (GLong 1)) ([], []) =
     (Inr (Some (GLong 1)), s') \<and> (\<exists>errs. fst s' = map Inl errs @ [Inr (Some (GLong 1))] \<and> int (length errs) < 3)"
proof -
  let ?w = "\<lambda>d (ctx :: call_ctx) s. (True, (fst s, snd s @ [d]))"
  have run: "\<exists>s'. Retry (\<lambda>s. (0, s)) ?w [] sample_next Background ''f'' (Some (GLong 1)) ([], []) = (Inr (Some (GLong 1)), s')"
    by (simp add: Retry_def retry_config_def retry_attempts.simps sample_next_def defaultRetryable_def CodeOf_def
        code_defs Let_def)
  then obtain s' where s': "Retry (\<lambda>s. (0, s)) ?w [] sample_next Background ''f'' (Some (GLong 1)) ([], []) =
      (Inr (Some (GLong 1)), s')" ..
  have tr: "traces fst snd (\<lambda>s. (0, s)) ?w sample_next" by (simp add: traces_def sample_next_def Let_def)
  have "rt_maxAttempts (retry_config []) = 3" by (simp add: retry_config_def)
  with retry_repeats_only_retryable [OF tr _ s'] s' show ?thesis by auto
qed

text \<open>
  A call that was in flight when its connection was lost ends with \<^const>\<open>ErrConnectionLost\<close>, whether or
  not the server had served it, and the default predicate lets \<^const>\<open>Retry\<close> repeat it.
\<close>

lemma lost_call_is_retried:
  assumes "cl_ctxs t rid = Some rc" and "resultErr rc = None" and "\<not> closeOnce rc"
  shows "\<exists>t'. invokeUnary_end E redial rid ResultClosed (failRequest E ErrConnectionLost rid t) =
      Some (Inl ErrConnectionLost, t') \<and>
    rt_retryable (retry_config []) name ErrConnectionLost"
proof -
  have "cl_ctxs (failRequest E ErrConnectionLost rid t) rid =
      Some (Close_request (env_V E) (env_d E) (SetError ErrConnectionLost rc))"
    using failRequest_table [OF assms(1), of E ErrConnectionLost] by (simp add: request_table_def)
  moreover have "resultErr (Close_request (env_V E) (env_d E) (SetError ErrConnectionLost rc)) = Some ErrConnectionLost"
    using assms(2,3) by (simp add: Close_request_def SetError_def closeResult_def Let_def split: option.splits)
  ultimately show ?thesis
    by (simp add: invokeUnary_end_def await_response_def SingleResp_def Error_of_def ErrConnectionLost_def
        retry_config_def defaultRetryable_def CodeOf_def NewError_def code_defs)
qed

section \<open>The circuit breaker\<close>

text \<open>What happens to a breaker: a call asks at a time, or a call that was let through ends at a time.\<close>

datatype breaker_event = Asks int | Ends int bool

fun breaker_run :: "breakerConfig \<Rightarrow> breaker_event list \<Rightarrow> breaker \<Rightarrow> bool list \<times> breaker" where
  "breaker_run cfg [] b = ([], b)"
| "breaker_run cfg (Asks now # evs) b =
     (let (ok, b) = breaker_allow cfg now b; (oks, b) = breaker_run cfg evs b in (ok # oks, b))"
| "breaker_run cfg (Ends now failed # evs) b = breaker_run cfg evs (record_outcome cfg now failed b)"

fun event_time :: "breaker_event \<Rightarrow> int" where
  "event_time (Asks now) = now"
| "event_time (Ends now _) = now"

lemma breaker_run_Asks:
  assumes "breaker_allow cfg now b = (ok, b')"
  shows "fst (breaker_run cfg (Asks now # evs) b) = ok # fst (breaker_run cfg evs b')"
    and "snd (breaker_run cfg (Asks now # evs) b) = snd (breaker_run cfg evs b')"
  using assms by (simp_all add: split_beta)

lemma open_run:
  assumes "br_state b = stateOpen" and "\<forall>ev \<in> set evs. event_time ev - openedAt b < sint (cooldown cfg)"
  shows "snd (breaker_run cfg evs b) = b \<and> True \<notin> set (fst (breaker_run cfg evs b))"
  using assms(2)
proof (induction evs)
  case (Cons ev evs)
  show ?case
  proof (cases ev)
    case (Asks now)
    then have "breaker_allow cfg now b = (False, b)" using assms(1) Cons.prems by (simp add: breaker_allow_def)
    from breaker_run_Asks [OF this, of evs] show ?thesis using Cons Asks by simp
  qed (use Cons assms(1) in \<open>simp add: record_outcome_def\<close>)
qed simp

lemma half_open_asks:
  assumes "br_state b = stateHalfOpen" and "\<forall>ev \<in> set evs. \<exists>now. ev = Asks now" and "probes b \<le> maxProbes cfg"
  shows "int (count_list (fst (breaker_run cfg evs b)) True) \<le> maxProbes cfg - probes b"
  using assms
proof (induction evs arbitrary: b)
  case (Cons ev evs)
  then obtain now where ev: "ev = Asks now" by auto
  let ?b = "b\<lparr>probes := probes b + 1\<rparr>"
  have "breaker_allow cfg now b = (if probes b < maxProbes cfg then (True, ?b) else (False, b))"
    using Cons.prems(1) by (simp add: breaker_allow_def)
  then consider "probes b < maxProbes cfg" "breaker_allow cfg now b = (True, ?b)" | "breaker_allow cfg now b = (False, b)"
    by (auto split: if_splits)
  then show ?case
  proof cases
    case 1
    with Cons.IH [of ?b] Cons.prems breaker_run_Asks [OF 1(2), of evs] show ?thesis by (simp add: ev)
  next
    case 2
    from Cons.IH [of b] Cons.prems breaker_run_Asks [OF 2, of evs] show ?thesis by (simp add: ev)
  qed
qed simp

lemma tripped_asks:
  assumes "br_state b = stateOpen" and "\<forall>ev \<in> set evs. \<exists>now. ev = Asks now" and "1 \<le> maxProbes cfg"
  shows "int (count_list (fst (breaker_run cfg evs b)) True) \<le> maxProbes cfg"
  using assms(2)
proof (induction evs)
  case (Cons ev evs)
  then obtain now where ev: "ev = Asks now" by auto
  let ?b = "b\<lparr>br_state := stateHalfOpen, probes := 1\<rparr>"
  have "breaker_allow cfg now b = (if now - openedAt b \<ge> sint (cooldown cfg) then (True, ?b) else (False, b))"
    using assms(1) by (simp add: breaker_allow_def)
  then consider "breaker_allow cfg now b = (True, ?b)" | "breaker_allow cfg now b = (False, b)"
    by (auto split: if_splits)
  then show ?case
  proof cases
    case 1
    with half_open_asks [of ?b evs cfg] Cons.prems assms(3) breaker_run_Asks [OF 1, of evs] show ?thesis by (simp add: ev)
  next
    case 2
    from Cons breaker_run_Asks [OF 2, of evs] show ?thesis by (simp add: ev)
  qed
qed (use assms(3) in simp)

text \<open>
  C23. What a tripped breaker lets through: before its cooldown has passed, nothing, whatever calls
  still end meanwhile, and it stays open; and until some call ends, never more than \<open>maxProbes\<close>
  calls, at whatever times they ask.
\<close>

theorem tripped_breaker_limits_calls:
  "((\<forall>ev \<in> set evs. event_time ev - now0 < sint (cooldown cfg)) \<longrightarrow>
      snd (breaker_run cfg evs (trip now0 b)) = trip now0 b \<and> True \<notin> set (fst (breaker_run cfg evs (trip now0 b)))) \<and>
   ((\<forall>ev \<in> set evs. \<exists>now. ev = Asks now) \<and> 1 \<le> maxProbes cfg \<longrightarrow>
      int (count_list (fst (breaker_run cfg evs (trip now0 b))) True) \<le> maxProbes cfg)"
  using open_run [of "trip now0 b" evs cfg] tripped_asks [of "trip now0 b" evs cfg] by (simp add: trip_def)

theorem tripped_breaker_limits_calls_witness:
  "True \<notin> set (fst (breaker_run defaultBreakerConfig [Asks 5, Ends 6 False, Asks 7] (trip 0 new_breaker))) \<and>
   int (count_list (fst (breaker_run defaultBreakerConfig [Asks 5, Asks 10000000000, Asks 10000000001] (trip 0 new_breaker))) True) \<le> 1"
  using tripped_breaker_limits_calls [of "[Asks 5, Ends 6 False, Asks 7]" 0 defaultBreakerConfig new_breaker]
    tripped_breaker_limits_calls [of "[Asks 5, Asks 10000000000, Asks 10000000001]" 0 defaultBreakerConfig new_breaker]
  by (simp add: defaultBreakerConfig_def)

text \<open>
  Calls that end while the breaker is closed. It opens with the first run of \<open>threshold\<close> failures that
  no success interrupts.
\<close>

definition outcomes :: "bool list \<Rightarrow> breaker_event list" where
  "outcomes fs = map (Ends 0) fs"

lemma open_outcomes: "br_state b = stateOpen \<Longrightarrow> snd (breaker_run cfg (outcomes fs) b) = b"
  by (induction fs) (auto simp: outcomes_def record_outcome_def)

lemma failures_in_prefix:
  assumes "k < n"
  shows "(\<exists>xs ys. replicate k True @ False # fs = xs @ replicate n True @ ys) \<longleftrightarrow>
    (\<exists>xs ys. fs = xs @ replicate n True @ ys)"
proof
  assume "\<exists>xs ys. fs = xs @ replicate n True @ ys"
  then obtain xs ys where "fs = xs @ replicate n True @ ys" by blast
  then show "\<exists>xs ys. replicate k True @ False # fs = xs @ replicate n True @ ys"
    by (intro exI [of _ "replicate k True @ False # xs"] exI [of _ ys]) simp
next
  assume "\<exists>xs ys. replicate k True @ False # fs = xs @ replicate n True @ ys"
  then obtain xs ys where eq: "replicate k True @ False # fs = xs @ replicate n True @ ys" by blast
  have "k < length xs"
  proof (rule ccontr)
    assume "\<not> k < length xs"
    moreover have "k - length xs < n" using assms by simp
    ultimately have "(xs @ replicate n True @ ys) ! k = True" by (simp add: nth_append)
    moreover have "(replicate k True @ False # fs) ! k = False" by (simp add: nth_append)
    ultimately show False unfolding eq by simp
  qed
  then have "fs = drop (Suc k) xs @ replicate n True @ ys"
    using arg_cong [OF eq, of "drop (Suc k)"] by simp
  then show "\<exists>xs ys. fs = xs @ replicate n True @ ys" by blast
qed

lemma closed_outcomes:
  assumes "br_state b = stateClosed" and "0 \<le> consec b" and "consec b < threshold cfg"
  shows "br_state (snd (breaker_run cfg (outcomes fs) b)) = stateOpen \<longleftrightarrow>
    (\<exists>xs ys. replicate (nat (consec b)) True @ fs = xs @ replicate (nat (threshold cfg)) True @ ys)"
  using assms
proof (induction fs arbitrary: b)
  case Nil
  have "\<not> (\<exists>xs ys. replicate (nat (consec b)) True = xs @ replicate (nat (threshold cfg)) True @ ys)"
    using Nil by (auto dest!: arg_cong [where f = length])
  then show ?case using Nil by (simp add: outcomes_def)
next
  case (Cons f fs)
  show ?case
  proof (cases f)
    case False
    have "record_outcome cfg 0 f b = b\<lparr>consec := 0\<rparr>" using False Cons(2) by (simp add: record_outcome_def)
    with Cons.IH [of "b\<lparr>consec := 0\<rparr>"] Cons.prems False failures_in_prefix [of "nat (consec b)" "nat (threshold cfg)" fs]
    show ?thesis by (simp add: outcomes_def)
  next
    case True
    have shift: "replicate (nat (consec b)) True @ f # fs = replicate (nat (consec b + 1)) True @ fs"
      using True Cons.prems(2) by (simp add: Suc_nat_eq_nat_zadd1 [symmetric] add.commute replicate_app_Cons_same)
    show ?thesis
    proof (cases "consec b + 1 < threshold cfg")
      case less: True
      have "record_outcome cfg 0 f b = b\<lparr>consec := consec b + 1\<rparr>"
        using True less Cons(2) by (simp add: record_outcome_def Let_def)
      with Cons.IH [of "b\<lparr>consec := consec b + 1\<rparr>"] Cons.prems less show ?thesis
        unfolding shift by (simp add: outcomes_def)
    next
      case False
      then have "threshold cfg = consec b + 1" using Cons.prems(3) by simp
      then have "\<exists>xs ys. replicate (nat (consec b + 1)) True @ fs = xs @ replicate (nat (threshold cfg)) True @ ys"
        by (intro exI [of _ "[]"] exI [of _ fs]) simp
      moreover have "record_outcome cfg 0 f b = trip 0 (b\<lparr>consec := consec b + 1\<rparr>)"
        using True False Cons(2) by (simp add: record_outcome_def Let_def)
      ultimately show ?thesis
        unfolding shift using open_outcomes [of "trip 0 (b\<lparr>consec := consec b + 1\<rparr>)" cfg fs]
        by (simp add: outcomes_def trip_def)
    qed
  qed
qed

text \<open>
  C22. A fresh breaker opens exactly when \<open>threshold\<close> calls in a row have failed: not for any number of
  failures with a success in between, and never later.
\<close>

theorem breaker_opens_iff_consecutive_failures:
  "br_state (snd (breaker_run (WithFailureThreshold n cfg) (outcomes fs) new_breaker)) = stateOpen \<longleftrightarrow>
    (\<exists>xs ys. fs = xs @ replicate (nat (max 1 n)) True @ ys)"
  using closed_outcomes [of new_breaker "WithFailureThreshold n cfg" fs]
  by (auto simp: new_breaker_def WithFailureThreshold_def Let_def max_def)

text \<open>
  A call that was let through before the breaker tripped can close it: its success is taken for the
  success of the probe that is still running.
\<close>

lemma straggler_closes_breaker:
  "breaker_run (WithFailureThreshold 1 (WithCooldown 10 defaultBreakerConfig))
      [Asks 0, Asks 1, Ends 2 True, Asks 20, Ends 21 False] new_breaker =
    ([True, True, True], \<lparr>br_state = stateClosed, consec = 0, openedAt = 2, probes = 0\<rparr>)"
  by (simp add: WithFailureThreshold_def WithCooldown_def defaultBreakerConfig_def new_breaker_def breaker_allow_def
      record_outcome_def trip_def Let_def)

text \<open>A probe whose outcome is never recorded, because the call panicked, keeps its slot for good.\<close>

lemma lost_probe_blocks_breaker:
  assumes "br_state b = stateHalfOpen" and "maxProbes cfg \<le> probes b"
  shows "breaker_allow cfg now b = (False, b)"
  using assms by (simp add: breaker_allow_def)

section \<open>The rate limit\<close>

text \<open>Rounding to nearest has a relative error of at most \<open>u\<close>, which is \<open>2\<^sup>-\<^sup>5\<^sup>3\<close> for \<^verbatim>\<open>float64\<close>.\<close>

definition rounding :: "real \<Rightarrow> (real \<Rightarrow> real) \<Rightarrow> bool" where
  "rounding u rnd \<longleftrightarrow> 0 \<le> u \<and> (\<forall>x \<ge> 0. 0 \<le> rnd x \<and> rnd x \<le> x * (1 + u))"

lemma rnd_below:
  assumes "rounding u rnd" and "0 \<le> x" and "x \<le> y * (1 + u) ^ n"
  shows "0 \<le> rnd x" and "rnd x \<le> y * (1 + u) ^ Suc n"
proof -
  show "0 \<le> rnd x" using assms(1,2) by (simp add: rounding_def)
  have "rnd x \<le> x * (1 + u)" using assms(1,2) by (simp add: rounding_def)
  also have "\<dots> \<le> y * (1 + u) ^ n * (1 + u)"
    using assms by (intro mult_right_mono) (auto simp: rounding_def)
  finally show "rnd x \<le> y * (1 + u) ^ Suc n" by (simp add: ac_simps)
qed

lemma Seconds_below:
  assumes "rounding u rnd" and "0 \<le> d"
  shows "0 \<le> Seconds rnd d" and "Seconds rnd d \<le> of_int d / 1000000000 * (1 + u) ^ 3"
proof -
  let ?q = "d div 1000000000" and ?r = "d mod 1000000000"
  have u: "0 \<le> u" using assms(1) by (simp add: rounding_def)
  have eq: "go_div d 1000000000 = ?q" "d - ?q * 1000000000 = ?r"
    using assms(2) by (auto simp: go_div_def minus_div_mult_eq_mod)
  have q: "0 \<le> (of_int ?q :: real)" "0 \<le> (of_int ?r :: real)" using assms(2) by (simp_all add: pos_imp_zdiv_nonneg_iff)
  note a = rnd_below [OF assms(1) q(1), of "of_int ?q" 0, simplified]
  note b = rnd_below [OF assms(1) q(2), of "of_int ?r" 0, simplified]
  have "rnd (of_int ?r) / 1000000000 \<le> of_int ?r / 1000000000 * (1 + u) ^ 1" using b(2) by simp
  note c = rnd_below [OF assms(1) _ this, simplified, OF b(1)]
  have "rnd (of_int ?q) \<le> of_int ?q * (1 + u) ^ 2"
    using a(2) mult_left_mono [OF power_increasing [of 1 2 "1 + u"] q(1)] u by simp
  then have "rnd (of_int ?q) + rnd (rnd (of_int ?r) / 1000000000) \<le>
      (of_int ?q + of_int ?r / 1000000000) * (1 + u) ^ 2"
    using c(2) by (simp add: distrib_right numeral_2_eq_2)
  moreover have "of_int ?q * 1000000000 + of_int ?r = (of_int d :: real)"
    by (metis div_mult_mod_eq of_int_add of_int_mult of_int_numeral)
  then have "of_int ?q + of_int ?r / 1000000000 = (of_int d / 1000000000 :: real)" by simp
  ultimately have "rnd (of_int ?q) + rnd (rnd (of_int ?r) / 1000000000) \<le> of_int d / 1000000000 * (1 + u) ^ 2" by simp
  note r = rnd_below [OF assms(1) _ this, OF add_nonneg_nonneg [OF a(1) c(1)]]
  show "0 \<le> Seconds rnd d" using r(1) by (simp add: Seconds_def eq)
  show "Seconds rnd d \<le> of_int d / 1000000000 * (1 + u) ^ 3" using r(2) by (simp add: Seconds_def eq eval_nat_numeral)
qed

definition bucket_ok :: "tokenBucket \<Rightarrow> bool" where
  "bucket_ok b \<longleftrightarrow> 0 \<le> tokens b \<and> tokens b \<le> bk_max b \<and> 0 \<le> perSec b"

lemma bucket_refill:
  assumes "rounding u rnd" and "bucket_ok b" and "bk_last b \<le> now"
    and "t = rnd (tokens b + rnd (Seconds rnd (now - bk_last b) * perSec b))"
  shows "0 \<le> t"
    and "t \<le> tokens b + u * bk_max b + of_int (now - bk_last b) / 1000000000 * perSec b * (1 + u) ^ 5"
proof -
  let ?dt = "of_int (now - bk_last b) / 1000000000 :: real"
  let ?refill = "rnd (Seconds rnd (now - bk_last b) * perSec b)"
  have b: "0 \<le> tokens b" "tokens b \<le> bk_max b" "0 \<le> perSec b" "0 \<le> u"
    using assms(1,2) by (auto simp: bucket_ok_def rounding_def)
  note secs = Seconds_below [OF assms(1), of "now - bk_last b"]
  have "Seconds rnd (now - bk_last b) * perSec b \<le> ?dt * perSec b * (1 + u) ^ 3"
    using mult_right_mono [OF secs(2) b(3)] assms(3) by (simp add: ac_simps)
  note refill = rnd_below [OF assms(1) _ this, OF mult_nonneg_nonneg [OF secs(1) b(3)]]
  have r0: "0 \<le> ?refill" and r: "?refill \<le> ?dt * perSec b * (1 + u) ^ 4"
    using refill assms(3) by (simp_all add: eval_nat_numeral)
  show "0 \<le> t" using assms(1,4) b r0 by (auto simp: rounding_def)
  have "t \<le> (tokens b + ?refill) * (1 + u)" using assms(1,4) b r0 by (auto simp: rounding_def)
  also have "\<dots> = tokens b + u * tokens b + ?refill * (1 + u)" by (simp add: algebra_simps)
  also have "\<dots> \<le> tokens b + u * bk_max b + ?dt * perSec b * (1 + u) ^ 4 * (1 + u)"
    using r b by (intro add_mono mult_left_mono mult_right_mono) auto
  finally show "t \<le> tokens b + u * bk_max b + ?dt * perSec b * (1 + u) ^ 5" by (simp add: eval_nat_numeral ac_simps)
qed

text \<open>One call: what it takes from the bucket is covered by what was there and what time has added.\<close>

lemma bucket_step:
  assumes "rounding u rnd" and "bucket_ok b" and "u * bk_max b \<le> 1" and "bk_last b \<le> now"
    and "bucket_allow rnd now b = (ok, b')"
  shows "bucket_ok b'" and "bk_max b' = bk_max b" and "perSec b' = perSec b" and "bk_last b' = now"
    and "tokens b' + of_bool ok \<le>
      tokens b + of_int (now - bk_last b) / 1000000000 * perSec b * (1 + u) ^ 5 + 2 * (u * bk_max b)"
proof -
  let ?dt = "of_int (now - bk_last b) / 1000000000 :: real"
  let ?t = "rnd (tokens b + rnd (Seconds rnd (now - bk_last b) * perSec b))"
  let ?c = "if ?t > bk_max b then bk_max b else ?t"
  have b: "0 \<le> tokens b" "tokens b \<le> bk_max b" "0 \<le> perSec b" "0 \<le> u"
    using assms(1,2) by (auto simp: bucket_ok_def rounding_def)
  note t0 = bucket_refill(1) [OF assms(1,2,4) refl] and t = bucket_refill(2) [OF assms(1,2,4) refl]
  have c: "?c \<le> bk_max b" "?c \<le> ?t" "0 \<le> ?c" using t0 b by auto
  have b': "(ok, b') = (if ?c \<ge> 1 then (True, b\<lparr>tokens := rnd (?c - 1), bk_last := now\<rparr>)
      else (False, b\<lparr>tokens := ?c, bk_last := now\<rparr>))"
    using assms(5) by (auto simp: bucket_allow_def Let_def split: if_splits)
  have take: "0 \<le> rnd (?c - 1)" "rnd (?c - 1) \<le> ?c - 1 + u * bk_max b" if "1 \<le> ?c"
  proof -
    have "0 \<le> rnd (?c - 1)" "rnd (?c - 1) \<le> (?c - 1) * (1 + u)"
      using assms(1) that by (auto simp: rounding_def)
    moreover have "u * (?c - 1) \<le> u * bk_max b" using c(1) b(4) by (intro mult_left_mono) auto
    ultimately show "0 \<le> rnd (?c - 1)" "rnd (?c - 1) \<le> ?c - 1 + u * bk_max b" by (simp_all add: algebra_simps)
  qed
  show "bk_max b' = bk_max b" "perSec b' = perSec b" "bk_last b' = now" using b' by (auto split: if_splits)
  have "0 \<le> tokens b'" "tokens b' \<le> bk_max b"
    using b' take c assms(3) by (auto split: if_splits)
  then show "bucket_ok b'" using b' b by (auto simp: bucket_ok_def split: if_splits)
  have slack: "0 \<le> u * bk_max b" using b by (intro mult_nonneg_nonneg) auto
  have "tokens b' + of_bool ok \<le> ?c + u * bk_max b"
  proof (cases "1 \<le> ?c")
    case True
    then have "ok" "tokens b' = rnd (?c - 1)" using b' by simp_all
    then show ?thesis using take(2) [OF True] by simp
  next
    case False
    then have "\<not> ok" "tokens b' = ?c" using b' by simp_all
    then show ?thesis using slack by simp
  qed
  then show "tokens b' + of_bool ok \<le> tokens b + ?dt * perSec b * (1 + u) ^ 5 + 2 * (u * bk_max b)"
    using c(2) t by linarith
qed

text \<open>And, because of the clamp, it is covered by a full bucket.\<close>

lemma bucket_full:
  assumes "rounding u rnd" and "bucket_ok b" and "bk_last b \<le> now" and "bucket_allow rnd now b = (ok, b')"
  shows "tokens b' + of_bool ok \<le> bk_max b + u * bk_max b"
proof -
  let ?t = "rnd (tokens b + rnd (Seconds rnd (now - bk_last b) * perSec b))"
  let ?c = "if ?t > bk_max b then bk_max b else ?t"
  have b: "0 \<le> bk_max b" "0 \<le> u" using assms(1,2) by (auto simp: bucket_ok_def rounding_def)
  have c: "?c \<le> bk_max b" by auto
  have b': "(ok, b') = (if ?c \<ge> 1 then (True, b\<lparr>tokens := rnd (?c - 1), bk_last := now\<rparr>)
      else (False, b\<lparr>tokens := ?c, bk_last := now\<rparr>))"
    using assms(4) by (auto simp: bucket_allow_def Let_def split: if_splits)
  show ?thesis
  proof (cases "1 \<le> ?c")
    case True
    then have "rnd (?c - 1) \<le> (?c - 1) * (1 + u)" using assms(1) by (auto simp: rounding_def)
    also have "\<dots> \<le> (bk_max b - 1) * (1 + u)" using c b(2) by (intro mult_right_mono) auto
    also have "\<dots> \<le> bk_max b + u * bk_max b - 1" using b(2) by (simp add: algebra_simps)
    finally show ?thesis using True b' by simp
  next
    case False
    have "0 \<le> u * bk_max b" using b by simp
    then show ?thesis using False b' c by auto
  qed
qed

fun bucket_run :: "(real \<Rightarrow> real) \<Rightarrow> int list \<Rightarrow> tokenBucket \<Rightarrow> bool list \<times> tokenBucket" where
  "bucket_run rnd [] b = ([], b)"
| "bucket_run rnd (now # ts) b =
     (let (ok, b) = bucket_allow rnd now b; (oks, b) = bucket_run rnd ts b in (ok # oks, b))"

lemma bucket_run_bound:
  assumes "rounding u rnd" and "bucket_ok b" and "u * bk_max b \<le> 1" and "sorted (bk_last b # ts)"
  shows "real (count_list (fst (bucket_run rnd ts b)) True) \<le>
    tokens b + of_int (last (bk_last b # ts) - bk_last b) / 1000000000 * perSec b * (1 + u) ^ 5 +
    2 * (u * bk_max b) * real (length ts)"
  using assms(2-4)
proof (induction ts arbitrary: b)
  case Nil
  then show ?case by (simp add: bucket_ok_def)
next
  case (Cons now ts)
  obtain ok b' where a: "bucket_allow rnd now b = (ok, b')" by fastforce
  have "bk_last b \<le> now" using Cons.prems(3) by simp
  note step = bucket_step [OF assms(1) Cons.prems(1,2) this a]
  let ?n = "real (count_list (fst (bucket_run rnd ts b')) True)" and ?until = "last (now # ts)"
  have "?n \<le> tokens b' + of_int (?until - now) / 1000000000 * perSec b * (1 + u) ^ 5 +
      2 * (u * bk_max b) * real (length ts)"
    using Cons.IH [of b'] step(1-4) Cons.prems by simp
  moreover have "real (count_list (fst (bucket_run rnd (now # ts) b)) True) = of_bool ok + ?n"
    using a by (simp add: split_beta)
  moreover have "of_int (?until - now) / 1000000000 * perSec b * (1 + u) ^ 5 +
      of_int (now - bk_last b) / 1000000000 * perSec b * (1 + u) ^ 5 =
      of_int (?until - bk_last b) / 1000000000 * perSec b * (1 + u) ^ 5"
    by (simp add: algebra_simps add_divide_distrib diff_divide_distrib)
  moreover have "2 * (u * bk_max b) * real (length (now # ts)) =
      2 * (u * bk_max b) * real (length ts) + 2 * (u * bk_max b)" by (simp add: algebra_simps)
  ultimately show ?case using step(5) by simp
qed

text \<open>
  A stretch that starts at any point of a bucket's life: the first call of it finds at most a full bucket,
  however long the pause before it was, since the refill is clamped.
\<close>

lemma bucket_stretch_bound:
  assumes "rounding u rnd" and "bucket_ok b" and "u * bk_max b \<le> 1" and "sorted (bk_last b # now # ts)"
  shows "real (count_list (fst (bucket_run rnd (now # ts) b)) True) \<le>
    bk_max b + of_int (last (now # ts) - now) / 1000000000 * perSec b * (1 + u) ^ 5 +
    2 * (u * bk_max b) * real (length (now # ts))"
proof -
  obtain ok b' where a: "bucket_allow rnd now b = (ok, b')" by fastforce
  have last: "bk_last b \<le> now" and sorted: "sorted (now # ts)" using assms(4) by simp_all
  note step = bucket_step [OF assms(1-3) last a]
  have "0 \<le> u * bk_max b" using assms(1,2) by (auto simp: rounding_def bucket_ok_def)
  then have first: "tokens b' + of_bool ok \<le> bk_max b + 2 * (u * bk_max b)"
    using bucket_full [OF assms(1,2) last a] by linarith
  have "real (count_list (fst (bucket_run rnd ts b')) True) \<le>
      tokens b' + of_int (last (now # ts) - now) / 1000000000 * perSec b * (1 + u) ^ 5 + 2 * (u * bk_max b) * real (length ts)"
    using bucket_run_bound [OF assms(1) step(1), of ts] step(2-4) assms(3) sorted by simp
  moreover have "real (count_list (fst (bucket_run rnd (now # ts) b)) True) =
      of_bool ok + real (count_list (fst (bucket_run rnd ts b')) True)"
    using a by (simp add: split_beta)
  moreover have "2 * (u * bk_max b) * real (length (now # ts)) =
      2 * (u * bk_max b) * real (length ts) + 2 * (u * bk_max b)" by (simp add: algebra_simps)
  ultimately show ?thesis using first by linarith
qed

lemma bucket_run_append:
  "fst (bucket_run rnd (ts @ us) b) = fst (bucket_run rnd ts b) @ fst (bucket_run rnd us (snd (bucket_run rnd ts b)))"
  by (induction ts arbitrary: b) (simp_all add: case_prod_beta Let_def)

lemma length_bucket_run: "length (fst (bucket_run rnd ts b)) = length ts"
  by (induction ts arbitrary: b) (simp_all add: case_prod_beta Let_def)

lemma bucket_run_ok:
  assumes "rounding u rnd" and "bucket_ok b" and "u * bk_max b \<le> 1" and "sorted (bk_last b # ts)"
  defines "b' \<equiv> snd (bucket_run rnd ts b)"
  shows "bucket_ok b' \<and> bk_max b' = bk_max b \<and> perSec b' = perSec b \<and> bk_last b' = last (bk_last b # ts)"
  unfolding b'_def using assms(2-4)
proof (induction ts arbitrary: b)
  case (Cons now ts)
  obtain ok b' where a: "bucket_allow rnd now b = (ok, b')" by fastforce
  have "bk_last b \<le> now" using Cons.prems(3) by simp
  note step = bucket_step [OF assms(1) Cons.prems(1,2) this a]
  show ?case using Cons.IH [of b'] step(1-4) Cons.prems a by (simp add: split_beta)
qed simp

text \<open>
  C24. The rate limit: over any stretch of time in the life of a limiter, from one call to a later one and
  whatever calls came before, at most the burst plus the rate times the length of the stretch get through, up
  to the rounding of \<^verbatim>\<open>float64\<close> (a relative error of the rate and \<open>2 u burst\<close> of a token per call). With exact
  arithmetic, \<open>u = 0\<close>, the bound is the documented one.
\<close>

theorem rate_limit_bounds_calls:
  fixes burst :: int
  assumes "rounding u rnd" and "0 \<le> perSecond" and "sorted (t0 # earlier @ now # later)"
  defines "full \<equiv> rnd (of_int (max 1 burst))"
  assumes "u * full \<le> 1"
  shows "real (count_list (drop (length earlier)
      (fst (bucket_run rnd (earlier @ now # later) (new_bucket rnd perSecond burst t0)))) True) \<le>
    full + of_int (last (now # later) - now) / 1000000000 * perSecond * (1 + u) ^ 5 +
    2 * (u * full) * real (length (now # later))"
proof -
  let ?b = "new_bucket rnd perSecond burst t0"
  let ?b' = "snd (bucket_run rnd earlier ?b)"
  have "0 \<le> full" using assms(1) by (simp add: rounding_def full_def)
  moreover have b: "tokens ?b = full" "bk_max ?b = full" "perSec ?b = perSecond" "bk_last ?b = t0"
    by (auto simp: new_bucket_def Let_def max_def full_def)
  ultimately have "bucket_ok ?b" using assms(2) by (simp add: bucket_ok_def)
  from bucket_run_ok [OF assms(1) this, of earlier]
  have b': "bucket_ok ?b'" "bk_max ?b' = full" "perSec ?b' = perSecond" "bk_last ?b' = last (t0 # earlier)"
    using assms(3,5) b by (simp_all add: sorted_append)
  have "last (t0 # earlier) \<in> set (t0 # earlier)" by (rule last_in_set) simp
  then have "sorted (bk_last ?b' # now # later)" using assms(3) b'(4) by (auto simp: sorted_append)
  from bucket_stretch_bound [OF assms(1) b'(1) _ this] show ?thesis
    using assms(5) b' by (simp add: bucket_run_append length_bucket_run del: bucket_run.simps)
qed

text \<open>After a minute of rest, a limiter of two calls a second and a burst of one lets two of three calls through.\<close>

theorem rate_limit_bounds_calls_witness:
  "real (count_list (drop 1 (fst (bucket_run (\<lambda>x. x) [0, 60000000000, 60000000000, 60500000000]
     (new_bucket (\<lambda>x. x) 2 1 0)))) True) \<le> 2"
  using rate_limit_bounds_calls [where u = 0 and rnd = "\<lambda>x. x" and perSecond = 2 and ?t0.0 = 0 and earlier = "[0]"
      and now = 60000000000 and later = "[60000000000, 60500000000]" and burst = 1]
  by (simp add: rounding_def del: bucket_run.simps)

section \<open>The bulkhead\<close>

text \<open>Calls at a bulkhead, with the number of those that are inside it.\<close>

inductive bulkhead_step :: "int \<Rightarrow> nat \<times> nat \<Rightarrow> nat \<times> nat \<Rightarrow> bool" for maxConcurrent where
  entered: "Bulkhead_enter maxConcurrent pick ctx m sem = Some (Inr (), sem') \<Longrightarrow>
     bulkhead_step maxConcurrent (sem, n) (sem', Suc n)"
| refused_call: "Bulkhead_enter maxConcurrent pick ctx m sem = Some (Inl err, sem') \<Longrightarrow>
     bulkhead_step maxConcurrent (sem, n) (sem', n)"
| left: "bulkhead_step maxConcurrent (sem, Suc n) (Bulkhead_leave sem, n)"

text \<open>
  A bulkhead never has more calls inside than its bound (at least one), and every slot taken
  belongs to a call inside: when all have left, all slots are free.
\<close>

theorem bulkhead_caps_calls:
  assumes "(bulkhead_step maxConcurrent)\<^sup>*\<^sup>* (0, 0) (sem, n)"
  shows "sem = n \<and> int n \<le> max 1 maxConcurrent"
  using assms
proof (induction "(sem, n)" arbitrary: sem n rule: rtranclp_induct)
  case (step y)
  obtain sem0 n0 where y: "y = (sem0, n0)" by fastforce
  from step(2) step(3) [OF y] show ?case
    unfolding y
    by cases (auto simp: Bulkhead_enter_def Bulkhead_leave_def bulkhead_cap_def split: option.splits if_splits)
qed simp

theorem bulkhead_caps_calls_witness:
  "(bulkhead_step 0)\<^sup>*\<^sup>* (0, 0) (1, 1) \<and> int 1 \<le> max 1 0 \<and> Bulkhead_enter 0 True Background ''f'' 1 = None"
proof -
  have "bulkhead_step 0 (0, 0) (1, Suc 0)"
    by (rule entered [where pick = True and ctx = Background and m = "''f''"])
       (simp add: Bulkhead_enter_def Background_def bulkhead_cap_def)
  then have reach: "(bulkhead_step 0)\<^sup>*\<^sup>* (0, 0) (1, 1)" by simp
  from bulkhead_caps_calls [OF this] reach show ?thesis
    by (simp add: Bulkhead_enter_def Background_def bulkhead_cap_def)
qed

end
