(* ===== verification/Session_Identity.thy ===== *)
theory Session_Identity
  imports Server
begin

text \<open>
  Who a session belongs to (\<^verbatim>\<open>valueserver/server.go\<close>, \<^verbatim>\<open>serving_client.go\<close>): the client id and the principal
  the handshake gave a session are never touched again, by any goroutine of the session or of the server,
  so every session and every handler works for a principal the application's authenticator returned.
\<close>

section \<open>A session keeps its identity\<close>

definition identity :: "'v servingClient \<Rightarrow> int64 \<times> string \<times> serverConfig" where
  "identity t = (sc_clientId t, sc_principal t, sc_cfg t)"

lemma identity_simple [simp]:
  "identity (t\<lparr>sc_requestMap := rm\<rparr>) = identity t" "identity (t\<lparr>sc_requestCancels := rc\<rparr>) = identity t"
  "identity (t\<lparr>sc_pendingStreams := ps\<rparr>) = identity t" "identity (record_metric e t) = identity t"
  "identity (snd (send m t)) = identity t" "identity (deletePendingStream k t) = identity t"
  "identity (t\<lparr>sc_requestMap := rm, sc_liveStreams := n\<rparr>) = identity t"
  "identity (t\<lparr>sc_workers := ws\<rparr>) = identity t" "identity (t\<lparr>sc_inFlight := n\<rparr>) = identity t"
  "identity (t\<lparr>sc_streamers := ss\<rparr>) = identity t"
  by (simp_all add: identity_def record_metric_def send_def deletePendingStream_def)

lemma identity_deleteRequest [simp]: "identity (deleteRequest E rid t) = identity t"
  by (simp add: deleteRequest_def split: option.splits)

lemma identity_perform [simp]: "identity (perform E acts t) = identity t"
  by (induction E acts t rule: perform.induct) simp_all

lemma identity_completePendingCall [simp]: "identity (completePendingCall E reqId mt m t) = identity t"
  by (simp add: completePendingCall_def Let_def identity_def split: option.splits)

lemma identity_Close [simp]: "identity (Close_client t) = identity t"
  by (simp add: Close_client_def Let_def identity_def split: option.splits)

lemma identity_connection:
  "sender t = Some (out, t') \<Longrightarrow> identity t' = identity t"
  "authorizeResume tok t = (e, t') \<Longrightarrow> identity (replaceConn newc t') = identity t"
  by (auto simp: sender_def authorizeResume_def replaceConn_def identity_def Let_def
      split: if_splits list.splits option.splits)

lemma identity_calls:
  "identity (snd (CallFunction_begin E ctx name args t)) = identity t"
  "CallFunction_end reqId ev t = Some (res, t') \<Longrightarrow> identity t' = identity t"
  "identity (snd (openStream_begin E mt k name args cap t)) = identity t"
  "identity (snd (cancelClientStream E cs t)) = identity t"
  by (auto simp: CallFunction_begin_def CallFunction_end_def openStream_begin_def cancelClientStream_def
      deletePendingStream_def nextServerRequestId_def send_def identity_def Let_def split: call_event.splits if_splits)

lemma identity_finish_worker [simp]: "identity (finish_worker E ft m r t) = identity t"
  by (cases r) (simp_all add: finish_worker_def Let_def)

lemma identity_start_worker: "identity (snd (start_worker E F ft m t)) = identity t"
  by (auto simp: start_worker_def Let_def split: sum.splits prod.splits)

lemma identity_run_worker [simp]: "identity (run_worker E ft m reqId name fn args t) = identity t"
proof -
  obtain sr u where n: "newServingRequest E ft reqId name t = (sr, u)" by force
  then have "u = snd (newServingRequest E ft reqId name t)" by simp
  then have "identity u = identity t" by (simp add: newServingRequest_def Let_def)
  then show ?thesis
    by (simp add: run_worker_def run_handler_def n Let_def case_prod_beta split: outcome.splits)
qed

lemma identity_serveNewRequest: "identity (snd (serveNewRequest E mt m t)) = identity t"
  by (simp add: serveNewRequest_def Let_def split: option.splits)

lemma identity_processRequest:
  assumes "processRequest E pick m t = Some (err, t')"
  shows "identity t' = identity t"
proof -
  have "identity t' = identity t \<or> (\<exists>mt. t' = snd (serveNewRequest E mt m t))"
    using assms
    by (auto simp: processRequest_def Let_def split: option.splits if_splits prod.splits) (metis snd_conv)+
  then show ?thesis using identity_serveNewRequest by auto
qed

lemma identity_step: "session_step E F t t' \<Longrightarrow> identity t' = identity t"
proof (induction rule: session_step.induct)
  case (start t ws1 ft m ws2 t')
  then show ?case using identity_start_worker [of E F ft m "t\<lparr>sc_workers := ws1 @ ws2\<rparr>"] by simp
next
  case (admitted t ws1 ft m ws2 w t')
  then show ?case using identity_start_worker [of E F ft m "t\<lparr>sc_workers := ws1 @ ws2\<rparr>"] by simp
qed (simp_all add: identity_processRequest identity_calls identity_connection)

section \<open>The server keeps its sessions\<close>

text \<open>A session stays in the table, under its id and for its principal.\<close>

definition keeps_sessions :: "'v rpcServer \<Rightarrow> 'v rpcServer \<Rightarrow> bool" where
  "keeps_sessions t t' \<longleftrightarrow>
     getAuthenticator t' = getAuthenticator t \<and> srv_cfg t' = srv_cfg t \<and>
     (\<forall>cid cli. srv_clientMap t cid = Some cli \<longrightarrow>
        (\<exists>cli'. srv_clientMap t' cid = Some cli' \<and> identity cli' = identity cli))"

lemma keeps_sessions_refl [simp, intro]: "keeps_sessions t t"
  by (simp add: keeps_sessions_def)

lemma keeps_sessions_trans: "keeps_sessions t t' \<Longrightarrow> keeps_sessions t' t'' \<Longrightarrow> keeps_sessions t t''"
  by (fastforce simp: keeps_sessions_def)

lemma identity_resume: "resume cid presented princ c existing = Inr cli \<Longrightarrow> identity cli = identity existing"
  using identity_connection(2) [of presented existing None _ c]
  by (auto simp: resume_def split: if_splits option.splits prod.splits)

text \<open>
  What a step adds: a new session is keyed by the id it was made with, and its principal is what the
  authenticator returned for the connection.
\<close>

definition vouched :: "'v Authenticator \<Rightarrow> serverConfig \<Rightarrow> int64 \<Rightarrow> 'v servingClient \<Rightarrow> bool" where
  "vouched authn cfg cid cli \<longleftrightarrow> sc_clientId cli = cid \<and> sc_cfg cli = cfg \<and> (\<exists>c cred. authn c cred = Inr (sc_principal cli))"

definition all_vouched :: "'v Authenticator \<Rightarrow> serverConfig \<Rightarrow> 'v rpcServer \<Rightarrow> bool" where
  "all_vouched authn cfg t \<longleftrightarrow> getAuthenticator t = Some authn \<and> srv_cfg t = cfg \<and>
     (\<forall>cid cli. srv_clientMap t cid = Some cli \<longrightarrow> vouched authn cfg cid cli)"

lemma vouched_identity: "identity cli' = identity cli \<Longrightarrow> vouched authn cfg cid cli \<Longrightarrow> vouched authn cfg cid cli'"
  by (simp add: vouched_def identity_def)

lemma found_sessions:
  assumes "found_in between t u" and "keeps_sessions t (between t)"
    and "all_vouched authn cfg t \<longrightarrow> all_vouched authn cfg (between t)"
  shows "keeps_sessions t u" and "all_vouched authn cfg t \<longrightarrow> all_vouched authn cfg u"
  using assms by (auto simp: found_in_def keeps_sessions_def all_vouched_def getAuthenticator_def)

text \<open>A session of a kept identity is put back into the table.\<close>

lemma sessions_attach:
  assumes "keeps_sessions t u" and "\<And>old. srv_clientMap u cid = Some old \<Longrightarrow> identity cli = identity old"
    and "all_vouched authn cfg t \<longrightarrow> all_vouched authn cfg u \<and> vouched authn cfg cid cli"
  shows "keeps_sessions t (u\<lparr>srv_clientMap := (srv_clientMap u)(cid \<mapsto> cli)\<rparr>) \<and>
    (all_vouched authn cfg t \<longrightarrow> all_vouched authn cfg (u\<lparr>srv_clientMap := (srv_clientMap u)(cid \<mapsto> cli)\<rparr>))"
proof -
  have "keeps_sessions u (u\<lparr>srv_clientMap := (srv_clientMap u)(cid \<mapsto> cli)\<rparr>)"
    using assms(2) by (simp add: keeps_sessions_def getAuthenticator_def)
  with assms(1) have "keeps_sessions t (u\<lparr>srv_clientMap := (srv_clientMap u)(cid \<mapsto> cli)\<rparr>)" by (rule keeps_sessions_trans)
  then show ?thesis using assms(3) by (auto simp: all_vouched_def getAuthenticator_def)
qed

lemma handshake_sessions:
  assumes "handshake E between c rd write_err t = (res, t')" and "keeps_sessions t (between t)"
    and "all_vouched authn cfg t \<longrightarrow> all_vouched authn cfg (between t)"
  shows "keeps_sessions t t' \<and> (all_vouched authn cfg t \<longrightarrow> all_vouched authn cfg t')"
  using assms(1)
proof (cases rule: handshake_cases)
  case (rejected err)
  then show ?thesis by simp
next
  case (attached m cid princ r)
  from attached(4) show ?thesis
  proof (cases rule: create_cases)
    case (rejected err)
    then show ?thesis using found_sessions [OF rejected(2) assms(2,3)] by blast
  next
    case (resumed u existing cli)
    note i = identity_resume [OF resumed(4)] and u = found_sessions [OF resumed(2) assms(2,3)]
    have "all_vouched authn cfg t \<longrightarrow> all_vouched authn cfg u \<and> vouched authn cfg (number_Long (env_V E) cid) cli"
      using u(2) resumed(3) vouched_identity [OF i] by (auto simp: all_vouched_def)
    then show ?thesis unfolding resumed(5) using u(1) i resumed(3) by (intro sessions_attach) auto
  next
    case (created cli)
    have "sc_clientId cli = number_Long (env_V E) cid" "sc_principal cli = princ" "sc_cfg cli = srv_cfg t"
      by (simp_all add: created(3) NewServingClient_def)
    moreover have "authn c (Get (env_V E) m (AuthField (env_d E))) = Inr princ" if "getAuthenticator t = Some authn"
      using attached(3) that by simp
    ultimately have "all_vouched authn cfg t \<longrightarrow> vouched authn cfg (number_Long (env_V E) cid) cli"
      unfolding all_vouched_def vouched_def by metis
    then show ?thesis unfolding created(4) using assms(2,3) created(2) by (intro sessions_attach) auto
  qed
qed

lemma nested_run_sessions:
  assumes "(\<lambda>x y. server_step E x y \<and> keeps_sessions x y \<and> (all_vouched authn cfg x \<longrightarrow> all_vouched authn cfg y))\<^sup>*\<^sup>* a b"
  shows "keeps_sessions a b \<and> (all_vouched authn cfg a \<longrightarrow> all_vouched authn cfg b)"
  using assms by (induction rule: rtranclp_induct) (use keeps_sessions_trans in blast)+

lemma server_step_sessions:
  "server_step E t t' \<Longrightarrow> keeps_sessions t t' \<and> (all_vouched authn cfg t \<longrightarrow> all_vouched authn cfg t')"
proof (induction rule: server_step.induct)
  case (shake c t between rd write_err res t')
  show ?case using handshake_sessions [OF shake.hyps(2)] nested_run_sessions [OF shake.IH] by blast
next
  case (session t cid cli cli')
  note i = identity_step [OF session(2)]
  show ?case
    using session(1) i vouched_identity [OF i] by (auto simp: keeps_sessions_def all_vouched_def getAuthenticator_def)
next
  case (close_server t)
  have "vouched authn cfg cid (Close_client cli) = vouched authn cfg cid cli" for cid and cli :: "'a servingClient"
    using identity_Close [of cli] by (simp add: vouched_def identity_def)
  then show ?case by (auto simp: Close_server_def keeps_sessions_def all_vouched_def getAuthenticator_def)
qed (auto simp: Run_step_def connection_done_def keeps_sessions_def all_vouched_def getAuthenticator_def Let_def
    split: if_splits)

lemma server_run_keeps: "(server_step E)\<^sup>*\<^sup>* t t' \<Longrightarrow> keeps_sessions t t'"
  by (induction rule: rtranclp_induct) (use keeps_sessions_trans server_step_sessions in blast)+

lemma server_run_vouched: "(server_step E)\<^sup>*\<^sup>* t t' \<Longrightarrow> all_vouched authn cfg t \<Longrightarrow> all_vouched authn cfg t'"
  by (induction rule: rtranclp_induct) (use server_step_sessions in blast)+

lemma fresh_vouched: "all_vouched authn (newServerConfig opts) (SetAuthenticator (Some authn) (NewServerWithListener opts))"
  by (simp add: all_vouched_def getAuthenticator_def SetAuthenticator_def NewServerWithListener_def)

lemma handler_sees_principal:
  "sc_principal t \<noteq> [] \<Longrightarrow> PrincipalFromContext (handler_context E m ft t) = sc_principal t"
  by (simp add: handler_context_def ContextWithPrincipal_def contextWithPeer_def PrincipalFromContext_def Let_def)

lemma handler_without_principal:
  assumes "sc_principal t = []"
  shows "PrincipalFromContext (handler_context E m ft t) =
    (case (DecodeMetadata (env_V E) (env_d E) m, metadataExtractor (sc_cfg t)) of
       (Some md, Some ex) \<Rightarrow> PrincipalFromContext (ex (ContextWithMetadata (newRequestContext E m ft t) md) md)
     | _ \<Rightarrow> [])"
  using assms
  by (auto simp: handler_context_def newRequestContext_def Background_def ContextWithMetadata_def
      contextWithPeer_def PrincipalFromContext_def Let_def split: option.splits)

lemma handler_principal_without_extractor:
  "metadataExtractor (sc_cfg t) = None \<Longrightarrow> PrincipalFromContext (handler_context E m ft t) = sc_principal t"
  by (auto simp: handler_context_def newRequestContext_def Background_def ContextWithPrincipal_def ContextWithMetadata_def
      contextWithPeer_def PrincipalFromContext_def Let_def split: option.splits)

lemma handler_has_peer: "PeerFromContext (handler_context E m ft t)"
  by (simp add: handler_context_def contextWithPeer_def PeerFromContext_def Let_def)

text \<open>The handshake of this library's own client with a credential the authenticator accepts.\<close>

lemma own_handshake_authenticated:
  fixes cid tok cred
  assumes "value_laws (env_V E)" and "wf_dialect (env_d E)" and "getAuthenticator t = Some authn"
    and "authn c (Some cred) = Inr princ"
  defines "m \<equiv> Put (env_V E) (NewHandshakeRequest (env_V E) (env_d E) cid tok) (AuthField (env_d E)) (Some cred)"
  shows "handshake E between c (Inr m) None t = createOrUpdateServingClient between cid tok princ c t"
proof -
  note laws = value_laws.value_simps [OF assms(1)]
    and fields = value_laws.handshake_request_fields [OF assms(1,2)]
  have other: "Get (env_V E) m k = Get (env_V E) (NewHandshakeRequest (env_V E) (env_d E) cid tok) k"
    if "k \<noteq> AuthField (env_d E)" for k
    unfolding m_def using that fields(8) by (intro value_laws.Get_Put_other [OF assms(1)]) auto
  have auth: "Get (env_V E) m (AuthField (env_d E)) = Some cred"
    unfolding m_def using fields(8) by (rule value_laws.Get_Put_same [OF assms(1)])
  have ne: "MagicField (env_d E) \<noteq> AuthField (env_d E)" "VersionField (env_d E) \<noteq> AuthField (env_d E)"
    "MessageTypeField (env_d E) \<noteq> AuthField (env_d E)" "ClientIdField (env_d E) \<noteq> AuthField (env_d E)"
    "SessionTokenField (env_d E) \<noteq> AuthField (env_d E)"
    using assms(2) by (simp_all add: wf_fields)
  note get = other [OF ne(1)] other [OF ne(2)] other [OF ne(3)] other [OF ne(4)] other [OF ne(5)]
  have "ValidMagicAndVersion (env_V E) (env_d E) m"
    by (simp add: ValidMagicAndVersion_def GetStringField_def GetNumberField_def get fields laws)
  then show ?thesis
    using assms(3,4)
    by (auto simp: handshake_def Let_def GetNumberField_def GetStringField_def get auth fields laws
        split: prod.splits sum.splits)
qed

section \<open>Properties\<close>

text \<open>
  C10. Every session of a server with an authenticator belongs to a principal the authenticator returned, in
  every reachable state: the session is found under its own client id, and as long as the server lives it
  stays in the table and never changes its owner. If the principal is not empty, each handler of the session
  sees it on its context whatever the request's metadata and the extractor are. If the authenticator returned
  the empty principal, the context is not touched after the extractor: a handler sees the principal the
  extractor made of the request's metadata, and none when there is no extractor or no metadata.
\<close>

theorem sessions_belong_to_authenticated:
  assumes "(server_step E)\<^sup>*\<^sup>* (SetAuthenticator (Some authn) (NewServerWithListener opts)) t"
    and "srv_clientMap t cid = Some cli"
  shows "sc_clientId cli = cid \<and> (\<exists>c cred. authn c cred = Inr (sc_principal cli)) \<and>
    PrincipalFromContext (handler_context E m ft cli) =
      (if sc_principal cli \<noteq> [] then sc_principal cli
       else case (DecodeMetadata (env_V E) (env_d E) m, metadataExtractor (newServerConfig opts)) of
              (Some md, Some ex) \<Rightarrow> PrincipalFromContext (ex (ContextWithMetadata (newRequestContext E m ft cli) md) md)
            | _ \<Rightarrow> []) \<and>
    (\<forall>t'. (server_step E)\<^sup>*\<^sup>* t t' \<longrightarrow>
       (\<exists>cli'. srv_clientMap t' cid = Some cli' \<and> sc_principal cli' = sc_principal cli))"
proof -
  from server_run_vouched [OF assms(1) fresh_vouched] have v: "vouched authn (newServerConfig opts) cid cli"
    using assms(2) by (simp add: all_vouched_def)
  have "\<exists>cli'. srv_clientMap t' cid = Some cli' \<and> sc_principal cli' = sc_principal cli"
    if "(server_step E)\<^sup>*\<^sup>* t t'" for t'
    using server_run_keeps [OF that] assms(2) by (fastforce simp: keeps_sessions_def identity_def)
  with v show ?thesis
    using handler_sees_principal [of cli E m ft] handler_without_principal [of cli E m ft] by (simp add: vouched_def)
qed

theorem sessions_belong_to_authenticated_witness:
  "\<exists>t cli. (server_step sample_env)\<^sup>*\<^sup>*
      (SetAuthenticator (Some (\<lambda>_ _. Inr ''alice'')) (NewServerWithListener [WithMaxConnections 2]) :: gval rpcServer) t \<and>
    srv_clientMap t 7 = Some cli \<and> PrincipalFromContext (handler_context sample_env GNull singleFunction cli) = ''alice''"
proof -
  let ?t0 = "SetAuthenticator (Some (\<lambda>_ _. Inr ''alice'')) (NewServerWithListener [WithMaxConnections 2]) :: gval rpcServer"
  let ?m = "Put (env_V sample_env) (NewHandshakeRequest (env_V sample_env) (env_d sample_env) 7 []) (AuthField (env_d sample_env)) (Some GNull)"
  obtain t1 where t1: "Run_step (Accepted 5) ?t0 = Some t1" "5 \<in> srv_connMap t1" "srv_clientMap t1 = Map.empty"
      "getAuthenticator t1 = Some (\<lambda>_ _. Inr ''alice'')"
    by (simp add: Run_step_def NewServerWithListener_def SetAuthenticator_def getAuthenticator_def sample_config Let_def)
  define cli where "cli = (NewServingClient 7 [] ''alice'' 5 (srv_cfg t1) (srv_ctxCancelled t1) :: gval servingClient)"
  define t2 where "t2 = t1\<lparr>srv_clientMap := [7 \<mapsto> cli]\<rparr>"
  have "handshake sample_env (\<lambda>t. t) 5 (Inr ?m) None t1 = (Inr cli, t2)"
    using own_handshake_authenticated [of sample_env t1 "\<lambda>_ _. Inr ''alice''" 5 GNull "''alice''" "\<lambda>t. t" 7 "[]"] t1(3,4)
    by (simp add: ref_value_laws wf_NewDialect createOrUpdateServingClient_def cli_def t2_def Let_def)
  then have "server_step sample_env t1 t2" by (intro shake [OF t1(2)]) simp_all
  moreover have "server_step sample_env ?t0 t1"
    using t1(1) by (intro accept [of 5]) (simp_all add: NewServerWithListener_def SetAuthenticator_def)
  ultimately have run: "(server_step sample_env)\<^sup>*\<^sup>* ?t0 t2" by auto
  have cli: "srv_clientMap t2 7 = Some cli" by (simp add: t2_def)
  have "sc_principal cli = ''alice''" by (simp add: cli_def NewServingClient_def)
  with sessions_belong_to_authenticated [OF run cli, of GNull singleFunction] run cli show ?thesis by auto
qed

end
