(* ===== verification/Peer_Relay.thy ===== *)
theory Peer_Relay
  imports Session_Identity
begin

text \<open>
  The relay of \<^verbatim>\<open>examples/peer/main.go\<close>: clients register under the principal of their connection, and a
  client has the server call another one by name. The handlers close over the table of registered clients,
  so they are functions of that table, and the relay is the server's step relation with a step for each
  handler. A caller handle is the session it belongs to, named by its client id.
\<close>

section \<open>Handlers\<close>

definition name_authenticator :: "'v value_api \<Rightarrow> 'v Authenticator" where
  "name_authenticator V c cred =
     (case cred of
        None \<Rightarrow> Inl (PlainError ''missing name credential'')
      | Some v \<Rightarrow>
          if Kind V v \<noteq> STRING then Inl (PlainError ''missing name credential'')
          else Inr (string_String V v))"

definition register_handler ::
    "'v value_api \<Rightarrow> int64 \<Rightarrow> call_ctx \<Rightarrow> 'v option \<Rightarrow> (string \<rightharpoonup> int64) \<Rightarrow> 'v option outcome \<times> (string \<rightharpoonup> int64)" where
  "register_handler V caller ctx args clients =
     (let who = PrincipalFromContext ctx
      in if \<not> PeerFromContext ctx then
           (Failed (NewError CodeInternal ''no client handle on connection''), clients)
         else (Returned (Some (Utf8 V (''registered as '' @ who))), clients(who \<mapsto> caller)))"

text \<open>The relay answers by itself, or goes on to call a function of another client. Type assertions panic.\<close>

datatype 'v relayed = Answer "'v option outcome" | Forward int64 string 'v

definition call_handler :: "'v value_api \<Rightarrow> call_ctx \<Rightarrow> 'v option \<Rightarrow> (string \<rightharpoonup> int64) \<Rightarrow> 'v relayed" where
  "call_handler V ctx args clients =
     (case args of
        None \<Rightarrow> Answer Panicked
      | Some rq \<Rightarrow>
          if Kind V rq \<noteq> MAP then Answer Panicked
          else
            (case map_GetString V rq ''to'' of
               None \<Rightarrow> Answer Panicked
             | Some s \<Rightarrow>
                 (let to = string_String V s
                  in case clients to of
                       None \<Rightarrow> Answer (Failed (NewError CodeNotFound (Quote to @ '' is not connected'')))
                     | Some peer \<Rightarrow>
                         (let sender_name = PrincipalFromContext ctx;
                              fwd = Put V (Put V (EmptyMap V) ''from'' (Some (Utf8 V sender_name)))
                                      ''text'' (map_GetString V rq ''text'')
                          in Forward peer ''onMessage'' fwd))))"

text \<open>The function every client serves, with the line it prints.\<close>

definition onMessage :: "'v value_api \<Rightarrow> string \<Rightarrow> 'v option \<Rightarrow> 'v option outcome \<times> string list" where
  "onMessage V name args =
     (case args of
        None \<Rightarrow> (Panicked, [])
      | Some m \<Rightarrow>
          if Kind V m \<noteq> MAP then (Panicked, [])
          else
            (case (map_GetString V m ''text'', map_GetString V m ''from'') of
               (Some t, Some f) \<Rightarrow>
                 (Returned (Some (Utf8 V (name @ '' got it''))),
                  [''   ['' @ name @ '' received] '' @ Quote (string_String V t) @ '' from '' @ string_String V f])
             | _ \<Rightarrow> (Panicked, [])))"

section \<open>The relay\<close>

record 'v relay =
  rl_server :: "'v rpcServer"
  rl_clients :: "string \<rightharpoonup> int64"

definition relay_init :: "'v rpc_env \<Rightarrow> 'v relay" where
  "relay_init E =
     \<lparr>rl_server = SetAuthenticator (Some (name_authenticator (env_V E))) (NewServerWithListener []),
      rl_clients = Map.empty\<rparr>"

inductive relay_step :: "'v rpc_env \<Rightarrow> 'v relay \<Rightarrow> 'v relay \<Rightarrow> bool" for E where
  serve: "server_step E (rl_server r) s \<Longrightarrow> relay_step E r (r\<lparr>rl_server := s\<rparr>)"
| register: "srv_clientMap (rl_server r) cid = Some cli \<Longrightarrow>
    register_handler (env_V E) cid (handler_context E m singleFunction cli) args (rl_clients r) = (res, cs) \<Longrightarrow>
    relay_step E r (r\<lparr>rl_clients := cs\<rparr>)"
| forward: "srv_clientMap (rl_server r) cid = Some cli \<Longrightarrow>
    call_handler (env_V E) (handler_context E m singleFunction cli) args (rl_clients r) = Forward peer name fwd \<Longrightarrow>
    srv_clientMap (rl_server r) peer = Some p \<Longrightarrow>
    relay_step E r (r\<lparr>rl_server := (rl_server r)\<lparr>srv_clientMap := (srv_clientMap (rl_server r))
      (peer \<mapsto> snd (CallFunction_begin E (handler_context E m singleFunction cli) name (Some fwd) p))\<rparr>\<rparr>)"

text \<open>Every entry of the table is a session of the principal it is registered under.\<close>

definition relay_ok :: "'v rpc_env \<Rightarrow> 'v relay \<Rightarrow> bool" where
  "relay_ok E r \<longleftrightarrow> all_vouched (name_authenticator (env_V E)) (newServerConfig []) (rl_server r) \<and>
     (\<forall>who cid. rl_clients r who = Some cid \<longrightarrow>
        (\<exists>cli. srv_clientMap (rl_server r) cid = Some cli \<and> sc_principal cli = who))"

lemma default_no_extractor: "metadataExtractor (newServerConfig []) = None"
  by (simp add: newServerConfig_def)

lemma relay_context:
  assumes "relay_ok E r" and "srv_clientMap (rl_server r) cid = Some cli"
  shows "PrincipalFromContext (handler_context E m ft cli) = sc_principal cli"
  using assms
  by (intro handler_principal_without_extractor)
    (auto simp: relay_ok_def all_vouched_def vouched_def default_no_extractor)

lemma relay_ok_server:
  assumes "relay_ok E r" and "keeps_sessions (rl_server r) s" and "all_vouched (name_authenticator (env_V E)) (newServerConfig []) s"
  shows "relay_ok E (r\<lparr>rl_server := s\<rparr>)"
  using assms unfolding relay_ok_def keeps_sessions_def identity_def by (simp, blast)

lemma relay_ok_step: "relay_step E r r' \<Longrightarrow> relay_ok E r \<Longrightarrow> relay_ok E r'"
proof (induction rule: relay_step.induct)
  case (serve r s)
  then show ?case
    using server_step_sessions [OF serve(1)] by (intro relay_ok_server) (auto simp: relay_ok_def)
next
  case (register r cid cli m args res cs)
  then have "cs = (rl_clients r)(sc_principal cli \<mapsto> cid)"
    using relay_context [OF register(3,1)] handler_has_peer [of E m singleFunction cli]
    by (auto simp: register_handler_def Let_def)
  then show ?case using register by (auto simp: relay_ok_def)
next
  case (forward r cid cli m args peer name fwd p)
  let ?p = "snd (CallFunction_begin E (handler_context E m singleFunction cli) name (Some fwd) p)"
  have i: "identity ?p = identity p" by (rule identity_calls)
  show ?case
    using forward(3,4) i vouched_identity [OF i]
    by (intro relay_ok_server) (auto simp: relay_ok_def all_vouched_def keeps_sessions_def getAuthenticator_def)
qed

lemma relay_run_ok: "(relay_step E)\<^sup>*\<^sup>* (relay_init E) r \<Longrightarrow> relay_ok E r"
  by (induction rule: rtranclp_induct)
    (auto simp: relay_ok_def relay_init_def fresh_vouched dest: relay_ok_step [unfolded relay_ok_def])

section \<open>Properties\<close>

text \<open>
  C17. The relay delivers under the authenticated name. Whenever a session's call is forwarded, it goes to a
  live session of exactly the principal the caller asked for, and what that client's \<^verbatim>\<open>onMessage\<close> receives
  carries the authenticated principal of the calling session as the sender, whatever sender the caller put
  into its request, along with the caller's text.
\<close>

theorem relay_names_are_authentic:
  assumes laws: "value_laws (env_V E)" and run: "(relay_step E)\<^sup>*\<^sup>* (relay_init E) r"
    and cli: "srv_clientMap (rl_server r) cid = Some cli"
    and fwd: "call_handler (env_V E) (handler_context E m singleFunction cli) (Some args) (rl_clients r) = Forward peer name fwd"
    and body: "map_GetString (env_V E) args ''text'' = Some (Utf8 (env_V E) text)"
  shows "\<exists>s p. map_GetString (env_V E) args ''to'' = Some s \<and> srv_clientMap (rl_server r) peer = Some p \<and>
    sc_principal p = string_String (env_V E) s \<and>
    onMessage (env_V E) (sc_principal p) (Some fwd) =
      (Returned (Some (Utf8 (env_V E) (sc_principal p @ '' got it''))),
       [''   ['' @ sc_principal p @ '' received] '' @ Quote text @ '' from '' @ sc_principal cli])"
proof -
  let ?V = "env_V E"
  have ok: "relay_ok E r" by (rule relay_run_ok [OF run])
  obtain s where s: "map_GetString ?V args ''to'' = Some s" "rl_clients r (string_String ?V s) = Some peer"
      "fwd = Put ?V (Put ?V (EmptyMap ?V) ''from'' (Some (Utf8 ?V (sc_principal cli)))) ''text'' (Some (Utf8 ?V text))"
    using fwd body relay_context [OF ok cli]
    by (auto simp: call_handler_def Let_def split: if_splits option.splits)
  obtain p where "srv_clientMap (rl_server r) peer = Some p" "sc_principal p = string_String ?V s"
    using ok s(2) by (auto simp: relay_ok_def)
  moreover have "Kind ?V fwd = MAP" "map_GetString ?V fwd ''text'' = Some (Utf8 ?V text)"
      "map_GetString ?V fwd ''from'' = Some (Utf8 ?V (sc_principal cli))"
    by (auto simp: s(3) value_laws.value_simps [OF laws] intro!: value_laws.GetString_Get [OF laws])
  ultimately show ?thesis using s(1) by (simp add: onMessage_def value_laws.String_Utf8 [OF laws])
qed

theorem relay_names_are_authentic_witness:
  "\<exists>r p fwd. (relay_step sample_env)\<^sup>*\<^sup>* (relay_init sample_env) r \<and> srv_clientMap (rl_server r) 7 = Some p \<and>
    call_handler ref_api (handler_context sample_env GNull singleFunction p)
      (Some (GMap [(''to'', GUtf8 ''alice''), (''from'', GUtf8 ''mallory''), (''text'', GUtf8 ''hi'')])) (rl_clients r) =
      Forward 7 ''onMessage'' fwd \<and>
    snd (onMessage ref_api (sc_principal p) (Some fwd)) =
      [''   ['' @ sc_principal p @ '' received] '' @ Quote ''hi'' @ '' from '' @ sc_principal p]"
proof -
  let ?r0 = "relay_init sample_env"
  let ?m = "Put (env_V sample_env) (NewHandshakeRequest (env_V sample_env) (env_d sample_env) 7 []) (AuthField (env_d sample_env))
      (Some (GUtf8 ''alice''))"
  let ?args = "GMap [(''to'', GUtf8 ''alice''), (''from'', GUtf8 ''mallory''), (''text'', GUtf8 ''hi'')]"
  obtain t1 where t1: "Run_step (Accepted 5) (rl_server ?r0) = Some t1" "5 \<in> srv_connMap t1" "srv_clientMap t1 = Map.empty"
      "getAuthenticator t1 = Some (name_authenticator ref_api)" "srv_cfg t1 = newServerConfig []"
    by (simp add: Run_step_def relay_init_def NewServerWithListener_def SetAuthenticator_def getAuthenticator_def
        newServerConfig_def MaxConnections_def Let_def)
  define p where "p = (NewServingClient 7 [] ''alice'' 5 (srv_cfg t1) (srv_ctxCancelled t1) :: gval servingClient)"
  define t2 where "t2 = t1\<lparr>srv_clientMap := [7 \<mapsto> p]\<rparr>"
  define r where "r = ?r0\<lparr>rl_server := t2, rl_clients := [''alice'' \<mapsto> 7]\<rparr>"
  have "name_authenticator ref_api 5 (Some (GUtf8 ''alice'')) = Inr ''alice''"
    by (simp add: name_authenticator_def ref_api_def)
  then have "handshake sample_env (\<lambda>t. t) 5 (Inr ?m) None t1 = (Inr p, t2)"
    using own_handshake_authenticated [of sample_env t1 "name_authenticator ref_api" 5 "GUtf8 ''alice''" "''alice''" "\<lambda>t. t" 7 "[]"] t1(3,4)
    by (simp add: ref_value_laws wf_NewDialect createOrUpdateServingClient_def p_def t2_def Let_def)
  then have s2: "server_step sample_env t1 t2" by (intro shake [OF t1(2)]) simp_all
  have s1: "server_step sample_env (rl_server ?r0) t1"
    using t1(1) by (intro accept [of 5]) (simp_all add: relay_init_def NewServerWithListener_def SetAuthenticator_def)
  have p: "srv_clientMap (rl_server r) 7 = Some p" "sc_principal p = ''alice''"
    by (simp_all add: r_def t2_def p_def NewServingClient_def)
  have ctx: "PrincipalFromContext (handler_context sample_env m ft p) = ''alice''" for m ft
    using handler_principal_without_extractor [of p sample_env m ft] p(2)
    by (simp add: p_def NewServingClient_def t1(5) default_no_extractor)
  have reg: "register_handler (env_V sample_env) 7 (handler_context sample_env GNull singleFunction p) None
      (rl_clients (?r0\<lparr>rl_server := t2\<rparr>)) = (Returned (Some (GUtf8 ''registered as alice'')), [''alice'' \<mapsto> 7])"
    by (simp add: register_handler_def ctx handler_has_peer relay_init_def ref_api_def Let_def)
  have "relay_step sample_env (?r0\<lparr>rl_server := t2\<rparr>) r"
    using relay_step.register [OF _ reg] p(1) by (simp add: r_def relay_init_def)
  then have run: "(relay_step sample_env)\<^sup>*\<^sup>* ?r0 r"
    using relay_step.serve [OF s1] relay_step.serve [of sample_env "?r0\<lparr>rl_server := t1\<rparr>" t2] s2
    by (simp add: converse_rtranclp_into_rtranclp)
  obtain fwd where fwd: "call_handler (env_V sample_env) (handler_context sample_env GNull singleFunction p) (Some ?args) (rl_clients r) =
      Forward 7 ''onMessage'' fwd"
    by (simp add: call_handler_def ref_api_def gentries_def r_def)
  have "map_GetString (env_V sample_env) ?args ''text'' = Some (Utf8 (env_V sample_env) ''hi'')"
    by (simp add: ref_api_def gentries_def)
  from relay_names_are_authentic [OF _ run p(1) fwd this] run p(1) fwd show ?thesis
    by (auto simp: ref_value_laws)
qed

end
