(* ===== verification/Transport.thy ===== *)
theory Transport
  imports Framing Call_Context
begin

text \<open>
  The transports of \<^verbatim>\<open>valuerpc\<close>: address schemes and the factories of \<^verbatim>\<open>transport.go\<close> (with the path
  split of \<^verbatim>\<open>transport_ws.go\<close>), the adapters for connections the application brings
  (\<^verbatim>\<open>transport_conn.go\<close>), and the in-process transport (\<^verbatim>\<open>transport_mem.go\<close>). Sockets, TLS and
  WebSocket are libraries the factories only call: what a factory builds is described by the network,
  address and limits it passes on.
\<close>

section \<open>Addresses\<close>

fun strings_Index :: "string \<Rightarrow> string \<Rightarrow> nat option" where
  "strings_Index s sub =
     (if take (length sub) s = sub then Some 0
      else case s of [] \<Rightarrow> None | _ # cs \<Rightarrow> map_option Suc (strings_Index cs sub))"

declare strings_Index.simps [simp del]

definition ParseAddress :: "string \<Rightarrow> string \<times> string" where
  "ParseAddress address =
     (case strings_Index address ''://'' of
        Some i \<Rightarrow> (take i address, drop (i + 3) address)
      | None \<Rightarrow> (''tcp'', address))"

definition splitWSPath :: "string \<Rightarrow> string \<times> string" where
  "splitWSPath addr =
     (case strings_Index addr ''/'' of
        Some i \<Rightarrow> (take i addr, drop i addr)
      | None \<Rightarrow> (addr, ''/''))"

text \<open>The listeners and dialers that the factories build, with the arguments they are built from.\<close>

datatype listener =
    streamListener (l_network: string) (l_address: string) (l_keepAlive: int64) (l_writeTimeout: int64) (l_maxFrameSize: int)
  | wsListener (l_host: string) (l_path: string) (l_writeTimeout: int64) (l_maxFrameSize: int) (l_keepAlive: int64)
  | memListener (l_name: string)

datatype dialer =
    streamDialer (d_network: string) (d_address: string) (d_socks5: string) (d_keepAlive: int64) (d_writeTimeout: int64)
      (d_maxFrameSize: int)
  | wsDialer (d_url: string) (d_writeTimeout: int64) (d_maxFrameSize: int) (d_keepAlive: int64)
  | tlsDialer (d_address: string) (d_keepAlive: int64) (d_writeTimeout: int64) (d_maxFrameSize: int)
  | memDialer (d_name: string)
  | errDialer gerror

text \<open>
  What \<^verbatim>\<open>os.Lstat\<close> finds at the path of a Unix socket. The stale socket of an earlier process is
  removed; anything else at that path is left alone.
\<close>

datatype lstat_result = NotExist | LstatError gerror | Socket | OtherFile

definition removeStaleSocket :: "lstat_result \<Rightarrow> gerror option \<Rightarrow> string \<Rightarrow> gerror option \<times> bool" where
  "removeStaleSocket info remove_err path =
     (case info of
        NotExist \<Rightarrow> (None, False)
      | LstatError err \<Rightarrow> (Some err, False)
      | OtherFile \<Rightarrow> (Some (PlainError (''refusing to remove non-socket file at '' @ Quote path)), False)
      | Socket \<Rightarrow> (remove_err, True))"

definition NewUnixListener ::
    "lstat_result \<Rightarrow> gerror option \<Rightarrow> string \<Rightarrow> int64 \<Rightarrow> int \<Rightarrow> gerror + listener" where
  "NewUnixListener info remove_err path wt maxSize =
     (case removeStaleSocket info remove_err path of
        (Some err, _) \<Rightarrow> Inl err
      | (None, _) \<Rightarrow> Inr (streamListener ''unix'' path 0 wt maxSize))"

text \<open>What binding the address and registering the name lead to is not part of the choice made here.\<close>

definition NewListener ::
    "lstat_result \<Rightarrow> gerror option \<Rightarrow> string \<Rightarrow> int64 \<Rightarrow> int64 \<Rightarrow> int \<Rightarrow> gerror + listener" where
  "NewListener info remove_err address ka wt maxSize =
     (let (network, addr) = ParseAddress address
      in if network = ''unix'' \<or> network = ''unixpacket'' then NewUnixListener info remove_err addr wt maxSize
         else if network = ''tcp'' \<or> network = ''tcp4'' \<or> network = ''tcp6''
         then Inr (streamListener network addr ka wt maxSize)
         else if network = ''ws'' then
           (let (host, path) = splitWSPath addr
            in Inr (wsListener host (if path = [] then ''/'' else path) wt maxSize ka))
         else if network = ''wss'' then
           Inl (PlainError ''wss:// server needs TLS; mount valueserver.NewWebSocketHandler on your own TLS http.Server'')
         else if network = ''tls'' then
           Inl (PlainError ''tls:// server needs a *tls.Config with a certificate; use valueserver.NewTLSServer'')
         else if network = ''quic'' then
           Inl (PlainError ''quic:// is provided by the separate module go.arpabet.com/value-rpc/quic (valuequic.NewServer)'')
         else if network = ''mem'' then Inr (memListener addr)
         else Inl (PlainError (''unsupported listen network '' @ Quote network @ '' in address '' @ Quote address)))"

definition NewDialer :: "string \<Rightarrow> string \<Rightarrow> int64 \<Rightarrow> int64 \<Rightarrow> int \<Rightarrow> dialer" where
  "NewDialer address socks5 ka wt maxSize =
     (let (network, addr) = ParseAddress address
      in if network = ''unix'' \<or> network = ''unixpacket'' then streamDialer network addr [] 0 wt maxSize
         else if network = ''tcp'' \<or> network = ''tcp4'' \<or> network = ''tcp6''
         then streamDialer network addr socks5 ka wt maxSize
         else if network = ''ws'' \<or> network = ''wss'' then wsDialer (network @ ''://'' @ addr) wt maxSize ka
         else if network = ''tls'' then tlsDialer addr ka wt maxSize
         else if network = ''quic'' then
           errDialer (PlainError ''quic:// is provided by the separate module go.arpabet.com/value-rpc/quic (valuequic.NewClient)'')
         else if network = ''mem'' then memDialer addr
         else errDialer (PlainError (''unsupported dial network '' @ Quote network @ '' in address '' @ Quote address)))"

section \<open>Facts about addresses\<close>

lemma strings_Index_absent: "sub \<noteq> [] \<Longrightarrow> hd sub \<notin> set s \<Longrightarrow> strings_Index s sub = None"
proof (induction s)
  case Nil
  then show ?case by (simp add: strings_Index.simps)
next
  case (Cons c s)
  then have "take (length sub) (c # s) \<noteq> sub" by (cases sub) auto
  with Cons show ?case by (subst strings_Index.simps) simp
qed

lemma strings_Index_append:
  "sub \<noteq> [] \<Longrightarrow> hd sub \<notin> set s \<Longrightarrow> strings_Index (s @ sub @ rest) sub = Some (length s)"
proof (induction s)
  case Nil
  then show ?case by (simp add: strings_Index.simps)
next
  case (Cons c s)
  then have "take (length sub) ((c # s) @ sub @ rest) \<noteq> sub" by (cases sub) auto
  with Cons show ?case by (subst strings_Index.simps) simp
qed

lemma ParseAddress_scheme: "CHR '':'' \<notin> set network \<Longrightarrow> ParseAddress (network @ ''://'' @ addr) = (network, addr)"
  using strings_Index_append [of "''://''" network addr] by (simp add: ParseAddress_def)

lemma ParseAddress_bare: "strings_Index address ''://'' = None \<Longrightarrow> ParseAddress address = (''tcp'', address)"
  by (simp add: ParseAddress_def)

text \<open>
  Where a listener is reached: the network and address to dial. A dialer reaches it when it dials the
  same network and address.
\<close>

definition reaches :: "dialer \<Rightarrow> listener \<Rightarrow> bool" where
  "reaches d l =
     (case (l, d) of
        (streamListener n a _ _ _, streamDialer n' a' _ _ _ _) \<Rightarrow> n' = n \<and> a' = a
      | (wsListener h p _ _ _, wsDialer url _ _ _) \<Rightarrow> url = ''ws://'' @ h @ p \<or> url @ ''/'' = ''ws://'' @ h @ p
      | (memListener n, memDialer n') \<Rightarrow> n' = n
      | _ \<Rightarrow> False)"

lemma strings_Index_Some: "strings_Index s sub = Some i \<Longrightarrow> take (length sub) (drop i s) = sub"
proof (induction s arbitrary: i)
  case Nil
  then show ?case by (auto simp: strings_Index.simps [of "[]"] split: if_splits)
next
  case (Cons c s)
  then show ?case by (subst (asm) (2) strings_Index.simps) (auto split: if_splits)
qed

lemma splitWSPath_join:
  assumes "splitWSPath addr = (host, path)"
  shows "path \<noteq> []" and "addr = host @ path \<or> addr @ ''/'' = host @ path"
proof -
  show "addr = host @ path \<or> addr @ ''/'' = host @ path"
    using assms by (auto simp: splitWSPath_def split: option.splits)
  show "path \<noteq> []"
    using assms strings_Index_Some [of addr "''/''"] by (auto simp: splitWSPath_def split: option.splits)
qed

lemma stream_factories:
  assumes "ParseAddress address = (network, addr)" and "network \<in> {''tcp'', ''tcp4'', ''tcp6''}"
  shows "NewListener info remove_err address ka wt maxSize = Inr (streamListener network addr ka wt maxSize)"
    and "NewDialer address socks5 ka wt maxSize = streamDialer network addr socks5 ka wt maxSize"
  using assms(2) unfolding NewListener_def NewDialer_def assms(1) Let_def prod.case by (elim insertE; simp)+

lemma unix_factories:
  assumes "ParseAddress address = (network, addr)" and "network \<in> {''unix'', ''unixpacket''}"
  shows "NewListener info remove_err address ka wt maxSize = NewUnixListener info remove_err addr wt maxSize"
    and "NewDialer address socks5 ka wt maxSize = streamDialer network addr [] 0 wt maxSize"
  using assms(2) unfolding NewListener_def NewDialer_def assms(1) Let_def prod.case by (elim insertE; simp)+

lemma NewUnixListener_Inr:
  "NewUnixListener info remove_err path wt maxSize = Inr l \<Longrightarrow> l = streamListener ''unix'' path 0 wt maxSize"
  by (auto simp: NewUnixListener_def split: prod.splits option.splits)

text \<open>
  One address serves both sides: whatever schemed or bare address the listener factory accepts,
  except a \<^verbatim>\<open>unixpacket\<close> one, the dialer factory builds from it a dialer for the same network and
  address.
\<close>

theorem dialer_reaches_listener:
  assumes "NewListener info remove_err address ka wt maxSize = Inr l" and "fst (ParseAddress address) \<noteq> ''unixpacket''"
  shows "reaches (NewDialer address socks5 ka wt maxSize) l"
proof -
  obtain network addr where p: "ParseAddress address = (network, addr)" by fastforce
  have "network \<noteq> ''unixpacket''" using assms(2) p by simp
  then consider (unix) "network = ''unix''" | (tcp) "network = ''tcp'' \<or> network = ''tcp4'' \<or> network = ''tcp6''"
    | (ws) "network = ''ws''" | (mem) "network = ''mem''"
    using assms(1) unfolding NewListener_def p Let_def prod.case by (metis Inl_Inr_False)
  then show ?thesis
  proof cases
    case unix
    then have "network \<in> {''unix'', ''unixpacket''}" by simp
    from unix_factories [OF p this] assms(1) show ?thesis
      using unix by (auto simp: reaches_def dest: NewUnixListener_Inr)
  next
    case tcp
    then have "network \<in> {''tcp'', ''tcp4'', ''tcp6''}" by simp
    from stream_factories [OF p this] assms(1) show ?thesis by (auto simp: reaches_def)
  next
    case ws
    obtain host path where w: "splitWSPath addr = (host, path)" by fastforce
    then have "l = wsListener host path wt maxSize ka"
      using ws assms(1) p splitWSPath_join(1) [OF w] by (simp add: NewListener_def)
    then show ?thesis using ws p splitWSPath_join(2) [OF w] by (auto simp: NewDialer_def reaches_def)
  next
    case mem
    then show ?thesis using assms(1) p by (auto simp: NewListener_def NewDialer_def reaches_def)
  qed
qed

theorem dialer_reaches_listener_witness:
  "reaches (NewDialer ''unix:///tmp/s'' [] 0 0 0) (streamListener ''unix'' ''/tmp/s'' 0 0 0)"
proof -
  have p: "ParseAddress ''unix:///tmp/s'' = (''unix'', ''/tmp/s'')"
    using ParseAddress_scheme [of "''unix''" "''/tmp/s''"] by simp
  have "NewListener Socket None ''unix:///tmp/s'' 0 0 0 = Inr (streamListener ''unix'' ''/tmp/s'' 0 0 0)"
    using unix_factories(1) [OF p] by (simp add: NewUnixListener_def removeStaleSocket_def)
  from dialer_reaches_listener [OF this] p show ?thesis by simp
qed

text \<open>A \<^verbatim>\<open>unixpacket\<close> address is listened on as a stream socket and dialled as a packet socket.\<close>

lemma unixpacket_mismatch:
  assumes "NewListener info remove_err (''unixpacket://'' @ path) ka wt maxSize = Inr l"
  shows "l_network l = ''unix'' \<and> d_network (NewDialer (''unixpacket://'' @ path) socks5 ka wt maxSize) = ''unixpacket''"
proof -
  have p: "ParseAddress (''unixpacket://'' @ path) = (''unixpacket'', path)"
    using ParseAddress_scheme [of "''unixpacket''" path] by simp
  from unix_factories [OF p] assms show ?thesis by (auto dest: NewUnixListener_Inr)
qed

text \<open>Only a socket is ever removed.\<close>

lemma removes_only_sockets: "snd (removeStaleSocket info remove_err path) \<Longrightarrow> info = Socket"
  by (cases info) (simp_all add: removeStaleSocket_def)

section \<open>Connections of the application\<close>

text \<open>
  A connection is framed by \<^const>\<open>NewMsgConn\<close>; the reader \<open>r\<close> over the new stream is an argument.
\<close>

definition funcDialer_Dial ::
    "(call_ctx \<Rightarrow> gerror + 'c) \<Rightarrow> int \<Rightarrow> byte_reader \<Rightarrow> call_ctx \<Rightarrow> gerror + 'c messageConnAdapter" where
  "funcDialer_Dial connect wt r ctx =
     (case connect ctx of Inl err \<Rightarrow> Inl err | Inr c \<Rightarrow> Inr (NewMsgConn c r wt MaxFrameSize))"

record 'c singleConnDialer =
  sd_conn :: 'c
  sd_writeTimeout :: int
  sd_used :: bool

definition NewSingleConnDialer :: "'c \<Rightarrow> int \<Rightarrow> 'c singleConnDialer" where
  "NewSingleConnDialer c wt = \<lparr>sd_conn = c, sd_writeTimeout = wt, sd_used = False\<rparr>"

definition singleConn_Dial ::
    "byte_reader \<Rightarrow> 'c singleConnDialer \<Rightarrow> (gerror + 'c messageConnAdapter) \<times> 'c singleConnDialer" where
  "singleConn_Dial r d =
     (if sd_used d then (Inl ErrConnConsumed, d)
      else (Inr (NewMsgConn (sd_conn d) r (sd_writeTimeout d) MaxFrameSize), d\<lparr>sd_used := True\<rparr>))"

record funcListener =
  fl_writeTimeout :: int
  fl_addr :: "string option"
  fl_closed :: bool
  fl_closeErr :: "gerror option"

definition NewAcceptListener :: "string option \<Rightarrow> int \<Rightarrow> funcListener" where
  "NewAcceptListener addr wt = \<lparr>fl_writeTimeout = wt, fl_addr = addr, fl_closed = False, fl_closeErr = None\<rparr>"

definition funcListener_Accept :: "gerror + 'c \<Rightarrow> byte_reader \<Rightarrow> funcListener \<Rightarrow> gerror + 'c messageConnAdapter" where
  "funcListener_Accept accepted r l =
     (case accepted of Inl err \<Rightarrow> Inl err | Inr c \<Rightarrow> Inr (NewMsgConn c r (fl_writeTimeout l) MaxFrameSize))"

definition funcListener_Addr :: "funcListener \<Rightarrow> string" where
  "funcListener_Addr l = (case fl_addr l of Some a \<Rightarrow> a | None \<Rightarrow> [])"

definition funcListener_Close :: "gerror option option \<Rightarrow> funcListener \<Rightarrow> gerror option \<times> funcListener" where
  "funcListener_Close stop l =
     (if fl_closed l then (fl_closeErr l, l)
      else
        (let l = l\<lparr>fl_closed := True\<rparr>;
             l = (case stop of Some err \<Rightarrow> l\<lparr>fl_closeErr := err\<rparr> | None \<Rightarrow> l)
         in (fl_closeErr l, l)))"

text \<open>
  The accept function of a listener for one connection: the connection while it is in the channel,
  the closed listener once it is closed, either one when both are there; \<^term>\<open>None\<close> while it waits.
\<close>

record 'c singleConnListener =
  sl_ch :: "'c list"
  sl_done :: bool

definition NewSingleConnListener :: "'c \<Rightarrow> 'c singleConnListener" where
  "NewSingleConnListener c = \<lparr>sl_ch = [c], sl_done = False\<rparr>"

definition singleConn_accept :: "bool \<Rightarrow> 'c singleConnListener \<Rightarrow> ((gerror + 'c) \<times> 'c singleConnListener) option" where
  "singleConn_accept pick l =
     (case sl_ch l of
        c # cs \<Rightarrow> if sl_done l \<and> \<not> pick then Some (Inl ErrListenerClosed, l) else Some (Inr c, l\<lparr>sl_ch := cs\<rparr>)
      | [] \<Rightarrow> if sl_done l then Some (Inl ErrListenerClosed, l) else None)"

definition singleConn_stop :: "'c singleConnListener \<Rightarrow> gerror option \<times> 'c singleConnListener" where
  "singleConn_stop l = (None, l\<lparr>sl_done := True\<rparr>)"

section \<open>The in-process transport\<close>

text \<open>
  The listeners of the process are numbered in the order they were made; the registry maps a name to
  the number of the listener registered under it.
\<close>

record memNet =
  mn_registry :: "string \<rightharpoonup> nat"
  mn_names :: "string list"
  mn_done :: "nat set"

definition NewMemListener :: "string \<Rightarrow> memNet \<Rightarrow> (gerror + nat) \<times> memNet" where
  "NewMemListener name t =
     (case mn_registry t name of
        Some _ \<Rightarrow> (Inl (PlainError (''mem listener '' @ Quote name @ '' already registered'')), t)
      | None \<Rightarrow>
          (Inr (length (mn_names t)),
           t\<lparr>mn_registry := (mn_registry t)(name \<mapsto> length (mn_names t)), mn_names := mn_names t @ [name]\<rparr>))"

definition memListener_Close :: "nat \<Rightarrow> memNet \<Rightarrow> memNet" where
  "memListener_Close l t =
     (if l \<in> mn_done t then t
      else
        (let name = mn_names t ! l;
             t = (if mn_registry t name = Some l then t\<lparr>mn_registry := (mn_registry t)(name := None)\<rparr> else t)
         in t\<lparr>mn_done := insert l (mn_done t)\<rparr>))"

text \<open>A dialer meets a listener that is accepting; \<open>pick\<close> chooses among what is ready.\<close>

definition memDialer_Dial :: "string \<Rightarrow> bool \<Rightarrow> call_ctx \<Rightarrow> nat \<Rightarrow> memNet \<Rightarrow> (gerror + nat) option" where
  "memDialer_Dial name accepting ctx pick t =
     (case mn_registry t name of
        None \<Rightarrow> Some (Inl (PlainError (''no mem listener registered at '' @ Quote name)))
      | Some l \<Rightarrow>
          (let ready = (if accepting then [Inr l] else []) @
                 (if l \<in> mn_done t then [Inl (PlainError (''mem listener '' @ Quote name @ '' closed''))] else []) @
                 (case ctx_err ctx of Some err \<Rightarrow> [Inl err] | None \<Rightarrow> [])
           in if ready = [] then None else Some (ready ! (pick mod length ready))))"

definition memListener_Accept :: "'c option \<Rightarrow> nat \<Rightarrow> nat \<Rightarrow> memNet \<Rightarrow> (gerror + 'c) option" where
  "memListener_Accept offered pick l t =
     (let ready = (case offered of Some c \<Rightarrow> [Inr c] | None \<Rightarrow> []) @
            (if l \<in> mn_done t then [Inl (PlainError (''mem listener '' @ Quote (mn_names t ! l) @ '' closed''))] else [])
      in if ready = [] then None else Some (ready ! (pick mod length ready)))"

text \<open>
  A pipe with the messages each direction has carried. A write meets a read of the other end: the
  channels have no buffer.
\<close>

record 'v memPipe =
  mp_closed :: bool
  mp_c2s :: "'v list"
  mp_s2c :: "'v list"

definition newMemPipe :: "'v memPipe" where
  "newMemPipe = \<lparr>mp_closed = False, mp_c2s = [], mp_s2c = []\<rparr>"

definition memConn_WriteMessage ::
    "bool \<Rightarrow> bool \<Rightarrow> bool \<Rightarrow> 'v \<Rightarrow> 'v memPipe \<Rightarrow> (gerror option \<times> 'v memPipe) option" where
  "memConn_WriteMessage isClient reading pick m p =
     (if reading \<and> (pick \<or> \<not> mp_closed p) then
        Some (None, if isClient then p\<lparr>mp_c2s := mp_c2s p @ [m]\<rparr> else p\<lparr>mp_s2c := mp_s2c p @ [m]\<rparr>)
      else if mp_closed p then Some (Some ErrClientClosed, p)
      else None)"

definition memConn_ReadMessage :: "'v option \<Rightarrow> bool \<Rightarrow> nat \<Rightarrow> 'v memPipe \<Rightarrow> (gerror + 'v) option" where
  "memConn_ReadMessage offer expired pick p =
     (let ready = (case offer of Some m \<Rightarrow> [Inr m] | None \<Rightarrow> []) @
            (if mp_closed p then [Inl io_EOF] else []) @ (if expired then [Inl os_ErrDeadlineExceeded] else [])
      in if ready = [] then None else Some (ready ! (pick mod length ready)))"

definition memConn_Close :: "'v memPipe \<Rightarrow> 'v memPipe" where
  "memConn_Close p = p\<lparr>mp_closed := True\<rparr>"

section \<open>Facts about connections\<close>

inductive mem_step :: "memNet \<Rightarrow> memNet \<Rightarrow> bool" where
  mem_new: "mem_step t (snd (NewMemListener name t))"
| mem_close: "l < length (mn_names t) \<Longrightarrow> mem_step t (memListener_Close l t)"

definition mem_ok :: "memNet \<Rightarrow> bool" where
  "mem_ok t \<longleftrightarrow> mn_done t \<subseteq> {..<length (mn_names t)} \<and>
     (\<forall>name l. mn_registry t name = Some l \<longleftrightarrow> l < length (mn_names t) \<and> mn_names t ! l = name \<and> l \<notin> mn_done t)"

lemma mem_ok_step: "mem_step t t' \<Longrightarrow> mem_ok t \<Longrightarrow> mem_ok t'"
proof (induction rule: mem_step.induct)
  case (mem_new t name)
  show ?case
  proof (cases "mn_registry t name")
    case None
    then have "l \<in> mn_done t" if "l < length (mn_names t)" "mn_names t ! l = name" for l
      using mem_new that unfolding mem_ok_def by (metis option.distinct(1))
    with None mem_new show ?thesis
      by (auto simp: NewMemListener_def mem_ok_def nth_append less_Suc_eq split: if_splits)
  qed (use mem_new in \<open>simp add: NewMemListener_def\<close>)
next
  case (mem_close l t)
  have "k = l" if "l \<notin> mn_done t" "k < length (mn_names t)" "mn_names t ! k = mn_names t ! l" "k \<notin> mn_done t" for k
    using mem_close that unfolding mem_ok_def by (metis option.inject)
  with mem_close show ?case by (auto simp: memListener_Close_def mem_ok_def Let_def split: if_splits)
qed

definition no_listeners :: memNet where
  "no_listeners = \<lparr>mn_registry = Map.empty, mn_names = [], mn_done = {}\<rparr>"

text \<open>
  The registry of in-process listeners is exactly the open ones: whatever listeners are made and
  closed, in any order and however often, a name leads to a listener just when that listener was made
  under the name and is not closed. So a name has at most one open listener, closing one frees its
  name, and closing it again does not take the name from a successor.
\<close>

theorem mem_registry_is_open_listeners:
  assumes "mem_step\<^sup>*\<^sup>* no_listeners t"
  shows "mn_registry t name = Some l \<longleftrightarrow> l < length (mn_names t) \<and> mn_names t ! l = name \<and> l \<notin> mn_done t"
proof -
  have "mem_ok t" using assms
    by (induction rule: rtranclp_induct) (simp_all add: mem_ok_step, simp add: mem_ok_def no_listeners_def)
  then show ?thesis unfolding mem_ok_def by blast
qed

theorem mem_registry_is_open_listeners_witness:
  "let t1 = snd (NewMemListener ''a'' no_listeners); t2 = memListener_Close 0 t1; t3 = snd (NewMemListener ''a'' t2)
   in mn_registry (memListener_Close 0 t3) ''a'' = Some 1"
proof -
  define t1 t2 t3 where d: "t1 = snd (NewMemListener ''a'' no_listeners)" "t2 = memListener_Close 0 t1"
    "t3 = snd (NewMemListener ''a'' t2)"
  have n: "mn_names t1 = [''a'']" "mn_names t2 = [''a'']" "mn_names t3 = [''a'', ''a'']" "mn_done t3 = {0}"
    by (simp_all add: d NewMemListener_def memListener_Close_def no_listeners_def Let_def)
  have "mem_step no_listeners t1" unfolding d by (rule mem_new)
  moreover have "mem_step t1 t2" unfolding d(2) by (rule mem_close) (simp add: n)
  moreover have "mem_step t2 t3" unfolding d(3) by (rule mem_new)
  moreover have "mem_step t3 (memListener_Close 0 t3)" by (rule mem_close) (simp add: n)
  ultimately have "mem_step\<^sup>*\<^sup>* no_listeners (memListener_Close 0 t3)"
    by (meson converse_rtranclp_into_rtranclp r_into_rtranclp)
  from mem_registry_is_open_listeners [OF this, of "''a''" 1]
  have "mn_registry (memListener_Close 0 t3) ''a'' = Some 1" using n by (simp add: memListener_Close_def)
  then show ?thesis by (simp only: Let_def d [symmetric])
qed

text \<open>A connection supplied directly is handed out once.\<close>

lemma single_conn_once:
  "singleConn_Dial r (NewSingleConnDialer c wt) =
     (Inr (NewMsgConn c r wt MaxFrameSize), (NewSingleConnDialer c wt)\<lparr>sd_used := True\<rparr>)"
  "sd_used d \<Longrightarrow> singleConn_Dial r d = (Inl ErrConnConsumed, d)"
  by (simp_all add: singleConn_Dial_def NewSingleConnDialer_def)

text \<open>A limit of zero is no limit: a frame of any announced size is read.\<close>

lemma nonpositive_limit_is_no_limit:
  assumes "maxFrameSize t \<le> 0" and "ReadFull 4 (reader t) = (Inr lenBuf, r)"
    and "ReadFull (unat (Uint32 lenBuf)) r = (Inr payload, r')" and "unpack payload = Inr msg" and "Kind V msg = MAP"
  shows "fst (ReadMessage V unpack t) = Inr msg"
  using assms by (simp add: ReadMessage_def Let_def)

end
