(* ===== verification/Conn_Loops.thy ===== *)
theory Conn_Loops
  imports Client Framing
begin

text \<open>
  The two goroutines of a client connection (\<^verbatim>\<open>valueclient/connection.go\<close>): the request loop that
  writes the queue to the transport and the response loop that reads it, with the senders and the
  goroutine that closes the connection running beside them. A loop's iteration is split where another
  goroutine can come between: the call of the transport, the test whether the connection was closed on
  purpose, and the report to the error handler. What the response loop reads is an argument of its
  step; the transport's \<^verbatim>\<open>WriteMessage\<close> and \<^verbatim>\<open>Close\<close> are parameters, and the locale \<open>closable\<close> holds
  what the request loop relies on.
\<close>

section \<open>State\<close>

text \<open>
  Where a loop is: at the head of its iteration, after a call that failed, about to report the
  failure, or back from the function. The response loop starts only when the handshake was answered.
\<close>

datatype loop_pc = Handshaking | Looping | Failed gerror | Reporting gerror | Returned

text \<open>
  The last four fields record what happened: the messages senders handed over, the writes with their
  outcome, the messages given to the response handler and the errors given to the error handler.
\<close>

record ('c, 'v) connLoops =
  lc_conn :: 'c
  lc_reqCh :: "'v list"
  lc_cap :: nat
  lc_done :: bool
  lc_writer :: loop_pc
  lc_reader :: loop_pc
  lc_sent :: "'v list"
  lc_writes :: "('v \<times> gerror option) list"
  lc_read :: "'v list"
  lc_bad :: "gerror list"

section \<open>Operations\<close>

definition closedIntentionally :: "('c, 'v) connLoops \<Rightarrow> bool" where
  "closedIntentionally c = lc_done c"

text \<open>A channel without a buffer takes a message when the loop is waiting for one.\<close>

definition has_room :: "('c, 'v) connLoops \<Rightarrow> bool" where
  "has_room c = (length (lc_reqCh c) < lc_cap c \<or> lc_reqCh c = [] \<and> lc_writer c = Looping)"

text \<open>\<open>pick\<close> chooses when both cases of the \<^verbatim>\<open>select\<close> are ready; \<^term>\<open>None\<close> while none is.\<close>

definition SendRequest_select :: "bool \<Rightarrow> 'v \<Rightarrow> ('c, 'v) connLoops \<Rightarrow> ('c, 'v) connLoops option" where
  "SendRequest_select pick m c =
     (if has_room c \<and> (pick \<or> \<not> lc_done c)
      then Some (c\<lparr>lc_reqCh := lc_reqCh c @ [m], lc_sent := lc_sent c @ [m]\<rparr>)
      else if lc_done c then Some c
      else None)"

definition requestLoop_step ::
    "('v \<Rightarrow> 'c \<Rightarrow> 'c \<times> gerror option) \<Rightarrow> bool \<Rightarrow> ('c, 'v) connLoops \<Rightarrow> ('c, 'v) connLoops option" where
  "requestLoop_step write pick c =
     (case lc_writer c of
        Looping \<Rightarrow>
          (case lc_reqCh c of
             [] \<Rightarrow> if lc_done c then Some (c\<lparr>lc_writer := Returned\<rparr>) else None
           | m # q \<Rightarrow>
               if lc_done c \<and> \<not> pick then Some (c\<lparr>lc_writer := Returned\<rparr>)
               else
                 (let (k, err) = write m (lc_conn c);
                      c = c\<lparr>lc_conn := k, lc_reqCh := q, lc_writes := lc_writes c @ [(m, err)]\<rparr>
                  in case err of None \<Rightarrow> Some c | Some e \<Rightarrow> Some (c\<lparr>lc_writer := Failed e\<rparr>)))
      | Failed e \<Rightarrow> Some (c\<lparr>lc_writer := if closedIntentionally c then Returned else Reporting e\<rparr>)
      | Reporting e \<Rightarrow> Some (c\<lparr>lc_bad := lc_bad c @ [e], lc_writer := Looping\<rparr>)
      | _ \<Rightarrow> None)"

definition responseLoop_step :: "gerror + 'v \<Rightarrow> ('c, 'v) connLoops \<Rightarrow> ('c, 'v) connLoops option" where
  "responseLoop_step res c =
     (case lc_reader c of
        Looping \<Rightarrow>
          (case res of
             Inr resp \<Rightarrow> Some (c\<lparr>lc_read := lc_read c @ [resp]\<rparr>)
           | Inl e \<Rightarrow> Some (c\<lparr>lc_reader := Failed e\<rparr>))
      | Failed e \<Rightarrow> Some (c\<lparr>lc_reader := if closedIntentionally c then Returned else Reporting e\<rparr>)
      | Reporting e \<Rightarrow> Some (c\<lparr>lc_bad := lc_bad c @ [e], lc_reader := Returned\<rparr>)
      | _ \<Rightarrow> None)"

text \<open>\<^verbatim>\<open>Close\<close> closes \<^verbatim>\<open>done\<close> (once) and then the transport; other goroutines run in between.\<close>

definition close_done :: "('c, 'v) connLoops \<Rightarrow> ('c, 'v) connLoops" where
  "close_done c = c\<lparr>lc_done := True\<rparr>"

definition close_transport :: "('c \<Rightarrow> 'c \<times> gerror option) \<Rightarrow> ('c, 'v) connLoops \<Rightarrow> ('c, 'v) connLoops" where
  "close_transport close c = c\<lparr>lc_conn := fst (close (lc_conn c))\<rparr>"

definition rpcConn_Close ::
    "('c \<Rightarrow> 'c \<times> gerror option) \<Rightarrow> ('c, 'v) connLoops \<Rightarrow> gerror option \<times> ('c, 'v) connLoops" where
  "rpcConn_Close close c =
     (let c = close_done c in (snd (close (lc_conn c)), close_transport close c))"

definition rpcConn_Stats :: "('c, 'v) connLoops \<Rightarrow> nat \<times> nat" where
  "rpcConn_Stats c = (length (lc_reqCh c), lc_cap c)"

text \<open>
  \<^verbatim>\<open>newConn\<close> on a dialled transport up to its wait for the handshake response: \<^term>\<open>None\<close> when
  \<^verbatim>\<open>make\<close> panics on a negative capacity. The request loop already runs when the handshake is sent.
\<close>

definition newConn_begin :: "int64 \<Rightarrow> 'v \<Rightarrow> 'c \<Rightarrow> ('c, 'v) connLoops option" where
  "newConn_begin sendingCap hs k =
     (if sint sendingCap < 0 then None
      else SendRequest_select True hs
        \<lparr>lc_conn = k, lc_reqCh = [], lc_cap = nat (sint sendingCap), lc_done = False, lc_writer = Looping,
         lc_reader = Handshaking, lc_sent = [], lc_writes = [], lc_read = [], lc_bad = []\<rparr>)"

definition newConn_end ::
    "('c \<Rightarrow> 'c \<times> gerror option) \<Rightarrow> gerror + 'v \<Rightarrow> ('c, 'v) connLoops \<Rightarrow>
     (gerror option \<times> ('c, 'v) connLoops) option" where
  "newConn_end close res c =
     (if lc_reader c \<noteq> Handshaking then None
      else
        (case res of
           Inl e \<Rightarrow> Some (Some (WrapError ''handshake'' e), snd (rpcConn_Close close (c\<lparr>lc_reader := Returned\<rparr>)))
         | Inr resp \<Rightarrow> Some (None, c\<lparr>lc_read := lc_read c @ [resp], lc_reader := Looping\<rparr>)))"

text \<open>Everything that happens to a connection, in any order; a write happens at a time \<open>now\<close>.\<close>

inductive conn_step ::
    "(int \<Rightarrow> 'v \<Rightarrow> 'c \<Rightarrow> 'c \<times> gerror option) \<Rightarrow> ('c \<Rightarrow> 'c \<times> gerror option) \<Rightarrow>
     ('c, 'v) connLoops \<Rightarrow> ('c, 'v) connLoops \<Rightarrow> bool"
  for "write" close where
  step_send: "SendRequest_select pick m c = Some c' \<Longrightarrow> conn_step write close c c'"
| step_request_loop: "requestLoop_step (write now) pick c = Some c' \<Longrightarrow> conn_step write close c c'"
| step_response_loop: "responseLoop_step res c = Some c' \<Longrightarrow> conn_step write close c c'"
| step_close_done: "conn_step write close c (close_done c)"
| step_close_transport: "lc_done c \<Longrightarrow> conn_step write close c (close_transport close c)"
| step_handshake: "newConn_end close res c = Some (err, c') \<Longrightarrow> conn_step write close c c'"

section \<open>The queue\<close>

definition queue_ok :: "'v \<Rightarrow> ('c, 'v) connLoops \<Rightarrow> bool" where
  "queue_ok hs c \<longleftrightarrow> map fst (lc_writes c) @ lc_reqCh c = lc_sent c \<and> prefix [hs] (lc_sent c) \<and>
     length (lc_reqCh c) \<le> max 1 (lc_cap c)"

lemma queue_ok_update [simp]:
  "queue_ok hs (c\<lparr>lc_conn := k\<rparr>) = queue_ok hs c" "queue_ok hs (c\<lparr>lc_done := b\<rparr>) = queue_ok hs c"
  "queue_ok hs (c\<lparr>lc_writer := p\<rparr>) = queue_ok hs c" "queue_ok hs (c\<lparr>lc_reader := p\<rparr>) = queue_ok hs c"
  "queue_ok hs (c\<lparr>lc_read := ms\<rparr>) = queue_ok hs c" "queue_ok hs (c\<lparr>lc_bad := es\<rparr>) = queue_ok hs c"
  by (simp_all add: queue_ok_def)

lemma queue_ok_send: "queue_ok hs c \<Longrightarrow> SendRequest_select pick m c = Some c' \<Longrightarrow> queue_ok hs c'"
  by (auto simp: SendRequest_select_def has_room_def queue_ok_def split: if_splits)

lemma queue_ok_request_loop: "queue_ok hs c \<Longrightarrow> requestLoop_step write pick c = Some c' \<Longrightarrow> queue_ok hs c'"
  by (auto simp: requestLoop_step_def queue_ok_def Let_def
      split: loop_pc.splits list.splits if_splits prod.splits option.splits)

lemma queue_ok_response_loop: "queue_ok hs c \<Longrightarrow> responseLoop_step res c = Some c' \<Longrightarrow> queue_ok hs c'"
  by (auto simp: responseLoop_step_def split: loop_pc.splits sum.splits)

lemma queue_ok_handshake: "queue_ok hs c \<Longrightarrow> newConn_end close res c = Some (err, c') \<Longrightarrow> queue_ok hs c'"
  by (auto simp: newConn_end_def rpcConn_Close_def close_done_def close_transport_def Let_def
      split: if_splits sum.splits)

lemma queue_ok_step:
  assumes "queue_ok hs c" and "conn_step write close c c'"
  shows "queue_ok hs c'"
  using assms(2)
proof cases
  case step_send
  with assms(1) show ?thesis by (rule queue_ok_send)
next
  case step_request_loop
  with assms(1) show ?thesis by (rule queue_ok_request_loop)
next
  case step_response_loop
  with assms(1) show ?thesis by (rule queue_ok_response_loop)
next
  case step_handshake
  with assms(1) show ?thesis by (rule queue_ok_handshake)
qed (use assms(1) in \<open>simp_all add: close_done_def close_transport_def\<close>)

lemma queue_ok_begin: "newConn_begin cap hs k = Some c \<Longrightarrow> queue_ok hs c"
  by (auto simp: newConn_begin_def SendRequest_select_def has_room_def queue_ok_def split: if_splits)

text \<open>
  C34. Whatever senders, the two loops and a closing goroutine do to a connection, in any interleaving:
  the messages handed to the transport followed by the queued ones are exactly the accepted messages,
  in the order they were accepted, so none is written twice, dropped or overtaken; the first message of
  a connection is its handshake; and the queue stays within its capacity.
\<close>

theorem connection_sends_in_order:
  assumes "newConn_begin cap hs k = Some c0" and "(conn_step write close)\<^sup>*\<^sup>* c0 c"
  shows "map fst (lc_writes c) @ lc_reqCh c = lc_sent c \<and> prefix [hs] (lc_sent c) \<and>
    length (lc_reqCh c) \<le> max 1 (lc_cap c)"
proof -
  have "queue_ok hs c" using assms(2)
    by (induction rule: rtranclp_induct) (use queue_ok_begin [OF assms(1)] in \<open>auto dest: queue_ok_step\<close>)
  then show ?thesis by (simp add: queue_ok_def)
qed

text \<open>A transport that records what it is given, for the examples.\<close>

definition record_write :: "int \<Rightarrow> 'v \<Rightarrow> 'v list \<Rightarrow> 'v list \<times> gerror option" where
  "record_write now m k = (k @ [m], None)"

definition record_close :: "'v list \<Rightarrow> 'v list \<times> gerror option" where
  "record_close k = (k, None)"

definition sample_conn :: "(nat list, nat) connLoops" where
  "sample_conn =
     \<lparr>lc_conn = [], lc_reqCh = [7], lc_cap = 4, lc_done = False, lc_writer = Looping, lc_reader = Handshaking,
      lc_sent = [7], lc_writes = [], lc_read = [], lc_bad = []\<rparr>"

lemma sample_conn_begin: "newConn_begin 4 7 [] = Some sample_conn"
  by (simp add: newConn_begin_def SendRequest_select_def has_room_def sample_conn_def)

theorem connection_sends_in_order_witness:
  "\<exists>c. (conn_step record_write record_close)\<^sup>*\<^sup>* sample_conn c \<and> lc_conn c = [7] \<and> lc_reqCh c = [5] \<and>
     map fst (lc_writes c) @ lc_reqCh c = lc_sent c \<and> prefix [7] (lc_sent c) \<and> length (lc_reqCh c) \<le> max 1 (lc_cap c)"
proof -
  define c1 where "c1 = sample_conn\<lparr>lc_reqCh := [7, 5], lc_sent := [7, 5]\<rparr>"
  define c2 where "c2 = c1\<lparr>lc_conn := [7], lc_reqCh := [5], lc_writes := [(7, None)]\<rparr>"
  have "conn_step record_write record_close sample_conn c1"
    by (rule step_send [of True 5]) (simp add: SendRequest_select_def has_room_def sample_conn_def c1_def)
  moreover have "conn_step record_write record_close c1 c2"
    by (rule step_request_loop [of _ 0 True]) (simp add: requestLoop_step_def record_write_def sample_conn_def c1_def c2_def)
  ultimately have run: "(conn_step record_write record_close)\<^sup>*\<^sup>* sample_conn c2"
    by (meson converse_rtranclp_into_rtranclp r_into_rtranclp)
  with connection_sends_in_order [OF sample_conn_begin run] show ?thesis
    by (intro exI [of _ c2]) (simp add: c1_def c2_def)
qed

text \<open>The queue the rest of the client sees (\<^const>\<open>SendRequest\<close>) is this one while the connection has room.\<close>

definition abs_conn :: "('c, 'v) connLoops \<Rightarrow> 'v rpcConn" where
  "abs_conn c = \<lparr>reqCh = lc_reqCh c, conn_done = lc_done c\<rparr>"

lemma send_refines:
  "has_room c \<Longrightarrow> map_option abs_conn (SendRequest_select False m c) = Some (SendRequest m (abs_conn c))"
  by (auto simp: SendRequest_select_def SendRequest_def abs_conn_def)

section \<open>Closing\<close>

definition quiet :: "('c, 'v) connLoops \<Rightarrow> bool" where
  "quiet c \<longleftrightarrow> lc_done c \<and> (\<forall>e. lc_writer c \<noteq> Reporting e) \<and> (\<forall>e. lc_reader c \<noteq> Reporting e)"

lemma quiet_step:
  assumes "quiet c" and "conn_step write close c c'"
  shows "quiet c' \<and> lc_bad c' = lc_bad c"
  using assms(2)
proof cases
  case step_send
  with assms(1) show ?thesis by (auto simp: SendRequest_select_def quiet_def split: if_splits)
next
  case step_request_loop
  with assms(1) show ?thesis
    by (auto simp: requestLoop_step_def quiet_def Let_def closedIntentionally_def
        split: loop_pc.splits list.splits if_splits prod.splits option.splits)
next
  case step_response_loop
  with assms(1) show ?thesis
    by (auto simp: responseLoop_step_def quiet_def closedIntentionally_def split: loop_pc.splits sum.splits)
next
  case step_handshake
  with assms(1) show ?thesis
    by (auto simp: newConn_end_def rpcConn_Close_def close_done_def close_transport_def quiet_def Let_def
        split: if_splits sum.splits)
qed (use assms(1) in \<open>simp_all add: close_done_def close_transport_def quiet_def\<close>)

lemma quiet_run: "(conn_step write close)\<^sup>*\<^sup>* c c' \<Longrightarrow> quiet c \<Longrightarrow> quiet c' \<and> lc_bad c' = lc_bad c"
  by (induction rule: rtranclp_induct) (auto dest: quiet_step)

fun run_writer ::
    "(int \<Rightarrow> 'v \<Rightarrow> 'c \<Rightarrow> 'c \<times> gerror option) \<Rightarrow> (int \<times> bool) list \<Rightarrow> ('c, 'v) connLoops \<Rightarrow> ('c, 'v) connLoops" where
  "run_writer write [] c = c"
| "run_writer write ((now, pick) # sched) c =
     (case requestLoop_step (write now) pick c of None \<Rightarrow> c | Some c' \<Rightarrow> run_writer write sched c')"

text \<open>
  The goroutine that reads a framed connection, on what its stream still delivers: \<^verbatim>\<open>newConn\<close> up to the
  handshake response, and then the response loop.
\<close>

definition reader_turn ::
    "'s stream_api \<Rightarrow> 'v value_api \<Rightarrow> (byte list \<Rightarrow> gerror + 'v) \<Rightarrow> ('s messageConnAdapter, 'v) connLoops \<Rightarrow>
     ('s messageConnAdapter, 'v) connLoops option" where
  "reader_turn C V unpack c =
     (case lc_reader c of
        Handshaking \<Rightarrow>
          (let (res, k) = ReadMessage V unpack (lc_conn c)
           in map_option snd (newConn_end (Close_conn C) res (c\<lparr>lc_conn := k\<rparr>)))
      | Looping \<Rightarrow> (let (res, k) = ReadMessage V unpack (lc_conn c) in responseLoop_step res (c\<lparr>lc_conn := k\<rparr>))
      | Failed e \<Rightarrow> responseLoop_step (Inl e) c
      | Reporting e \<Rightarrow> responseLoop_step (Inl e) c
      | Returned \<Rightarrow> None)"

fun run_reader ::
    "'s stream_api \<Rightarrow> 'v value_api \<Rightarrow> (byte list \<Rightarrow> gerror + 'v) \<Rightarrow> nat \<Rightarrow> ('s messageConnAdapter, 'v) connLoops \<Rightarrow>
     ('s messageConnAdapter, 'v) connLoops" where
  "run_reader C V unpack 0 c = c"
| "run_reader C V unpack (Suc n) c =
     (case reader_turn C V unpack c of None \<Rightarrow> c | Some c' \<Rightarrow> run_reader C V unpack n c')"

definition loop_left :: "loop_pc \<Rightarrow> nat" where
  "loop_left p = (case p of Returned \<Rightarrow> 0 | Failed _ \<Rightarrow> 1 | Looping \<Rightarrow> 2 | Reporting _ \<Rightarrow> 3 | Handshaking \<Rightarrow> 4)"

lemma loop_left_0: "loop_left p = 0 \<longleftrightarrow> p = Returned"
  by (simp add: loop_left_def split: loop_pc.splits)

text \<open>What the request loop relies on: a closed transport stays closed and refuses every message.\<close>

locale closable =
  fixes "write" :: "int \<Rightarrow> 'v \<Rightarrow> 'c \<Rightarrow> 'c \<times> gerror option"
    and close :: "'c \<Rightarrow> 'c \<times> gerror option"
    and is_closed :: "'c \<Rightarrow> bool"
  assumes closes: "is_closed (fst (close k))"
    and refuses: "is_closed k \<Longrightarrow> snd (write now m k) \<noteq> None"
    and stays_closed: "is_closed k \<Longrightarrow> is_closed (fst (write now m k))"
begin

lemma closed_request_loop:
  assumes "lc_done c" and "is_closed (lc_conn c)" and "lc_writer c \<noteq> Handshaking" and "lc_writer c \<noteq> Returned"
  obtains c' where "requestLoop_step (write now) pick c = Some c'" "loop_left (lc_writer c') < loop_left (lc_writer c)"
    "lc_done c'" "is_closed (lc_conn c')" "lc_writer c' \<noteq> Handshaking"
proof (cases "lc_writer c = Looping")
  case True
  then show ?thesis
  proof (cases "lc_reqCh c")
    case (Cons m q)
    obtain k e where "write now m (lc_conn c) = (k, Some e)" "is_closed k"
      using refuses [OF assms(2), of now m] stays_closed [OF assms(2), of now m] by (metis option.exhaust prod.collapse)
    with True Cons assms that show ?thesis
      by (cases pick) (auto simp: requestLoop_step_def loop_left_def)
  qed (use True assms that in \<open>auto simp: requestLoop_step_def loop_left_def\<close>)
next
  case False
  with assms that show ?thesis
    by (cases "lc_writer c") (auto simp: requestLoop_step_def closedIntentionally_def loop_left_def)
qed

lemma closed_writer_returns:
  assumes "lc_done c" and "is_closed (lc_conn c)" and "lc_writer c \<noteq> Handshaking"
    and "loop_left (lc_writer c) \<le> length sched"
  shows "lc_writer (run_writer write sched c) = Returned"
  using assms
proof (induction sched arbitrary: c)
  case Nil
  then show ?case using loop_left_0 [of "lc_writer c"] by simp
next
  case (Cons s sched)
  obtain now pick where s: "s = (now, pick)" by force
  show ?case
  proof (cases "lc_writer c = Returned")
    case True
    then show ?thesis by (simp add: s requestLoop_step_def)
  next
    case False
    with Cons.prems obtain c' where "requestLoop_step (write now) pick c = Some c'" "lc_done c'" "is_closed (lc_conn c')"
      "lc_writer c' \<noteq> Handshaking" "loop_left (lc_writer c') < loop_left (lc_writer c)"
      using closed_request_loop by blast
    with Cons show ?thesis by (simp add: s)
  qed
qed

end

text \<open>The framed connection of \<^verbatim>\<open>valuerpc/rpc.go\<close> is such a transport, over any stream.\<close>

interpretation framed: closable "WriteMessage C pack" "Close_conn C" shutdown for C pack
  by unfold_locales (simp_all add: Close_conn_def WriteMessage_def Let_def split: prod.splits)

lemma closed_writer_quiet: "quiet c \<Longrightarrow> lc_bad (run_writer write sched c) = lc_bad c"
proof (induction sched arbitrary: c)
  case (Cons s sched)
  obtain now pick where s: "s = (now, pick)" by force
  show ?case
  proof (cases "requestLoop_step (write now) pick c")
    case (Some c')
    then have "conn_step write (\<lambda>k. (k, None)) c c'" by (rule step_request_loop)
    from quiet_step [OF Cons.prems this] show ?thesis using Cons.IH [of c'] Some by (simp add: s)
  qed (simp add: s)
qed simp

text \<open>A message takes four bytes at least; what is read never comes back.\<close>

definition bytes_left :: "('s messageConnAdapter, 'v) connLoops \<Rightarrow> nat" where
  "bytes_left c = length (unread (reader (lc_conn c)))"

lemma ReadFull_unread:
  "ReadFull n r = (Inr bs, r') \<Longrightarrow> length (unread r') + n = length (unread r)"
  "ReadFull n r = (res, r') \<Longrightarrow> length (unread r') \<le> length (unread r)"
  by (auto simp: ReadFull_def split: if_splits)

lemma ReadMessage_unread:
  assumes "ReadMessage V unpack t = (res, t')"
  shows "length (unread (reader t')) \<le> length (unread (reader t))"
    and "res = Inr m \<Longrightarrow> length (unread (reader t')) + 4 \<le> length (unread (reader t))"
proof -
  obtain r1 u1 where 1: "ReadFull 4 (reader t) = (r1, u1)" by force
  obtain r2 u2 where 2: "ReadFull (unat (Uint32 (projr r1))) u1 = (r2, u2)" by force
  have "length (unread u1) \<le> length (unread (reader t))" "length (unread u2) \<le> length (unread u1)"
    by (rule ReadFull_unread(2) [OF 1], rule ReadFull_unread(2) [OF 2])
  moreover have "length (unread u1) + 4 = length (unread (reader t))" if "r1 = Inr bs" for bs
    using ReadFull_unread(1) [OF 1 [unfolded that]] .
  ultimately show "length (unread (reader t')) \<le> length (unread (reader t))"
    and "res = Inr m \<Longrightarrow> length (unread (reader t')) + 4 \<le> length (unread (reader t))"
    using assms 1 2 by (auto simp: ReadMessage_def Let_def split: sum.splits if_splits)
qed

text \<open>Every turn of the reader of a closed connection uses up a message or brings it closer to its return.\<close>

lemma closed_reader_turn:
  assumes "lc_done c" and "lc_reader c \<noteq> Returned"
  shows "\<exists>c'. reader_turn C V unpack c = Some c' \<and> lc_done c' \<and>
    bytes_left c' div 4 + loop_left (lc_reader c') < bytes_left c div 4 + loop_left (lc_reader c) \<and>
    (quiet c \<longrightarrow> quiet c' \<and> lc_bad c' = lc_bad c)"
proof -
  obtain res k where r: "ReadMessage V unpack (lc_conn c) = (res, k)" by force
  have le: "length (unread (reader k)) div 4 \<le> bytes_left c div 4"
    using ReadMessage_unread(1) [OF r] by (simp add: bytes_left_def div_le_mono)
  have less: "length (unread (reader k)) div 4 < bytes_left c div 4" if "res = Inr m" for m
    using ReadMessage_unread(2) [OF r that] by (simp add: bytes_left_def)
  note defs = reader_turn_def responseLoop_step_def newConn_end_def closedIntentionally_def rpcConn_Close_def close_done_def
    close_transport_def Close_conn_def bytes_left_def quiet_def loop_left_def r
  show ?thesis
  proof (cases "lc_reader c")
    case Handshaking
    then show ?thesis using assms le less by (cases res) (auto simp: defs split: prod.splits)
  next
    case Looping
    then show ?thesis using assms le less by (cases res) (auto simp: defs)
  qed (use assms in \<open>auto simp: defs\<close>)
qed

lemma closed_reader_returns:
  assumes "lc_done c" and "bytes_left c div 4 + loop_left (lc_reader c) \<le> n"
  shows "lc_reader (run_reader C V unpack n c) = Returned \<and>
    (quiet c \<longrightarrow> lc_bad (run_reader C V unpack n c) = lc_bad c)"
  using assms
proof (induction n arbitrary: c)
  case 0
  then show ?case using loop_left_0 [of "lc_reader c"] by simp
next
  case (Suc n)
  show ?case
  proof (cases "lc_reader c = Returned")
    case True
    then show ?thesis by (simp add: reader_turn_def)
  next
    case False
    obtain c' where "reader_turn C V unpack c = Some c'" "lc_done c'"
      "bytes_left c' div 4 + loop_left (lc_reader c') < bytes_left c div 4 + loop_left (lc_reader c)"
      "quiet c \<longrightarrow> quiet c' \<and> lc_bad c' = lc_bad c"
      using closed_reader_turn [OF Suc.prems(1) False] by blast
    then show ?thesis using Suc.IH [of c'] Suc.prems(2) by auto
  qed
qed

lemma writer_never_handshakes:
  assumes "newConn_begin cap hs k = Some c0" and "(conn_step write close)\<^sup>*\<^sup>* c0 c"
  shows "lc_writer c \<noteq> Handshaking"
  using assms(2)
proof (induction rule: rtranclp_induct)
  case base
  then show ?case using assms(1) by (auto simp: newConn_begin_def SendRequest_select_def split: if_splits)
next
  case (step c c')
  from step.hyps(2) show ?case
    by cases (use step.IH in \<open>auto simp: SendRequest_select_def requestLoop_step_def responseLoop_step_def close_done_def
      close_transport_def newConn_end_def rpcConn_Close_def Let_def
      split: if_splits loop_pc.splits list.splits prod.splits option.splits sum.splits\<close>)
qed

text \<open>
  C35. \<^verbatim>\<open>Close\<close> ends a connection over a framed transport, from every state such a connection can reach, the
  wait for the handshake response included. The request loop returns within three steps of its own, however
  much is still queued, because the closed transport refuses every message. The reading goroutine consumes
  what its closed stream had already delivered, \<open>n\<close> bytes, and returns after at most \<open>n / 4 + 4\<close> turns. And
  unless one of them had found the connection broken before the close, neither reports it as a bad one.
\<close>

theorem closed_connection_winds_down:
  fixes C :: "'s stream_api"
  assumes "newConn_begin cap hs k = Some c0" and "(conn_step (WriteMessage C pack) (Close_conn C))\<^sup>*\<^sup>* c0 c"
    and "3 \<le> length sched" and "length (unread (reader (lc_conn c))) div 4 + 4 \<le> n"
  shows "let c' = snd (rpcConn_Close (Close_conn C) c)
         in lc_writer (run_writer (WriteMessage C pack) sched c') = Returned \<and>
            lc_reader (run_reader C V unpack n c') = Returned \<and>
            ((\<forall>e. lc_writer c \<noteq> Reporting e \<and> lc_reader c \<noteq> Reporting e) \<longrightarrow>
              lc_bad (run_writer (WriteMessage C pack) sched c') = lc_bad c \<and> lc_bad (run_reader C V unpack n c') = lc_bad c)"
proof -
  let ?c = "snd (rpcConn_Close (Close_conn C) c)"
  have c: "lc_done ?c" "shutdown (lc_conn ?c)" "lc_writer ?c = lc_writer c" "lc_reader ?c = lc_reader c" "lc_bad ?c = lc_bad c"
    using framed.closes [of C "lc_conn c"] by (simp_all add: rpcConn_Close_def close_done_def close_transport_def Let_def)
  have "bytes_left ?c = bytes_left c"
    by (simp add: rpcConn_Close_def close_done_def close_transport_def Close_conn_def bytes_left_def Let_def split: prod.splits)
  then have n: "bytes_left ?c div 4 + loop_left (lc_reader ?c) \<le> n"
    using assms(4) by (simp add: bytes_left_def loop_left_def split: loop_pc.splits)
  have w: "lc_writer c \<noteq> Handshaking" by (rule writer_never_handshakes [OF assms(1,2)])
  then have "loop_left (lc_writer c) \<le> length sched"
    using assms(3) by (simp add: loop_left_def split: loop_pc.splits)
  then have "lc_writer (run_writer (WriteMessage C pack) sched ?c) = Returned"
    using framed.closed_writer_returns [of ?c sched C pack] c w by simp
  moreover have "quiet ?c \<longleftrightarrow> (\<forall>e. lc_writer c \<noteq> Reporting e \<and> lc_reader c \<noteq> Reporting e)" using c by (auto simp: quiet_def)
  ultimately show ?thesis
    using closed_reader_returns [OF c(1) n, of C V unpack] closed_writer_quiet [of ?c "WriteMessage C pack" sched] c(5)
    by (simp add: Let_def)
qed

text \<open>A fresh connection, still waiting for its handshake response, with three bytes of one received.\<close>

theorem closed_connection_winds_down_witness:
  "let C = \<lparr>conn_Write = \<lambda>k b. (k @ b, None), conn_Close = \<lambda>k. (k, None), conn_SetWriteDeadline = None,
         conn_SetReadDeadline = None, conn_RemoteAddr = None\<rparr>;
       c = the (newConn_begin 4 GNull (NewMsgConn [] \<lparr>unread = [0, 0, 0], end_err = io_EOF\<rparr> 0 0));
       c' = snd (rpcConn_Close (Close_conn C) c)
   in lc_writer (run_writer (WriteMessage C (\<lambda>m. Inr [])) [(0, True), (0, True), (0, False)] c') = Returned \<and>
      lc_reader (run_reader C ref_api (\<lambda>b. Inl io_EOF) 4 c') = Returned \<and> lc_bad (run_reader C ref_api (\<lambda>b. Inl io_EOF) 4 c') = []"
proof -
  define C :: "byte list stream_api" where "C = \<lparr>conn_Write = \<lambda>k b. (k @ b, None), conn_Close = \<lambda>k. (k, None),
    conn_SetWriteDeadline = None, conn_SetReadDeadline = None, conn_RemoteAddr = None\<rparr>"
  define k where "k = NewMsgConn ([] :: byte list) \<lparr>unread = [0, 0, 0], end_err = io_EOF\<rparr> 0 0"
  define c where "c = the (newConn_begin 4 GNull k)"
  have c: "newConn_begin 4 GNull k = Some c" "lc_conn c = k" "lc_writer c = Looping" "lc_reader c = Handshaking" "lc_bad c = []"
    by (simp_all add: newConn_begin_def SendRequest_select_def has_room_def c_def)
  have "length (unread (reader (lc_conn c))) div 4 + 4 \<le> 4" by (simp add: c(2) k_def NewMsgConn_def)
  from closed_connection_winds_down [OF c(1) rtranclp.rtrancl_refl _ this, of "[(0, True), (0, True), (0, False)]" C
      "\<lambda>m. Inr []" ref_api "\<lambda>b. Inl io_EOF"] c(3-5)
  show ?thesis unfolding Let_def C_def [symmetric] k_def [symmetric] c_def [symmetric] by simp
qed

text \<open>
  A connection closed on purpose is not reported as a bad one: once \<^verbatim>\<open>done\<close> is closed and no loop
  is already past its test, no interleaving of senders, loops and further closes calls the error
  handler again, however many reads and writes fail.
\<close>

theorem closed_connection_not_reported:
  assumes "lc_done c" and "\<forall>e. lc_writer c \<noteq> Reporting e \<and> lc_reader c \<noteq> Reporting e"
    and "(conn_step write close)\<^sup>*\<^sup>* c c'"
  shows "lc_bad c' = lc_bad c"
  using quiet_run [OF assms(3)] assms(1,2) by (simp add: quiet_def)

theorem closed_connection_not_reported_witness:
  "\<exists>c. (conn_step record_write record_close)\<^sup>*\<^sup>* (close_done (sample_conn\<lparr>lc_reader := Looping\<rparr>)) c \<and>
     lc_reader c = Failed io_EOF \<and> lc_bad c = []"
proof -
  let ?c = "close_done (sample_conn\<lparr>lc_reader := Looping\<rparr>)"
  have "conn_step record_write record_close ?c (?c\<lparr>lc_reader := Failed io_EOF\<rparr>)"
    by (rule step_response_loop [of "Inl io_EOF"]) (simp add: responseLoop_step_def close_done_def sample_conn_def)
  then have run: "(conn_step record_write record_close)\<^sup>*\<^sup>* ?c (?c\<lparr>lc_reader := Failed io_EOF\<rparr>)" by (rule r_into_rtranclp)
  have "lc_bad (?c\<lparr>lc_reader := Failed io_EOF\<rparr>) = lc_bad ?c"
    by (rule closed_connection_not_reported [OF _ _ run]) (simp_all add: close_done_def sample_conn_def)
  with run show ?thesis by (intro exI [of _ "?c\<lparr>lc_reader := Failed io_EOF\<rparr>"]) (simp add: close_done_def sample_conn_def)
qed

text \<open>
  The test and the report are two steps: a loop that tested before the connection was closed reports
  it afterwards, when a reconnect may already have installed the next connection.
\<close>

lemma late_report_after_close:
  assumes "newConn_begin cap hs k = Some c0"
  shows "\<exists>c c'. (conn_step write close)\<^sup>*\<^sup>* c0 c \<and> lc_done c \<and> lc_bad c = [] \<and>
    conn_step write close c c' \<and> lc_bad c' = [e]"
proof -
  have c0: "lc_reader c0 = Handshaking" "\<not> lc_done c0" "lc_bad c0 = []"
    using assms by (auto simp: newConn_begin_def SendRequest_select_def split: if_splits)
  define c1 where "c1 = c0\<lparr>lc_read := lc_read c0 @ [hs], lc_reader := Looping\<rparr>"
  define c2 where "c2 = c1\<lparr>lc_reader := Failed e\<rparr>"
  define c3 where "c3 = c2\<lparr>lc_reader := Reporting e\<rparr>"
  note d = c1_def c2_def c3_def
  have "conn_step write close c0 c1"
    by (rule step_handshake [of _ "Inr hs" _ None]) (simp add: newConn_end_def c0 d)
  moreover have "conn_step write close c1 c2"
    by (rule step_response_loop [of "Inl e"]) (simp add: responseLoop_step_def d)
  moreover have "conn_step write close c2 c3"
    by (rule step_response_loop [of "Inl e"]) (simp add: responseLoop_step_def closedIntentionally_def c0 d)
  moreover have "conn_step write close c3 (close_done c3)" by (rule step_close_done)
  ultimately have "(conn_step write close)\<^sup>*\<^sup>* c0 (close_done c3)"
    by (meson converse_rtranclp_into_rtranclp r_into_rtranclp)
  moreover have "conn_step write close (close_done c3) ((close_done c3)\<lparr>lc_bad := [e], lc_reader := Returned\<rparr>)"
    by (rule step_response_loop [of "Inl e"]) (simp add: responseLoop_step_def close_done_def c0 d)
  ultimately show ?thesis
    by (intro exI [of _ "close_done c3"] exI conjI) (assumption | simp add: close_done_def c0 d)+
qed

end
