(* ===== verification/Web_Socket.thy ===== *)
theory Web_Socket
  imports Transport Conn_Loops
begin

text \<open>
  The WebSocket transport (\<^verbatim>\<open>valuerpc/transport_ws.go\<close>): one binary WebSocket message per RPC message,
  the pinger that detects dead peers, the listener with its HTTP handlers, and the dialer. The
  WebSocket library (\<^verbatim>\<open>github.com/coder/websocket\<close>) is the parameter \<open>W\<close>.
\<close>

section \<open>The library\<close>

text \<open>The context given to a library call: whether it is cancelled, and its deadline.\<close>

record wsCtx =
  wc_cancelled :: bool
  wc_deadline :: "int option"

datatype wsMessageType = MessageText | MessageBinary

record 'c websocket_api =
  ws_Read :: "wsCtx \<Rightarrow> 'c \<Rightarrow> (gerror + wsMessageType \<times> byte list) \<times> 'c"
  ws_Write :: "wsCtx \<Rightarrow> wsMessageType \<Rightarrow> byte list \<Rightarrow> 'c \<Rightarrow> 'c \<times> gerror option"
  ws_Ping :: "wsCtx \<Rightarrow> 'c \<Rightarrow> 'c \<times> gerror option"
  ws_Close :: "nat \<Rightarrow> string \<Rightarrow> 'c \<Rightarrow> 'c"
  ws_SetReadLimit :: "int \<Rightarrow> 'c \<Rightarrow> 'c"
  ws_TypeName :: "wsMessageType \<Rightarrow> string"

definition StatusNormalClosure :: nat where
  "StatusNormalClosure = 1000"

definition StatusGoingAway :: nat where
  "StatusGoingAway = 1001"

section \<open>Connections\<close>

text \<open>
  \<^verbatim>\<open>closeOnce\<close> closes \<^verbatim>\<open>done\<close> and cancels the context, which nothing else does: \<open>wm_done\<close> stands for
  both. \<open>wm_readDL\<close> is the pointer to the deadline, with \<^term>\<open>Some None\<close> for the zero time;
  \<open>wm_pinger\<close> says whether the pinger runs.
\<close>

record 'c wsMsgConn =
  wm_conn :: 'c
  wm_remoteAddr :: string
  wm_writeTO :: int
  wm_keepAlive :: int
  wm_readDL :: "int option option"
  wm_done :: bool
  wm_pinger :: bool

definition newWSMsgConn ::
    "'c websocket_api \<Rightarrow> 'c \<Rightarrow> string \<Rightarrow> int \<Rightarrow> int \<Rightarrow> int \<Rightarrow> 'c wsMsgConn" where
  "newWSMsgConn W c remoteAddr writeTimeout maxSize keepAlive =
     (let c = (if maxSize > 0 then ws_SetReadLimit W maxSize c else ws_SetReadLimit W (- 1) c)
      in \<lparr>wm_conn = c, wm_remoteAddr = remoteAddr, wm_writeTO = writeTimeout, wm_keepAlive = keepAlive,
          wm_readDL = None, wm_done = False, wm_pinger = (keepAlive > 0)\<rparr>)"

definition ReadMessage_ws ::
    "'v value_api \<Rightarrow> (byte list \<Rightarrow> gerror + 'v) \<Rightarrow> 'c websocket_api \<Rightarrow> 'c wsMsgConn \<Rightarrow>
     (gerror + 'v) \<times> 'c wsMsgConn" where
  "ReadMessage_ws V unpack W t =
     (let ctx = \<lparr>wc_cancelled = wm_done t,
                 wc_deadline = (case wm_readDL t of Some (Some dl) \<Rightarrow> Some dl | _ \<Rightarrow> None)\<rparr>
      in case ws_Read W ctx (wm_conn t) of
           (Inl err, c) \<Rightarrow> (Inl err, t\<lparr>wm_conn := c\<rparr>)
         | (Inr (typ, data), c) \<Rightarrow>
             (if typ \<noteq> MessageBinary
              then Inl (PlainError (''expected a binary websocket message, got '' @ ws_TypeName W typ))
              else
                (case unpack data of
                   Inl err \<Rightarrow> Inl (PlainError (''msgpack unpack, '' @ Error_text err))
                 | Inr msg \<Rightarrow>
                     if Kind V msg \<noteq> MAP then Inl (PlainError ''expected msgpack map'') else Inr msg),
              t\<lparr>wm_conn := c\<rparr>))"

definition WriteMessage_ws ::
    "'c websocket_api \<Rightarrow> ('v \<Rightarrow> gerror + byte list) \<Rightarrow> int \<Rightarrow> 'v \<Rightarrow> 'c wsMsgConn \<Rightarrow>
     'c wsMsgConn \<times> gerror option" where
  "WriteMessage_ws W pack now msg t =
     (case pack msg of
        Inl err \<Rightarrow> (t, Some (PlainError (''msgpack pack, '' @ Error_text err)))
      | Inr bs \<Rightarrow>
          (let ctx = \<lparr>wc_cancelled = wm_done t,
                      wc_deadline = (if wm_writeTO t > 0 then Some (now + wm_writeTO t) else None)\<rparr>;
               (c, err) = ws_Write W ctx MessageBinary bs (wm_conn t)
           in (t\<lparr>wm_conn := c\<rparr>, err)))"

definition SetReadDeadline_ws :: "int option \<Rightarrow> 'c wsMsgConn \<Rightarrow> 'c wsMsgConn" where
  "SetReadDeadline_ws deadline t = t\<lparr>wm_readDL := Some deadline\<rparr>"

definition Close_ws :: "'c websocket_api \<Rightarrow> 'c wsMsgConn \<Rightarrow> 'c wsMsgConn" where
  "Close_ws W t =
     (if wm_done t then t
      else t\<lparr>wm_done := True, wm_conn := ws_Close W StatusNormalClosure [] (wm_conn t)\<rparr>)"

text \<open>One turn of the pinger: \<open>tick\<close> says whether the ticker fired, \<open>pick\<close> decides when \<^verbatim>\<open>done\<close> is closed too.\<close>

definition pinger_step :: "'c websocket_api \<Rightarrow> int \<Rightarrow> bool \<Rightarrow> bool \<Rightarrow> 'c wsMsgConn \<Rightarrow> 'c wsMsgConn option" where
  "pinger_step W now tick pick t =
     (if \<not> wm_pinger t then None
      else if wm_done t \<and> \<not> (tick \<and> pick) then Some (t\<lparr>wm_pinger := False\<rparr>)
      else if tick then
        (let (c, err) = ws_Ping W \<lparr>wc_cancelled = wm_done t, wc_deadline = Some (now + wm_keepAlive t)\<rparr> (wm_conn t);
             t = t\<lparr>wm_conn := c\<rparr>
         in case err of
              None \<Rightarrow> Some t
            | Some _ \<Rightarrow> Some ((Close_ws W t)\<lparr>wm_pinger := False\<rparr>))
      else None)"

section \<open>The listener\<close>

text \<open>
  The listener with the HTTP handlers it serves, numbered by their requests: a handler offers its
  connection, holds it once \<^verbatim>\<open>Accept\<close> took it, and returns.
\<close>

datatype wsHandlerPc = Offering | Holding | HandlerReturned

record 'c wsNet =
  wl_addr :: string
  wl_path :: string
  wl_writeTO :: int
  wl_maxFrameSize :: int
  wl_keepAlive :: int
  wl_done :: bool
  wl_httpSrv :: bool
  wl_httpClosed :: bool
  wl_conns :: "nat \<rightharpoonup> 'c wsMsgConn"
  wl_handlers :: "nat \<rightharpoonup> wsHandlerPc"
  wl_accepted :: "nat list"

definition NewWebSocketListener ::
    "gerror + string \<Rightarrow> string \<Rightarrow> int \<Rightarrow> int \<Rightarrow> int \<Rightarrow> gerror + 'c wsNet" where
  "NewWebSocketListener listened path writeTimeout maxSize keepAlive =
     (let path = (if path = [] then ''/'' else path)
      in case listened of
           Inl err \<Rightarrow> Inl err
         | Inr addr \<Rightarrow>
             Inr \<lparr>wl_addr = addr, wl_path = path, wl_writeTO = writeTimeout, wl_maxFrameSize = maxSize,
                  wl_keepAlive = keepAlive, wl_done = False, wl_httpSrv = True, wl_httpClosed = False,
                  wl_conns = Map.empty, wl_handlers = Map.empty, wl_accepted = []\<rparr>)"

definition NewWebSocketHandler :: "int \<Rightarrow> int \<Rightarrow> int \<Rightarrow> 'c wsNet" where
  "NewWebSocketHandler writeTimeout maxSize keepAlive =
     \<lparr>wl_addr = ''websocket'', wl_path = [], wl_writeTO = writeTimeout, wl_maxFrameSize = maxSize,
      wl_keepAlive = keepAlive, wl_done = False, wl_httpSrv = False, wl_httpClosed = False,
      wl_conns = Map.empty, wl_handlers = Map.empty, wl_accepted = []\<rparr>"

text \<open>A handler from its start to its first \<^verbatim>\<open>select\<close>, on what the upgrade of its request returned.\<close>

definition Handler_begin ::
    "'c websocket_api \<Rightarrow> gerror + 'c \<Rightarrow> string \<Rightarrow> nat \<Rightarrow> 'c wsNet \<Rightarrow> 'c wsNet" where
  "Handler_begin W upgraded remoteAddr n l =
     (case upgraded of
        Inl _ \<Rightarrow> l
      | Inr c \<Rightarrow>
          l\<lparr>wl_conns := (wl_conns l)(n \<mapsto> newWSMsgConn W c remoteAddr (wl_writeTO l) (wl_maxFrameSize l) (wl_keepAlive l)),
            wl_handlers := (wl_handlers l)(n \<mapsto> Offering)\<rparr>)"

text \<open>
  The rest of a handler, apart from handing its connection over, which is a step of \<^verbatim>\<open>Accept\<close>.
\<close>

definition Handler_step :: "'c websocket_api \<Rightarrow> bool \<Rightarrow> nat \<Rightarrow> 'c wsNet \<Rightarrow> 'c wsNet option" where
  "Handler_step W pick n l =
     (case (wl_handlers l n, wl_conns l n) of
        (Some Offering, Some mc) \<Rightarrow>
          if wl_done l then
            Some (l\<lparr>wl_conns := (wl_conns l)(n \<mapsto>
                      mc\<lparr>wm_conn := ws_Close W StatusGoingAway ''server shutting down'' (wm_conn mc)\<rparr>),
                    wl_handlers := (wl_handlers l)(n \<mapsto> HandlerReturned)\<rparr>)
          else None
      | (Some Holding, Some mc) \<Rightarrow>
          if wm_done mc \<and> (pick \<or> \<not> wl_done l) then Some (l\<lparr>wl_handlers := (wl_handlers l)(n \<mapsto> HandlerReturned)\<rparr>)
          else if wl_done l then
            Some (l\<lparr>wl_conns := (wl_conns l)(n \<mapsto> Close_ws W mc), wl_handlers := (wl_handlers l)(n \<mapsto> HandlerReturned)\<rparr>)
          else None
      | _ \<Rightarrow> None)"

definition Accept_ws :: "nat option \<Rightarrow> bool \<Rightarrow> 'c wsNet \<Rightarrow> ((gerror + nat) \<times> 'c wsNet) option" where
  "Accept_ws offered pick l =
     (let closed = (if wl_done l then Some (Inl (PlainError ''websocket listener closed''), l) else None)
      in case offered of
           None \<Rightarrow> closed
         | Some n \<Rightarrow>
             if wl_handlers l n = Some Offering \<and> (pick \<or> \<not> wl_done l)
             then Some (Inr n, l\<lparr>wl_handlers := (wl_handlers l)(n \<mapsto> Holding), wl_accepted := wl_accepted l @ [n]\<rparr>)
             else closed)"

definition wsListener_Close :: "'c wsNet \<Rightarrow> 'c wsNet" where
  "wsListener_Close l =
     (if wl_done l then l
      else (let l = l\<lparr>wl_done := True\<rparr> in if wl_httpSrv l then l\<lparr>wl_httpClosed := True\<rparr> else l))"

text \<open>Dialling: \<open>dial\<close> is the library's \<^verbatim>\<open>Dial\<close> on the remaining time of its context and the address.\<close>

definition defaultWSDialTimeout :: int where
  "defaultWSDialTimeout = 30 * 1000000000"

definition wsDialer_Dial ::
    "'c websocket_api \<Rightarrow> (int option \<Rightarrow> string \<Rightarrow> gerror + 'c) \<Rightarrow> call_ctx \<Rightarrow> dialer \<Rightarrow> gerror + 'c wsMsgConn" where
  "wsDialer_Dial W dial ctx d =
     (let left = (if ctx_deadline ctx = None \<and> defaultWSDialTimeout > 0 then Some defaultWSDialTimeout
                  else ctx_deadline ctx)
      in case dial left (d_url d) of
           Inl err \<Rightarrow> Inl err
         | Inr c \<Rightarrow> Inr (newWSMsgConn W c (d_url d) (sint (d_writeTimeout d)) (d_maxFrameSize d) (sint (d_keepAlive d))))"

text \<open>Everything that happens to a listener and its connections.\<close>

inductive ws_step :: "'c websocket_api \<Rightarrow> 'c wsNet \<Rightarrow> 'c wsNet \<Rightarrow> bool" for W where
  ws_upgrade: "wl_handlers l n = None \<Longrightarrow> ws_step W l (Handler_begin W up remoteAddr n l)"
| ws_accept: "Accept_ws offered pick l = Some (res, l') \<Longrightarrow> ws_step W l l'"
| ws_handler: "Handler_step W pick n l = Some l' \<Longrightarrow> ws_step W l l'"
| ws_shutdown: "ws_step W l (wsListener_Close l)"
| ws_close: "wl_conns l n = Some mc \<Longrightarrow> n \<in> set (wl_accepted l) \<Longrightarrow>
    ws_step W l (l\<lparr>wl_conns := (wl_conns l)(n \<mapsto> Close_ws W mc)\<rparr>)"
| ws_ping: "wl_conns l n = Some mc \<Longrightarrow> pinger_step W now tick pick mc = Some mc' \<Longrightarrow>
    ws_step W l (l\<lparr>wl_conns := (wl_conns l)(n \<mapsto> mc')\<rparr>)"

section \<open>Handlers and their connections\<close>

text \<open>
  A handler, its connection and whether that was accepted: an offered connection was not, a held one
  was, and the handler of an accepted one returns only when it is closed.
\<close>

fun entry_ok :: "wsHandlerPc option \<Rightarrow> 'c wsMsgConn option \<Rightarrow> bool \<Rightarrow> bool" where
  "entry_ok None c acc = (c = None \<and> \<not> acc)"
| "entry_ok (Some Offering) c acc = (c \<noteq> None \<and> \<not> acc)"
| "entry_ok (Some Holding) c acc = (c \<noteq> None \<and> acc)"
| "entry_ok (Some HandlerReturned) c acc = (\<exists>mc. c = Some mc \<and> (acc \<longrightarrow> wm_done mc))"

definition ws_ok :: "'c wsNet \<Rightarrow> bool" where
  "ws_ok l \<longleftrightarrow> distinct (wl_accepted l) \<and>
     (\<forall>n. entry_ok (wl_handlers l n) (wl_conns l n) (n \<in> set (wl_accepted l)))"

lemma ws_okE:
  assumes "ws_ok l"
  shows "distinct (wl_accepted l)" "entry_ok (wl_handlers l n) (wl_conns l n) (n \<in> set (wl_accepted l))"
  using assms by (auto simp: ws_ok_def)

lemma ws_ok_update:
  assumes "ws_ok l" and "wl_accepted l' = wl_accepted l" and "entry_ok h c (n \<in> set (wl_accepted l))"
    and "wl_handlers l' = (wl_handlers l)(n := h)" and "wl_conns l' = (wl_conns l)(n := c)"
  shows "ws_ok l'"
  using assms by (auto simp: ws_ok_def)

lemma entry_ok_conn: "entry_ok h (Some mc) acc \<Longrightarrow> (wm_done mc \<Longrightarrow> wm_done mc') \<Longrightarrow> entry_ok h (Some mc') acc"
  by (cases "(h, Some mc, acc)" rule: entry_ok.cases) auto

lemma Close_ws_done [simp]: "wm_done (Close_ws W t)"
  by (simp add: Close_ws_def)

lemma pinger_keeps_done: "pinger_step W now tick pick t = Some t' \<Longrightarrow> wm_done t \<Longrightarrow> wm_done t'"
  by (auto simp: pinger_step_def Let_def split: if_splits prod.splits option.splits)

lemma ws_ok_conn:
  assumes "ws_ok l" and "wl_conns l n = Some mc" and "wm_done mc \<Longrightarrow> wm_done mc'"
  shows "ws_ok (l\<lparr>wl_conns := (wl_conns l)(n \<mapsto> mc')\<rparr>)"
  by (rule ws_ok_update [OF assms(1), of _ "wl_handlers l n" "Some mc'" n])
    (use ws_okE(2) [OF assms(1), of n] assms(2,3) in \<open>auto intro: entry_ok_conn\<close>)

lemma ws_ok_accept:
  assumes "ws_ok l" and "Accept_ws offered pick l = Some (res, l')"
  shows "ws_ok l'"
proof -
  have "l' = l \<or> (\<exists>n. wl_handlers l n = Some Offering \<and>
      l' = l\<lparr>wl_handlers := (wl_handlers l)(n \<mapsto> Holding), wl_accepted := wl_accepted l @ [n]\<rparr>)"
    using assms(2) by (auto simp: Accept_ws_def Let_def split: if_splits option.splits)
  then show ?thesis
  proof
    assume "\<exists>n. wl_handlers l n = Some Offering \<and>
      l' = l\<lparr>wl_handlers := (wl_handlers l)(n \<mapsto> Holding), wl_accepted := wl_accepted l @ [n]\<rparr>"
    then obtain n where n: "wl_handlers l n = Some Offering"
      "l' = l\<lparr>wl_handlers := (wl_handlers l)(n \<mapsto> Holding), wl_accepted := wl_accepted l @ [n]\<rparr>" by blast
    with ws_okE(2) [OF assms(1), of n] assms(1) show ?thesis by (auto simp: ws_ok_def)
  qed (use assms(1) in simp)
qed

lemma ws_ok_handler:
  assumes "ws_ok l" and "Handler_step W pick n l = Some l'"
  shows "ws_ok l'"
proof (rule ws_ok_update [OF assms(1), of l' "Some HandlerReturned" "wl_conns l' n" n])
  show "wl_handlers l' = (wl_handlers l)(n \<mapsto> HandlerReturned)" "wl_accepted l' = wl_accepted l"
    "wl_conns l' = (wl_conns l)(n := wl_conns l' n)"
    using assms(2) by (auto simp: Handler_step_def split: option.splits wsHandlerPc.splits if_splits)
  show "entry_ok (Some HandlerReturned) (wl_conns l' n) (n \<in> set (wl_accepted l))"
    using assms(2) ws_okE(2) [OF assms(1), of n]
    by (auto simp: Handler_step_def split: option.splits wsHandlerPc.splits if_splits)
qed

lemma ws_ok_step:
  assumes "ws_ok l" and "ws_step W l l'"
  shows "ws_ok l'"
  using assms(2)
proof cases
  case (ws_upgrade n up remoteAddr)
  with ws_okE(2) [OF assms(1), of n] assms(1) show ?thesis
    by (cases up) (auto simp: Handler_begin_def ws_ok_def)
next
  case ws_accept
  with assms(1) show ?thesis by (blast intro: ws_ok_accept)
next
  case ws_handler
  with assms(1) show ?thesis by (blast intro: ws_ok_handler)
next
  case ws_shutdown
  with assms(1) show ?thesis by (auto simp: wsListener_Close_def ws_ok_def Let_def)
next
  case (ws_close n mc)
  with assms(1) show ?thesis by (simp add: ws_ok_conn)
next
  case (ws_ping n mc now tick pick mc')
  with assms(1) show ?thesis by (simp add: ws_ok_conn pinger_keeps_done)
qed

lemma ws_ok_reachable: "(ws_step W)\<^sup>*\<^sup>* l l' \<Longrightarrow> ws_ok l \<Longrightarrow> ws_ok l'"
  by (induction rule: rtranclp_induct) (blast intro: ws_ok_step)+

lemma ws_ok_new: "ws_ok (NewWebSocketHandler wto mfs ka)" "NewWebSocketListener listened path wto mfs ka = Inr l \<Longrightarrow> ws_ok l"
  by (auto simp: NewWebSocketHandler_def NewWebSocketListener_def ws_ok_def Let_def split: sum.splits)

text \<open>
  C38. Whatever requests are upgraded, connections accepted, pinged and closed, and whenever the listener
  shuts down: a connection is handed to \<^verbatim>\<open>Accept\<close> at most once, and the HTTP handler of an accepted
  connection lives at least as long as the connection. Returning earlier would tear it down.
\<close>

theorem ws_handler_outlives_connection:
  assumes "l0 = NewWebSocketHandler wto mfs ka \<or> NewWebSocketListener listened path wto mfs ka = Inr l0"
    and "(ws_step W)\<^sup>*\<^sup>* l0 l"
  shows "distinct (wl_accepted l) \<and>
    (\<forall>n\<in>set (wl_accepted l). \<exists>mc. wl_conns l n = Some mc \<and>
       (wl_handlers l n = Some Holding \<or> wl_handlers l n = Some HandlerReturned \<and> wm_done mc))"
proof -
  have ok: "ws_ok l" using assms ws_ok_new ws_ok_reachable by blast
  have "\<exists>mc. wl_conns l n = Some mc \<and>
      (wl_handlers l n = Some Holding \<or> wl_handlers l n = Some HandlerReturned \<and> wm_done mc)"
    if "n \<in> set (wl_accepted l)" for n
    using ws_okE(2) [OF ok, of n] that
    by (cases "(wl_handlers l n, wl_conns l n, n \<in> set (wl_accepted l))" rule: entry_ok.cases) auto
  with ws_okE(1) [OF ok] show ?thesis by blast
qed

text \<open>A library whose connections do nothing, for the examples.\<close>

definition idle_api :: "unit websocket_api" where
  "idle_api = \<lparr>ws_Read = \<lambda>ctx c. (Inl io_EOF, c), ws_Write = \<lambda>ctx ty bs c. (c, None), ws_Ping = \<lambda>ctx c. (c, None),
     ws_Close = \<lambda>code why c. c, ws_SetReadLimit = \<lambda>n c. c, ws_TypeName = \<lambda>ty. []\<rparr>"

theorem ws_handler_outlives_connection_witness:
  "\<exists>l :: unit wsNet. (ws_step idle_api)\<^sup>*\<^sup>* (NewWebSocketHandler 0 0 0) l \<and> wl_accepted l = [3] \<and>
     wl_handlers l 3 = Some Holding"
proof -
  let ?l0 = "NewWebSocketHandler 0 0 0 :: unit wsNet"
  define l1 where "l1 = Handler_begin idle_api (Inr ()) ''peer'' 3 ?l0"
  define l2 where "l2 = l1\<lparr>wl_handlers := (wl_handlers l1)(3 \<mapsto> Holding), wl_accepted := [3]\<rparr>"
  have "ws_step idle_api ?l0 l1"
    unfolding l1_def by (rule ws_upgrade) (simp add: NewWebSocketHandler_def)
  moreover have "ws_step idle_api l1 l2"
    by (rule ws_accept [of "Some 3" True _ "Inr 3"])
      (simp add: Accept_ws_def l2_def l1_def Handler_begin_def NewWebSocketHandler_def)
  ultimately have run: "(ws_step idle_api)\<^sup>*\<^sup>* ?l0 l2" by (meson converse_rtranclp_into_rtranclp r_into_rtranclp)
  have acc: "wl_accepted l2 = [3]" by (simp add: l2_def)
  from ws_handler_outlives_connection [OF disjI1 [OF refl] run] acc run show ?thesis
    by (intro exI [of _ l2]) (simp add: l2_def)
qed

text \<open>After the listener shut down every handler returns at its next step, and its connection is closed if it was held.\<close>

lemma ws_shutdown_frees_handlers:
  assumes "ws_ok l" and "wl_done l" and "wl_handlers l n = Some p" and "p \<noteq> HandlerReturned"
  shows "\<exists>l' mc. Handler_step W pick n l = Some l' \<and> wl_handlers l' n = Some HandlerReturned \<and>
    wl_conns l' n = Some mc \<and> (p = Holding \<longrightarrow> wm_done mc)"
  using ws_okE(2) [OF assms(1), of n] assms(2-4) by (cases p) (auto simp: Handler_step_def)

text \<open>
  A connection still on offer at shutdown is closed below its wrapper: \<^verbatim>\<open>done\<close> stays open and a
  pinger goes on until one of its pings fails.
\<close>

lemma ws_unaccepted_keeps_pinging:
  assumes "wl_done l" and "wl_handlers l n = Some Offering" and "wl_conns l n = Some mc"
  shows "\<exists>l' mc'. Handler_step W pick n l = Some l' \<and> wl_conns l' n = Some mc' \<and>
    wm_done mc' = wm_done mc \<and> wm_pinger mc' = wm_pinger mc"
  using assms by (simp add: Handler_step_def)

section \<open>Messages\<close>

text \<open>
  A context that is cancelled fails the library's calls, so a closed WebSocket connection is a
  transport the request loop can rely on.
\<close>

lemma WriteMessage_ws_done: "wm_done (fst (WriteMessage_ws W pack now m t)) = wm_done t"
  by (simp add: WriteMessage_ws_def Let_def split: sum.splits prod.splits)

lemma ws_closable:
  assumes "\<And>ctx ty bs c. wc_cancelled ctx \<Longrightarrow> snd (ws_Write W ctx ty bs c) \<noteq> None"
  shows "closable (WriteMessage_ws W pack) (\<lambda>t. (Close_ws W t, None)) wm_done"
proof
  fix k :: "'a wsMsgConn" and now m
  assume dn: "wm_done k"
  show "snd (WriteMessage_ws W pack now m k) \<noteq> None"
  proof (cases "pack m")
    case (Inr bs)
    let ?ctx = "\<lparr>wc_cancelled = wm_done k, wc_deadline = (if wm_writeTO k > 0 then Some (now + wm_writeTO k) else None)\<rparr>"
    have "snd (ws_Write W ?ctx MessageBinary bs (wm_conn k)) \<noteq> None" by (rule assms) (simp add: dn)
    with Inr show ?thesis
      by (cases "ws_Write W ?ctx MessageBinary bs (wm_conn k)") (simp add: WriteMessage_ws_def Let_def split del: if_split)
  qed (simp add: WriteMessage_ws_def)
  show "wm_done (fst (WriteMessage_ws W pack now m k))" using dn by (simp add: WriteMessage_ws_done)
qed simp

text \<open>
  A payload means the same on every transport: read as one binary WebSocket message or as one
  frame within the limits from a byte stream, it yields the same message or the same error.
\<close>

theorem ws_reads_like_stream:
  assumes "ws_Read W \<lparr>wc_cancelled = wm_done t, wc_deadline = None\<rparr> (wm_conn t) = (Inr (MessageBinary, p), c)"
    and "wm_readDL t = None \<or> wm_readDL t = Some None"
    and "length p < 2 ^ 32" and "maxFrameSize s \<le> 0 \<or> int (length p) \<le> maxFrameSize s"
    and "reader s = \<lparr>unread = frame_of p @ rest, end_err = e\<rparr>"
  shows "fst (ReadMessage_ws V unpack W t) = fst (ReadMessage V unpack s)"
proof -
  let ?n = "of_nat (length p) :: uint32"
  have 1: "ReadFull 4 (reader s) = (Inr (PutUint32 ?n), \<lparr>unread = p @ rest, end_err = e\<rparr>)"
    using ReadFull_append [of "PutUint32 ?n" 4 "p @ rest" e] assms(5) by (simp add: frame_of_def)
  have 2: "ReadFull (unat ?n) \<lparr>unread = p @ rest, end_err = e\<rparr> = (Inr p, \<lparr>unread = rest, end_err = e\<rparr>)"
    by (rule ReadFull_append) (simp add: uint_of_length [OF assms(3)])
  have 3: "\<not> (maxFrameSize s > 0 \<and> uint ?n > maxFrameSize s)"
    using assms(4) by (auto simp: uint_of_length [OF assms(3)])
  from 3 assms(1,2) show ?thesis
    by (auto simp: ReadMessage_def ReadMessage_ws_def 1 2 Let_def split: sum.splits)
qed

theorem ws_reads_like_stream_witness:
  "let W = idle_api\<lparr>ws_Read := \<lambda>ctx c. (Inr (MessageBinary, [1, 2]), c)\<rparr>;
       s = NewMsgConn () \<lparr>unread = frame_of [1, 2] @ [9], end_err = io_EOF\<rparr> 0 16;
       unpack = (\<lambda>p. if p = [1, 2] then Inr (EmptyMap ref_api) else Inl io_EOF)
   in fst (ReadMessage_ws ref_api unpack W (newWSMsgConn W () ''peer'' 0 16 0)) = fst (ReadMessage ref_api unpack s)"
  unfolding Let_def
  by (rule ws_reads_like_stream) (simp_all add: newWSMsgConn_def NewMsgConn_def idle_api_def)

end
