(* ===== verification/Quic.thy ===== *)
theory Quic
  imports Framing
begin

text \<open>
  The QUIC transport, \<^verbatim>\<open>quic/transport.go\<close>: one QUIC stream per request, mapped by request id, with
  all inbound frames funneled into one queue. The streams themselves are \<^verbatim>\<open>quic-go\<close>'s: a stream is a
  number, what is written on it (frames, and the FIN that ends it) is a log, and what it delivers,
  whether opening one succeeds and whether a write fails are arguments. A write on a stream that was
  closed for writing fails.
\<close>

section \<open>Frames\<close>

definition msgType :: "'v value_api \<Rightarrow> Dialect \<Rightarrow> 'v \<Rightarrow> MessageType" where
  "msgType V d m =
     (case GetNumberField V m (MessageTypeField d) of Some n \<Rightarrow> number_Long V n | None \<Rightarrow> - 1)"

definition ridOf :: "'v value_api \<Rightarrow> Dialect \<Rightarrow> 'v \<Rightarrow> int64 option" where
  "ridOf V d m = map_option (number_Long V) (GetNumberField V m (RequestIdField d))"

definition readFrame ::
    "'v value_api \<Rightarrow> (byte list \<Rightarrow> gerror + 'v) \<Rightarrow> byte_reader \<Rightarrow> (gerror + 'v) \<times> byte_reader" where
  "readFrame V unpack r =
     (case ReadFull 4 r of
        (Inl e, r) \<Rightarrow> (Inl e, r)
      | (Inr lenBuf, r) \<Rightarrow>
          (let n = Uint32 lenBuf in
           if MaxFrameSize > 0 \<and> uint n > MaxFrameSize
           then (Inl (PlainError (''frame too large: '' @ show_int (uint n) @ '' bytes (max ''
                   @ show_int MaxFrameSize @ '')'')), r)
           else
             (case ReadFull (unat n) r of
                (Inl e, r) \<Rightarrow> (Inl e, r)
              | (Inr payload, r) \<Rightarrow>
                  (case unpack payload of
                     Inl e \<Rightarrow> (Inl (PlainError (''msgpack unpack, '' @ Error_text e)), r)
                   | Inr m \<Rightarrow>
                       if Kind V m \<noteq> MAP then (Inl (PlainError ''expected msgpack map''), r) else (Inr m, r)))))"

text \<open>The bytes \<^verbatim>\<open>writeFrame\<close> hands to the stream.\<close>

definition writeFrame :: "('v \<Rightarrow> gerror + byte list) \<Rightarrow> 'v \<Rightarrow> gerror + byte list" where
  "writeFrame pack m =
     (case pack m of
        Inl e \<Rightarrow> Inl (PlainError (''msgpack pack, '' @ Error_text e))
      | Inr payload \<Rightarrow>
          (let frame = replicate (4 + length payload) 0;
               frame = copy_at 0 (PutUint32 (of_nat (length payload))) frame
           in Inr (copy_at 4 payload frame)))"

section \<open>Streams\<close>

record quicStreamState =
  q_rid :: int64
  q_reqType :: MessageType
  q_registered :: bool
  q_writeClosed :: bool
  q_localDone :: bool
  q_remoteDone :: bool

text \<open>
  The log \<open>qc_wire\<close> has \<^term>\<open>(s, Some m)\<close> for a frame written on stream \<open>s\<close> and \<^term>\<open>(s, None)\<close> for its
  FIN; \<open>qc_readers\<close> are the streams with a running \<^verbatim>\<open>streamReader\<close>; \<open>qc_funnel\<close> is what the readers handed
  over to \<^verbatim>\<open>ReadMessage\<close>, in that order.
\<close>

record 'v quicMsgConn =
  qc_isClient :: bool
  qc_done :: bool
  qc_streams :: "int64 \<rightharpoonup> nat"
  qc_states :: "nat \<rightharpoonup> quicStreamState"
  qc_readers :: "nat set"
  qc_funnel :: "'v list"
  qc_wire :: "(nat \<times> 'v option) list"

definition newQUICMsgConn :: "bool \<Rightarrow> 'v quicMsgConn" where
  "newQUICMsgConn isClient =
     \<lparr>qc_isClient = isClient, qc_done = False, qc_streams = Map.empty, qc_states = Map.empty,
      qc_readers = {}, qc_funnel = [], qc_wire = []\<rparr>"

definition new_stream :: quicStreamState where
  "new_stream = \<lparr>q_rid = 0, q_reqType = 0, q_registered = False, q_writeClosed = False,
     q_localDone = False, q_remoteDone = False\<rparr>"

definition register :: "'v value_api \<Rightarrow> Dialect \<Rightarrow> 'v \<Rightarrow> nat \<Rightarrow> 'v quicMsgConn \<Rightarrow> 'v quicMsgConn" where
  "register V d m s t =
     (case qc_states t s of
        None \<Rightarrow> t
      | Some st \<Rightarrow>
          if q_registered st then t
          else
            (let st = st\<lparr>q_registered := True, q_reqType := msgType V d m\<rparr>
             in case ridOf V d m of
                  Some rid \<Rightarrow>
                    t\<lparr>qc_states := (qc_states t)(s \<mapsto> st\<lparr>q_rid := rid\<rparr>), qc_streams := (qc_streams t)(rid \<mapsto> s)\<rparr>
                | None \<Rightarrow> t\<lparr>qc_states := (qc_states t)(s \<mapsto> st)\<rparr>))"

text \<open>\<open>pick\<close> is the choice of \<^verbatim>\<open>select\<close> when the connection is done and a reader waits.\<close>

definition funnel :: "bool \<Rightarrow> 'v \<Rightarrow> 'v quicMsgConn \<Rightarrow> bool \<times> 'v quicMsgConn" where
  "funnel pick m t =
     (if qc_done t \<and> \<not> pick then (False, t) else (True, t\<lparr>qc_funnel := qc_funnel t @ [m]\<rparr>))"

definition finOnWrite :: "bool \<Rightarrow> MessageType \<Rightarrow> MessageType \<Rightarrow> bool" where
  "finOnWrite isClient mt reqType =
     (if isClient then mt = StreamEnd \<or> mt = CancelRequest
      else if mt = HandshakeResponse \<or> mt = FunctionResponse \<or> mt = ErrorResponse \<or> mt = StreamEnd then True
      else if mt = StreamReady then reqType = PutStreamRequest
      else False)"

definition finOnRead :: "MessageType \<Rightarrow> MessageType \<Rightarrow> bool" where
  "finOnRead mt reqType =
     (if reqType = FunctionRequest then mt = FunctionResponse \<or> mt = ErrorResponse
      else if reqType = GetStreamRequest then mt = StreamEnd \<or> mt = ErrorResponse
      else if reqType = HandshakeRequest then mt = HandshakeResponse
      else False)"

definition finWrite :: "nat \<Rightarrow> 'v quicMsgConn \<Rightarrow> 'v quicMsgConn" where
  "finWrite s t =
     (case qc_states t s of
        None \<Rightarrow> t
      | Some st \<Rightarrow>
          if q_writeClosed st then t
          else
            (let st = st\<lparr>q_writeClosed := True, q_localDone := True\<rparr>;
                 t = t\<lparr>qc_states := (qc_states t)(s \<mapsto> st)\<rparr>;
                 t = (if q_remoteDone st then t\<lparr>qc_streams := (qc_streams t)(q_rid st := None)\<rparr> else t)
             in t\<lparr>qc_wire := qc_wire t @ [(s, None)]\<rparr>))"

definition markRemoteDone :: "nat \<Rightarrow> 'v quicMsgConn \<Rightarrow> 'v quicMsgConn" where
  "markRemoteDone s t =
     (case qc_states t s of
        None \<Rightarrow> t
      | Some st \<Rightarrow>
          (let t = t\<lparr>qc_states := (qc_states t)(s \<mapsto> st\<lparr>q_remoteDone := True\<rparr>)\<rparr>
           in if q_localDone st then t\<lparr>qc_streams := (qc_streams t)(q_rid st := None)\<rparr> else t))"

text \<open>One turn of \<^verbatim>\<open>streamReader\<close> with what \<^verbatim>\<open>readFrame\<close> returned.\<close>

definition streamReader ::
    "'v value_api \<Rightarrow> Dialect \<Rightarrow> bool \<Rightarrow> nat \<Rightarrow> gerror + 'v \<Rightarrow> 'v quicMsgConn \<Rightarrow> 'v quicMsgConn" where
  "streamReader V d pick s frame t =
     (case frame of
        Inl err \<Rightarrow> (markRemoteDone s t)\<lparr>qc_readers := qc_readers t - {s}\<rparr>
      | Inr m \<Rightarrow>
          (let (ok, t) = funnel pick m (register V d m s t)
           in if \<not> ok then t\<lparr>qc_readers := qc_readers t - {s}\<rparr>
              else
                (case qc_states t s of
                   Some st \<Rightarrow>
                     if qc_isClient t \<and> finOnRead (msgType V d m) (q_reqType st) then finWrite s t else t
                 | None \<Rightarrow> t)))"

text \<open>
  The server's accept loop: the first stream's first frame is handled before any other stream is
  accepted, later streams get a reader at once.
\<close>

definition accept_first ::
    "'v value_api \<Rightarrow> Dialect \<Rightarrow> bool \<Rightarrow> nat \<Rightarrow> gerror + 'v \<Rightarrow> 'v quicMsgConn \<Rightarrow> 'v quicMsgConn" where
  "accept_first V d pick s frame t =
     (let t = t\<lparr>qc_states := (qc_states t)(s \<mapsto> new_stream)\<rparr>
      in case frame of
           Inl err \<Rightarrow> t
         | Inr m \<Rightarrow>
             (let (ok, t) = funnel pick m (register V d m s t)
              in if ok then t\<lparr>qc_readers := insert s (qc_readers t)\<rparr> else t))"

definition accept_next :: "nat \<Rightarrow> 'v quicMsgConn \<Rightarrow> 'v quicMsgConn" where
  "accept_next s t =
     t\<lparr>qc_states := (qc_states t)(s \<mapsto> new_stream), qc_readers := insert s (qc_readers t)\<rparr>"

text \<open>\<open>opened\<close> is what \<^verbatim>\<open>OpenStreamSync\<close> returns.\<close>

definition streamForWrite ::
    "gerror + nat \<Rightarrow> int64 \<Rightarrow> MessageType \<Rightarrow> 'v quicMsgConn \<Rightarrow> (gerror + nat \<times> MessageType) \<times> 'v quicMsgConn" where
  "streamForWrite opened rid mt t =
     (case qc_streams t rid of
        Some s \<Rightarrow> (Inr (s, q_reqType (the (qc_states t s))), t)
      | None \<Rightarrow>
          if \<not> qc_isClient t
          then (Inl (PlainError (''quic: no stream for response to request '' @ show_int (sint rid))), t)
          else
            (case opened of
               Inl err \<Rightarrow> (Inl err, t)
             | Inr s \<Rightarrow>
                 (Inr (s, mt),
                  t\<lparr>qc_states := (qc_states t)(s \<mapsto> new_stream\<lparr>q_rid := rid, q_reqType := mt, q_registered := True\<rparr>),
                    qc_streams := (qc_streams t)(rid \<mapsto> s), qc_readers := insert s (qc_readers t)\<rparr>)))"

definition write_closed :: "nat \<Rightarrow> 'v quicMsgConn \<Rightarrow> bool" where
  "write_closed s t = (case qc_states t s of Some st \<Rightarrow> q_writeClosed st | None \<Rightarrow> False)"

text \<open>
  \<open>raced\<close> says that the stream's reader closes the write half while the frame is being written;
  \<open>write_err\<close> is the outcome of the write otherwise.
\<close>

definition WriteMessage_quic ::
    "'v value_api \<Rightarrow> Dialect \<Rightarrow> ('v \<Rightarrow> gerror + byte list) \<Rightarrow> gerror + nat \<Rightarrow> bool \<Rightarrow> gerror option \<Rightarrow> 'v \<Rightarrow>
     'v quicMsgConn \<Rightarrow> gerror option \<times> 'v quicMsgConn" where
  "WriteMessage_quic V d pack opened raced write_err m t =
     (if qc_done t then (Some ErrClientClosed, t)
      else
        (case ridOf V d m of
           None \<Rightarrow> (Some (PlainError ''quic: outgoing message has no request id''), t)
         | Some rid \<Rightarrow>
             (let mt = msgType V d m
              in case streamForWrite opened rid mt t of
                   (Inl err, t) \<Rightarrow> (Some err, t)
                 | (Inr (s, reqType), t) \<Rightarrow>
                     if write_closed s t then (None, t)
                     else if raced then (None, finWrite s t)
                     else
                       (case (case writeFrame pack m of Inl e \<Rightarrow> Some e | Inr _ \<Rightarrow> write_err) of
                          Some err \<Rightarrow> (Some err, t)
                        | None \<Rightarrow>
                            (let t = t\<lparr>qc_wire := qc_wire t @ [(s, Some m)]\<rparr>
                             in (None, if finOnWrite (qc_isClient t) mt reqType then finWrite s t else t))))))"

text \<open>
  A read chooses among what is ready: a message that a reader offers, the end of the connection, the
  deadline; \<^term>\<open>None\<close> while nothing is.
\<close>

definition ReadMessage_quic :: "'v option \<Rightarrow> bool \<Rightarrow> nat \<Rightarrow> 'v quicMsgConn \<Rightarrow> (gerror + 'v) option" where
  "ReadMessage_quic offer expired pick t =
     (let ready = (case offer of Some m \<Rightarrow> [Inr m] | None \<Rightarrow> []) @
            (if qc_done t then [Inl io_EOF] else []) @ (if expired then [Inl os_ErrDeadlineExceeded] else [])
      in if ready = [] then None else Some (ready ! (pick mod length ready)))"

definition Close_quic :: "'v quicMsgConn \<Rightarrow> 'v quicMsgConn" where
  "Close_quic t = (if qc_done t then t else t\<lparr>qc_done := True\<rparr>)"

section \<open>The framing is the one of byte streams\<close>

lemma writeFrame_frame_of: "pack m = Inr p \<Longrightarrow> writeFrame pack m = Inr (frame_of p)"
  by (simp add: writeFrame_def copy_frame frame_of_def)

lemma readFrame_ReadMessage:
  assumes "maxFrameSize t = MaxFrameSize"
  shows "readFrame V unpack (reader t) = (fst (ReadMessage V unpack t), reader (snd (ReadMessage V unpack t)))"
  using assms by (auto simp: readFrame_def ReadMessage_def Let_def split: prod.splits sum.splits)

section \<open>Steps\<close>

text \<open>What happens to a connection; streams that are opened or accepted are new.\<close>

inductive quic_step :: "'v value_api \<Rightarrow> Dialect \<Rightarrow> ('v \<Rightarrow> gerror + byte list) \<Rightarrow> 'v quicMsgConn \<Rightarrow> 'v quicMsgConn \<Rightarrow> bool"
  for V d pack where
  q_write: "(\<And>s. opened = Inr s \<Longrightarrow> qc_states t s = None) \<Longrightarrow>
     quic_step V d pack t (snd (WriteMessage_quic V d pack opened raced write_err m t))"
| q_read: "s \<in> qc_readers t \<Longrightarrow> quic_step V d pack t (streamReader V d pick s frame t)"
| q_first: "qc_states t = Map.empty \<Longrightarrow> quic_step V d pack t (accept_first V d pick s frame t)"
| q_accept: "qc_states t s = None \<Longrightarrow> quic_step V d pack t (accept_next s t)"
| q_close: "quic_step V d pack t (Close_quic t)"

text \<open>
  The invariant: the streams of the map are known, registered under their own id and not finished on
  both sides; a stream is closed for writing exactly when its FIN is on the wire, and after its FIN
  nothing is.
\<close>

definition fin_last :: "(nat \<times> 'v option) list \<Rightarrow> bool" where
  "fin_last w \<longleftrightarrow> (\<forall>xs s ys. w = xs @ (s, None) # ys \<longrightarrow> s \<notin> fst ` set ys)"

definition quic_ok :: "'v quicMsgConn \<Rightarrow> bool" where
  "quic_ok t \<longleftrightarrow>
     (\<forall>rid s. qc_streams t rid = Some s \<longrightarrow>
        (\<exists>st. qc_states t s = Some st \<and> q_rid st = rid \<and> q_registered st \<and> \<not> (q_localDone st \<and> q_remoteDone st))) \<and>
     (\<forall>s st. qc_states t s = Some st \<longrightarrow> q_localDone st = q_writeClosed st \<and> (q_writeClosed st \<longleftrightarrow> (s, None) \<in> set (qc_wire t)) \<and>
        (q_writeClosed st \<longrightarrow> q_registered st)) \<and>
     (\<forall>s x. (s, x) \<in> set (qc_wire t) \<longrightarrow> qc_states t s \<noteq> None) \<and> fin_last (qc_wire t)"

lemma fin_last_snoc: "fin_last w \<Longrightarrow> (s, None) \<notin> set w \<Longrightarrow> fin_last (w @ [(s, x)])"
  unfolding fin_last_def
proof (intro allI impI)
  fix xs s' ys
  assume w: "\<forall>xs s ys. w = xs @ (s, None) # ys \<longrightarrow> s \<notin> fst ` set ys" "(s, None) \<notin> set w"
    and eq: "w @ [(s, x)] = xs @ (s', None) # ys"
  show "s' \<notin> fst ` set ys"
  proof (cases ys rule: rev_cases)
    case (snoc zs z)
    then have "w = xs @ (s', None) # zs" "z = (s, x)" using eq by simp_all
    moreover from this have "s' \<noteq> s" using w(2) by auto
    ultimately show ?thesis using w(1) snoc by auto
  qed simp
qed

lemma quic_ok_new: "quic_ok (newQUICMsgConn c)"
  by (simp add: quic_ok_def newQUICMsgConn_def fin_last_def)

definition known :: "nat \<Rightarrow> 'v quicMsgConn \<Rightarrow> bool" where
  "known s t \<longleftrightarrow> (\<exists>st. qc_states t s = Some st \<and> q_registered st)"

lemma quic_okD:
  assumes "quic_ok t"
  shows "qc_streams t rid = Some s \<Longrightarrow> qc_states t s = Some st \<Longrightarrow>
      q_rid st = rid \<and> q_registered st \<and> \<not> (q_localDone st \<and> q_remoteDone st)"
    and "qc_streams t rid = Some s \<Longrightarrow> known s t"
    and "qc_states t s = Some st \<Longrightarrow> q_localDone st = q_writeClosed st \<and>
      (q_writeClosed st \<longleftrightarrow> (s, None) \<in> set (qc_wire t)) \<and> (q_writeClosed st \<longrightarrow> q_registered st)"
    and "(s, x) \<in> set (qc_wire t) \<Longrightarrow> qc_states t s \<noteq> None" and "fin_last (qc_wire t)"
  using assms unfolding quic_ok_def known_def by (metis option.inject)+

lemma quic_ok_update:
  assumes ok: "quic_ok t" and st: "q_localDone st = q_writeClosed st"
      "q_writeClosed st \<longleftrightarrow> (s, None) \<in> set (qc_wire t')" "q_writeClosed st \<longrightarrow> q_registered st"
    and streams: "\<And>rid. qc_streams t' rid = Some s \<Longrightarrow> q_rid st = rid \<and> q_registered st \<and> \<not> (q_localDone st \<and> q_remoteDone st)"
      "\<And>rid s'. s' \<noteq> s \<Longrightarrow> qc_streams t' rid = Some s' \<Longrightarrow> qc_streams t rid = Some s'"
    and wire: "qc_wire t' = qc_wire t \<or> (s, None) \<notin> set (qc_wire t) \<and> qc_wire t' = qc_wire t @ [(s, x)]"
    and states: "qc_states t' = (qc_states t)(s \<mapsto> st)"
  shows "quic_ok t'"
  unfolding quic_ok_def
proof (intro conjI allI impI)
  fix rid s' assume e: "qc_streams t' rid = Some s'"
  show "\<exists>st. qc_states t' s' = Some st \<and> q_rid st = rid \<and> q_registered st \<and> \<not> (q_localDone st \<and> q_remoteDone st)"
  proof (cases "s' = s")
    case False
    from quic_okD(1,2) [OF ok streams(2) [OF this e]] show ?thesis using False states by (auto simp: known_def)
  qed (use streams(1) e states in auto)
next
  fix s' st' assume e: "qc_states t' s' = Some st'"
  have "(s', None) \<in> set (qc_wire t') \<longleftrightarrow> (s', None) \<in> set (qc_wire t)" if "s' \<noteq> s" using wire that by auto
  with quic_okD(3) [OF ok, of s' st'] e states st show "q_localDone st' = q_writeClosed st'"
    "q_writeClosed st' = ((s', None) \<in> set (qc_wire t'))" "q_writeClosed st' \<Longrightarrow> q_registered st'"
    by (auto split: if_splits)
next
  fix s' x' assume "(s', x') \<in> set (qc_wire t')"
  then show "qc_states t' s' \<noteq> None" using quic_okD(4) [OF ok, of s' x'] wire states by auto
next
  show "fin_last (qc_wire t')" using wire fin_last_snoc [OF quic_okD(5) [OF ok], of s x] quic_okD(5) [OF ok] by auto
qed

lemma quic_ok_other [simp]:
  "quic_ok (t\<lparr>qc_readers := R\<rparr>) = quic_ok t" "quic_ok (t\<lparr>qc_funnel := q\<rparr>) = quic_ok t"
  "quic_ok (t\<lparr>qc_done := b\<rparr>) = quic_ok t"
  by (simp_all add: quic_ok_def)

lemma quic_ok_finWrite:
  assumes "quic_ok t" and "known s t"
  shows "quic_ok (finWrite s t)"
proof (cases "write_closed s t")
  case True
  then have "finWrite s t = t" by (auto simp: finWrite_def write_closed_def split: option.splits)
  then show ?thesis using assms(1) by simp
next
  case False
  obtain st where st: "qc_states t s = Some st" "q_registered st" "\<not> q_writeClosed st"
    using assms(2) False by (auto simp: known_def write_closed_def)
  let ?st = "st\<lparr>q_writeClosed := True, q_localDone := True\<rparr>"
  show ?thesis
    using quic_okD(3) [OF assms(1) st(1)] quic_okD(1) [OF assms(1) _ st(1)] st
    by (intro quic_ok_update [OF assms(1), of ?st s _ None]) (auto simp: finWrite_def Let_def split: if_splits)
qed

lemma quic_ok_markRemoteDone:
  assumes "quic_ok t"
  shows "quic_ok (markRemoteDone s t)"
proof (cases "qc_states t s")
  case (Some st)
  show ?thesis
    using quic_okD(3) [OF assms Some] quic_okD(1) [OF assms _ Some] Some
    by (intro quic_ok_update [OF assms, of "st\<lparr>q_remoteDone := True\<rparr>" s _ None])
       (auto simp: markRemoteDone_def Let_def split: if_splits)
qed (simp add: assms markRemoteDone_def)

lemma quic_ok_register:
  assumes "quic_ok t"
  shows "quic_ok (register V d m s t)"
proof (cases "\<exists>st. qc_states t s = Some st \<and> \<not> q_registered st")
  case True
  then obtain st where st: "qc_states t s = Some st" "\<not> q_registered st" by blast
  let ?st = "st\<lparr>q_registered := True, q_reqType := msgType V d m\<rparr>"
  have no: "qc_streams t rid \<noteq> Some s" for rid using quic_okD(1) [OF assms _ st(1)] st(2) by blast
  show ?thesis
    using quic_okD(3) [OF assms st(1)] no st
    by (intro quic_ok_update [OF assms, of "case ridOf V d m of Some rid \<Rightarrow> ?st\<lparr>q_rid := rid\<rparr> | None \<Rightarrow> ?st" s _ None])
       (auto simp: register_def Let_def split: option.splits if_splits)
qed (use assms in \<open>auto simp: register_def split: option.splits\<close>)

lemma quic_ok_new_stream:
  assumes "quic_ok t" and "qc_states t s = None" and "qc_states t' = (qc_states t)(s \<mapsto> st)"
    and "qc_streams t' = qc_streams t \<or> q_registered st \<and> qc_streams t' = (qc_streams t)(q_rid st \<mapsto> s)"
    and "\<not> q_localDone st" "\<not> q_writeClosed st" and "qc_wire t' = qc_wire t"
  shows "quic_ok t'"
proof -
  have "qc_streams t rid \<noteq> Some s" for rid using quic_okD(2) [OF assms(1), of rid s] assms(2) by (auto simp: known_def)
  moreover have "(s, None) \<notin> set (qc_wire t)" using quic_okD(4) [OF assms(1)] assms(2) by blast
  ultimately show ?thesis
    using assms(2-) by (intro quic_ok_update [OF assms(1), of st s _ None]) (auto split: if_splits)
qed

lemma known_register: "qc_states t s \<noteq> None \<Longrightarrow> known s (register V d m s t)"
  by (auto simp: known_def register_def Let_def split: option.splits)

lemma quic_ok_funnel:
  assumes "funnel pick m t = (ok, t')" and "quic_ok t"
  shows "quic_ok t'" and "qc_states t' = qc_states t"
  using assms by (auto simp: funnel_def split: if_splits)

lemma quic_ok_streamReader:
  assumes "quic_ok t"
  shows "quic_ok (streamReader V d pick s frame t)"
proof (cases frame)
  case (Inl err)
  then show ?thesis
    using quic_ok_markRemoteDone [OF assms, of s] by (simp add: streamReader_def)
next
  case (Inr m)
  obtain ok t1 where f: "funnel pick m (register V d m s t) = (ok, t1)" by fastforce
  note t1 = quic_ok_funnel [OF f quic_ok_register [OF assms]]
  have "quic_ok (finWrite s t1)" if "qc_states t1 s = Some st" for st
  proof (rule quic_ok_finWrite [OF t1(1)])
    have "qc_states t s \<noteq> None" using that t1(2) by (auto simp: register_def Let_def split: option.splits if_splits)
    then show "known s t1" using known_register t1(2) by (simp add: known_def)
  qed
  then show ?thesis
    using Inr f t1(1) by (auto simp: streamReader_def split: option.splits)
qed

lemma quic_ok_accept_first:
  assumes "quic_ok t" and "qc_states t s = None"
  shows "quic_ok (accept_first V d pick s frame t)"
proof -
  let ?t = "t\<lparr>qc_states := (qc_states t)(s \<mapsto> new_stream)\<rparr>"
  have ok: "quic_ok ?t" by (rule quic_ok_new_stream [OF assms, of _ new_stream]) (simp_all add: new_stream_def)
  show ?thesis
  proof (cases frame)
    case (Inr m)
    obtain b t1 where f: "funnel pick m (register V d m s ?t) = (b, t1)" by fastforce
    from quic_ok_funnel(1) [OF f quic_ok_register [OF ok]] show ?thesis
      using Inr f by (auto simp: accept_first_def)
  qed (use ok in \<open>simp add: accept_first_def\<close>)
qed

lemma streamForWrite_ok:
  assumes "quic_ok t" and "\<And>s. opened = Inr s \<Longrightarrow> qc_states t s = None"
    and "streamForWrite opened rid mt t = (Inr (s, reqType), t')"
  shows "quic_ok t'" and "known s t'"
proof -
  have "quic_ok t' \<and> known s t'"
  proof (cases "qc_streams t rid")
    case (Some s1)
    then show ?thesis using assms(1,3) quic_okD(2) [OF assms(1) Some] by (simp add: streamForWrite_def)
  next
    case None
    with assms(3) have new: "opened = Inr s" "qc_states t' =
        (qc_states t)(s \<mapsto> new_stream\<lparr>q_rid := rid, q_reqType := mt, q_registered := True\<rparr>)"
      "qc_streams t' = (qc_streams t)(rid \<mapsto> s)" "qc_wire t' = qc_wire t"
      by (auto simp: streamForWrite_def split: if_splits sum.splits)
    from quic_ok_new_stream [OF assms(1) assms(2) [OF new(1)] new(2)] new(3,4) show ?thesis
      using new(2) by (simp add: new_stream_def known_def)
  qed
  then show "quic_ok t'" "known s t'" by simp_all
qed

lemma quic_ok_sent:
  assumes "quic_ok t" and "known s t" and "\<not> write_closed s t"
  shows "quic_ok (t\<lparr>qc_wire := qc_wire t @ [(s, Some m)]\<rparr>)"
proof -
  obtain st where st: "qc_states t s = Some st" "\<not> q_writeClosed st"
    using assms(2,3) by (auto simp: known_def write_closed_def)
  show ?thesis
    using quic_okD(3) [OF assms(1) st(1)] quic_okD(1) [OF assms(1) _ st(1)] st
    by (intro quic_ok_update [OF assms(1), of st s _ "Some m"]) auto
qed

lemma quic_ok_WriteMessage:
  assumes "quic_ok t" and "\<And>s. opened = Inr s \<Longrightarrow> qc_states t s = None"
  shows "quic_ok (snd (WriteMessage_quic V d pack opened raced write_err m t))"
proof (cases "qc_done t \<or> ridOf V d m = None")
  case False
  then obtain rid where rid: "ridOf V d m = Some rid" "\<not> qc_done t" by auto
  obtain r t1 where sw: "streamForWrite opened rid (msgType V d m) t = (r, t1)" by fastforce
  show ?thesis
  proof (cases r)
    case (Inl err)
    then have "t1 = t" using sw by (auto simp: streamForWrite_def split: option.splits if_splits sum.splits)
    then show ?thesis using assms(1) sw rid Inl by (simp add: WriteMessage_quic_def)
  next
    case (Inr p)
    obtain s reqType where "p = (s, reqType)" by fastforce
    with Inr sw have sw: "streamForWrite opened rid (msgType V d m) t = (Inr (s, reqType), t1)" by simp
    note t1 = streamForWrite_ok [OF assms sw]
    have "quic_ok (finWrite s (t1\<lparr>qc_wire := qc_wire t1 @ [(s, Some m)]\<rparr>))" if "\<not> write_closed s t1"
      using quic_ok_finWrite [OF quic_ok_sent [OF t1 that, of m], of s] t1(2) by (simp add: known_def)
    then show ?thesis
      using sw rid t1 quic_ok_finWrite [OF t1] quic_ok_sent [OF t1, of m]
      by (simp add: WriteMessage_quic_def Let_def split: option.splits sum.splits)
  qed
qed (use assms(1) in \<open>auto simp: WriteMessage_quic_def split: option.splits\<close>)

lemma quic_ok_accept_next:
  assumes "quic_ok t" and "qc_states t s = None"
  shows "quic_ok (accept_next s t)"
  by (rule quic_ok_new_stream [OF assms, of _ new_stream]) (simp_all add: accept_next_def new_stream_def)

lemma quic_step_ok:
  assumes "quic_step V d pack t t'" and "quic_ok t"
  shows "quic_ok t'"
  using assms(1)
proof cases
  case (q_write opened raced write_err m)
  show ?thesis unfolding q_write(1) by (rule quic_ok_WriteMessage [OF assms(2) q_write(2)])
next
  case (q_read s pick frame)
  then show ?thesis using quic_ok_streamReader [OF assms(2)] by simp
next
  case (q_first pick s frame)
  then show ?thesis using quic_ok_accept_first [OF assms(2), of s] by simp
next
  case (q_accept s)
  then show ?thesis using quic_ok_accept_next [OF assms(2), of s] by simp
next
  case q_close
  then show ?thesis using assms(2) by (simp add: Close_quic_def)
qed

section \<open>Properties\<close>

text \<open>
  C20. However writers, stream readers and the accept loop interleave, a stream in the map is registered
  under the id it is found by and is never finished on both sides, so finished streams are freed; and
  nothing is written on a stream after its FIN.
\<close>

theorem quic_streams_stay_consistent:
  assumes "(quic_step V d pack)\<^sup>*\<^sup>* (newQUICMsgConn isClient) t"
  shows "(\<forall>rid s. qc_streams t rid = Some s \<longrightarrow>
        (\<exists>st. qc_states t s = Some st \<and> q_rid st = rid \<and> q_registered st \<and> \<not> (q_localDone st \<and> q_remoteDone st))) \<and>
     fin_last (qc_wire t)"
proof -
  have "quic_ok t" using assms
    by (induction rule: rtranclp_induct) (simp_all add: quic_ok_new quic_step_ok)
  then show ?thesis unfolding quic_ok_def by blast
qed

definition quic_message :: "MessageType \<Rightarrow> int64 \<Rightarrow> gval" where
  "quic_message mt rid = GMap [(''t'', GLong mt), (''rid'', GLong rid)]"

lemma quic_message_fields [simp]:
  "msgType ref_api NewDialect (quic_message mt rid) = mt" "ridOf ref_api NewDialect (quic_message mt rid) = Some rid"
  by (simp_all add: msgType_def ridOf_def GetNumberField_def quic_message_def NewDialect_def ref_api_def gentries_def)

theorem quic_streams_stay_consistent_witness:
  "let t = snd (WriteMessage_quic ref_api NewDialect (\<lambda>_. Inr []) (Inr 0) False None
               (quic_message FunctionRequest 1) (newQUICMsgConn True))
   in qc_streams t 1 = Some 0 \<and> (\<exists>st. qc_states t 0 = Some st \<and> q_rid st = 1) \<and> fin_last (qc_wire t)"
proof -
  define t where "t = snd (WriteMessage_quic ref_api NewDialect (\<lambda>_. Inr []) (Inr 0) False None
    (quic_message FunctionRequest 1) (newQUICMsgConn True))"
  have "quic_step ref_api NewDialect (\<lambda>_. Inr []) (newQUICMsgConn True) t"
    unfolding t_def by (rule q_write) (simp add: newQUICMsgConn_def)
  then have "(quic_step ref_api NewDialect (\<lambda>_. Inr []))\<^sup>*\<^sup>* (newQUICMsgConn True) t" by blast
  moreover have "qc_streams t 1 = Some 0"
    by (simp add: t_def WriteMessage_quic_def streamForWrite_def newQUICMsgConn_def write_closed_def new_stream_def
        writeFrame_def finOnWrite_def mt_defs Let_def)
  ultimately show ?thesis
    using quic_streams_stay_consistent [of ref_api NewDialect "\<lambda>_. Inr []" True t] by (auto simp: Let_def t_def [symmetric])
qed

text \<open>
  A unary exchange over QUIC: the request travels on a new stream, the reply on the same one, each
  side finishes its half after its last message, and when both have seen the other's end the stream
  is gone from both maps; each side has handed over the other's message.
\<close>

theorem quic_unary_frees_stream:
  assumes "ridOf V d m = Some rid" and "msgType V d m = FunctionRequest" and "pack m = Inr p"
    and "ridOf V d resp = Some rid" and "msgType V d resp = FunctionResponse \<or> msgType V d resp = ErrorResponse"
    and "pack resp = Inr p'"
    and client: "qc_isClient c" "\<not> qc_done c" "qc_streams c rid = None"
    and server: "\<not> qc_isClient v" "\<not> qc_done v"
    and c1: "c1 = snd (WriteMessage_quic V d pack (Inr s) False None m c)"
    and v1: "v1 = streamReader V d pick s (Inr m) (accept_next s v)"
    and v2: "v2 = snd (WriteMessage_quic V d pack opened False None resp v1)"
    and c2: "c2 = streamReader V d pick s (Inr resp) c1"
    and c3: "c3 = streamReader V d pick s (Inl io_EOF) c2"
    and v3: "v3 = streamReader V d pick s (Inl io_EOF) v2"
  shows "qc_streams c3 rid = None \<and> qc_streams v3 rid = None \<and>
    qc_wire c3 = qc_wire c @ [(s, Some m), (s, None)] \<and> qc_wire v3 = qc_wire v @ [(s, Some resp), (s, None)] \<and>
    qc_funnel v3 = qc_funnel v @ [m] \<and> qc_funnel c3 = qc_funnel c @ [resp]"
proof -
  note defs = WriteMessage_quic_def streamForWrite_def streamReader_def accept_next_def register_def funnel_def
    finWrite_def markRemoteDone_def write_closed_def writeFrame_def new_stream_def finOnWrite_def finOnRead_def Let_def
  have c1': "qc_states c1 s = Some (new_stream\<lparr>q_rid := rid, q_reqType := FunctionRequest, q_registered := True\<rparr>)"
    "qc_streams c1 = (qc_streams c)(rid \<mapsto> s)" "qc_wire c1 = qc_wire c @ [(s, Some m)]"
    "qc_funnel c1 = qc_funnel c" "qc_isClient c1" "\<not> qc_done c1"
    using assms(1-3) client by (simp_all add: c1 defs mt_defs)
  have c2': "qc_states c2 s = Some (new_stream\<lparr>q_rid := rid, q_reqType := FunctionRequest, q_registered := True,
      q_writeClosed := True, q_localDone := True\<rparr>)"
    "qc_wire c2 = qc_wire c @ [(s, Some m), (s, None)]" "qc_funnel c2 = qc_funnel c @ [resp]"
    using assms(5) c1' by (auto simp: c2 defs)
  have v1': "qc_states v1 s = Some (new_stream\<lparr>q_rid := rid, q_reqType := FunctionRequest, q_registered := True\<rparr>)"
    "qc_streams v1 rid = Some s" "qc_wire v1 = qc_wire v" "qc_funnel v1 = qc_funnel v @ [m]" "\<not> qc_isClient v1" "\<not> qc_done v1"
    using assms(1,2) server by (simp_all add: v1 defs)
  have v2': "qc_states v2 s = Some (new_stream\<lparr>q_rid := rid, q_reqType := FunctionRequest, q_registered := True,
      q_writeClosed := True, q_localDone := True\<rparr>)"
    "qc_wire v2 = qc_wire v @ [(s, Some resp), (s, None)]" "qc_funnel v2 = qc_funnel v @ [m]"
    using assms(4-6) v1' by (auto simp: v2 defs)
  show ?thesis using c2' v2' by (simp add: c3 v3 streamReader_def markRemoteDone_def Let_def)
qed

theorem quic_unary_frees_stream_witness:
  "let c1 = snd (WriteMessage_quic ref_api NewDialect (\<lambda>_. Inr []) (Inr 0) False None (quic_message FunctionRequest 1) (newQUICMsgConn True));
       c3 = streamReader ref_api NewDialect True 0 (Inl io_EOF)
              (streamReader ref_api NewDialect True 0 (Inr (quic_message FunctionResponse 1)) c1)
   in qc_streams c3 1 = None"
proof -
  have "qc_isClient (newQUICMsgConn True)" "\<not> qc_done (newQUICMsgConn True)" "qc_streams (newQUICMsgConn True) 1 = None"
    "\<not> qc_isClient (newQUICMsgConn False)" "\<not> qc_done (newQUICMsgConn False)"
    by (simp_all add: newQUICMsgConn_def)
  from quic_unary_frees_stream [where V = ref_api and d = NewDialect and pack = "\<lambda>_. Inr []" and rid = 1 and s = 0 and pick = True and
      m = "quic_message FunctionRequest 1" and resp = "quic_message FunctionResponse 1" and opened = "Inr 0",
      OF _ _ _ _ _ _ this refl refl refl refl refl refl]
  show ?thesis by (simp add: Let_def)
qed

section \<open>What the transport loses\<close>

text \<open>
  C37. Over QUIC, a server that has acknowledged a put stream can send nothing more for it: the
  acknowledgement finishes its half of the stream, and every later message of that request, the credit
  that the client waits for included, is dropped without an error reaching the wire. So a put stream
  over QUIC never gets more than its initial window through.
\<close>

theorem quic_put_stream_credit_lost:
  assumes "\<not> qc_isClient t" and "\<not> qc_done t" and "qc_streams t rid = Some s" and "qc_states t s = Some st"
    and "q_rid st = rid" and "q_reqType st = PutStreamRequest"
    and "ridOf V d ready = Some rid" and "msgType V d ready = StreamReady"
    and "WriteMessage_quic V d pack opened False None ready t = (None, t1)"
    and "ridOf V d credit = Some rid"
  shows "snd (WriteMessage_quic V d pack opened' raced err credit t1) = t1"
proof (cases "q_writeClosed st")
  case True
  then have "t1 = t" using assms by (auto simp: WriteMessage_quic_def streamForWrite_def write_closed_def Let_def)
  then show ?thesis
    using True assms by (simp add: WriteMessage_quic_def streamForWrite_def write_closed_def Let_def)
next
  case False
  then have "t1 = finWrite s (t\<lparr>qc_wire := qc_wire t @ [(s, Some ready)]\<rparr>)"
    using assms(1-4,6-9)
    by (auto simp: WriteMessage_quic_def streamForWrite_def write_closed_def finOnWrite_def mt_defs Let_def
        split: sum.splits)
  then have "\<not> qc_isClient t1" "\<not> qc_done t1" "write_closed s t1"
    "qc_streams t1 rid = None \<or> qc_streams t1 rid = Some s"
    using assms(1-5) False by (auto simp: finWrite_def write_closed_def Let_def)
  then show ?thesis
    using assms(10) by (auto simp: WriteMessage_quic_def streamForWrite_def Let_def)
qed

theorem quic_put_stream_credit_lost_witness:
  "let t = streamReader ref_api NewDialect True 0 (Inr (quic_message PutStreamRequest 1)) (accept_next 0 (newQUICMsgConn False));
       w = (\<lambda>m t. WriteMessage_quic ref_api NewDialect (\<lambda>_. Inr []) (Inl io_EOF) False None m t);
       t1 = snd (w (quic_message StreamReady 1) t)
   in fst (w (quic_message StreamReady 1) t) = None \<and> snd (w (quic_message StreamCredit 1) t1) = t1"
proof -
  define t where "t = streamReader ref_api NewDialect True 0 (Inr (quic_message PutStreamRequest 1)) (accept_next 0 (newQUICMsgConn False))"
  define t1 where "t1 = snd (WriteMessage_quic ref_api NewDialect (\<lambda>_. Inr []) (Inl io_EOF) False None (quic_message StreamReady 1) t)"
  have t: "\<not> qc_isClient t" "\<not> qc_done t" "qc_streams t 1 = Some 0"
    "qc_states t 0 = Some (new_stream\<lparr>q_rid := 1, q_reqType := PutStreamRequest, q_registered := True\<rparr>)"
    by (simp_all add: t_def streamReader_def accept_next_def register_def funnel_def newQUICMsgConn_def new_stream_def Let_def)
  have w: "WriteMessage_quic ref_api NewDialect (\<lambda>_. Inr []) (Inl io_EOF) False None (quic_message StreamReady 1) t = (None, t1)"
    unfolding t1_def using t
    by (simp add: WriteMessage_quic_def streamForWrite_def write_closed_def new_stream_def writeFrame_def Let_def prod_eq_iff)
  from quic_put_stream_credit_lost [OF t _ _ _ _ w, where credit = "quic_message StreamCredit 1" and opened' = "Inl io_EOF" and
      raced = False and err = None] w
  show ?thesis by (simp add: Let_def t_def [symmetric])
qed

text \<open>A request of the server never gets onto the wire: there is no stream for its id.\<close>

lemma quic_server_request_fails:
  assumes "\<not> qc_isClient t" and "\<not> qc_done t" and "ridOf V d m = Some rid" and "qc_streams t rid = None"
  shows "WriteMessage_quic V d pack opened raced err m t =
    (Some (PlainError (''quic: no stream for response to request '' @ show_int (sint rid))), t)"
  using assms by (simp add: WriteMessage_quic_def streamForWrite_def Let_def)

text \<open>
  A message of the client for a request whose stream is gone, such as the credit for the last values of
  a get stream, opens a new stream that no response will ever make the client finish.
\<close>

lemma quic_late_message_leaks_stream:
  assumes "qc_isClient t" and "\<not> qc_done t" and "ridOf V d m = Some rid" and "qc_streams t rid = None"
    and "msgType V d m = StreamCredit" and "pack m = Inr p"
  shows "\<exists>t1. WriteMessage_quic V d pack (Inr s) False None m t = (None, t1) \<and> qc_streams t1 rid = Some s \<and>
    (\<exists>st. qc_states t1 s = Some st \<and> (\<forall>mt. \<not> finOnRead mt (q_reqType st)))"
  using assms
  by (simp add: WriteMessage_quic_def streamForWrite_def write_closed_def new_stream_def writeFrame_def finOnWrite_def
      finOnRead_def mt_defs Let_def)

end
