(* ===== verification/Endpoints.thy ===== *)
theory Endpoints
  imports Server Web_Socket Quic
begin

text \<open>
  Where connections come from and who is at their other end: the listener and the dialer of byte
  streams (\<^verbatim>\<open>valuerpc/transport.go\<close>), TLS (\<^verbatim>\<open>transport_tls.go\<close>), peer credentials (\<^verbatim>\<open>peercred*.go\<close>),
  the ends of the QUIC transport (\<^verbatim>\<open>quic/transport.go\<close>), and the constructors of servers and clients
  per transport (\<^verbatim>\<open>valueserver/server.go\<close>, \<^verbatim>\<open>valueclient/client.go\<close>). What \<^verbatim>\<open>net\<close>, \<^verbatim>\<open>crypto/tls\<close>, the
  proxy, \<^verbatim>\<open>quic-go\<close> and the system return is an argument.
\<close>

section \<open>Byte streams\<close>

text \<open>A \<^verbatim>\<open>net.Conn\<close> by its dynamic type, as far as the code asks for it.\<close>

datatype 's netConn = TCPConn 's | UnixConn 's | TLSConn "'s netConn" | OtherConn 's

record 's tcp_api =
  tcp_SetKeepAlive :: "bool \<Rightarrow> 's \<Rightarrow> 's"
  tcp_SetKeepAlivePeriod :: "int \<Rightarrow> 's \<Rightarrow> 's"

fun enableKeepAlive :: "'s tcp_api \<Rightarrow> 's netConn \<Rightarrow> int \<Rightarrow> 's netConn" where
  "enableKeepAlive N (TLSConn (TCPConn s)) period =
     TLSConn (TCPConn (if period > 0 then tcp_SetKeepAlivePeriod N period (tcp_SetKeepAlive N True s) else s))"
| "enableKeepAlive N (TCPConn s) period =
     TCPConn (if period > 0 then tcp_SetKeepAlivePeriod N period (tcp_SetKeepAlive N True s) else s)"
| "enableKeepAlive N c period = c"

text \<open>\<open>bound\<close> is the error of binding the address, if any.\<close>

definition NewStreamListener ::
    "gerror option \<Rightarrow> string \<Rightarrow> string \<Rightarrow> int64 \<Rightarrow> int64 \<Rightarrow> int \<Rightarrow> gerror + listener" where
  "NewStreamListener bound network address ka wt maxSize =
     (case bound of
        Some err \<Rightarrow> Inl err
      | None \<Rightarrow> Inr (streamListener network address ka wt maxSize))"

definition streamListener_Accept ::
    "'s tcp_api \<Rightarrow> gerror + 's netConn \<Rightarrow> byte_reader \<Rightarrow> listener \<Rightarrow> gerror + 's netConn messageConnAdapter" where
  "streamListener_Accept N got r l =
     (case got of
        Inl err \<Rightarrow> Inl err
      | Inr c \<Rightarrow>
          (let c = enableKeepAlive N c (sint (l_keepAlive l))
           in Inr (NewMsgConn c r (sint (l_writeTimeout l)) (l_maxFrameSize l))))"

definition NewStreamDialer :: "string \<Rightarrow> string \<Rightarrow> string \<Rightarrow> int64 \<Rightarrow> int64 \<Rightarrow> int \<Rightarrow> dialer" where
  "NewStreamDialer network address socks5 ka wt maxSize = streamDialer network address socks5 ka wt maxSize"

text \<open>\<open>socks\<close> builds the proxy's dial function; \<open>dial\<close> is that of \<^verbatim>\<open>net.Dialer\<close>.\<close>

definition streamDialer_Dial ::
    "'s tcp_api \<Rightarrow> (string \<Rightarrow> string \<Rightarrow> gerror + (call_ctx \<Rightarrow> string \<Rightarrow> string \<Rightarrow> gerror + 's netConn)) \<Rightarrow>
     (call_ctx \<Rightarrow> string \<Rightarrow> string \<Rightarrow> gerror + 's netConn) \<Rightarrow> call_ctx \<Rightarrow> byte_reader \<Rightarrow> dialer \<Rightarrow>
     gerror + 's netConn messageConnAdapter" where
  "streamDialer_Dial N socks dial ctx r d =
     (if d_socks5 d \<noteq> [] then
        (case socks (d_network d) (d_socks5 d) of
           Inl err \<Rightarrow> Inl err
         | Inr p \<Rightarrow>
             (case p ctx (d_network d) (d_address d) of
                Inl err \<Rightarrow> Inl err
              | Inr c \<Rightarrow> Inr (NewMsgConn c r (sint (d_writeTimeout d)) (d_maxFrameSize d))))
      else
        (case dial ctx (d_network d) (d_address d) of
           Inl err \<Rightarrow> Inl err
         | Inr c \<Rightarrow>
             (let c = enableKeepAlive N c (sint (d_keepAlive d))
              in Inr (NewMsgConn c r (sint (d_writeTimeout d)) (d_maxFrameSize d)))))"

section \<open>TLS\<close>

text \<open>The listener that TLS wraps is a stream listener; its network is called \<^verbatim>\<open>tls\<close> here.\<close>

definition NewTLSListener ::
    "gerror option \<Rightarrow> string \<Rightarrow> 'cfg option \<Rightarrow> int64 \<Rightarrow> int64 \<Rightarrow> int \<Rightarrow> gerror + listener" where
  "NewTLSListener bound addr config ka wt maxSize =
     (case config of
        None \<Rightarrow> Inl (PlainError ''tls listener requires a non-nil *tls.Config with a server certificate'')
      | Some _ \<Rightarrow>
          (case bound of
             Some err \<Rightarrow> Inl err
           | None \<Rightarrow> Inr (streamListener ''tls'' addr ka wt maxSize)))"

definition NewTLSDialer :: "string \<Rightarrow> int64 \<Rightarrow> int64 \<Rightarrow> int \<Rightarrow> dialer" where
  "NewTLSDialer address ka wt maxSize = tlsDialer address ka wt maxSize"

definition tlsDialer_Dial ::
    "'s tcp_api \<Rightarrow> (call_ctx \<Rightarrow> string \<Rightarrow> string \<Rightarrow> gerror + 's netConn) \<Rightarrow> call_ctx \<Rightarrow> byte_reader \<Rightarrow> dialer \<Rightarrow>
     gerror + 's netConn messageConnAdapter" where
  "tlsDialer_Dial N dial ctx r d =
     (case dial ctx ''tcp'' (d_address d) of
        Inl err \<Rightarrow> Inl err
      | Inr c \<Rightarrow>
          (let c = enableKeepAlive N c (sint (d_keepAlive d))
           in Inr (NewMsgConn c r (sint (d_writeTimeout d)) (d_maxFrameSize d))))"

text \<open>\<open>certs\<close> are the peer certificates of the connection state after the handshake.\<close>

definition TLSConnectionState ::
    "('s netConn \<Rightarrow> 'x list) \<Rightarrow> 's netConn messageConnAdapter \<Rightarrow> 'x list \<times> bool" where
  "TLSConnectionState certs t = (case conn t of TLSConn c \<Rightarrow> (certs (TLSConn c), True) | _ \<Rightarrow> ([], False))"

text \<open>
  A message connection as the two functions that ask for its peer see it: the method of the
  interface they assert, if its type has it, applied to it.
\<close>

definition PeerCertificates :: "('x list \<times> bool) option \<Rightarrow> 'x list option" where
  "PeerCertificates ts =
     (case ts of
        None \<Rightarrow> None
      | Some (st, has) \<Rightarrow> if \<not> has \<or> st = [] then None else Some st)"

section \<open>Peer credentials\<close>

record PeerCred =
  UID :: uint32
  GID :: uint32
  PID :: "32 word"

definition errNotUnixConn :: gerror where
  "errNotUnixConn = PlainError ''not a unix-domain-socket connection''"

definition peerCred :: "('s \<Rightarrow> gerror + PeerCred) \<Rightarrow> 's netConn messageConnAdapter \<Rightarrow> gerror + PeerCred" where
  "peerCred readPeerCred t = (case conn t of UnixConn uc \<Rightarrow> readPeerCred uc | _ \<Rightarrow> Inl errNotUnixConn)"

definition PeerCredOf :: "(gerror + PeerCred) option \<Rightarrow> PeerCred option" where
  "PeerCredOf asked = (case asked of Some (Inr c) \<Rightarrow> Some c | _ \<Rightarrow> None)"

text \<open>
  The platforms' readers on what the system calls return: the raw connection, running the control
  function on it, and the socket options.
\<close>

definition readPeerCred_linux ::
    "gerror option \<Rightarrow> gerror option \<Rightarrow> gerror + uint32 \<times> uint32 \<times> 32 word \<Rightarrow> gerror + PeerCred" where
  "readPeerCred_linux syscall_err control_err ucred =
     (case syscall_err of
        Some err \<Rightarrow> Inl err
      | None \<Rightarrow>
          (case control_err of
             Some err \<Rightarrow> Inl err
           | None \<Rightarrow>
               (case ucred of
                  Inl operr \<Rightarrow> Inl operr
                | Inr (uid, gid, pid) \<Rightarrow> Inr \<lparr>UID = uid, GID = gid, PID = pid\<rparr>)))"

definition readPeerCred_darwin ::
    "gerror option \<Rightarrow> gerror option \<Rightarrow> gerror + uint32 \<times> uint32 list \<Rightarrow> gerror + int64 \<Rightarrow> gerror + PeerCred" where
  "readPeerCred_darwin syscall_err control_err xucred peerpid =
     (case syscall_err of
        Some err \<Rightarrow> Inl err
      | None \<Rightarrow>
          (case control_err of
             Some err \<Rightarrow> Inl err
           | None \<Rightarrow>
               (case xucred of
                  Inl operr \<Rightarrow> Inl operr
                | Inr (uid, groups) \<Rightarrow>
                    (case peerpid of
                       Inl operr \<Rightarrow> Inl operr
                     | Inr pid \<Rightarrow>
                         Inr \<lparr>UID = uid, GID = (case groups of g # _ \<Rightarrow> g | [] \<Rightarrow> 0), PID = ucast pid\<rparr>))))"

definition readPeerCred_other :: "gerror + PeerCred" where
  "readPeerCred_other = Inl (PlainError ''peer credentials are not supported on this platform'')"

section \<open>QUIC\<close>

text \<open>The fields of a \<^verbatim>\<open>tls.Config\<close> the transport fills in, and those of the \<^verbatim>\<open>quic.Config\<close> it builds.\<close>

record tlsConfig =
  NextProtos :: "string list"
  ServerName :: string

record quic_Config =
  MaxIncomingStreams :: int64
  MaxIdleTimeout :: int64
  KeepAlivePeriod_quic :: int64

definition alpn :: "string list" where
  "alpn = [''vrpc'']"

definition quicConfig :: quic_Config where
  "quicConfig = \<lparr>MaxIncomingStreams = 65536, MaxIdleTimeout = 30000000000, KeepAlivePeriod_quic = 15000000000\<rparr>"

definition serverTLS :: "tlsConfig \<Rightarrow> tlsConfig" where
  "serverTLS conf = (if NextProtos conf = [] then conf\<lparr>NextProtos := alpn\<rparr> else conf)"

text \<open>\<^verbatim>\<open>net.SplitHostPort\<close>; the text of its errors is not used.\<close>

fun last_colon :: "string \<Rightarrow> nat option" where
  "last_colon [] = None"
| "last_colon (c # cs) =
     (case last_colon cs of
        Some i \<Rightarrow> Some (Suc i)
      | None \<Rightarrow> if c = CHR '':'' then Some 0 else None)"

definition SplitHostPort :: "string \<Rightarrow> (string \<times> string) option" where
  "SplitHostPort hostport =
     (case last_colon hostport of
        None \<Rightarrow> None
      | Some i \<Rightarrow>
          (case (if hd hostport = CHR ''['' then
                   (case strings_Index hostport '']'' of
                      None \<Rightarrow> None
                    | Some close \<Rightarrow>
                        if Suc close = i then Some (drop 1 (take close hostport), 1, Suc close) else None)
                 else if CHR '':'' \<in> set (take i hostport) then None
                 else Some (take i hostport, 0, 0)) of
             None \<Rightarrow> None
           | Some (host, j, k) \<Rightarrow>
               if CHR ''['' \<in> set (drop j hostport) \<or> CHR '']'' \<in> set (drop k hostport) then None
               else Some (host, drop (Suc i) hostport)))"

definition clientTLS :: "tlsConfig option \<Rightarrow> string \<Rightarrow> tlsConfig" where
  "clientTLS conf addr =
     (let c = (case conf of None \<Rightarrow> \<lparr>NextProtos = [], ServerName = []\<rparr> | Some c \<Rightarrow> c);
          c = (if NextProtos c = [] then c\<lparr>NextProtos := alpn\<rparr> else c)
      in if ServerName c = [] then
           (case SplitHostPort addr of Some (host, _) \<Rightarrow> c\<lparr>ServerName := host\<rparr> | None \<Rightarrow> c)
         else c)"

record quicListener =
  ql_addr :: string
  ql_tls :: tlsConfig
  ql_writeTO :: int64

record quicDialer =
  qd_addr :: string
  qd_config :: "tlsConfig option"
  qd_writeTO :: int64

definition NewListener_quic :: "(string \<Rightarrow> tlsConfig \<Rightarrow> quic_Config \<Rightarrow> gerror option) \<Rightarrow> string \<Rightarrow> tlsConfig option \<Rightarrow>
     int64 \<Rightarrow> gerror + quicListener" where
  "NewListener_quic listen addr config wt =
     (case config of
        None \<Rightarrow> Inl (PlainError ''quic listener requires a non-nil *tls.Config with a server certificate'')
      | Some config \<Rightarrow>
          (case listen addr (serverTLS config) quicConfig of
             Some err \<Rightarrow> Inl err
           | None \<Rightarrow> Inr \<lparr>ql_addr = addr, ql_tls = serverTLS config, ql_writeTO = wt\<rparr>))"

definition NewDialer_quic :: "string \<Rightarrow> tlsConfig option \<Rightarrow> int64 \<Rightarrow> quicDialer" where
  "NewDialer_quic addr config wt = \<lparr>qd_addr = addr, qd_config = config, qd_writeTO = wt\<rparr>"

definition quicListener_Accept :: "gerror option \<Rightarrow> gerror + 'v quicMsgConn" where
  "quicListener_Accept err = (case err of Some e \<Rightarrow> Inl e | None \<Rightarrow> Inr (newQUICMsgConn False))"

text \<open>\<open>dial\<close> is the library's, on the remaining time of its context.\<close>

definition DialTimeout_quic :: int where
  "DialTimeout_quic = 30000000000"

definition quicDialer_Dial ::
    "(int option \<Rightarrow> string \<Rightarrow> tlsConfig \<Rightarrow> quic_Config \<Rightarrow> gerror option) \<Rightarrow> call_ctx \<Rightarrow> quicDialer \<Rightarrow>
     gerror + 'v quicMsgConn" where
  "quicDialer_Dial dial ctx d =
     (let left = (if ctx_deadline ctx = None \<and> DialTimeout_quic > 0 then Some DialTimeout_quic else ctx_deadline ctx)
      in case dial left (qd_addr d) (clientTLS (qd_config d) (qd_addr d)) quicConfig of
           Some err \<Rightarrow> Inl err
         | None \<Rightarrow> Inr (newQUICMsgConn True))"

section \<open>Servers and clients\<close>

definition NewServer ::
    "lstat_result \<Rightarrow> gerror option \<Rightarrow> string \<Rightarrow> ServerOption list \<Rightarrow> gerror + listener \<times> 'v rpcServer" where
  "NewServer info remove_err address opts =
     (let cfg = newServerConfig opts
      in case NewListener info remove_err address (serverConfig.keepAlive cfg) (serverConfig.writeTimeout cfg)
                (serverConfig.maxFrameSize cfg) of
           Inl err \<Rightarrow> Inl err
         | Inr lis \<Rightarrow> Inr (lis, NewServerWithListener opts))"

definition NewDevelopmentServer ::
    "lstat_result \<Rightarrow> gerror option \<Rightarrow> string \<Rightarrow> gerror + listener \<times> 'v rpcServer" where
  "NewDevelopmentServer info remove_err address = NewServer info remove_err address []"

definition NewUnixServer ::
    "lstat_result \<Rightarrow> gerror option \<Rightarrow> string \<Rightarrow> ServerOption list \<Rightarrow> gerror + listener \<times> 'v rpcServer" where
  "NewUnixServer info remove_err path opts =
     (let cfg = newServerConfig opts
      in case NewUnixListener info remove_err path (serverConfig.writeTimeout cfg) (serverConfig.maxFrameSize cfg) of
           Inl err \<Rightarrow> Inl err
         | Inr lis \<Rightarrow> Inr (lis, NewServerWithListener opts))"

definition NewWebSocketServer ::
    "gerror + string \<Rightarrow> string \<Rightarrow> ServerOption list \<Rightarrow> gerror + 'c wsNet \<times> 'v rpcServer" where
  "NewWebSocketServer listened path opts =
     (let cfg = newServerConfig opts
      in case NewWebSocketListener listened path (sint (serverConfig.writeTimeout cfg)) (serverConfig.maxFrameSize cfg)
                (sint (serverConfig.keepAlive cfg)) of
           Inl err \<Rightarrow> Inl err
         | Inr lis \<Rightarrow> Inr (lis, NewServerWithListener opts))"

definition NewTLSServer ::
    "gerror option \<Rightarrow> string \<Rightarrow> 'cfg option \<Rightarrow> ServerOption list \<Rightarrow> gerror + listener \<times> 'v rpcServer" where
  "NewTLSServer bound addr config opts =
     (let cfg = newServerConfig opts
      in case NewTLSListener bound addr config (serverConfig.keepAlive cfg) (serverConfig.writeTimeout cfg)
                (serverConfig.maxFrameSize cfg) of
           Inl err \<Rightarrow> Inl err
         | Inr lis \<Rightarrow> Inr (lis, NewServerWithListener opts))"

definition NewMemServer :: "string \<Rightarrow> ServerOption list \<Rightarrow> memNet \<Rightarrow> (gerror + nat \<times> 'v rpcServer) \<times> memNet" where
  "NewMemServer name opts t =
     (case NewMemListener name t of
        (Inl err, t) \<Rightarrow> (Inl err, t)
      | (Inr lis, t) \<Rightarrow> (Inr (lis, NewServerWithListener opts), t))"

definition NewWebSocketHandler_server :: "ServerOption list \<Rightarrow> 'v rpcServer \<times> 'c wsNet" where
  "NewWebSocketHandler_server opts =
     (let cfg = newServerConfig opts;
          l = NewWebSocketHandler (sint (serverConfig.writeTimeout cfg)) (serverConfig.maxFrameSize cfg)
                (sint (serverConfig.keepAlive cfg))
      in (NewServerWithListener opts, l))"

definition NewServer_quic ::
    "(string \<Rightarrow> tlsConfig \<Rightarrow> quic_Config \<Rightarrow> gerror option) \<Rightarrow> string \<Rightarrow> tlsConfig option \<Rightarrow>
     gerror + quicListener \<times> 'v rpcServer" where
  "NewServer_quic listen addr config =
     (case NewListener_quic listen addr config DefaultTimeout of
        Inl err \<Rightarrow> Inl err
      | Inr lis \<Rightarrow> Inr (lis, NewServerWithListener []))"

text \<open>A client starts with the random number that is its id.\<close>

definition NewClient :: "int64 \<Rightarrow> string \<Rightarrow> string \<Rightarrow> ClientOption list \<Rightarrow> dialer \<times> 'v rpcClient" where
  "NewClient randId address socks5 opts =
     (let cfg = newClientConfig opts
      in (NewDialer address socks5 (cc_keepAlive cfg) (cc_writeTimeout cfg) (cc_maxFrameSize cfg),
          NewClientWithDialer randId opts))"

definition NewUnixClient :: "int64 \<Rightarrow> string \<Rightarrow> ClientOption list \<Rightarrow> dialer \<times> 'v rpcClient" where
  "NewUnixClient randId path opts =
     (let cfg = newClientConfig opts
      in (NewStreamDialer ''unix'' path [] 0 (cc_writeTimeout cfg) (cc_maxFrameSize cfg), NewClientWithDialer randId opts))"

definition NewWebSocketClient :: "int64 \<Rightarrow> string \<Rightarrow> ClientOption list \<Rightarrow> dialer \<times> 'v rpcClient" where
  "NewWebSocketClient randId url opts =
     (let cfg = newClientConfig opts
      in (NewDialer url [] (cc_keepAlive cfg) (cc_writeTimeout cfg) (cc_maxFrameSize cfg), NewClientWithDialer randId opts))"

definition NewTLSClient :: "int64 \<Rightarrow> string \<Rightarrow> ClientOption list \<Rightarrow> dialer \<times> 'v rpcClient" where
  "NewTLSClient randId address opts =
     (let cfg = newClientConfig opts
      in (NewTLSDialer address (cc_keepAlive cfg) (cc_writeTimeout cfg) (cc_maxFrameSize cfg), NewClientWithDialer randId opts))"

definition NewMemClient :: "int64 \<Rightarrow> string \<Rightarrow> ClientOption list \<Rightarrow> dialer \<times> 'v rpcClient" where
  "NewMemClient randId name opts = (memDialer name, NewClientWithDialer randId opts)"

definition NewClient_quic :: "int64 \<Rightarrow> string \<Rightarrow> tlsConfig option \<Rightarrow> quicDialer \<times> 'v rpcClient" where
  "NewClient_quic randId addr config = (NewDialer_quic addr config DefaultTimeout, NewClientWithDialer randId [])"

section \<open>Limits and identities\<close>

lemma NewListener_limits:
  assumes "NewListener info remove_err address ka wt mx = Inr (streamListener network addr ka' wt' mx')"
  shows "wt' = wt \<and> mx' = mx"
  using assms unfolding NewListener_def NewUnixListener_def
  by (auto simp: Let_def split: prod.splits if_splits option.splits)

text \<open>
  C39. A frame limit set on a server holds on its connections: a server built for a stream address with
  a positive limit refuses, on every connection it accepts, a frame that announces more bytes, whatever
  follows the announcement.
\<close>

theorem server_enforces_frame_limit:
  assumes "NewServer info remove_err address opts = Inr (streamListener network addr ka wt mx, srv)"
    and "0 < serverConfig.maxFrameSize (newServerConfig opts)"
    and "streamListener_Accept N (Inr c) r (streamListener network addr ka wt mx) = Inr t"
    and "unread r = PutUint32 n @ rest" and "serverConfig.maxFrameSize (newServerConfig opts) < uint n"
  shows "\<exists>msg. fst (ReadMessage V unpack t) = Inl (PlainError msg)"
proof -
  have mx: "mx = serverConfig.maxFrameSize (newServerConfig opts)"
    using assms(1) NewListener_limits by (fastforce simp: NewServer_def Let_def split: sum.splits)
  have t: "messageConnAdapter.maxFrameSize t = mx" "reader t = r"
    using assms(3) by (auto simp: streamListener_Accept_def NewMsgConn_def Let_def)
  have "ReadFull 4 (reader t) = (Inr (PutUint32 n), r\<lparr>unread := rest\<rparr>)"
    using assms(4) t(2) by (simp add: ReadFull_def)
  then show ?thesis using assms(2,5) t(1) mx by (simp add: ReadMessage_def Let_def)
qed

theorem server_enforces_frame_limit_witness:
  "let l = streamListener ''tcp'' ''localhost:9'' KeepAlivePeriod DefaultTimeout 16;
       r = \<lparr>unread = PutUint32 17 @ [1, 2], end_err = io_EOF\<rparr>;
       N = \<lparr>tcp_SetKeepAlive = \<lambda>b s. s, tcp_SetKeepAlivePeriod = \<lambda>d s. s\<rparr>
   in \<exists>t msg. streamListener_Accept N (Inr (TCPConn ())) r l = Inr t \<and>
        fst (ReadMessage ref_api (\<lambda>p. Inr GNull) t) = Inl (PlainError msg)"
proof -
  let ?l = "streamListener ''tcp'' ''localhost:9'' KeepAlivePeriod DefaultTimeout 16"
  let ?r = "\<lparr>unread = PutUint32 17 @ [1, 2], end_err = io_EOF\<rparr>"
  let ?N = "\<lparr>tcp_SetKeepAlive = \<lambda>b s. s, tcp_SetKeepAlivePeriod = \<lambda>d s. s\<rparr> :: unit tcp_api"
  let ?opts = "[WithMaxFrameSize 16]"
  have "ParseAddress ''localhost:9'' = (''tcp'', ''localhost:9'')" by code_simp
  then have srv: "NewServer NotExist None ''localhost:9'' ?opts =
      Inr (?l, NewServerWithListener ?opts :: gval rpcServer)"
    by (simp add: NewServer_def NewListener_def Let_def newServerConfig_def WithMaxFrameSize_def)
  obtain t where t: "streamListener_Accept ?N (Inr (TCPConn ())) ?r ?l = Inr t"
    by (simp add: streamListener_Accept_def Let_def)
  have "\<exists>msg. fst (ReadMessage ref_api (\<lambda>p. Inr GNull) t) = Inl (PlainError msg)"
    by (rule server_enforces_frame_limit [OF srv _ t, of 17 "[1, 2]"])
      (simp_all add: newServerConfig_def WithMaxFrameSize_def)
  with t show ?thesis by auto
qed

text \<open>
  What an authorizer learns about a peer is what the transport knows: credentials come only from a
  Unix socket and certificates only from a TLS connection that presented one, so no connection has both.
\<close>

theorem peer_identity_from_transport:
  "(PeerCredOf (Some (peerCred readCred t)) = Some cred \<longleftrightarrow> (\<exists>uc. conn t = UnixConn uc \<and> readCred uc = Inr cred)) \<and>
   (PeerCertificates (Some (TLSConnectionState certs t)) = Some cs \<longleftrightarrow>
      (\<exists>c. conn t = TLSConn c \<and> certs (TLSConn c) = cs \<and> cs \<noteq> [])) \<and>
   (PeerCredOf (Some (peerCred readCred t)) = None \<or> PeerCertificates (Some (TLSConnectionState certs t)) = None)"
  by (cases "conn t")
    (auto simp: PeerCredOf_def peerCred_def PeerCertificates_def TLSConnectionState_def split: sum.splits)

text \<open>A connection through the SOCKS5 proxy is used as the proxy returned it, without keepalive.\<close>

lemma proxied_without_keepalive:
  assumes "d_socks5 d \<noteq> []" and "socks (d_network d) (d_socks5 d) = Inr p"
    and "p ctx (d_network d) (d_address d) = Inr c"
  shows "\<exists>t. streamDialer_Dial N socks dial ctx r d = Inr t \<and> conn t = c"
  using assms by (simp add: streamDialer_Dial_def NewMsgConn_def)

text \<open>Ends that leave the protocol open agree on it; the server's name is the host of the address.\<close>

lemma quic_ends_agree:
  "NextProtos sc = [] \<Longrightarrow> cc = None \<or> (\<exists>c. cc = Some c \<and> NextProtos c = []) \<Longrightarrow>
   NextProtos (serverTLS sc) = NextProtos (clientTLS cc addr)"
  by (auto simp: serverTLS_def clientTLS_def Let_def split: option.splits)

lemma last_colon_append: "CHR '':'' \<notin> set b \<Longrightarrow> last_colon (a @ CHR '':'' # b) = Some (length a)"
proof (induction a)
  case Nil
  have "last_colon b = None" using Nil by (induction b) auto
  then show ?case by simp
qed simp

lemma clientTLS_names_host:
  assumes "set host \<inter> set '':[]'' = {}" and "set port \<inter> set '':[]'' = {}" and "host \<noteq> []"
  shows "ServerName (clientTLS None (host @ '':'' @ port)) = host"
proof -
  have "last_colon (host @ '':'' @ port) = Some (length host)" using assms(2) by (simp add: last_colon_append)
  moreover have "hd (host @ '':'' @ port) \<noteq> CHR ''[''" using assms(1,3) by (cases host) auto
  ultimately have "SplitHostPort (host @ '':'' @ port) = Some (host, port)"
    using assms(1,2) by (auto simp: SplitHostPort_def)
  then show ?thesis by (simp add: clientTLS_def Let_def)
qed

end
