(* ===== verification/Examples.thy ===== *)
theory Examples
  imports Endpoints Session_Identity
begin

text \<open>
  The programs under \<^verbatim>\<open>examples\<close>, as far as they compute: their handlers, authenticators, authorizers,
  codecs, policies and metrics, over the components they are registered with. Setting up processes and
  printing is left out, except where a handler's whole effect is the line it prints. A channel a handler
  reads is the list of what it yields, \<^term>\<open>None\<close> once it is closed.
\<close>

section \<open>Go strings as runes\<close>

text \<open>The conversions \<^verbatim>\<open>[]rune(s)\<close> and \<^verbatim>\<open>string(runes)\<close>: an invalid byte decodes to U+FFFD, and so is an invalid rune encoded.\<close>

definition cont_byte :: "nat \<Rightarrow> bool" where
  "cont_byte b = (0x80 \<le> b \<and> b \<le> 0xBF)"

definition decode_rune :: "nat \<Rightarrow> nat list \<Rightarrow> nat \<times> nat" where
  "decode_rune b0 bs =
     (if b0 < 0x80 then (b0, 1)
      else if 0xC2 \<le> b0 \<and> b0 \<le> 0xDF then
        (case bs of
           b1 # _ \<Rightarrow> if cont_byte b1 then ((b0 - 0xC0) * 64 + (b1 - 0x80), 2) else (0xFFFD, 1)
         | _ \<Rightarrow> (0xFFFD, 1))
      else if 0xE0 \<le> b0 \<and> b0 \<le> 0xEF then
        (case bs of
           b1 # b2 # _ \<Rightarrow>
             if cont_byte b1 \<and> (b0 = 0xE0 \<longrightarrow> 0xA0 \<le> b1) \<and> (b0 = 0xED \<longrightarrow> b1 \<le> 0x9F) \<and> cont_byte b2
             then ((b0 - 0xE0) * 4096 + (b1 - 0x80) * 64 + (b2 - 0x80), 3) else (0xFFFD, 1)
         | _ \<Rightarrow> (0xFFFD, 1))
      else if 0xF0 \<le> b0 \<and> b0 \<le> 0xF4 then
        (case bs of
           b1 # b2 # b3 # _ \<Rightarrow>
             if cont_byte b1 \<and> (b0 = 0xF0 \<longrightarrow> 0x90 \<le> b1) \<and> (b0 = 0xF4 \<longrightarrow> b1 \<le> 0x8F) \<and> cont_byte b2 \<and> cont_byte b3
             then ((b0 - 0xF0) * 262144 + (b1 - 0x80) * 4096 + (b2 - 0x80) * 64 + (b3 - 0x80), 4) else (0xFFFD, 1)
         | _ \<Rightarrow> (0xFFFD, 1))
      else (0xFFFD, 1))"

fun runes_of :: "nat list \<Rightarrow> nat list" where
  "runes_of [] = []"
| "runes_of (b # bs) = fst (decode_rune b bs) # runes_of (drop (snd (decode_rune b bs) - 1) bs)"

definition valid_rune :: "nat \<Rightarrow> bool" where
  "valid_rune r = (r < 0xD800 \<or> 0xE000 \<le> r \<and> r \<le> 0x10FFFF)"

definition encode_rune :: "nat \<Rightarrow> nat list" where
  "encode_rune r =
     (if \<not> valid_rune r then [0xEF, 0xBF, 0xBD]
      else if r < 0x80 then [r]
      else if r < 0x800 then [0xC0 + r div 64, 0x80 + r mod 64]
      else if r < 0x10000 then [0xE0 + r div 4096, 0x80 + r div 64 mod 64, 0x80 + r mod 64]
      else [0xF0 + r div 262144, 0x80 + r div 4096 mod 64, 0x80 + r div 64 mod 64, 0x80 + r mod 64])"

definition string_runes :: "string \<Rightarrow> nat list" where
  "string_runes s = runes_of (map of_char s)"

definition runes_string :: "nat list \<Rightarrow> string" where
  "runes_string rs = map char_of (concat (map encode_rune rs))"

lemma decode_encode:
  assumes "valid_rune r" and "encode_rune r = b # bs"
  shows "decode_rune b (bs @ rest) = (r, Suc (length bs))"
proof -
  consider "r < 0x80" | "0x80 \<le> r" "r < 0x800" | "0x800 \<le> r" "r < 0x10000" | "0x10000 \<le> r" by linarith
  then show ?thesis
  proof cases
    case 1
    then show ?thesis using assms by (auto simp: encode_rune_def decode_rune_def valid_rune_def)
  next
    case 2
    then have "2 \<le> r div 64" "r div 64 < 32" "r mod 64 < 64" by (auto simp: div_le_mono less_mult_imp_div_less)
    then show ?thesis using assms 2 by (auto simp: encode_rune_def decode_rune_def cont_byte_def)
  next
    case 3
    define a b c where d: "a = r div 4096" "b = r div 64 mod 64" "c = r mod 64"
    have "r div 64 = a * 64 + b" by (simp add: d div_mult2_eq [of r 64 64, simplified])
    then have r: "r = a * 4096 + b * 64 + c" using div_mult_mod_eq [of r 64] by (simp add: d(3))
    have l: "b < 64" "c < 64" by (simp_all add: d)
    have e: "encode_rune r = [0xE0 + a, 0x80 + b, 0x80 + c]" using 3 assms(1) by (simp add: encode_rune_def d)
    have "a < 16" "a = 0 \<Longrightarrow> 32 \<le> b" "a = 13 \<Longrightarrow> b < 32" using 3 r l assms(1) by (auto simp: valid_rune_def)
    then show ?thesis using e assms(2) l unfolding r by (auto simp: decode_rune_def cont_byte_def)
  next
    case 4
    define a b c d where d: "a = r div 262144" "b = r div 4096 mod 64" "c = r div 64 mod 64" "d = r mod 64"
    have "r div 4096 = a * 64 + b" by (simp add: d div_mult2_eq [of r 4096 64, simplified])
    moreover have "r div 64 = r div 4096 * 64 + c" by (simp add: d div_mult2_eq [of r 64 64, simplified])
    ultimately have r: "r = a * 262144 + b * 4096 + c * 64 + d" using div_mult_mod_eq [of r 64] by (simp add: d(4))
    have l: "b < 64" "c < 64" "d < 64" by (simp_all add: d)
    have e: "encode_rune r = [0xF0 + a, 0x80 + b, 0x80 + c, 0x80 + d]" using 4 assms(1) by (simp add: encode_rune_def d)
    have "a < 5" "a = 0 \<Longrightarrow> 16 \<le> b" "a = 4 \<Longrightarrow> b < 16" using 4 r l assms(1) by (auto simp: valid_rune_def)
    then show ?thesis using e assms(2) l unfolding r by (auto simp: decode_rune_def cont_byte_def)
  qed
qed

lemma encode_rune_nonempty: "encode_rune r \<noteq> []"
  by (simp add: encode_rune_def)

lemma encode_rune_bytes: "\<forall>b \<in> set (encode_rune r). b < 256"
proof -
  have "r < 2048 \<Longrightarrow> r div 64 < 32" "r < 65536 \<Longrightarrow> r div 4096 < 16" "r \<le> 0x10FFFF \<Longrightarrow> r div 262144 < 5"
    "r mod 64 < 64" "r div 64 mod 64 < 64" "r div 4096 mod 64 < 64"
    by auto
  then show ?thesis by (auto simp: encode_rune_def valid_rune_def)
qed

lemma runes_roundtrip: "\<forall>r \<in> set rs. valid_rune r \<Longrightarrow> runes_of (concat (map encode_rune rs)) = rs"
proof (induction rs)
  case (Cons r rs)
  obtain b bs where e: "encode_rune r = b # bs" using encode_rune_nonempty [of r] by (cases "encode_rune r") auto
  from decode_encode [OF _ e] Cons show ?case by (simp add: e)
qed simp

lemma string_runes_string: "\<forall>r \<in> set rs. valid_rune r \<Longrightarrow> string_runes (runes_string rs) = rs"
proof -
  have "map (of_char \<circ> char_of) bs = bs" if "\<forall>b \<in> set bs. b < 256" for bs :: "nat list"
    using that by (simp add: map_idI)
  moreover have "\<forall>b \<in> set (concat (map encode_rune rs)). b < 256" using encode_rune_bytes by auto
  ultimately show "\<forall>r \<in> set rs. valid_rune r \<Longrightarrow> ?thesis"
    by (simp add: string_runes_def runes_string_def runes_roundtrip)
qed

section \<open>First\<close>

text \<open>The four interaction patterns of \<^verbatim>\<open>examples/first/sample.go\<close>, whose two variables are the state.\<close>

record names =
  firstName :: string
  lastName :: string

definition setName :: "'v value_api \<Rightarrow> 'v option \<Rightarrow> names \<Rightarrow> 'v option outcome \<times> names" where
  "setName V args st =
     (case args of
        None \<Rightarrow> (outcome.Panicked, st)
      | Some l \<Rightarrow>
          if Kind V l \<noteq> LIST then (outcome.Panicked, st)
          else (outcome.Returned None, st\<lparr>firstName := string_String V (list_GetStringAt V l 0),
                                  lastName := string_String V (list_GetStringAt V l 1)\<rparr>))"

definition getName :: "'v value_api \<Rightarrow> 'v option \<Rightarrow> names \<Rightarrow> 'v option outcome" where
  "getName V args st = outcome.Returned (Some (Utf8 V (firstName st @ '' '' @ lastName st)))"

definition scanNames :: "'v value_api \<Rightarrow> 'v option list" where
  "scanNames V = [Some (Utf8 V ''Alex''), Some (Utf8 V ''Bob'')]"

text \<open>Where a goroutine over a channel got: waiting for more, done, or crashed on a value it cannot use.\<close>

datatype loop_end = Waiting | Ended | Crashed

fun uploadNames_loop :: "'v value_api \<Rightarrow> 'v option option list \<Rightarrow> string list \<times> loop_end" where
  "uploadNames_loop V [] = ([], Waiting)"
| "uploadNames_loop V (None # _) = ([''Upload server: <END>''], Ended)"
| "uploadNames_loop V (Some None # _) = ([], Crashed)"
| "uploadNames_loop V (Some (Some name) # items) =
     (let (ls, e) = uploadNames_loop V items in ((''Upload server: '' @ string_String V name) # ls, e))"

text \<open>The loop swaps from both ends; on an empty slice it does not start.\<close>

function reverse_loop :: "nat \<Rightarrow> nat \<Rightarrow> 'a list \<Rightarrow> 'a list" where
  "reverse_loop i j runes =
     (if i < j then reverse_loop (i + 1) (j - 1) (runes[i := runes ! j, j := runes ! i]) else runes)"
  by pat_completeness auto
termination by (relation "measure (\<lambda>(i, j, _). j - i)") auto

declare reverse_loop.simps [simp del]

definition reverse :: "string \<Rightarrow> string" where
  "reverse s = (let runes = string_runes s in runes_string (reverse_loop 0 (length runes - 1) runes))"

fun echoChat_loop :: "'v value_api \<Rightarrow> 'v option option list \<Rightarrow> 'v list \<times> loop_end" where
  "echoChat_loop V [] = ([], Waiting)"
| "echoChat_loop V (None # _) = ([], Ended)"
| "echoChat_loop V (Some None # _) = ([], Crashed)"
| "echoChat_loop V (Some (Some msg) # items) =
     (let (out, e) = echoChat_loop V items in (Utf8 V (reverse (string_String V msg)) # out, e))"

lemma reverse_loop_nth:
  "i + j + 1 = length xs \<Longrightarrow> length (reverse_loop i j xs) = length xs \<and>
    (\<forall>k < length xs. reverse_loop i j xs ! k = (if i \<le> k \<and> k \<le> j then xs ! (length xs - 1 - k) else xs ! k))"
proof (induction i j xs rule: reverse_loop.induct)
  case (1 i j xs)
  show ?case
  proof (cases "i < j")
    case True
    let ?ys = "xs[i := xs ! j, j := xs ! i]"
    have l: "reverse_loop i j xs = reverse_loop (i + 1) (j - 1) ?ys" using True by (subst reverse_loop.simps) simp
    have IH: "length (reverse_loop (i + 1) (j - 1) ?ys) = length xs"
      "\<And>k. k < length xs \<Longrightarrow> reverse_loop (i + 1) (j - 1) ?ys ! k =
         (if i + 1 \<le> k \<and> k \<le> j - 1 then ?ys ! (length xs - 1 - k) else ?ys ! k)"
      using 1(1) [OF True] 1(2) True by auto
    have "reverse_loop i j xs ! k = (if i \<le> k \<and> k \<le> j then xs ! (length xs - 1 - k) else xs ! k)"
      if "k < length xs" for k
    proof (cases "i + 1 \<le> k \<and> k \<le> j - 1")
      case inner: True
      then have "length xs - 1 - k \<noteq> i" "length xs - 1 - k \<noteq> j" using 1(2) True by linarith+
      moreover have "i \<le> k" "k \<le> j" using inner by linarith+
      ultimately show ?thesis using inner IH(2) [OF that] l by simp
    next
      case False
      have "length xs - Suc i = j" "length xs - Suc j = i" using 1(2) by simp_all
      then show ?thesis using False IH(2) [OF that] l True 1(2) that by (auto simp: nth_list_update)
    qed
    then show ?thesis using IH(1) l by simp
  next
    case False
    then have l: "reverse_loop i j xs = xs" by (subst reverse_loop.simps) simp
    have "i \<le> k \<and> k \<le> j \<Longrightarrow> length xs - 1 - k = k" for k using False 1(2) by linarith
    then show ?thesis by (simp add: l)
  qed
qed

lemma reverse_loop_rev: "reverse_loop 0 (length xs - 1) xs = rev xs"
proof (cases "xs = []")
  case True
  then show ?thesis by (subst reverse_loop.simps) simp
next
  case False
  then have "0 + (length xs - 1) + 1 = length xs" by simp
  from reverse_loop_nth [OF this] show ?thesis
    by (intro nth_equalityI) (auto simp: rev_nth)
qed

text \<open>The text is reversed by runes, so reversing twice gives it back, whatever its encoding needs.\<close>

lemma reverse_runes: "\<forall>r \<in> set rs. valid_rune r \<Longrightarrow> reverse (runes_string rs) = runes_string (rev rs)"
  by (simp add: reverse_def string_runes_string reverse_loop_rev [simplified] Let_def)

lemma echoChat_involutive:
  assumes "value_laws V" and "\<forall>rs \<in> set texts. \<forall>r \<in> set rs. valid_rune r"
  defines "msgs \<equiv> map (\<lambda>rs. Utf8 V (runes_string rs)) texts"
  shows "\<exists>out. echoChat_loop V (map (\<lambda>v. Some (Some v)) msgs @ [None]) = (out, Ended) \<and>
    echoChat_loop V (map (\<lambda>v. Some (Some v)) out @ [None]) = (msgs, Ended)"
proof -
  have answers: "echoChat_loop V (map (\<lambda>rs. Some (Some (Utf8 V (runes_string rs)))) tts @ [None]) =
      (map (\<lambda>rs. Utf8 V (runes_string (rev rs))) tts, Ended)" if "\<forall>rs \<in> set tts. \<forall>r \<in> set rs. valid_rune r" for tts
    using that by (induction tts) (simp_all add: value_laws.String_Utf8 [OF assms(1)] reverse_runes)
  have "\<forall>rs \<in> set (map rev texts). \<forall>r \<in> set rs. valid_rune r" using assms(2) by simp
  from answers [OF assms(2)] answers [OF this] show ?thesis by (simp add: msgs_def comp_def)
qed

lemma names_roundtrip:
  assumes "value_laws V"
  shows "setName V (Some (Tuple V [Utf8 V a, Utf8 V b])) st = (outcome.Returned None, \<lparr>firstName = a, lastName = b\<rparr>)"
  using value_laws.GetStringAt_Tuple [OF assms, of 0 "[Utf8 V a, Utf8 V b]"]
    value_laws.GetStringAt_Tuple [OF assms, of 1 "[Utf8 V a, Utf8 V b]"]
  by (simp add: setName_def value_laws.Kind_Tuple [OF assms] value_laws.Kind_Utf8 [OF assms] value_laws.String_Utf8 [OF assms])

section \<open>Streaming\<close>

text \<open>The handlers of \<^verbatim>\<open>examples/streaming/main.go\<close>; the type assertions panic on other kinds and on nil.\<close>

definition upper_handler :: "'v value_api \<Rightarrow> 'v option \<Rightarrow> 'v option outcome" where
  "upper_handler V a =
     (case a of
        Some s \<Rightarrow> if Kind V s = STRING then outcome.Returned (Some (Utf8 V (''UPPER:'' @ string_String V s)))
                  else outcome.Panicked
      | None \<Rightarrow> outcome.Panicked)"

lemma sint_succ:
  fixes i n :: int64
  assumes "sint i < sint n"
  shows "sint (i + 1) = sint i + 1"
  using assms sint_lt [of n] sint_ge [of i] by (subst sint_add_no_overflow) auto

function count_loop :: "'v value_api \<Rightarrow> int64 \<Rightarrow> int64 \<Rightarrow> 'v option list" where
  "count_loop V i n = (if sint i < sint n then Some (Long V i) # count_loop V (i + 1) n else [])"
  by pat_completeness auto
termination
proof (relation "measure (\<lambda>(_, i, n). nat (sint n - sint i))")
  fix V :: "'v value_api" and i n :: int64
  assume "sint i < sint n"
  from sint_succ [OF this] show "((V, i + 1, n), V, i, n) \<in> measure (\<lambda>(_, i, n). nat (sint n - sint i))"
    using \<open>sint i < sint n\<close> by simp
qed simp

declare count_loop.simps [simp del]

definition count_handler :: "'v value_api \<Rightarrow> 'v option \<Rightarrow> 'v option list outcome" where
  "count_handler V a =
     (case a of
        Some n \<Rightarrow> if Kind V n = NUMBER then outcome.Returned (count_loop V 0 (number_Long V n)) else outcome.Panicked
      | None \<Rightarrow> outcome.Panicked)"

text \<open>\<^verbatim>\<open>for v := range in\<close>: the total once the channel is closed, \<^term>\<open>None\<close> while it is open or after a panic.\<close>

fun sum_loop :: "'v value_api \<Rightarrow> int64 \<Rightarrow> 'v option option list \<Rightarrow> int64 option" where
  "sum_loop V tot [] = None"
| "sum_loop V tot (None # _) = Some tot"
| "sum_loop V tot (Some None # items) = sum_loop V tot items"
| "sum_loop V tot (Some (Some v) # items) =
     (if Kind V v = NUMBER then sum_loop V (tot + number_Long V v) items else None)"

fun shout_loop :: "'v value_api \<Rightarrow> 'v option option list \<Rightarrow> 'v list \<times> loop_end" where
  "shout_loop V [] = ([], Waiting)"
| "shout_loop V (None # _) = ([], Ended)"
| "shout_loop V (Some None # _) = ([], Crashed)"
| "shout_loop V (Some (Some v) # items) =
     (if Kind V v = STRING then let (out, e) = shout_loop V items in (Utf8 V (string_String V v @ ''!'') # out, e)
      else ([], Crashed))"

lemma count_loop_from:
  "0 \<le> sint i \<Longrightarrow> count_loop V i n = map (\<lambda>k. Some (Long V (of_nat k))) [nat (sint i)..<nat (sint n)]"
proof (induction V i n rule: count_loop.induct)
  case (1 V i n)
  show ?case
  proof (cases "sint i < sint n")
    case True
    note s = sint_succ [OF True]
    have "of_nat (nat (sint i)) = i" using 1(2) by (simp add: of_nat_nat)
    then have h: "[nat (sint i)..<nat (sint n)] = nat (sint i) # [nat (sint (i + 1))..<nat (sint n)]"
      "of_nat (nat (sint i)) = i"
      using True 1(2) s by (simp_all add: upt_conv_Cons nat_add_distrib)
    show ?thesis using 1(1) [OF True] 1(2) True s h by (subst count_loop.simps) simp
  next
    case False
    then show ?thesis using 1(2) by (subst count_loop.simps) simp
  qed
qed

text \<open>The stream counts from zero, and a total of what it sends is the sum, up to wrapping.\<close>

lemma count_then_sum:
  assumes "value_laws V" and "0 \<le> sint n"
  shows "count_handler V (Some (Long V n)) = outcome.Returned (map (\<lambda>k. Some (Long V (of_nat k))) [0..<nat (sint n)])"
    and "sum_loop V 0 (map Some (count_loop V 0 n) @ [None]) = Some (of_nat (\<Sum>k = 0..<nat (sint n). k))"
proof -
  have c: "count_loop V 0 n = map (\<lambda>k. Some (Long V (of_nat k))) [0..<nat (sint n)]"
    using count_loop_from [of 0 V n] by simp
  then show "count_handler V (Some (Long V n)) = outcome.Returned (map (\<lambda>k. Some (Long V (of_nat k))) [0..<nat (sint n)])"
    by (simp add: count_handler_def value_laws.Kind_Long [OF assms(1)] value_laws.Long_Long [OF assms(1)])
  have "sum_loop V tot (map (\<lambda>k. Some (Some (Long V (of_nat k)))) ks @ [None]) = Some (tot + of_nat (sum_list ks))" for tot ks
    by (induction ks arbitrary: tot)
      (simp_all add: value_laws.Kind_Long [OF assms(1)] value_laws.Long_Long [OF assms(1)] algebra_simps)
  then show "sum_loop V 0 (map Some (count_loop V 0 n) @ [None]) = Some (of_nat (\<Sum>k = 0..<nat (sint n). k))"
    by (simp add: c comp_def sum_list_distinct_conv_sum_set atLeastLessThan_upt [symmetric])
qed

section \<open>Authentication and authorization\<close>

text \<open>The bearer tokens of \<^verbatim>\<open>examples/auth/main.go\<close>.\<close>

definition tokens :: "string \<rightharpoonup> string" where
  "tokens = [''alice-token'' \<mapsto> ''alice'', ''bob-token'' \<mapsto> ''bob'']"

definition token_authenticator :: "'v value_api \<Rightarrow> 'v Authenticator" where
  "token_authenticator V c cred =
     (case cred of
        None \<Rightarrow> Inl (PlainError ''missing credential'')
      | Some v \<Rightarrow>
          if Kind V v \<noteq> STRING then Inl (PlainError ''missing credential'')
          else (case tokens (string_String V v) of
                  None \<Rightarrow> Inl (PlainError ''invalid token'')
                | Some princ \<Rightarrow> Inr princ))"

text \<open>The authorizers of \<^verbatim>\<open>examples/unix/main.go\<close> and \<^verbatim>\<open>examples/mtls/main.go\<close>, on what the connection's peer is.\<close>

definition owner_authorizer :: "uint32 \<Rightarrow> (gerror + PeerCred) option \<Rightarrow> gerror option" where
  "owner_authorizer uid asked =
     (case PeerCredOf asked of
        None \<Rightarrow> Some (PlainError ''peer credentials unavailable'')
      | Some cred \<Rightarrow> if UID cred \<noteq> uid then Some (PlainError ''only the owning user may connect'') else None)"

definition certificate_authorizer :: "('x list \<times> bool) option \<Rightarrow> gerror option" where
  "certificate_authorizer asked =
     (case PeerCertificates asked of
        None \<Rightarrow> Some (PlainError ''no client certificate'')
      | Some certs \<Rightarrow> if certs = [] then Some (PlainError ''no client certificate'') else None)"

text \<open>Every session the server of the example ever has belongs to one of the two principals.\<close>

lemma token_sessions:
  assumes "(server_step E)\<^sup>*\<^sup>* (SetAuthenticator (Some (token_authenticator (env_V E))) (NewServerWithListener opts)) t"
    and "srv_clientMap t cid = Some cli"
  shows "sc_principal cli \<in> {''alice'', ''bob''}"
proof -
  have "p \<in> {''alice'', ''bob''}" if "token_authenticator V c cred = Inr p" for V :: "'a value_api" and c cred p
    using that by (auto simp: token_authenticator_def tokens_def split: option.splits if_splits)
  then show ?thesis
    using server_run_vouched [OF assms(1) fresh_vouched] assms(2) by (fastforce simp: all_vouched_def vouched_def)
qed

text \<open>A connection is admitted over a Unix socket of the owner only, or over TLS with a certificate only.\<close>

lemma authorizers_admit:
  "owner_authorizer uid (Some (peerCred readCred t)) = None \<longleftrightarrow>
     (\<exists>uc cred. conn t = UnixConn uc \<and> readCred uc = Inr cred \<and> UID cred = uid)"
  "certificate_authorizer (Some (TLSConnectionState certs t)) = None \<longleftrightarrow>
     (\<exists>c. conn t = TLSConn c \<and> certs (TLSConn c) \<noteq> [])"
  by (cases "conn t"; auto simp: owner_authorizer_def certificate_authorizer_def PeerCredOf_def peerCred_def
      PeerCertificates_def TLSConnectionState_def split: sum.splits)+

section \<open>Typed calls\<close>

text \<open>The messages, codecs and handlers of \<^verbatim>\<open>examples/typed/main.go\<close>. Reading a missing key of a Go map gives the zero value.\<close>

record GetUserReq =
  GetUserReq_ID :: int64

record User =
  User_ID :: int64
  User_Name :: string
  User_Email :: string

definition getUserReqCodec :: "'v value_api \<Rightarrow> (GetUserReq, 'v) Codec" where
  "getUserReqCodec V =
     \<lparr>Encode = (\<lambda>r. Some (Put V (EmptyMap V) ''id'' (Some (Long V (GetUserReq_ID r))))),
      Decode = (\<lambda>v. case v of
        None \<Rightarrow> Inl (PlainError ''expected a map'')
      | Some m \<Rightarrow>
          if Kind V m \<noteq> MAP then Inl (PlainError ''expected a map'')
          else Inr \<lparr>GetUserReq_ID = number_Long V (map_GetNumber V m ''id'')\<rparr>)\<rparr>"

definition GetString_String :: "'v value_api \<Rightarrow> 'v \<Rightarrow> string \<Rightarrow> string" where
  "GetString_String V m k = (case map_GetString V m k of Some s \<Rightarrow> string_String V s | None \<Rightarrow> [])"

definition userCodec :: "'v value_api \<Rightarrow> (User, 'v) Codec" where
  "userCodec V =
     \<lparr>Encode = (\<lambda>u. Some (Puts V (EmptyMap V)
        [(''id'', Long V (User_ID u)), (''name'', Utf8 V (User_Name u)), (''email'', Utf8 V (User_Email u))])),
      Decode = (\<lambda>v. case v of
        None \<Rightarrow> Inl (PlainError ''expected a map'')
      | Some m \<Rightarrow>
          if Kind V m \<noteq> MAP then Inl (PlainError ''expected a map'')
          else Inr \<lparr>User_ID = number_Long V (map_GetNumber V m ''id''),
                    User_Name = GetString_String V m ''name'', User_Email = GetString_String V m ''email''\<rparr>)\<rparr>"

definition user_db :: "int64 \<rightharpoonup> User" where
  "user_db = [1 \<mapsto> \<lparr>User_ID = 1, User_Name = ''Ada'', User_Email = ''ada@x.io''\<rparr>,
              2 \<mapsto> \<lparr>User_ID = 2, User_Name = ''Linus'', User_Email = ''linus@x.io''\<rparr>]"

definition users_get :: "call_ctx \<Rightarrow> GetUserReq \<Rightarrow> gerror + User" where
  "users_get ctx r =
     (case user_db (GetUserReq_ID r) of
        None \<Rightarrow> Inl (NewError CodeNotFound (''no user '' @ show_int (sint (GetUserReq_ID r))))
      | Some u \<Rightarrow> Inr u)"

definition users_list :: "call_ctx \<Rightarrow> GetUserReq \<Rightarrow> gerror + User list" where
  "users_list ctx r =
     (let get = (\<lambda>k. case user_db k of Some u \<Rightarrow> u | None \<Rightarrow> \<lparr>User_ID = 0, User_Name = [], User_Email = []\<rparr>)
      in Inr [get 1, get 2])"

lemma GetString_String_stored:
  "value_laws V \<Longrightarrow> Get V m k = Some (Utf8 V s) \<Longrightarrow> GetString_String V m k = s"
  using value_laws.GetString_Get [of V m k "Utf8 V s"]
  by (simp add: GetString_String_def value_laws.Kind_Utf8 value_laws.String_Utf8)

lemma codecs_ok:
  assumes "value_laws V"
  shows "codec_ok (getUserReqCodec V) r" and "codec_ok (userCodec V) u"
proof -
  note laws = value_laws.value_simps [OF assms]
  have "map_GetNumber V (Put V (EmptyMap V) ''id'' (Some (Long V n))) ''id'' = Long V n" for n
    by (rule value_laws.GetNumber_Get [OF assms]) (simp_all add: laws)
  then show "codec_ok (getUserReqCodec V) r"
    by (simp add: codec_ok_def getUserReqCodec_def laws)
  define m where "m = Puts V (EmptyMap V)
    [(''id'', Long V (User_ID u)), (''name'', Utf8 V (User_Name u)), (''email'', Utf8 V (User_Email u))]"
  have get: "Kind V m = MAP" "Get V m ''id'' = Some (Long V (User_ID u))" "Get V m ''name'' = Some (Utf8 V (User_Name u))"
    "Get V m ''email'' = Some (Utf8 V (User_Email u))"
    by (simp_all add: m_def Puts_def laws)
  have "map_GetNumber V m ''id'' = Long V (User_ID u)"
    by (rule value_laws.GetNumber_Get [OF assms get(2)]) (simp add: laws)
  then show "codec_ok (userCodec V) u"
    using get by (simp add: codec_ok_def userCodec_def m_def [symmetric] laws GetString_String_stored [OF assms])
qed

text \<open>The typed call site sees the handler as if it were local, errors and their codes included.\<close>

lemma typed_lookup:
  assumes "value_laws V"
    and "\<And>args. invoker ctx ''users.get'' args s = (AddUnary_handler (getUserReqCodec V) (userCodec V) users_get ctx args, s)"
  shows "CallUnary invoker (getUserReqCodec V) (userCodec V) ctx ''users.get'' r s = (users_get ctx r, s)"
  by (rule typed_call_transparent) (simp_all add: codecs_ok assms)

lemma typed_listing:
  assumes "value_laws V"
  shows "\<exists>vs. AddOutgoingStreamTyped_handler (getUserReqCodec V) (userCodec V) users_list ctx (Encode (getUserReqCodec V) r) = Inr vs \<and>
    (\<exists>us. GetStreamTyped_loop (userCodec V) vs = (us, None, []) \<and> map User_Name us = [''Ada'', ''Linus''])"
proof -
  have "Decode (getUserReqCodec V) (Encode (getUserReqCodec V) r) = Inr r"
    using codecs_ok(1) [OF assms, of r] by (simp add: codec_ok_def)
  then show ?thesis
    using typed_stream_roundtrip [of _ "userCodec V"] codecs_ok(2) [OF assms]
    by (auto simp: AddOutgoingStreamTyped_handler_def users_list_def PutStreamTyped_loop_def user_db_def codec_ok_def)
qed

section \<open>Metrics\<close>

text \<open>The counters of \<^verbatim>\<open>examples/observability/main.go\<close>, fed with the events the library reports.\<close>

record counters =
  requests :: int
  errors :: int
  inflight :: int

fun observe :: "metric_event \<Rightarrow> counters \<Rightarrow> counters" where
  "observe (RequestBegin _) c = c\<lparr>inflight := inflight c + 1\<rparr>"
| "observe (RequestEnd _ code) c =
     c\<lparr>requests := requests c + 1, inflight := inflight c - 1,
       errors := (if code \<noteq> CodeOK then errors c + 1 else errors c)\<rparr>"
| "observe (StreamValueMetric _) c = c"
| "observe ReconnectMetric c = c"

lemma errors_within_requests:
  "errors c \<le> requests c \<Longrightarrow> errors (fold observe es c) \<le> requests (fold observe es c)"
proof (induction es arbitrary: c)
  case (Cons e es)
  then show ?case by (cases e) simp_all
qed simp

text \<open>The error replies are what the \<^verbatim>\<open>work\<close> handler of the example meters.\<close>

definition work_handler :: "'v value_api \<Rightarrow> 'v option \<Rightarrow> 'v option outcome" where
  "work_handler V a =
     (case a of
        None \<Rightarrow> outcome.Returned (Some (Utf8 V ''done''))
      | Some s \<Rightarrow>
          if Kind V s \<noteq> STRING then outcome.Panicked
          else if string_String V s = ''bad'' then outcome.Failed (NewError CodeInvalidArgument ''bad input'')
          else outcome.Returned (Some (Utf8 V ''done'')))"

lemma admit_single:
  assumes "admit E F singleFunction m t = Inr (reqId, name, fn, args)"
  shows "fn_ft fn = singleFunction"
  using assms by (auto simp: admit_def Let_def split: option.splits if_splits)

lemma record_metric_fields:
  "sc_cfg (record_metric e t) = sc_cfg t" "sc_liveStreams (record_metric e t) = sc_liveStreams t"
  "sc_ctxCancelled (record_metric e t) = sc_ctxCancelled t" "sc_principal (record_metric e t) = sc_principal t"
  "sc_cfg (t\<lparr>sc_requestCancels := rc\<rparr>) = sc_cfg t"
  "sc_ctxCancelled (t\<lparr>sc_requestCancels := rc\<rparr>) = sc_ctxCancelled t" "sc_principal (t\<lparr>sc_requestCancels := rc\<rparr>) = sc_principal t"
  by (simp_all add: record_metric_def)

lemma context_after_metric:
  "handler_context E m ft (t\<lparr>sc_requestCancels := rc\<rparr>) = handler_context E m ft t"
  "handler_context E m ft (record_metric e t) = handler_context E m ft t"
  unfolding handler_context_def newRequestContext_def record_metric_fields by (rule refl)+

lemma admit_after_metric: "admit E F ft m (record_metric e t) = admit E F ft m t"
  unfolding admit_def record_metric_fields by (rule refl)

definition unary_panics :: "'v rpc_env \<Rightarrow> (string \<rightharpoonup> 'v function_def) \<Rightarrow> 'v \<Rightarrow> 'v servingClient \<Rightarrow> bool" where
  "unary_panics E F m t =
     (case admit E F singleFunction m t of
        Inl _ \<Rightarrow> False
      | Inr (_, _, fn, args) \<Rightarrow> fn_single fn (handler_context E m singleFunction t) args = outcome.Panicked)"

lemma mlog_simps:
  "sc_mlog (snd (send m t)) = sc_mlog t" "sc_mlog (record_metric e t) = sc_mlog t @ [e]"
  by (simp_all add: send_def record_metric_def)

lemma unary_log:
  "\<exists>code. sc_mlog (serveFunctionRequest E F singleFunction m t) =
     sc_mlog t @ RequestBegin (request_name E m) # (if unary_panics E F m t then [] else [RequestEnd (request_name E m) code])"
proof (cases "admit E F singleFunction m t")
  case (Inl resp)
  then show ?thesis
    by (auto simp: serveFunctionRequest_def start_worker_def admit_after_metric unary_panics_def finish_worker_def
        mlog_simps Let_def)
next
  case (Inr q)
  obtain reqId name fn args where q: "q = (reqId, name, fn, args)" by (cases q)
  note a = Inr [unfolded q]
  show ?thesis
    using admit_single [OF a]
    by (cases "fn_single fn (handler_context E m singleFunction t) args")
      (auto simp: serveFunctionRequest_def start_worker_def admit_after_metric unary_panics_def a run_worker_def
        run_handler_def finish_worker_def context_after_metric mlog_simps Let_def)
qed

text \<open>
  C40. The in-flight gauge that the metrics documentation derives from the events (begins minus ends) drifts on
  panics: serving one unary request leaves the gauge of the counters as it was, and counts one request,
  unless the application's handler panics; then the gauge stays one too high and no request is counted.
\<close>

theorem gauge_drifts_on_panic:
  "inflight (fold observe (sc_mlog (serveFunctionRequest E F singleFunction m t)) c) =
     inflight (fold observe (sc_mlog t) c) + (if unary_panics E F m t then 1 else 0) \<and>
   requests (fold observe (sc_mlog (serveFunctionRequest E F singleFunction m t)) c) =
     requests (fold observe (sc_mlog t) c) + (if unary_panics E F m t then 0 else 1)"
  using unary_log [of E F m t] by (auto split: if_splits)

section \<open>Deadlines and reconnecting\<close>

text \<open>
  \<^verbatim>\<open>examples/cancellation/main.go\<close>: what counts as a deadline at the call site, and the slow handler, on
  whether its timer or its context fires first.
\<close>

definition isDeadline :: "gerror option \<Rightarrow> bool" where
  "isDeadline err =
     ((case err of Some e \<Rightarrow> Is_error e context_DeadlineExceeded | None \<Rightarrow> False) \<or> CodeOf err = CodeDeadlineExceeded)"

definition slow_handler :: "'v value_api \<Rightarrow> gerror option \<Rightarrow> 'v option outcome" where
  "slow_handler V ctx_done =
     (case ctx_done of
        None \<Rightarrow> outcome.Returned (Some (Utf8 V ''finished''))
      | Some err \<Rightarrow> outcome.Failed err)"

text \<open>
  An abandoned handler is answered with the code of the reason, so the call site recognises the deadline
  by the server's reply as by its own context, and an explicit cancellation is not taken for one.
\<close>

lemma deadline_recognised:
  "isDeadline (Some context_DeadlineExceeded)"
  "isDeadline (Some (RpcError (handlerErrCode context_DeadlineExceeded) msg))"
  "\<not> isDeadline (Some context_Canceled)"
  "\<not> isDeadline (Some (RpcError (handlerErrCode context_Canceled) msg))"
  "\<not> isDeadline None"
  by (simp_all add: isDeadline_def CodeOf_def handlerErrCode_def code_defs)

text \<open>The policy of \<^verbatim>\<open>examples/reconnect/main.go\<close> and its handlers, on whether the blocked one is released.\<close>

definition example_policy :: ReconnectPolicy where
  "example_policy = \<lparr>ReplayUnary = Some (\<lambda>method. method = ''ping''), InitialBackoff = 20000000, MaxBackoff = 200000000,
     MaxAttempts = -1, Jitter = True\<rparr>"

definition ping_handler :: "'v value_api \<Rightarrow> 'v option outcome" where
  "ping_handler V = outcome.Returned (Some (Utf8 V ''pong''))"

definition hold_handler :: "'v value_api \<Rightarrow> bool \<Rightarrow> 'v option outcome option" where
  "hold_handler V released_or_done =
     (if released_or_done then Some (outcome.Returned (Some (Utf8 V ''late''))) else None)"

lemma only_ping_is_replayed:
  assumes "value_laws (env_V E)" and "skind rc = unaryKind"
    and "Get (env_V E) (req rc) (FunctionNameField (env_d E)) = Some (Utf8 (env_V E) name)"
  shows "replayable E example_policy rc \<longleftrightarrow> name = ''ping''"
proof -
  have "map_GetString (env_V E) (req rc) (FunctionNameField (env_d E)) = Some (Utf8 (env_V E) name)"
    using value_laws.GetString_Get [OF assms(1,3)] value_laws.Kind_Utf8 [OF assms(1)] by simp
  then show ?thesis
    by (simp add: replayable_def example_policy_def Name_def assms(2) value_laws.String_Utf8 [OF assms(1)])
qed

section \<open>A custom transport\<close>

text \<open>
  \<^verbatim>\<open>examples/customtransport/main.go\<close>: a connection that counts its bytes around an embedded one. The
  embedded connection's \<^verbatim>\<open>Read\<close> and \<^verbatim>\<open>Write\<close> also report how many bytes they moved; its other methods are
  promoted.
\<close>

record 'c countingConn =
  cn_Conn :: 'c
  cn_in :: int64
  cn_out :: int64

definition counting_Read ::
    "('c \<Rightarrow> nat \<Rightarrow> 'c \<times> byte list \<times> gerror option) \<Rightarrow> 'c countingConn \<Rightarrow> nat \<Rightarrow>
     'c countingConn \<times> byte list \<times> gerror option" where
  "counting_Read rd c n =
     (let (k, p, err) = rd (cn_Conn c) n
      in (c\<lparr>cn_Conn := k, cn_in := cn_in c + of_nat (length p)\<rparr>, p, err))"

definition counting_Write ::
    "('c \<Rightarrow> byte list \<Rightarrow> 'c \<times> nat \<times> gerror option) \<Rightarrow> 'c countingConn \<Rightarrow> byte list \<Rightarrow>
     'c countingConn \<times> gerror option" where
  "counting_Write wr c p =
     (let (k, n, err) = wr (cn_Conn c) p
      in (c\<lparr>cn_Conn := k, cn_out := cn_out c + of_nat n\<rparr>, err))"

definition promoted :: "('c \<Rightarrow> 'a \<Rightarrow> 'c \<times> gerror option) \<Rightarrow> 'c countingConn \<Rightarrow> 'a \<Rightarrow> 'c countingConn \<times> gerror option" where
  "promoted f c x = (let (k, err) = f (cn_Conn c) x in (c\<lparr>cn_Conn := k\<rparr>, err))"

definition counting_api ::
    "'c stream_api \<Rightarrow> ('c \<Rightarrow> byte list \<Rightarrow> 'c \<times> nat \<times> gerror option) \<Rightarrow> 'c countingConn stream_api" where
  "counting_api C wr =
     \<lparr>conn_Write = counting_Write wr,
      conn_Close = (\<lambda>c. promoted (\<lambda>k _. conn_Close C k) c ()),
      conn_SetWriteDeadline = map_option promoted (conn_SetWriteDeadline C),
      conn_SetReadDeadline = map_option promoted (conn_SetReadDeadline C),
      conn_RemoteAddr = map_option (\<lambda>f c. f (cn_Conn c)) (conn_RemoteAddr C)\<rparr>"

text \<open>When the embedded connection writes everything it is given, the counter is the size of the frames.\<close>

lemma counted_frames:
  assumes "buf_ok t" and "timeout t \<le> 0 \<or> conn_SetWriteDeadline C = None" and "\<And>c p. \<exists>k err. wr c p = (k, length p, err)"
  shows "cn_out (conn (fst (doWriteFrame (counting_api C wr) now pl t))) = cn_out (conn t) + of_nat (4 + length pl)"
proof -
  obtain k err where w: "wr (cn_Conn (conn t)) (frame_of pl) = (k, length (frame_of pl), err)" using assms(3) by blast
  have "timeout t \<le> 0 \<or> conn_SetWriteDeadline (counting_api C wr) = None" using assms(2) by (auto simp: counting_api_def)
  from doWriteFrame_writes(1) [OF assms(1) this, of now pl] show ?thesis
    by (simp add: counting_api_def counting_Write_def w) (simp add: frame_of_def)
qed

end
