(* ===== verification/Spec2Isabelle.thy ===== *)
theory Spec2Isabelle
  imports Verify Reverse_Call Concurrent_Calls Resilience Peer_Relay Examples
begin

text \<open>
  A verification development of \<^verbatim>\<open>value-rpc\<close>, a bidirectional RPC library in Go with unary calls,
  streams in both directions, chats, credit-based flow control, session resumption, and several
  transports.

  \<^bold>\<open>The program.\<close> A client (\<^verbatim>\<open>valueclient\<close>) and a server (\<^verbatim>\<open>valueserver\<close>) exchange maps over a
  message connection (\<^verbatim>\<open>valuerpc\<close>). The first message of a connection is a handshake that attaches it to
  a session of the server; a session outlives its connections and is resumed with the links of a hash
  chain. Requests carry an id (positive from the client, negative from the server) and are answered by
  a result, an error, or a stream of values that the receiver admits by granting credit. Interceptors
  (\<^verbatim>\<open>resilience\<close>) wrap unary calls; \<^verbatim>\<open>quic\<close> is a transport of its own.

  \<^bold>\<open>Conventions.\<close> Go's 64-bit integers are \<open>64 word\<close>s, read by \<^const>\<open>sint\<close>; a nil is \<^const>\<open>None\<close>; an
  error is a \<^typ>\<open>gerror\<close>, a fallible result a sum with the error on the left. State is passed
  explicitly, and an operation that may wait returns an option, \<^const>\<open>None\<close> while it waits; the outcome
  of a \<^verbatim>\<open>select\<close>, of a read, a write, a dial, a clock or a random number is an argument. Goroutines are
  step functions or entries of a worker list, and their interleavings are inductive step relations. The
  module \<^verbatim>\<open>go.arpabet.com/value\<close> (dynamic values and MessagePack) is not part of the sources: its
  operations are the record \<open>V\<close> of type \<^typ>\<open>'v value_api\<close>, its documented laws the locale
  \<^verbatim>\<open>value_laws\<close>, with the reference instance \<^const>\<open>ref_api\<close>. Application handlers, authenticators and
  interceptors are functions the definitions take.

  \<^bold>\<open>The theories, in the order they build on each other.\<close>

  \<^item> \<^verbatim>\<open>Vrpc_Prelude\<close>: integer types, Go's division, word arithmetic without overflow, list and map facts,
    the collections of simplification rules.
  \<^item> \<^verbatim>\<open>Value_Api\<close>: the interface to the value module and its laws.
  \<^item> \<^verbatim>\<open>Rpc_Errors\<close> (\<^verbatim>\<open>valuerpc/error.go\<close>): codes, errors, classification of handler errors.
  \<^item> \<^verbatim>\<open>Protocol\<close> (\<^verbatim>\<open>valuerpc/protocol.go\<close>, \<^verbatim>\<open>peer.go\<close>): message types, dialects, message builders. Shown:
    handshakes read back and are refused across dialects.
  \<^item> \<^verbatim>\<open>Verify\<close> (\<^verbatim>\<open>types.go\<close>, \<^verbatim>\<open>verify.go\<close>): argument and result checks. Shown: exactly what each check accepts.
  \<^item> \<^verbatim>\<open>Framing\<close> (\<^verbatim>\<open>rpc.go\<close>): length-prefixed frames with the reused write buffer. Shown: what is written is
    read, in order; oversized and truncated frames are errors.
  \<^item> \<^verbatim>\<open>Sha256\<close>, \<^verbatim>\<open>Hash_Chain\<close> (\<^verbatim>\<open>hashchain.go\<close>): SHA-256, hexadecimal coding, the reverse hash chain. Shown:
    the order of the tokens, self-healing within the window, refusal of consumed tokens when the hash
    does not collide on the chain.
  \<^item> \<^verbatim>\<open>Stream_Pump\<close>, \<^verbatim>\<open>Credit_Gate\<close>, \<^verbatim>\<open>Flow_Control\<close> (\<^verbatim>\<open>pump.go\<close>, \<^verbatim>\<open>credit.go\<close>): the buffering goroutine, the
    credit counter, and a sender and a receiver composed of them. Shown: no loss and bounded memory of
    the pump, conservation of credit, no overflow and no deadlock of the composition.
  \<^item> \<^verbatim>\<open>Request_Ctx\<close> (\<^verbatim>\<open>valueclient/request.go\<close>), \<^verbatim>\<open>Serving_Request\<close> (\<^verbatim>\<open>valueserver/serving_request.go\<close>),
    \<^verbatim>\<open>Client_Stream\<close> (\<^verbatim>\<open>valueserver/serving_stream.go\<close>), \<^verbatim>\<open>Client_Serving\<close> (\<^verbatim>\<open>valueclient/serving.go\<close>): one
    stream as its initiator and its responder see it, on either side. Shown: channels close once, grants
    follow deliveries, the streamer stays within its credit, and the server's reverse stream and the
    client's responder simulate their originals operation by operation, in what they send too.
  \<^item> \<^verbatim>\<open>Call_Context\<close> (\<^verbatim>\<open>metadata.go\<close>, \<^verbatim>\<open>principal.go\<close>, \<^verbatim>\<open>interceptor.go\<close>, \<^verbatim>\<open>codec.go\<close>, \<^verbatim>\<open>typed.go\<close>): what travels
    with a call. Shown: metadata round trip, nesting of interceptors, typed calls and streams.
  \<^item> \<^verbatim>\<open>Serving_Client\<close> (\<^verbatim>\<open>valueserver/serving_client.go\<close>): a session, its request table, workers and reverse
    calls, as a step relation. Shown: the cap on handlers, the outcome of every kind of stream handler, error
    transport of reverse calls.
  \<^item> \<^verbatim>\<open>Server\<close> (\<^verbatim>\<open>valueserver/server.go\<close>, \<^verbatim>\<open>options.go\<close>, \<^verbatim>\<open>function.go\<close>): accept loop, handshake, sessions,
    as a step relation over all of them, in which anything may happen between the lookup and the store of a
    handshake. Shown: the limits hold and the counters are exact in every reachable state; a session is
    resumed only by its principal with a link of its chain; one reply per unary request.
  \<^item> \<^verbatim>\<open>Client\<close> (\<^verbatim>\<open>valueclient/client.go\<close>, \<^verbatim>\<open>connection.go\<close>, \<^verbatim>\<open>sync_conn.go\<close>, \<^verbatim>\<open>options.go\<close>): calls split at their
    waits, the response handler, connecting, reconnecting with replay, retries. Shown: what a reconnect
    does to every request in flight; the retry loop ends, with the pauses its policy gives.
  \<^item> \<^verbatim>\<open>Session_Identity\<close>: whom the server's sessions belong to. Shown: every session of every reachable state
    belongs to a principal the authenticator returned and never changes its owner; its handlers see that
    principal unless it is empty.
  \<^item> \<^verbatim>\<open>Conn_Loops\<close> (\<^verbatim>\<open>valueclient/connection.go\<close>): a client connection with its two loops, its queue and its
    close, as a step relation. Shown: requests are written in the order they were queued, a connection winds
    down after its close wherever its goroutines were, and one closed on purpose is not reported unless a loop had tested before.
  \<^item> \<^verbatim>\<open>Round_Trip\<close>, \<^verbatim>\<open>Stream_Round_Trip\<close>, \<^verbatim>\<open>Put_Round_Trip\<close>: client and server together, message by message. Shown:
    a unary call returns what the handler returned; a client that lost fewer handshakes than the window
    resumes its session; the values of a get stream reach the caller and those of a put stream reach the
    handler, all of them, in order, followed by the end, when they fit the window that was granted.
  \<^item> \<^verbatim>\<open>Stream_Link\<close>, \<^verbatim>\<open>Get_Link\<close>, \<^verbatim>\<open>Put_Link\<close>, \<^verbatim>\<open>Reverse_Link\<close>: the goroutines of a stream on both sides of the
    connection, with the queues and the wire between them, as one step relation. Shown, once in
    \<^verbatim>\<open>Stream_Link\<close> from the contract of the two ends and then for the client and the session, in both
    directions: a stream of any length is delivered on every schedule, within a bound linear in its length,
    with no overflow of the window and no deadlock; and a stream of null values stalls on every schedule.
  \<^item> \<^verbatim>\<open>Reverse_Call\<close>: a call from the server to its client, message by message. Shown: the server gets what the
    client's function returned.
  \<^item> \<^verbatim>\<open>Concurrent_Calls\<close>: many unary calls at once, under all goroutines of both sides. Shown: every call gets the
    answer to that call, whatever the order in which requests, handlers and replies are scheduled.
  \<^item> \<^verbatim>\<open>Resilience\<close> (\<^verbatim>\<open>resilience/*.go\<close>): retry, circuit breaker, timeout, fallback, bulkhead, rate limit.
    Shown: what is repeated and how often, when the breaker opens and what it lets through, the bounds of
    rate limit and bulkhead.
  \<^item> \<^verbatim>\<open>Quic\<close> (\<^verbatim>\<open>quic/transport.go\<close>): requests as streams. Shown: the stream table stays consistent, nothing
    follows a FIN, a unary exchange frees its stream; and which messages are lost.
  \<^item> \<^verbatim>\<open>Transport\<close> (\<^verbatim>\<open>transport.go\<close>, \<^verbatim>\<open>transport_conn.go\<close>, \<^verbatim>\<open>transport_mem.go\<close>): addresses and factories, supplied
    connections, the in-process transport. Shown: a dialer reaches the listener of its address; the
    registry is the set of open listeners.
  \<^item> \<^verbatim>\<open>Web_Socket\<close> (\<^verbatim>\<open>transport_ws.go\<close>): connections, the pinger, the listener and its HTTP handlers as a step
    relation, the dialer. Shown: a handler outlives the connection it serves, a connection is accepted at
    most once, and a message reads like a frame of a byte stream.
  \<^item> \<^verbatim>\<open>Endpoints\<close> (\<^verbatim>\<open>transport.go\<close>, \<^verbatim>\<open>transport_tls.go\<close>, \<^verbatim>\<open>peercred*.go\<close>, the ends of \<^verbatim>\<open>quic/transport.go\<close>, and the
    constructors of servers and clients): what a constructor passes to its transport. Shown: a server
    enforces its frame limit on every connection; the peer's identity comes from the transport that has it.
  \<^item> \<^verbatim>\<open>Peer_Relay\<close> (\<^verbatim>\<open>examples/peer\<close>) and \<^verbatim>\<open>Examples\<close> (the other examples): the application code of the examples
    over the library. Shown: the relay delivers to the principal asked for, under the caller's
    authenticated name; the example handlers, codecs, authorizers and counters compute what they are for;
    the in-flight gauge drifts exactly on panics.

  \<^bold>\<open>Interfaces.\<close> The value module (\<^verbatim>\<open>value_laws\<close>), a queue of pending values, a stream initiator with its two
  half-closes, a receiver that batches its grants, the two ends of a stream (\<^verbatim>\<open>stream_link\<close>), and a connection that can be
  closed are locales; each is interpreted on the definitions that provide it, on both sides of the connection
  where both have one.

  \<^bold>\<open>Bounds.\<close> No definition uses fuel except the hash search, whose bound is the resynchronization window of
  the code, and the goroutine loops, which are given the list of what their \<^verbatim>\<open>select\<close> yields; the retry
  loops terminate by their attempt counter or consume one event per attempt. Rounding in the rate limit
  is a parameter with the relative error of \<^verbatim>\<open>float64\<close>.
  The bounds on whole runs are proved, not chosen: eight steps per unary call, and for a stream seven per
  value and a constant. There the connection stays up and carries its messages in order, which is what
  \<^verbatim>\<open>Framing\<close> and \<^verbatim>\<open>Conn_Loops\<close> show of it; what happens when it is lost is the subject of \<^verbatim>\<open>Client\<close>.

  \<^bold>\<open>Deviations from what the code means to do\<close> are stated as theorems next to the component: optional
  arguments, null stream values, wrapping credit, a non-positive window, the race of the stream cap, the
  panicking stream handler, the empty principal, the end of a stream without input, the uncapped first
  back-off, the resumption by a link already used, requests left behind by closing and
  timeouts, the call that waits for a lost connection, retries of calls that were executed, the straggler
  that closes a breaker, the messages QUIC loses, the connection reported lost after it was closed, the
  pinger of a WebSocket that was never accepted, the context of a put stream's handler
  that ends before its values do, the proxied connection without keepalive, and the gauge
  that a panicking handler leaves too high.

  \<^bold>\<open>Not modelled.\<close> Sockets, the TLS handshake, the WebSocket library, \<^verbatim>\<open>quic-go\<close>, the HTTP server, the SOCKS5
  proxy and the system calls that read peer credentials are not part of the sources and enter through the
  parameters of the definitions that call them. Logging, the performance monitor and elapsed times have no
  effect on the protocol; metrics are an event log. Of the examples, the scripted calls of each \<^verbatim>\<open>main\<close>, the
  printing and the generation of certificates are left out. Interface declarations and documentation files
  contain no code. Chats are modelled on both sides like the other streams, with their half-closes; their
  interleaved runs over the wire are shown for each direction of a one-way stream only, since the end of a
  chat's output tears its input down.
\<close>

end
